(* ===== verification/Prelude.thy ===== *)
theory Prelude
  imports Complex_Main "HOL-Library.AList"
begin

text \<open>
  What every component shares: the transaction monad in which the stateful code is
  written (a database state, an error or a value), the loops and the frame rules of that
  monad, the SQL statements over tables kept as lists of rows, and small facts on lists
  and options that the component proofs use through the collections \<open>tx_simps\<close> and
  \<open>table_simps\<close>.
\<close>

named_theorems tx_simps "one-step unfolding of the transaction combinators"
named_theorems table_simps "rows of a table after an SQL statement"

subsection \<open>Code that reads and writes a state and may throw\<close>

text \<open>
  An \<open>async\<close> function over an open transaction is a function of the state. It returns a
  thrown error (\<open>Inl\<close>) or a value (\<open>Inr\<close>) together with the state it left behind: a
  JavaScript exception does not undo the statements that were already sent.
\<close>

type_synonym ('s, 'e, 'a) tx = "'s \<Rightarrow> ('e + 'a) \<times> 's"

definition tx_return :: "'a \<Rightarrow> ('s, 'e, 'a) tx" where
  "tx_return a = (\<lambda>s. (Inr a, s))"

definition tx_throw :: "'e \<Rightarrow> ('s, 'e, 'a) tx" where
  "tx_throw e = (\<lambda>s. (Inl e, s))"

definition tx_bind :: "('s, 'e, 'a) tx \<Rightarrow> ('a \<Rightarrow> ('s, 'e, 'b) tx) \<Rightarrow> ('s, 'e, 'b) tx" where
  "tx_bind m f = (\<lambda>s. case m s of (Inl e, t) \<Rightarrow> (Inl e, t) | (Inr a, t) \<Rightarrow> f a t)"

definition tx_then :: "('s, 'e, 'a) tx \<Rightarrow> ('s, 'e, 'b) tx \<Rightarrow> ('s, 'e, 'b) tx" where
  "tx_then m n = tx_bind m (\<lambda>_. n)"

definition tx_read :: "('s \<Rightarrow> 'a) \<Rightarrow> ('s, 'e, 'a) tx" where
  "tx_read q = (\<lambda>s. (Inr (q s), s))"

definition tx_write :: "('s \<Rightarrow> 's) \<Rightarrow> ('s, 'e, unit) tx" where
  "tx_write u = (\<lambda>s. (Inr (), u s))"

text \<open>\<open>for (const x of xs) await body(x)\<close>: the first exception ends the loop.\<close>

fun tx_for :: "'a list \<Rightarrow> ('a \<Rightarrow> ('s, 'e, unit) tx) \<Rightarrow> ('s, 'e, unit) tx" where
  "tx_for [] body = tx_return ()"
| "tx_for (x # xs) body = tx_then (body x) (tx_for xs body)"

text \<open>A pure computation that may throw, run inside a transaction.\<close>

definition tx_lift :: "'e + 'a \<Rightarrow> ('s, 'e, 'a) tx" where
  "tx_lift r = (\<lambda>s. (r, s))"

lemma tx_return_apply [tx_simps]: "tx_return a s = (Inr a, s)"
  by (simp add: tx_return_def)

lemma tx_throw_apply [tx_simps]: "tx_throw e s = (Inl e, s)"
  by (simp add: tx_throw_def)

lemma tx_read_apply [tx_simps]: "tx_read q s = (Inr (q s), s)"
  by (simp add: tx_read_def)

lemma tx_write_apply [tx_simps]: "tx_write u s = (Inr (), u s)"
  by (simp add: tx_write_def)

lemma tx_lift_apply [tx_simps]: "tx_lift r s = (r, s)"
  by (simp add: tx_lift_def)

lemma tx_bind_apply [tx_simps]:
  "tx_bind m f s = (case m s of (Inl e, t) \<Rightarrow> (Inl e, t) | (Inr a, t) \<Rightarrow> f a t)"
  by (simp add: tx_bind_def)

lemma tx_then_apply [tx_simps]:
  "tx_then m n s = (case m s of (Inl e, t) \<Rightarrow> (Inl e, t) | (Inr a, t) \<Rightarrow> n t)"
  by (simp add: tx_then_def tx_bind_def)

text \<open>A loop whose body never throws is a fold over the state.\<close>

lemma tx_for_writes:
  assumes "\<And>x s. body x s = (Inr (), upd x s)"
  shows "tx_for xs body s = (Inr (), fold upd xs s)"
  by (induction xs arbitrary: s) (simp_all add: assms tx_simps)

subsection \<open>Frame rules\<close>

text \<open>
  A relation between the state before and after that every statement respects is respected
  by every program composed of them, whether it returns or throws. The interface asks for
  a preorder; each component interprets it on what it promises to leave alone.
\<close>

locale tx_frame =
  fixes rel :: "'s \<Rightarrow> 's \<Rightarrow> bool"
  assumes rel_refl: "rel s s"
    and rel_trans: "rel s t \<Longrightarrow> rel t u \<Longrightarrow> rel s u"
begin

definition keeps :: "('s, 'e, 'a) tx \<Rightarrow> bool" where
  "keeps m \<longleftrightarrow> (\<forall>s. rel s (snd (m s)))"

lemma keepsI [intro?]: "(\<And>s. rel s (snd (m s))) \<Longrightarrow> keeps m"
  by (simp add: keeps_def)

lemma keepsD: "keeps m \<Longrightarrow> m s = (r, t) \<Longrightarrow> rel s t"
  unfolding keeps_def by (metis snd_conv)

lemma keeps_return: "keeps (tx_return a)"
  by (simp add: keeps_def tx_simps rel_refl)

lemma keeps_throw: "keeps (tx_throw e)"
  by (simp add: keeps_def tx_simps rel_refl)

lemma keeps_read: "keeps (tx_read q)"
  by (simp add: keeps_def tx_simps rel_refl)

lemma keeps_lift: "keeps (tx_lift r)"
  by (simp add: keeps_def tx_simps rel_refl)

lemma keeps_write: "(\<And>s. rel s (u s)) \<Longrightarrow> keeps (tx_write u)"
  by (simp add: keeps_def tx_simps)

lemma keeps_bind:
  assumes m: "keeps m" and f: "\<And>a. keeps (f a)"
  shows "keeps (tx_bind m f)"
proof
  fix s
  show "rel s (snd (tx_bind m f s))"
  proof (cases "m s")
    case (Pair r t)
    then have st: "rel s t" using m keepsD by blast
    show ?thesis
    proof (cases r)
      case (Inl e)
      with Pair st show ?thesis by (simp add: tx_simps)
    next
      case (Inr a)
      have "rel t (snd (f a t))" using f by (simp add: keeps_def)
      with Pair Inr st show ?thesis by (auto simp: tx_simps intro: rel_trans)
    qed
  qed
qed

lemma keeps_then: "keeps m \<Longrightarrow> keeps n \<Longrightarrow> keeps (tx_then m n)"
  unfolding tx_then_def by (rule keeps_bind)

lemma keeps_for: "(\<And>x. keeps (body x)) \<Longrightarrow> keeps (tx_for xs body)"
  by (induction xs) (simp_all add: keeps_return keeps_then)

lemmas keeps_rules =
  keeps_return keeps_throw keeps_read keeps_lift keeps_bind keeps_then
  keeps_for

end

subsection \<open>SQL statements over a table kept as a list of rows\<close>

text \<open>\<open>UPDATE t SET f WHERE p\<close>, \<open>DELETE FROM t WHERE p\<close>, \<open>SELECT * FROM t WHERE p\<close>.\<close>

definition sql_update :: "('r \<Rightarrow> bool) \<Rightarrow> ('r \<Rightarrow> 'r) \<Rightarrow> 'r list \<Rightarrow> 'r list" where
  "sql_update p f t = map (\<lambda>r. if p r then f r else r) t"

definition sql_delete :: "('r \<Rightarrow> bool) \<Rightarrow> 'r list \<Rightarrow> 'r list" where
  "sql_delete p t = filter (\<lambda>r. \<not> p r) t"

definition sql_select :: "('r \<Rightarrow> bool) \<Rightarrow> 'r list \<Rightarrow> 'r list" where
  "sql_select p t = filter p t"

lemma set_sql_select [table_simps]: "r \<in> set (sql_select p t) \<longleftrightarrow> r \<in> set t \<and> p r"
  by (auto simp: sql_select_def)

lemma set_sql_delete [table_simps]: "r \<in> set (sql_delete p t) \<longleftrightarrow> r \<in> set t \<and> \<not> p r"
  by (auto simp: sql_delete_def)

lemma set_sql_update:
  "set (sql_update p f t) = {r \<in> set t. \<not> p r} \<union> f ` {r \<in> set t. p r}"
  by (auto simp: sql_update_def)

lemma sql_update_cases:
  assumes "r \<in> set (sql_update p f t)"
  obtains (same) "r \<in> set t" "\<not> p r" | (updated) r0 where "r0 \<in> set t" "p r0" "r = f r0"
  using assms by (auto simp: set_sql_update)

lemma map_sql_update:
  assumes "\<And>r. g (f r) = g r"
  shows "map g (sql_update p f t) = map g t"
  by (induction t) (auto simp: sql_update_def assms)

lemma length_sql_update [simp]: "length (sql_update p f t) = length t"
  by (simp add: sql_update_def)

lemma sql_update_none: "(\<And>r. r \<in> set t \<Longrightarrow> \<not> p r) \<Longrightarrow> sql_update p f t = t"
  by (induction t) (auto simp: sql_update_def)

lemma sql_delete_none: "(\<And>r. r \<in> set t \<Longrightarrow> \<not> p r) \<Longrightarrow> sql_delete p t = t"
  by (induction t) (auto simp: sql_delete_def)

lemma sql_select_append: "sql_select p (t @ u) = sql_select p t @ sql_select p u"
  by (simp add: sql_select_def)

lemma sql_select_delete:
  "(\<And>r. p r \<Longrightarrow> \<not> d r) \<Longrightarrow> sql_select p (sql_delete d t) = sql_select p t"
  by (induction t) (auto simp: sql_select_def sql_delete_def)

text \<open>The first row of a result set, \<open>result.rows[0]\<close>, or \<open>undefined\<close>.\<close>

definition first_row :: "'r list \<Rightarrow> 'r option" where
  "first_row rs = (case rs of [] \<Rightarrow> None | r # _ \<Rightarrow> Some r)"

lemma first_row_simps [simp]: "first_row [] = None" "first_row (r # rs) = Some r"
  by (simp_all add: first_row_def)

lemma first_row_None [simp]: "first_row rs = None \<longleftrightarrow> rs = []"
  by (cases rs) simp_all

lemma first_row_in: "first_row rs = Some r \<Longrightarrow> r \<in> set rs"
  by (cases rs) auto

lemma first_row_append: "first_row (xs @ ys) =
     (case first_row xs of None \<Rightarrow> first_row ys | Some x \<Rightarrow> Some x)"
  by (cases xs) auto

text \<open>A column that identifies rows: two rows with the same value are the same row.\<close>

definition key_unique :: "('r \<Rightarrow> 'k) \<Rightarrow> 'r list \<Rightarrow> bool" where
  "key_unique k t \<longleftrightarrow> distinct (map k t)"

lemma key_uniqueD:
  "key_unique k t \<Longrightarrow> r \<in> set t \<Longrightarrow> r' \<in> set t \<Longrightarrow> k r = k r' \<Longrightarrow> r = r'"
  by (auto simp: key_unique_def distinct_map dest: inj_onD)

lemma key_unique_Nil [simp]: "key_unique k []"
  by (simp add: key_unique_def)

lemma key_unique_snoc:
  "key_unique k (t @ [r]) \<longleftrightarrow> key_unique k t \<and> (\<forall>x \<in> set t. k x \<noteq> k r)"
  by (auto simp: key_unique_def) (metis imageI)

lemma key_unique_update:
  assumes "\<And>r. k (f r) = k r"
  shows "key_unique k (sql_update p f t) \<longleftrightarrow> key_unique k t"
  by (simp add: key_unique_def map_sql_update assms)

lemma key_unique_delete: "key_unique k t \<Longrightarrow> key_unique k (sql_delete p t)"
  by (simp add: key_unique_def sql_delete_def distinct_map_filter)

lemma first_row_select_unique:
  assumes "key_unique k t" "r \<in> set t" "p r" "\<And>x. p x \<Longrightarrow> k x = k r"
  shows "first_row (sql_select p t) = Some r"
proof (cases "first_row (sql_select p t)")
  case None
  with assms(2,3) show ?thesis by (auto simp: sql_select_def filter_empty_conv)
next
  case (Some x)
  then have "x \<in> set (sql_select p t)" by (rule first_row_in)
  then have "x \<in> set t" "p x" by (auto simp: table_simps)
  with assms have "x = r" by (auto intro: key_uniqueD)
  with Some show ?thesis by simp
qed

text \<open>Reading by key after an \<open>UPDATE\<close> by key that leaves the key column alone.\<close>

lemma sql_select_update_key:
  assumes "\<And>r. key (f r) = key r"
  shows "sql_select (\<lambda>r. key r = i) (sql_update (\<lambda>r. key r = j) f t) =
     map (if i = j then f else id) (sql_select (\<lambda>r. key r = i) t)"
  by (induction t) (auto simp: sql_select_def sql_update_def assms)

lemma first_row_select_update:
  assumes "\<And>r. key (f r) = key r"
  shows "first_row (sql_select (\<lambda>r. key r = i) (sql_update p f t)) =
     map_option (\<lambda>r. if p r then f r else r) (first_row (sql_select (\<lambda>r. key r = i) t))"
  by (induction t) (auto simp: sql_select_def sql_update_def assms)

lemma first_row_map: "first_row (map f xs) = map_option f (first_row xs)"
  by (cases xs) simp_all

subsection \<open>JavaScript collections\<close>

text \<open>\<open>Array.from(new Set(xs))\<close>: the first occurrence of each element, in order.\<close>

fun js_dedup :: "'a list \<Rightarrow> 'a list" where
  "js_dedup [] = []"
| "js_dedup (x # xs) = x # filter (\<lambda>y. y \<noteq> x) (js_dedup xs)"

lemma set_js_dedup [simp]: "set (js_dedup xs) = set xs"
  by (induction xs) auto

lemma distinct_js_dedup [simp]: "distinct (js_dedup xs)"
  by (induction xs) auto

lemma js_dedup_eq_Nil [simp]: "js_dedup xs = [] \<longleftrightarrow> xs = []"
  by (cases xs) auto

lemma js_dedup_distinct: "distinct xs \<Longrightarrow> js_dedup xs = xs"
proof (induction xs)
  case (Cons x xs)
  then have "\<forall>y \<in> set xs. y \<noteq> x" by auto
  with Cons show ?case by (simp add: filter_id_conv)
qed simp

text \<open>\<open>obj[k] = v\<close> for a key that the object does not have yet, and a loop of such assignments.\<close>

lemma update_fresh: "k \<notin> fst ` set al \<Longrightarrow> AList.update k v al = al @ [(k, v)]"
  by (induction al) auto

lemma fold_update_fresh:
  "distinct (map k xs) \<Longrightarrow> k ` set xs \<inter> fst ` set al = {} \<Longrightarrow>
     fold (\<lambda>x. AList.update (k x) (v x)) xs al = al @ map (\<lambda>x. (k x, v x)) xs"
  by (induction xs arbitrary: al) (auto simp: update_fresh)

text \<open>\<open>set.add(x)\<close> on a \<open>Set\<close> kept in insertion order.\<close>

definition set_add :: "'a \<Rightarrow> 'a list \<Rightarrow> 'a list" where
  "set_add x xs = (if x \<in> set xs then xs else xs @ [x])"

lemma set_set_add [simp]: "set (set_add x xs) = insert x (set xs)"
  by (auto simp: set_add_def)

lemma distinct_set_add [simp]: "distinct (set_add x xs) \<longleftrightarrow> distinct xs"
  by (auto simp: set_add_def)

text \<open>\<open>x ?? d\<close> on a value that may be \<open>undefined\<close> or \<open>null\<close>.\<close>

definition nullish :: "'a option \<Rightarrow> 'a \<Rightarrow> 'a" where
  "nullish x d = (case x of None \<Rightarrow> d | Some a \<Rightarrow> a)"

lemma nullish_simps [simp]: "nullish None d = d" "nullish (Some a) d = a"
  by (simp_all add: nullish_def)

lemma map_of_in_fst: "map_of xs k = Some v \<Longrightarrow> k \<in> fst ` set xs"
  by (force dest: map_of_SomeD)

lemma sql_select_map: "sql_select p (map g t) = map g (sql_select (\<lambda>r. p (g r)) t)"
  by (simp add: sql_select_def filter_map comp_def)

lemma sql_delete_map: "sql_delete p (map g t) = map g (sql_delete (\<lambda>r. p (g r)) t)"
  by (simp add: sql_delete_def filter_map comp_def)

lemma insort_key_map: "insort_key f (g x) (map g xs) = map g (insort_key (\<lambda>x. f (g x)) x xs)"
  by (induction xs) simp_all

lemma sort_key_map: "sort_key f (map g xs) = map g (sort_key (\<lambda>x. f (g x)) xs)"
  by (induction xs) (simp_all add: insort_key_map)

end
