(* ===== verification/Json_Value.thy ===== *)
theory Json_Value
  imports Prelude
begin

text \<open>
  JSON values as the program passes them around (\<open>unknown\<close>, JSONB columns, request
  inputs, step outputs), the string functions of the language that the program calls, and
  \<open>JSON.stringify\<close>. A value that may be \<open>undefined\<close> is a \<open>json option\<close>. An object is the
  list of its own properties in enumeration order, each key once (\<open>json_wf\<close>); reading a
  key that is not an own property gives \<open>undefined\<close>, so the names every plain object
  inherits from \<open>Object.prototype\<close> (\<open>constructor\<close>, \<open>toString\<close>, ...) are outside the model.
  Numbers are the rationals they denote.
\<close>

datatype json =
    JNull
  | JBool bool
  | JNum rat
  | JStr string
  | JArr "json list"
  | JObj "(string \<times> json) list"

type_synonym js_object = "(string \<times> json) list"

text \<open>\<open>obj[key]\<close> on a plain object.\<close>

definition js_get :: "js_object \<Rightarrow> string \<Rightarrow> json option" where
  "js_get obj k = map_of obj k"

lemma js_get_Nil [simp]: "js_get [] k = None"
  by (simp add: js_get_def)

lemma js_get_Cons [simp]: "js_get ((k, v) # obj) x = (if x = k then Some v else js_get obj x)"
  by (simp add: js_get_def)

text \<open>
  \<open>v.k\<close> on a value that may be anything but \<open>undefined\<close> and \<open>null\<close>: only objects have own
  properties with the names the program reads.
\<close>

definition js_member :: "json \<Rightarrow> string \<Rightarrow> json option" where
  "js_member v k = (case v of JObj obj \<Rightarrow> js_get obj k | _ \<Rightarrow> None)"

lemma js_member_simps [simp]:
  "js_member (JObj obj) k = js_get obj k"
  "js_member JNull k = None" "js_member (JBool b) k = None" "js_member (JNum n) k = None"
  "js_member (JStr s) k = None" "js_member (JArr xs) k = None"
  by (simp_all add: js_member_def)

subsection \<open>Strings\<close>

definition starts_with :: "string \<Rightarrow> string \<Rightarrow> bool" where
  "starts_with p s \<longleftrightarrow> take (length p) s = p"

lemma starts_with_single [simp]: "starts_with [c] s \<longleftrightarrow> (\<exists>t. s = c # t)"
  by (cases s) (auto simp: starts_with_def)

text \<open>The characters of the flag-name patterns: \<open>[a-zA-Z]\<close> and \<open>[a-zA-Z0-9-]\<close>.\<close>

definition is_alpha :: "char \<Rightarrow> bool" where
  "is_alpha c \<longleftrightarrow> c \<in> set ''abcdefghijklmnopqrstuvwxyzABCDEFGHIJKLMNOPQRSTUVWXYZ''"

definition is_digit :: "char \<Rightarrow> bool" where
  "is_digit c \<longleftrightarrow> c \<in> set ''0123456789''"

definition is_flag_char :: "char \<Rightarrow> bool" where
  "is_flag_char c \<longleftrightarrow> is_alpha c \<or> is_digit c \<or> c = CHR ''-''"

text \<open>\<open>String(n)\<close> for a non-negative integer.\<close>

definition digit_char :: "nat \<Rightarrow> char" where
  "digit_char d = ''0123456789'' ! (d mod 10)"

fun string_of_nat :: "nat \<Rightarrow> string" where
  "string_of_nat n =
     (if n < 10 then [digit_char n] else string_of_nat (n div 10) @ [digit_char n])"

declare string_of_nat.simps [simp del]

lemma string_of_nat_not_Nil [simp]: "string_of_nat n \<noteq> []"
  by (subst string_of_nat.simps) simp

lemma digit_char_is_digit: "is_digit (digit_char d)"
proof -
  have "d mod 10 < length ''0123456789''" by simp
  then show ?thesis unfolding digit_char_def is_digit_def by (rule nth_mem)
qed

lemma string_of_nat_digits: "\<forall>c \<in> set (string_of_nat n). is_digit c"
proof (induction n rule: string_of_nat.induct)
  case (1 n)
  then show ?case
    by (subst string_of_nat.simps) (auto simp: digit_char_is_digit)
qed

lemma digit_char_inj: "digit_char a = digit_char b \<Longrightarrow> a mod 10 = b mod 10"
proof -
  assume "digit_char a = digit_char b"
  moreover have "distinct ''0123456789''" by simp
  ultimately show ?thesis
    unfolding digit_char_def by (subst (asm) nth_eq_iff_index_eq) auto
qed

lemma string_of_nat_inj: "string_of_nat m = string_of_nat n \<longleftrightarrow> m = n"
proof
  show "string_of_nat m = string_of_nat n \<Longrightarrow> m = n"
  proof (induction m arbitrary: n rule: string_of_nat.induct)
    case (1 m)
    show ?case
    proof (cases "m < 10")
      case True
      with "1.prems" show ?thesis
        by (cases "n < 10") (auto simp: string_of_nat.simps [of m] string_of_nat.simps [of n]
            dest: digit_char_inj sym [of "[]"])
    next
      case False
      with "1.prems" have n: "\<not> n < 10"
        by (auto simp: string_of_nat.simps [of m] string_of_nat.simps [of n] split: if_splits)
      from "1.prems" False n have "string_of_nat (m div 10) = string_of_nat (n div 10)"
        and "digit_char m = digit_char n"
        by (auto simp: string_of_nat.simps [of m] string_of_nat.simps [of n])
      with "1.IH" False have "m div 10 = n div 10" "m mod 10 = n mod 10"
        by (auto dest: digit_char_inj)
      then show ?thesis by (metis div_mult_mod_eq)
    qed
  qed
qed simp

subsection \<open>\<open>JSON.stringify\<close>\<close>

text \<open>
  The text of a number is a parameter: the shortest decimal that reads back as the same
  double is the host's algorithm, not the program's.
\<close>

definition hex_digit :: "nat \<Rightarrow> char" where
  "hex_digit d = ''0123456789abcdef'' ! (d mod 16)"

definition json_escape :: "char \<Rightarrow> string" where
  "json_escape c =
     (if c = CHR 0x22 then [CHR 0x5C, CHR 0x22]
      else if c = CHR 0x5C then [CHR 0x5C, CHR 0x5C]
      else if c = CHR 0x08 then [CHR 0x5C, CHR ''b'']
      else if c = CHR 0x0C then [CHR 0x5C, CHR ''f'']
      else if c = CHR 0x0A then [CHR 0x5C, CHR ''n'']
      else if c = CHR 0x0D then [CHR 0x5C, CHR ''r'']
      else if c = CHR 0x09 then [CHR 0x5C, CHR ''t'']
      else if of_char c < (32 :: nat)
      then [CHR 0x5C, CHR ''u'', CHR ''0'', CHR ''0'',
            hex_digit (of_char c div 16), hex_digit (of_char c)]
      else [c])"

definition json_quote :: "string \<Rightarrow> string" where
  "json_quote s = [CHR 0x22] @ concat (map json_escape s) @ [CHR 0x22]"

fun join_with :: "string \<Rightarrow> string list \<Rightarrow> string" where
  "join_with sep [] = []"
| "join_with sep [x] = x"
| "join_with sep (x # y # ys) = x @ sep @ join_with sep (y # ys)"

fun json_stringify :: "(rat \<Rightarrow> string) \<Rightarrow> json \<Rightarrow> string" where
  "json_stringify num JNull = ''null''"
| "json_stringify num (JBool b) = (if b then ''true'' else ''false'')"
| "json_stringify num (JNum n) = num n"
| "json_stringify num (JStr s) = json_quote s"
| "json_stringify num (JArr xs) = ''['' @ join_with '','' (map (json_stringify num) xs) @ '']''"
| "json_stringify num (JObj kvs) =
     [CHR 0x7B]
     @ join_with '','' (map (\<lambda>kv. json_quote (fst kv) @ '':'' @ json_stringify num (snd kv)) kvs)
     @ [CHR 0x7D]"

text \<open>A property whose value is \<open>undefined\<close> is not in the JSON text.\<close>

definition optional_field :: "string \<Rightarrow> json option \<Rightarrow> js_object" where
  "optional_field k v = (case v of None \<Rightarrow> [] | Some x \<Rightarrow> [(k, x)])"

text \<open>Every object inside a value names each key once.\<close>

fun json_wf :: "json \<Rightarrow> bool" where
  "json_wf (JArr xs) = (\<forall>x \<in> set xs. json_wf x)"
| "json_wf (JObj kvs) = (distinct (map fst kvs) \<and> (\<forall>kv \<in> set kvs. json_wf (snd kv)))"
| "json_wf _ = True"

end
