(* ===== verification/Platform_Errors.thy ===== *)
theory Platform_Errors
  imports Json_Value
begin

text \<open>
  \<open>shared/errors.ts\<close>: the identifiers of the platform's errors and its two classes of
  errors, and, beside them, the constraint violations that Postgres reports as an
  exception of the driver.
\<close>

datatype error_id =
    CORE_ENQUEUE_NO_ROW_RETURNED
  | CORE_CHECKPOINT_CONFLICT_NOT_FOUND
  | CORE_WAIT_NO_ROW_RETURNED
  | CORE_WAIT_KEY_TOO_LONG
  | CORE_SESSION_LOG_NO_ROW_RETURNED
  | CORE_SESSION_POINTER_NO_ROW_RETURNED
  | CORE_PLACEMENT_UPSERT_NO_ROW_RETURNED
  | CORE_PLACEMENT_SET_PINNED_NOT_FOUND
  | SESSION_REWIND_TARGET_OUT_OF_RANGE
  | CORE_WORKFLOW_RUN_NO_ROW_RETURNED
  | CORE_WORKFLOW_RUN_NOT_FOUND
  | CORE_RUN_NODE_OUTPUT_NO_ROW_RETURNED
  | ENGINE_UNSUPPORTED_NODE_KIND
  | ENGINE_DUPLICATE_NODE_ID
  | ENGINE_RUN_NOT_FOUND
  | ENGINE_NODE_NOT_FOUND
  | ENGINE_BINDING_KIND_NOT_SUPPORTED
  | ENGINE_NODE_OUTPUT_MISSING
  | REGISTRY_VALIDATION_FAILED
  | REGISTRY_TRUST_TIER_INVALID
  | REGISTRY_TRUST_TIER_UNKNOWN_DIGEST
  | REGISTRY_SERVICE_IMAGE_UPSERT_NO_ROW_RETURNED
  | WORKER_AGENT_UNREACHABLE
  | WORKER_INVOKE_REQUEST_REJECTED
  | WORKER_INVALID_ARG_FLAG_NAME
  | WORKER_UNSAFE_ARG_VALUE
  | WORKER_MALFORMED_INVOKE_OUTPUT
  | WORKER_EXECUTION_MISSING_RUN
  | WORKER_INVALID_HEAVY_BINDING_VALUE

datatype db_error =
    UniqueViolation
  | CheckViolation
  | NotNullViolation
  | ForeignKeyViolation
  | InvalidParameterValue
  | InFailedTransaction

text \<open>
  What a \<open>catch\<close> clause can see: \<open>instanceof RetryableError\<close>, \<open>instanceof FatalError\<close>, an
  error thrown by the database driver, or another exception of the host.
\<close>

datatype platform_error =
    RetryableError error_id
  | FatalError error_id
  | DbError db_error
  | HostError string

fun is_retryable :: "platform_error \<Rightarrow> bool" where
  "is_retryable (RetryableError _) = True"
| "is_retryable _ = False"

type_synonym 'a result = "platform_error + 'a"

text \<open>Sequencing of pure computations that may throw.\<close>

definition res_bind :: "'a result \<Rightarrow> ('a \<Rightarrow> 'b result) \<Rightarrow> 'b result" where
  "res_bind r f = (case r of Inl e \<Rightarrow> Inl e | Inr a \<Rightarrow> f a)"

lemma res_bind_simps [simp]:
  "res_bind (Inl e) f = Inl e"
  "res_bind (Inr a) f = f a"
  by (simp_all add: res_bind_def)

lemma res_bind_Inr: "res_bind r f = Inr b \<longleftrightarrow> (\<exists>a. r = Inr a \<and> f a = Inr b)"
  by (cases r) auto

lemma res_bind_Inl: "res_bind r f = Inl e \<longleftrightarrow> r = Inl e \<or> (\<exists>a. r = Inr a \<and> f a = Inl e)"
  by (cases r) auto

text \<open>\<open>xs.map(f)\<close> where \<open>f\<close> may throw: the first exception is the result.\<close>

fun res_map :: "('a \<Rightarrow> 'b result) \<Rightarrow> 'a list \<Rightarrow> 'b list result" where
  "res_map f [] = Inr []"
| "res_map f (x # xs) = res_bind (f x) (\<lambda>y. res_bind (res_map f xs) (\<lambda>ys. Inr (y # ys)))"

lemma res_map_cong [fundef_cong]:
  "xs = ys \<Longrightarrow> (\<And>x. x \<in> set ys \<Longrightarrow> f x = g x) \<Longrightarrow> res_map f xs = res_map g ys"
  by (induction ys arbitrary: xs) auto

lemma res_map_Inr: "res_map f xs = Inr ys \<longleftrightarrow> list_all2 (\<lambda>x y. f x = Inr y) xs ys"
  by (induction xs arbitrary: ys) (auto simp: res_bind_Inr list_all2_Cons1)

lemma res_map_Inl: "res_map f xs = Inl e \<Longrightarrow> \<exists>x \<in> set xs. f x = Inl e"
  by (induction xs) (auto simp: res_bind_Inl)

lemma res_map_total:
  assumes "\<And>x. x \<in> set xs \<Longrightarrow> f x = Inr (g x)"
  shows "res_map f xs = Inr (map g xs)"
  using assms by (induction xs) simp_all

text \<open>\<open>if (!row) throw new FatalError(id)\<close> after a query.\<close>

definition row_or_throw :: "error_id \<Rightarrow> 'r list \<Rightarrow> ('s, platform_error, 'r) tx" where
  "row_or_throw e rows =
     (case first_row rows of None \<Rightarrow> tx_throw (FatalError e) | Some r \<Rightarrow> tx_return r)"

lemma row_or_throw_Cons [tx_simps]: "row_or_throw e (r # rs) s = (Inr r, s)"
  by (simp add: row_or_throw_def tx_simps)

lemma row_or_throw_Nil [tx_simps]: "row_or_throw e [] s = (Inl (FatalError e), s)"
  by (simp add: row_or_throw_def tx_simps)

end
