(* ===== verification/Workflow_Spec.thy ===== *)
theory Workflow_Spec
  imports Platform_Errors
begin

text \<open>
  \<open>workflow-spec/\<close>: the grammar of a workflow document (\<open>domain/*.ts\<close>) and the walk that
  collects the step ids a binding or a step refers to (\<open>binding-refs.ts\<close>).
\<close>

datatype binding =
    StaticBinding string
  | SessionBinding string
  | RequestBinding string
  | StepBinding string string
  | ItemBinding
  | LiteralBinding json
  | ComputeBinding json "(string \<times> binding) list option"
  | ItemResourceBinding binding string

type_synonym binding_map = "(string \<times> binding) list"

record session_write_target =
  write_key :: string

datatype secret_scope = WriterScope | UserScope

record secret_ref =
  secret_scope :: secret_scope
  secret_name :: string

record step =
  step_id :: string
  step_service :: string
  step_function :: string
  step_dependsOn :: "string list option"
  step_reads :: "binding_map option"
  step_writes :: "(string \<times> session_write_target) list option"
  step_secrets :: "(string \<times> secret_ref) list option"

text \<open>
  \<open>Node = Step | BranchNode | MapNode\<close>, told apart by \<open>kind\<close>. A branch has its id,
  selector and cases; a map has its id, source, body and yields.
\<close>

datatype node =
    PlainStep step
  | BranchNode string binding "(string \<times> case_body) list"
  | MapNode string binding "node list" "binding_map option"
and case_body = CaseBody "node list" "binding_map option"

fun node_id :: "node \<Rightarrow> string" where
  "node_id (PlainStep s) = step_id s"
| "node_id (BranchNode i _ _) = i"
| "node_id (MapNode i _ _ _) = i"

datatype interactivity = Interactive | Batch

record session_state_declaration =
  decl_interactivity :: interactivity
  decl_fallback :: "binding option"

record workflow_spec =
  spec_version :: int
  spec_name :: string
  spec_description :: "string option"
  spec_inputParameters :: "string list option"
  spec_sessionState :: "(string \<times> session_state_declaration) list option"
  spec_steps :: "node list"
  spec_outputs :: "binding_map option"

subsection \<open>References of a binding and of a step\<close>

lemma binding_map_size [termination_simp]:
  "(k, b) \<in> set (nullish u []) \<Longrightarrow>
     size b \<le> size_option (size_list (\<lambda>x. Suc (size (snd x)))) u"
proof (cases u)
  case (Some kvs)
  assume "(k, b) \<in> set (nullish u [])"
  with Some have "(k, b) \<in> set kvs" by simp
  then have "Suc (size (snd (k, b))) \<le> size_list (\<lambda>x. Suc (size (snd x))) kvs"
    by (rule size_list_estimation') simp
  with Some show ?thesis by simp
qed simp

fun collectStepBindingIds :: "binding \<Rightarrow> string list" where
  "collectStepBindingIds (StepBinding i _) = [i]"
| "collectStepBindingIds (ComputeBinding _ using) =
     concat (map (\<lambda>kv. collectStepBindingIds (snd kv)) (nullish using []))"
| "collectStepBindingIds (ItemResourceBinding itemId _) = collectStepBindingIds itemId"
| "collectStepBindingIds _ = []"

definition collectStepReferenceIds :: "step \<Rightarrow> string list" where
  "collectStepReferenceIds s =
     nullish (step_dependsOn s) []
     @ concat (map (\<lambda>kv. collectStepBindingIds (snd kv)) (nullish (step_reads s) []))"

text \<open>
  What the walk is for: a binding mentions a step when a \<open>{from: "step"}\<close> binding is the
  binding itself or sits, at any depth, in a \<open>compute\<close> binding's \<open>using\<close> map or in an
  \<open>itemResource\<close> binding's \<open>itemId\<close>.
\<close>

inductive mentions :: "binding \<Rightarrow> string \<Rightarrow> bool" where
  mentions_step: "mentions (StepBinding i out) i"
| mentions_using: "(k, b) \<in> set u \<Longrightarrow> mentions b i \<Longrightarrow> mentions (ComputeBinding e (Some u)) i"
| mentions_item: "mentions b i \<Longrightarrow> mentions (ItemResourceBinding b p) i"

inductive_simps mentions_simps [simp]:
  "mentions (StaticBinding r) i"
  "mentions (SessionBinding k) i"
  "mentions (RequestBinding p) i"
  "mentions (StepBinding j out) i"
  "mentions ItemBinding i"
  "mentions (LiteralBinding v) i"
  "mentions (ComputeBinding e u) i"
  "mentions (ItemResourceBinding b p) i"

lemma collect_mentions: "i \<in> set (collectStepBindingIds b) \<longleftrightarrow> mentions b i"
proof (induction b rule: collectStepBindingIds.induct)
  case (2 e u)
  have "i \<in> set (collectStepBindingIds (ComputeBinding e u))
      \<longleftrightarrow> (\<exists>kv \<in> set (nullish u []). i \<in> set (collectStepBindingIds (snd kv)))" by simp
  also have "\<dots> \<longleftrightarrow> (\<exists>kv \<in> set (nullish u []). mentions (snd kv) i)" using 2 by blast
  also have "\<dots> \<longleftrightarrow> mentions (ComputeBinding e u) i" by (cases u) force+
  finally show ?case .
qed auto

text \<open>The dependency of a step on another, as the engine and the compiler both read it.\<close>

definition refers_to :: "step \<Rightarrow> string \<Rightarrow> bool" where
  "refers_to s i \<longleftrightarrow>
     (\<exists>ds. step_dependsOn s = Some ds \<and> i \<in> set ds)
     \<or> (\<exists>rs k b. step_reads s = Some rs \<and> (k, b) \<in> set rs \<and> mentions b i)"

lemma set_nullish_Nil: "x \<in> set (nullish u []) \<longleftrightarrow> (\<exists>xs. u = Some xs \<and> x \<in> set xs)"
  by (cases u) auto

lemma collect_refers_to: "i \<in> set (collectStepReferenceIds s) \<longleftrightarrow> refers_to s i"
  by (force simp: collectStepReferenceIds_def refers_to_def collect_mentions set_nullish_Nil)

end
