(* ===== verification/Core_Db.thy ===== *)
theory Core_Db
  imports Workflow_Spec
begin

text \<open>
  \<open>core/\<close>: the rows of the consolidated schema (\<open>domain/*.ts\<close>, \<open>database/schema.sql\<close>) and
  the repositories for executions, checkpoints, waits, workflow runs and run node outputs.
  A table is the list of its rows; a \<open>BIGSERIAL\<close> id is the successor of the last one given
  out, and times are in milliseconds. \<open>db_now\<close> is \<open>now()\<close>, the start of the transaction.
  \<open>locked_executions\<close> holds the ids of the \<open>executions\<close> rows that other open transactions
  have locked, which \<open>SKIP LOCKED\<close> passes over. Ids are the integers they denote.
\<close>

subsection \<open>Rows\<close>

datatype execution_status = Blocked | Queued | Running | Waiting | Done | Failed

record execution =
  ex_id :: nat
  ex_sessionId :: string
  ex_step :: string
  ex_input :: json
  ex_status :: execution_status
  ex_workerId :: "string option"
  ex_leaseUntil :: "int option"
  ex_attempts :: nat
  ex_createdAt :: int
  ex_updatedAt :: int
  ex_runId :: "nat option"

record checkpoint =
  cp_executionId :: nat
  cp_stepId :: string
  cp_output :: json
  cp_committedAt :: int

record wait =
  wt_id :: nat
  wt_executionId :: nat
  wt_waitKey :: "string option"
  wt_wakeAt :: "int option"
  wt_satisfiedAt :: "int option"
  wt_createdAt :: int

datatype workflow_run_status = RunRunning | RunDone | RunFailed

record workflow_run =
  run_id :: nat
  run_sessionId :: "string option"
  run_spec :: workflow_spec
  run_input :: js_object
  run_status :: workflow_run_status
  run_createdAt :: int
  run_updatedAt :: int

record run_node_output =
  no_runId :: nat
  no_nodeId :: string
  no_output :: js_object
  no_completedAt :: int

record session_log_entry =
  sl_id :: nat
  sl_sessionId :: string
  sl_sequence :: int
  sl_input :: json
  sl_createdAt :: int

record session_pointer =
  sp_sessionId :: string
  sp_currentSequence :: int
  sp_updatedAt :: int

datatype cost_class = Trivial | Cheap | Moderate | Expensive

record placement =
  pl_contentHash :: string
  pl_replicaId :: "string option"
  pl_sessionId :: "string option"
  pl_pinned :: bool
  pl_pinnedAt :: "int option"
  pl_interactivity :: interactivity
  pl_accessCount :: nat
  pl_firstAccessedAt :: "int option"
  pl_lastAccessedAt :: "int option"
  pl_declaredCostClass :: "cost_class option"
  pl_observedRehydrationMs :: "rat option"
  pl_observedSampleCount :: nat
  pl_sizeBytes :: int
  pl_createdAt :: int
  pl_updatedAt :: int

record placement_access =
  pa_contentHash :: string
  pa_accessedAt :: int

record class_priors =
  prior_trivial :: rat
  prior_cheap :: rat
  prior_moderate :: rat
  prior_expensive :: rat

record placement_config =
  frequencyThreshold :: int
  frequencyWindowMs :: int
  rehydrationCostThresholdMs :: rat
  idleThresholdMs :: int
  pinnedBudgetBytes :: int
  observedMinSamples :: int
  classPriorsMs :: class_priors

record core_db =
  db_executions :: "execution list"
  db_checkpoints :: "checkpoint list"
  db_waits :: "wait list"
  db_workflow_runs :: "workflow_run list"
  db_run_node_outputs :: "run_node_output list"
  db_session_log :: "session_log_entry list"
  db_session_pointer :: "session_pointer list"
  db_placement :: "placement list"
  db_placement_access :: "placement_access list"
  db_placement_config :: "(string \<times> placement_config) list"
  executions_id_seq :: nat
  waits_id_seq :: nat
  workflow_runs_id_seq :: nat
  session_log_id_seq :: nat
  db_notifications :: "(string \<times> string) list"
  locked_executions :: "nat list"
  db_now :: int

type_synonym 'a core_tx = "(core_db, platform_error, 'a) tx"

subsection \<open>\<open>executions\<close>\<close>

definition DEFAULT_LEASE_SECONDS :: int where
  "DEFAULT_LEASE_SECONDS = 30"

definition WAIT_KEY_MAX_LENGTH :: nat where
  "WAIT_KEY_MAX_LENGTH = 256"

definition EXECUTION_READY_CHANNEL :: string where
  "EXECUTION_READY_CHANNEL = ''execution_ready''"

definition insert_execution ::
  "string \<Rightarrow> string \<Rightarrow> json \<Rightarrow> execution_status \<Rightarrow> nat option \<Rightarrow> execution list core_tx" where
  "insert_execution sid stp inp st rid =
     (\<lambda>s. let row = \<lparr>ex_id = Suc (executions_id_seq s), ex_sessionId = sid, ex_step = stp,
                ex_input = inp, ex_status = st, ex_workerId = None, ex_leaseUntil = None,
                ex_attempts = 0, ex_createdAt = db_now s, ex_updatedAt = db_now s, ex_runId = rid\<rparr>
          in (Inr [row], s\<lparr>db_executions := db_executions s @ [row],
                           executions_id_seq := Suc (executions_id_seq s)\<rparr>))"

definition executions_enqueue :: "string \<Rightarrow> string \<Rightarrow> json \<Rightarrow> execution core_tx" where
  "executions_enqueue sid stp inp =
     tx_bind (insert_execution sid stp inp Queued None) (row_or_throw CORE_ENQUEUE_NO_ROW_RETURNED)"

text \<open>The foreign key \<open>executions_run_id_fkey\<close> is checked on insert.\<close>

definition executions_enqueueForRun ::
  "nat \<Rightarrow> string \<Rightarrow> json \<Rightarrow> execution_status \<Rightarrow> string \<Rightarrow> execution core_tx" where
  "executions_enqueueForRun rid nid inp st sid =
     (\<lambda>s. if rid \<notin> set (map run_id (db_workflow_runs s)) then (Inl (DbError ForeignKeyViolation), s)
          else tx_bind (insert_execution sid nid inp st (Some rid))
                 (row_or_throw CORE_ENQUEUE_NO_ROW_RETURNED) s)"

text \<open>The \<open>WHERE\<close> clause of \<open>claim_execution()\<close>: a comparison with \<open>NULL\<close> selects nothing.\<close>

definition due_timer_wait :: "int \<Rightarrow> nat \<Rightarrow> wait \<Rightarrow> bool" where
  "due_timer_wait now eid w \<longleftrightarrow>
     wt_executionId w = eid \<and> wt_satisfiedAt w = None
     \<and> (case wt_wakeAt w of None \<Rightarrow> False | Some t \<Rightarrow> t \<le> now)"

definition lease_expired :: "int \<Rightarrow> execution \<Rightarrow> bool" where
  "lease_expired now e \<longleftrightarrow> (case ex_leaseUntil e of None \<Rightarrow> False | Some t \<Rightarrow> t < now)"

definition claimable :: "core_db \<Rightarrow> execution \<Rightarrow> bool" where
  "claimable s e \<longleftrightarrow>
     ex_status e = Queued
     \<or> (ex_status e = Running \<and> lease_expired (db_now s) e)
     \<or> (ex_status e = Waiting \<and> list_ex (due_timer_wait (db_now s) (ex_id e)) (db_waits s))"

text \<open>\<open>ORDER BY id FOR UPDATE SKIP LOCKED LIMIT 1\<close>.\<close>

definition claim_candidates :: "core_db \<Rightarrow> execution list" where
  "claim_candidates s =
     sort_key ex_id
       (sql_select (\<lambda>e. claimable s e \<and> ex_id e \<notin> set (locked_executions s)) (db_executions s))"

definition claimed_row :: "string \<Rightarrow> int \<Rightarrow> int \<Rightarrow> execution \<Rightarrow> execution" where
  "claimed_row worker lease now e =
     e\<lparr>ex_status := Running, ex_workerId := Some worker,
       ex_leaseUntil := Some (now + lease * 1000), ex_attempts := ex_attempts e + 1,
       ex_updatedAt := now\<rparr>"

definition claim_execution :: "string \<Rightarrow> int \<Rightarrow> execution option core_tx" where
  "claim_execution worker lease =
     (\<lambda>s. case first_row (claim_candidates s) of
        None \<Rightarrow> (Inr None, s)
      | Some v \<Rightarrow>
          let now = db_now s;
              waits = sql_update (due_timer_wait now (ex_id v))
                        (\<lambda>w. w\<lparr>wt_satisfiedAt := Some now\<rparr>) (db_waits s);
              execs = sql_update (\<lambda>e. ex_id e = ex_id v) (claimed_row worker lease now)
                        (db_executions s)
          in (Inr (first_row (sql_select (\<lambda>e. ex_id e = ex_id v) execs)),
              s\<lparr>db_waits := waits, db_executions := execs\<rparr>))"

definition executions_claim :: "string \<Rightarrow> int option \<Rightarrow> execution option core_tx" where
  "executions_claim worker lease = claim_execution worker (nullish lease DEFAULT_LEASE_SECONDS)"

definition executions_findById :: "nat \<Rightarrow> execution option core_tx" where
  "executions_findById i = tx_read (\<lambda>s. first_row (sql_select (\<lambda>e. ex_id e = i) (db_executions s)))"

definition set_execution_status ::
  "(execution \<Rightarrow> bool) \<Rightarrow> execution_status \<Rightarrow> core_db \<Rightarrow> core_db" where
  "set_execution_status p st s =
     s\<lparr>db_executions :=
         sql_update p (\<lambda>e. e\<lparr>ex_status := st, ex_updatedAt := db_now s\<rparr>) (db_executions s)\<rparr>"

definition executions_markDone :: "nat \<Rightarrow> unit core_tx" where
  "executions_markDone i = tx_write (set_execution_status (\<lambda>e. ex_id e = i) Done)"

definition executions_markWaiting :: "nat \<Rightarrow> unit core_tx" where
  "executions_markWaiting i = tx_write (set_execution_status (\<lambda>e. ex_id e = i) Waiting)"

definition executions_markFailed :: "nat \<Rightarrow> unit core_tx" where
  "executions_markFailed i = tx_write (set_execution_status (\<lambda>e. ex_id e = i) Failed)"

definition executions_failRemainingForRun :: "nat \<Rightarrow> unit core_tx" where
  "executions_failRemainingForRun rid =
     tx_write (set_execution_status
       (\<lambda>e. ex_runId e = Some rid \<and> ex_status e \<in> {Blocked, Queued, Waiting}) Failed)"

definition executions_promoteBlockedToQueued :: "nat \<Rightarrow> string \<Rightarrow> unit core_tx" where
  "executions_promoteBlockedToQueued rid nid =
     tx_write (set_execution_status
       (\<lambda>e. ex_runId e = Some rid \<and> ex_step e = nid \<and> ex_status e = Blocked) Queued)"

subsection \<open>\<open>checkpoints\<close>\<close>

definition checkpoints_find :: "core_db \<Rightarrow> nat \<times> string \<Rightarrow> checkpoint option" where
  "checkpoints_find s k =
     first_row (sql_select (\<lambda>c. cp_executionId c = fst k \<and> cp_stepId c = snd k) (db_checkpoints s))"

text \<open>\<open>INSERT ... ON CONFLICT DO NOTHING RETURNING *\<close>: no row when the key is taken.\<close>

definition insert_checkpoint :: "nat \<Rightarrow> string \<Rightarrow> json \<Rightarrow> checkpoint list core_tx" where
  "insert_checkpoint eid sid out =
     (\<lambda>s. if checkpoints_find s (eid, sid) \<noteq> None then (Inr [], s)
          else if eid \<notin> set (map ex_id (db_executions s)) then (Inl (DbError ForeignKeyViolation), s)
          else let row = \<lparr>cp_executionId = eid, cp_stepId = sid, cp_output = out,
                          cp_committedAt = db_now s\<rparr>
               in (Inr [row], s\<lparr>db_checkpoints := db_checkpoints s @ [row]\<rparr>))"

definition checkpoints_insert :: "nat \<Rightarrow> string \<Rightarrow> json \<Rightarrow> checkpoint core_tx" where
  "checkpoints_insert eid sid out =
     tx_bind (insert_checkpoint eid sid out) (\<lambda>rows.
       case first_row rows of
         Some inserted \<Rightarrow> tx_return inserted
       | None \<Rightarrow> tx_bind (tx_read (\<lambda>s. checkpoints_find s (eid, sid))) (\<lambda>existing.
           case existing of
             None \<Rightarrow> tx_throw (FatalError CORE_CHECKPOINT_CONFLICT_NOT_FOUND)
           | Some r \<Rightarrow> tx_return r))"

subsection \<open>\<open>waits\<close>\<close>

definition insert_wait :: "nat \<Rightarrow> string option \<Rightarrow> int option \<Rightarrow> wait list core_tx" where
  "insert_wait eid key wakeAt =
     (\<lambda>s. if key = None \<and> wakeAt = None then (Inl (DbError CheckViolation), s)
          else if (case key of None \<Rightarrow> False | Some k \<Rightarrow> length k > 256)
          then (Inl (DbError CheckViolation), s)
          else if eid \<notin> set (map ex_id (db_executions s)) then (Inl (DbError ForeignKeyViolation), s)
          else let row = \<lparr>wt_id = Suc (waits_id_seq s), wt_executionId = eid, wt_waitKey = key,
                          wt_wakeAt = wakeAt, wt_satisfiedAt = None, wt_createdAt = db_now s\<rparr>
               in (Inr [row], s\<lparr>db_waits := db_waits s @ [row], waits_id_seq := Suc (waits_id_seq s)\<rparr>))"

definition waits_create :: "nat \<Rightarrow> string option \<Rightarrow> int option \<Rightarrow> wait core_tx" where
  "waits_create eid key wakeAt =
     (if (case key of None \<Rightarrow> False | Some k \<Rightarrow> length k > WAIT_KEY_MAX_LENGTH)
      then tx_throw (FatalError CORE_WAIT_KEY_TOO_LONG)
      else tx_bind (insert_wait eid key wakeAt) (row_or_throw CORE_WAIT_NO_ROW_RETURNED))"

definition waits_findByExecutionId :: "nat \<Rightarrow> wait list core_tx" where
  "waits_findByExecutionId eid =
     tx_read (\<lambda>s. sql_select (\<lambda>w. wt_executionId w = eid) (db_waits s))"

text \<open>
  \<open>signal_wait()\<close>: one turn of its loop on a candidate \<open>c\<close>. The wait row is read again under
  the execution's lock and skipped when it has been satisfied meanwhile.
\<close>

definition signal_one :: "wait \<Rightarrow> core_db \<Rightarrow> wait list \<times> core_db" where
  "signal_one c s =
     (case first_row (sql_select (\<lambda>w. wt_id w = wt_id c) (db_waits s)) of
        None \<Rightarrow> ([], s)
      | Some w \<Rightarrow>
          if wt_satisfiedAt w \<noteq> None then ([], s)
          else let w' = w\<lparr>wt_satisfiedAt := Some (db_now s)\<rparr>
               in ([w'],
                   set_execution_status (\<lambda>e. ex_id e = wt_executionId w \<and> ex_status e = Waiting) Queued
                     (s\<lparr>db_waits := sql_update (\<lambda>x. wt_id x = wt_id w)
                          (\<lambda>x. x\<lparr>wt_satisfiedAt := Some (db_now s)\<rparr>) (db_waits s)\<rparr>)))"

fun signal_loop :: "wait list \<Rightarrow> core_db \<Rightarrow> wait list \<times> core_db" where
  "signal_loop [] s = ([], s)"
| "signal_loop (c # cs) s =
     (let (ws, s') = signal_one c s; (ws', s'') = signal_loop cs s' in (ws @ ws', s''))"

definition PG_NOTIFY_PAYLOAD_LIMIT :: nat where
  "PG_NOTIFY_PAYLOAD_LIMIT = 8000"

definition waits_signal :: "string \<Rightarrow> wait list core_tx" where
  "waits_signal key =
     (\<lambda>s. let (ws, s') = signal_loop
                (sql_select (\<lambda>w. wt_waitKey w = Some key \<and> wt_satisfiedAt w = None) (db_waits s)) s
          in if length key \<ge> PG_NOTIFY_PAYLOAD_LIMIT
             then (Inl (DbError InvalidParameterValue), s')
             else (Inr ws, s'\<lparr>db_notifications :=
                             db_notifications s' @ [(EXECUTION_READY_CHANNEL, key)]\<rparr>))"

subsection \<open>\<open>workflow_runs\<close>\<close>

definition workflowRuns_create ::
  "string option \<Rightarrow> workflow_spec \<Rightarrow> js_object \<Rightarrow> workflow_run core_tx" where
  "workflowRuns_create sid spec inp =
     tx_bind (\<lambda>s. let row = \<lparr>run_id = Suc (workflow_runs_id_seq s), run_sessionId = sid,
                        run_spec = spec, run_input = inp, run_status = RunRunning,
                        run_createdAt = db_now s, run_updatedAt = db_now s\<rparr>
                  in (Inr [row], s\<lparr>db_workflow_runs := db_workflow_runs s @ [row],
                                   workflow_runs_id_seq := Suc (workflow_runs_id_seq s)\<rparr>))
       (row_or_throw CORE_WORKFLOW_RUN_NO_ROW_RETURNED)"

definition find_run :: "nat \<Rightarrow> core_db \<Rightarrow> workflow_run option" where
  "find_run i s = first_row (sql_select (\<lambda>r. run_id r = i) (db_workflow_runs s))"

definition workflowRuns_findById :: "nat \<Rightarrow> workflow_run option core_tx" where
  "workflowRuns_findById i = tx_read (find_run i)"

definition set_run_status ::
  "(workflow_run \<Rightarrow> bool) \<Rightarrow> workflow_run_status \<Rightarrow> core_db \<Rightarrow> core_db" where
  "set_run_status p st s =
     s\<lparr>db_workflow_runs :=
         sql_update p (\<lambda>r. r\<lparr>run_status := st, run_updatedAt := db_now s\<rparr>) (db_workflow_runs s)\<rparr>"

definition workflowRuns_markDone :: "nat \<Rightarrow> unit core_tx" where
  "workflowRuns_markDone i =
     tx_write (set_run_status (\<lambda>r. run_id r = i \<and> run_status r \<noteq> RunFailed) RunDone)"

definition workflowRuns_markFailed :: "nat \<Rightarrow> unit core_tx" where
  "workflowRuns_markFailed i = tx_write (set_run_status (\<lambda>r. run_id r = i) RunFailed)"

definition workflowRuns_lockForUpdate :: "nat \<Rightarrow> workflow_run core_tx" where
  "workflowRuns_lockForUpdate i =
     tx_bind (tx_read (\<lambda>s. sql_select (\<lambda>r. run_id r = i) (db_workflow_runs s)))
       (row_or_throw CORE_WORKFLOW_RUN_NOT_FOUND)"

subsection \<open>\<open>run_node_outputs\<close>\<close>

definition runNodeOutputs_find :: "core_db \<Rightarrow> nat \<times> string \<Rightarrow> run_node_output option" where
  "runNodeOutputs_find s k =
     first_row (sql_select (\<lambda>o'. no_runId o' = fst k \<and> no_nodeId o' = snd k) (db_run_node_outputs s))"

definition runNodeOutputs_get :: "nat \<Rightarrow> string \<Rightarrow> run_node_output option core_tx" where
  "runNodeOutputs_get rid nid = tx_read (\<lambda>s. runNodeOutputs_find s (rid, nid))"

definition insert_run_node_output :: "nat \<Rightarrow> string \<Rightarrow> js_object \<Rightarrow> run_node_output list core_tx" where
  "insert_run_node_output rid nid out =
     (\<lambda>s. if runNodeOutputs_find s (rid, nid) \<noteq> None then (Inr [], s)
          else if rid \<notin> set (map run_id (db_workflow_runs s)) then (Inl (DbError ForeignKeyViolation), s)
          else let row = \<lparr>no_runId = rid, no_nodeId = nid, no_output = out, no_completedAt = db_now s\<rparr>
               in (Inr [row], s\<lparr>db_run_node_outputs := db_run_node_outputs s @ [row]\<rparr>))"

definition runNodeOutputs_record :: "nat \<Rightarrow> string \<Rightarrow> js_object \<Rightarrow> run_node_output core_tx" where
  "runNodeOutputs_record rid nid out =
     tx_bind (insert_run_node_output rid nid out) (\<lambda>rows.
       case first_row rows of
         Some inserted \<Rightarrow> tx_return inserted
       | None \<Rightarrow> tx_bind (runNodeOutputs_get rid nid) (\<lambda>existing.
           case existing of
             None \<Rightarrow> tx_throw (FatalError CORE_RUN_NODE_OUTPUT_NO_ROW_RETURNED)
           | Some r \<Rightarrow> tx_return r))"

definition completed_ids :: "core_db \<Rightarrow> nat \<Rightarrow> string list" where
  "completed_ids s rid = map no_nodeId (sql_select (\<lambda>o'. no_runId o' = rid) (db_run_node_outputs s))"

definition runNodeOutputs_listCompletedNodeIds :: "nat \<Rightarrow> string list core_tx" where
  "runNodeOutputs_listCompletedNodeIds rid = tx_read (\<lambda>s. completed_ids s rid)"

end
