(* ===== verification/Core_Laws.thy ===== *)
theory Core_Laws
  imports Core_Db
begin

text \<open>
  What the repositories of \<open>core/\<close> promise: the keys and foreign keys of the schema hold
  after every statement (\<open>core_inv\<close>), an insert with \<open>ON CONFLICT DO NOTHING\<close> keeps the
  first value (the interface \<open>idempotent_insert\<close>, provided by two tables), the dispatcher
  claims the oldest claimable row, and a signal wakes everything that waits for it.
\<close>

subsection \<open>Keys and foreign keys\<close>

text \<open>
  Ids handed out by a sequence whose last value is \<open>n\<close>. The invariant speaks of columns
  only, so an \<open>UPDATE\<close> that leaves the key columns alone keeps it by rewriting.
\<close>

definition serial_ids :: "nat list \<Rightarrow> nat \<Rightarrow> bool" where
  "serial_ids ids n \<longleftrightarrow> distinct ids \<and> (\<forall>i \<in> set ids. i \<le> n)"

lemma serial_ids_next: "serial_ids ids n \<Longrightarrow> serial_ids (ids @ [Suc n]) (Suc n)"
  by (auto simp: serial_ids_def)

abbreviation cp_key :: "checkpoint \<Rightarrow> nat \<times> string" where
  "cp_key c \<equiv> (cp_executionId c, cp_stepId c)"

abbreviation no_key :: "run_node_output \<Rightarrow> nat \<times> string" where
  "no_key o' \<equiv> (no_runId o', no_nodeId o')"

abbreviation wait_unwakeable :: "wait \<Rightarrow> bool" where
  "wait_unwakeable w \<equiv> wt_waitKey w = None \<and> wt_wakeAt w = None"

definition core_inv :: "core_db \<Rightarrow> bool" where
  "core_inv s \<longleftrightarrow>
     serial_ids (map ex_id (db_executions s)) (executions_id_seq s)
     \<and> serial_ids (map wt_id (db_waits s)) (waits_id_seq s)
     \<and> True \<notin> set (map wait_unwakeable (db_waits s))
     \<and> serial_ids (map run_id (db_workflow_runs s)) (workflow_runs_id_seq s)
     \<and> set (map ex_runId (db_executions s)) \<subseteq> insert None (Some ` set (map run_id (db_workflow_runs s)))
     \<and> set (map no_runId (db_run_node_outputs s)) \<subseteq> set (map run_id (db_workflow_runs s))
     \<and> distinct (map cp_key (db_checkpoints s))
     \<and> distinct (map no_key (db_run_node_outputs s))"

lemma core_inv_keys:
  assumes "core_inv s"
  shows "key_unique ex_id (db_executions s)" "key_unique wt_id (db_waits s)"
    "key_unique run_id (db_workflow_runs s)"
    "key_unique cp_key (db_checkpoints s)" "key_unique no_key (db_run_node_outputs s)"
  using assms by (simp_all add: core_inv_def serial_ids_def key_unique_def)

named_theorems core_defs "definitions of the repository operations"

lemmas [core_defs] =
  insert_execution_def executions_enqueue_def executions_enqueueForRun_def
  executions_claim_def claim_execution_def executions_markDone_def executions_markWaiting_def
  executions_markFailed_def executions_failRemainingForRun_def
  executions_promoteBlockedToQueued_def insert_checkpoint_def checkpoints_insert_def
  insert_wait_def waits_create_def workflowRuns_create_def workflowRuns_findById_def
  workflowRuns_markDone_def workflowRuns_markFailed_def workflowRuns_lockForUpdate_def
  runNodeOutputs_get_def insert_run_node_output_def runNodeOutputs_record_def
  runNodeOutputs_listCompletedNodeIds_def executions_findById_def waits_findByExecutionId_def

text \<open>The primary key read back: a row of the table is the row its key finds.\<close>

lemma find_run_eq:
  assumes "core_inv s" "r \<in> set (db_workflow_runs s)"
  shows "find_run (run_id r) s = Some r"
  unfolding find_run_def
  by (rule first_row_select_unique [where k = run_id]) (use assms core_inv_keys in auto)

lemma find_run_in: "find_run i s = Some r \<Longrightarrow> r \<in> set (db_workflow_runs s) \<and> run_id r = i"
  unfolding find_run_def by (drule first_row_in) (simp add: table_simps)

lemma find_run_None: "find_run i s = None \<longleftrightarrow> i \<notin> run_id ` set (db_workflow_runs s)"
  by (auto simp: find_run_def sql_select_def filter_empty_conv)

lemma set_execution_status_simps [simp]:
  "db_checkpoints (set_execution_status p st s) = db_checkpoints s"
  "db_waits (set_execution_status p st s) = db_waits s"
  "db_workflow_runs (set_execution_status p st s) = db_workflow_runs s"
  "db_run_node_outputs (set_execution_status p st s) = db_run_node_outputs s"
  "db_now (set_execution_status p st s) = db_now s"
  "executions_id_seq (set_execution_status p st s) = executions_id_seq s"
  "waits_id_seq (set_execution_status p st s) = waits_id_seq s"
  "workflow_runs_id_seq (set_execution_status p st s) = workflow_runs_id_seq s"
  "locked_executions (set_execution_status p st s) = locked_executions s"
  by (simp_all add: set_execution_status_def)

lemma set_run_status_simps [simp]:
  "db_executions (set_run_status p st s) = db_executions s"
  "db_checkpoints (set_run_status p st s) = db_checkpoints s"
  "db_waits (set_run_status p st s) = db_waits s"
  "db_run_node_outputs (set_run_status p st s) = db_run_node_outputs s"
  "db_now (set_run_status p st s) = db_now s"
  "executions_id_seq (set_run_status p st s) = executions_id_seq s"
  "waits_id_seq (set_run_status p st s) = waits_id_seq s"
  "workflow_runs_id_seq (set_run_status p st s) = workflow_runs_id_seq s"
  by (simp_all add: set_run_status_def)

lemma db_executions_set_status:
  "db_executions (set_execution_status p st s) =
     sql_update p (\<lambda>e. e\<lparr>ex_status := st, ex_updatedAt := db_now s\<rparr>) (db_executions s)"
  by (simp add: set_execution_status_def)

lemma db_workflow_runs_set_status:
  "db_workflow_runs (set_run_status p st s) =
     sql_update p (\<lambda>r. r\<lparr>run_status := st, run_updatedAt := db_now s\<rparr>) (db_workflow_runs s)"
  by (simp add: set_run_status_def)

text \<open>The columns that no \<open>UPDATE\<close> of the program writes.\<close>

lemma update_columns [simp]:
  "map ex_id (sql_update p (\<lambda>e. e\<lparr>ex_status := st, ex_updatedAt := t\<rparr>) es) = map ex_id es"
  "map ex_runId (sql_update p (\<lambda>e. e\<lparr>ex_status := st, ex_updatedAt := t\<rparr>) es) = map ex_runId es"
  "map ex_id (sql_update p (claimed_row w lease t) es) = map ex_id es"
  "map ex_runId (sql_update p (claimed_row w lease t) es) = map ex_runId es"
  "map wt_id (sql_update q (wt_satisfiedAt_update (\<lambda>_. u)) ws) = map wt_id ws"
  "map wait_unwakeable (sql_update q (wt_satisfiedAt_update (\<lambda>_. u)) ws) = map wait_unwakeable ws"
  "map run_id (sql_update z (\<lambda>r. r\<lparr>run_status := rst, run_updatedAt := t\<rparr>) rs) = map run_id rs"
  by (rule map_sql_update; simp add: claimed_row_def)+

lemma core_inv_set_execution_status:
  "core_inv s \<Longrightarrow> core_inv (set_execution_status p st s)"
  unfolding core_inv_def by (simp add: db_executions_set_status del: set_map)

lemma core_inv_set_run_status: "core_inv s \<Longrightarrow> core_inv (set_run_status p st s)"
  unfolding core_inv_def by (simp add: db_workflow_runs_set_status del: set_map)

lemma core_inv_insert_execution:
  assumes "core_inv s" "insert_execution sid stp inp st rid s = (r, s')"
    and "\<And>i. rid = Some i \<Longrightarrow> i \<in> run_id ` set (db_workflow_runs s)"
  shows "core_inv s'"
proof -
  from assms(3) have "rid \<in> insert None (Some ` set (map run_id (db_workflow_runs s)))"
    by (cases rid) auto
  then show ?thesis
    using assms(1,2) unfolding core_inv_def insert_execution_def Let_def
    by (clarsimp simp: serial_ids_next simp del: set_map)
qed

lemma core_inv_claim:
  assumes "core_inv s" "claim_execution w lease s = (r, s')"
  shows "core_inv s'"
proof (cases "first_row (claim_candidates s)")
  case None
  with assms show ?thesis by (simp add: claim_execution_def)
next
  case (Some v)
  with assms show ?thesis
    unfolding core_inv_def claim_execution_def Let_def by (auto simp del: set_map)
qed

lemma checkpoints_find_None:
  "checkpoints_find s k = None \<longleftrightarrow> k \<notin> cp_key ` set (db_checkpoints s)"
  by (cases k) (auto simp: checkpoints_find_def sql_select_def filter_empty_conv)

lemma runNodeOutputs_find_None:
  "runNodeOutputs_find s k = None \<longleftrightarrow> k \<notin> no_key ` set (db_run_node_outputs s)"
  by (cases k) (auto simp: runNodeOutputs_find_def sql_select_def filter_empty_conv)

text \<open>The outcomes of an insert that can meet a taken key, as case rules.\<close>

lemma checkpoints_insert_cases:
  assumes "checkpoints_insert eid sid out s = (r, s')"
  obtains (taken) x where "checkpoints_find s (eid, sid) = Some x" "r = Inr x" "s' = s"
  | (missing) "checkpoints_find s (eid, sid) = None" "eid \<notin> set (map ex_id (db_executions s))"
      "r = Inl (DbError ForeignKeyViolation)" "s' = s"
  | (fresh) row where "checkpoints_find s (eid, sid) = None"
      "eid \<in> set (map ex_id (db_executions s))"
      "row = \<lparr>cp_executionId = eid, cp_stepId = sid, cp_output = out, cp_committedAt = db_now s\<rparr>"
      "r = Inr row" "s' = s\<lparr>db_checkpoints := db_checkpoints s @ [row]\<rparr>"
  using assms
  by (cases "checkpoints_find s (eid, sid)"; cases "eid \<in> set (map ex_id (db_executions s))")
    (auto simp: checkpoints_insert_def insert_checkpoint_def tx_simps Let_def)

lemma record_cases:
  assumes "runNodeOutputs_record rid nid out s = (r, s')"
  obtains (taken) x where "runNodeOutputs_find s (rid, nid) = Some x" "r = Inr x" "s' = s"
  | (missing) "runNodeOutputs_find s (rid, nid) = None" "rid \<notin> set (map run_id (db_workflow_runs s))"
      "r = Inl (DbError ForeignKeyViolation)" "s' = s"
  | (fresh) row where "runNodeOutputs_find s (rid, nid) = None"
      "rid \<in> set (map run_id (db_workflow_runs s))"
      "row = \<lparr>no_runId = rid, no_nodeId = nid, no_output = out, no_completedAt = db_now s\<rparr>"
      "r = Inr row" "s' = s\<lparr>db_run_node_outputs := db_run_node_outputs s @ [row]\<rparr>"
  using assms
  by (cases "runNodeOutputs_find s (rid, nid)"; cases "rid \<in> set (map run_id (db_workflow_runs s))")
    (auto simp: runNodeOutputs_record_def insert_run_node_output_def runNodeOutputs_get_def
      tx_simps Let_def)

lemma core_inv_checkpoints_insert:
  assumes "core_inv s" "checkpoints_insert eid sid out s = (r, s')"
  shows "core_inv s'"
  using assms(2)
proof (cases rule: checkpoints_insert_cases)
  case (fresh row)
  then have "(eid, sid) \<notin> cp_key ` set (db_checkpoints s)" by (simp add: checkpoints_find_None)
  with fresh assms(1) show ?thesis unfolding core_inv_def by simp
qed (use assms in simp_all)

lemma core_inv_record:
  assumes "core_inv s" "runNodeOutputs_record rid nid out s = (r, s')"
  shows "core_inv s'"
  using assms(2)
proof (cases rule: record_cases)
  case (fresh row)
  then have "(rid, nid) \<notin> no_key ` set (db_run_node_outputs s)"
    by (simp add: runNodeOutputs_find_None)
  with fresh assms(1) show ?thesis unfolding core_inv_def by simp
qed (use assms in simp_all)

text \<open>\<open>WaitsRepo.create\<close>: what it rejects, in order, and the row it stores otherwise.\<close>

definition wait_rejection :: "core_db \<Rightarrow> nat \<Rightarrow> string option \<Rightarrow> int option \<Rightarrow> platform_error option" where
  "wait_rejection s eid key wakeAt =
     (if \<exists>k. key = Some k \<and> length k > WAIT_KEY_MAX_LENGTH then Some (FatalError CORE_WAIT_KEY_TOO_LONG)
      else if key = None \<and> wakeAt = None then Some (DbError CheckViolation)
      else if eid \<notin> set (map ex_id (db_executions s)) then Some (DbError ForeignKeyViolation)
      else None)"

definition new_wait :: "core_db \<Rightarrow> nat \<Rightarrow> string option \<Rightarrow> int option \<Rightarrow> wait" where
  "new_wait s eid key wakeAt =
     \<lparr>wt_id = Suc (waits_id_seq s), wt_executionId = eid, wt_waitKey = key, wt_wakeAt = wakeAt,
      wt_satisfiedAt = None, wt_createdAt = db_now s\<rparr>"

lemma waits_create_eq:
  "waits_create eid key wakeAt s =
     (case wait_rejection s eid key wakeAt of
        Some e \<Rightarrow> (Inl e, s)
      | None \<Rightarrow> (Inr (new_wait s eid key wakeAt),
          s\<lparr>db_waits := db_waits s @ [new_wait s eid key wakeAt],
            waits_id_seq := Suc (waits_id_seq s)\<rparr>))"
  by (cases key; cases wakeAt)
    (auto simp: waits_create_def insert_wait_def wait_rejection_def new_wait_def tx_simps Let_def
      WAIT_KEY_MAX_LENGTH_def)

lemma core_inv_waits_create:
  assumes "core_inv s" "waits_create eid key wakeAt s = (r, s')"
  shows "core_inv s'"
proof (cases "wait_rejection s eid key wakeAt")
  case None
  then have "\<not> wait_unwakeable (new_wait s eid key wakeAt)"
    by (auto simp: wait_rejection_def new_wait_def split: if_splits)
  moreover have "wt_id (new_wait s eid key wakeAt) = Suc (waits_id_seq s)"
    by (simp add: new_wait_def)
  ultimately show ?thesis
    using assms None unfolding core_inv_def
    by (clarsimp simp: waits_create_eq serial_ids_next)
qed (use assms in \<open>simp add: waits_create_eq\<close>)

lemma workflowRuns_create_eq:
  "workflowRuns_create sid spec inp s =
     (let row = \<lparr>run_id = Suc (workflow_runs_id_seq s), run_sessionId = sid, run_spec = spec,
                 run_input = inp, run_status = RunRunning, run_createdAt = db_now s,
                 run_updatedAt = db_now s\<rparr>
      in (Inr row, s\<lparr>db_workflow_runs := db_workflow_runs s @ [row],
                     workflow_runs_id_seq := Suc (workflow_runs_id_seq s)\<rparr>))"
  by (simp add: workflowRuns_create_def tx_simps Let_def)

lemma insert_image_mono: "A \<subseteq> B \<Longrightarrow> insert a (f ` A) \<subseteq> insert a (f ` B)"
  by auto

lemma core_inv_create_run:
  assumes "core_inv s" "workflowRuns_create sid spec inp s = (r, s')"
  shows "core_inv s'"
proof -
  let ?old = "set (map run_id (db_workflow_runs s))"
  let ?new = "set (map run_id (db_workflow_runs s) @ [Suc (workflow_runs_id_seq s)])"
  have "?old \<subseteq> ?new" by auto
  with assms(1) have "set (map ex_runId (db_executions s)) \<subseteq> insert None (Some ` ?new)"
    "set (map no_runId (db_run_node_outputs s)) \<subseteq> ?new"
    unfolding core_inv_def by (meson insert_image_mono order_trans)+
  with assms show ?thesis
    unfolding core_inv_def
    by (clarsimp simp: workflowRuns_create_eq Let_def serial_ids_next simp del: set_map set_append)
qed

text \<open>The database as the schema creates it.\<close>

definition empty_db :: core_db where
  "empty_db = \<lparr>db_executions = [], db_checkpoints = [], db_waits = [], db_workflow_runs = [],
     db_run_node_outputs = [], db_session_log = [], db_session_pointer = [], db_placement = [],
     db_placement_access = [], db_placement_config = [], executions_id_seq = 0, waits_id_seq = 0,
     workflow_runs_id_seq = 0, session_log_id_seq = 0, db_notifications = [],
     locked_executions = [], db_now = 0\<rparr>"

lemma core_inv_empty: "core_inv empty_db"
  by (simp add: core_inv_def empty_db_def serial_ids_def)

subsection \<open>Inserts that keep the first value\<close>

text \<open>
  The contract of \<open>CheckpointsRepo.insert\<close> and \<open>RunNodeOutputsRepo.record\<close>: \<open>put\<close> stores a
  value under a free key, gives back the stored row under a taken one, and fails without a
  trace when the row it refers to does not exist.
\<close>

locale idempotent_insert =
  fixes put :: "'k \<Rightarrow> 'v \<Rightarrow> ('s, 'e, 'r) tx"
    and look :: "'s \<Rightarrow> 'k \<Rightarrow> 'r option"
    and val :: "'r \<Rightarrow> 'v"
    and enabled :: "'s \<Rightarrow> 'k \<Rightarrow> bool"
  assumes put_fresh: "enabled s k \<Longrightarrow> look s k = None \<Longrightarrow>
      \<exists>r s'. put k v s = (Inr r, s') \<and> val r = v \<and> look s' = (look s)(k \<mapsto> r)"
    and put_taken: "look s k = Some r \<Longrightarrow> put k v s = (Inr r, s)"
    and put_disabled: "\<not> enabled s k \<Longrightarrow> look s k = None \<Longrightarrow> \<exists>e. put k v s = (Inl e, s)"
begin

lemma put_cases:
  obtains (fresh) r s' where "look s k = None" "put k v s = (Inr r, s')" "val r = v"
      "look s' = (look s)(k \<mapsto> r)"
  | (taken) r where "look s k = Some r" "put k v s = (Inr r, s)"
  | (disabled) e where "look s k = None" "put k v s = (Inl e, s)"
proof (cases "look s k")
  case None
  show ?thesis
  proof (cases "enabled s k")
    case True
    from put_fresh [OF True None, of v] None show ?thesis by (auto intro: fresh)
  next
    case False
    from put_disabled [OF False None, of v] None show ?thesis by (auto intro: disabled)
  qed
next
  case (Some r)
  then show ?thesis using put_taken by (blast intro: taken)
qed

lemma put_look: "put k v s = (Inr r, s') \<Longrightarrow> look s' k = Some r"
  by (cases rule: put_cases [where s = s and k = k and v = v]) auto

lemma first_write_wins: "put k v s = (Inr r, s') \<Longrightarrow> put k w s' = (Inr r, s')"
  by (rule put_taken) (rule put_look)

lemma look_stable: "look s k' = Some r \<Longrightarrow> look (snd (put k v s)) k' = Some r"
  by (cases rule: put_cases [where s = s and k = k and v = v]) auto

lemma look_other: "k' \<noteq> k \<Longrightarrow> look (snd (put k v s)) k' = look s k'"
  by (cases rule: put_cases [where s = s and k = k and v = v]) auto

lemma put_value:
  "put k v s = (Inr r, s') \<Longrightarrow> val r = (case look s k of None \<Rightarrow> v | Some r' \<Rightarrow> val r')"
  by (cases rule: put_cases [where s = s and k = k and v = v]) auto

end

interpretation cp: idempotent_insert "\<lambda>k v. checkpoints_insert (fst k) (snd k) v" checkpoints_find
  cp_output "\<lambda>s k. fst k \<in> set (map ex_id (db_executions s))"
proof unfold_locales
  fix s :: core_db and k :: "nat \<times> string" and v
  assume "fst k \<in> set (map ex_id (db_executions s))" "checkpoints_find s k = None"
  then show "\<exists>r s'. checkpoints_insert (fst k) (snd k) v s = (Inr r, s') \<and> cp_output r = v
      \<and> checkpoints_find s' = (checkpoints_find s)(k \<mapsto> r)"
    by (auto simp: core_defs tx_simps Let_def checkpoints_find_def fun_eq_iff sql_select_append
        first_row_append prod_eq_iff sql_select_def split: option.splits)
next
  fix s :: core_db and k :: "nat \<times> string" and v r
  assume "checkpoints_find s k = Some r"
  then show "checkpoints_insert (fst k) (snd k) v s = (Inr r, s)"
    by (simp add: core_defs tx_simps)
next
  fix s :: core_db and k :: "nat \<times> string" and v
  assume "fst k \<notin> set (map ex_id (db_executions s))" "checkpoints_find s k = None"
  then show "\<exists>e. checkpoints_insert (fst k) (snd k) v s = (Inl e, s)"
    by (simp add: core_defs tx_simps)
qed

interpretation rno: idempotent_insert "\<lambda>k v. runNodeOutputs_record (fst k) (snd k) v"
  runNodeOutputs_find no_output "\<lambda>s k. fst k \<in> set (map run_id (db_workflow_runs s))"
proof unfold_locales
  fix s :: core_db and k :: "nat \<times> string" and v
  assume "fst k \<in> set (map run_id (db_workflow_runs s))" "runNodeOutputs_find s k = None"
  then show "\<exists>r s'. runNodeOutputs_record (fst k) (snd k) v s = (Inr r, s') \<and> no_output r = v
      \<and> runNodeOutputs_find s' = (runNodeOutputs_find s)(k \<mapsto> r)"
    by (auto simp: core_defs tx_simps Let_def runNodeOutputs_find_def fun_eq_iff sql_select_append
        first_row_append prod_eq_iff sql_select_def split: option.splits)
next
  fix s :: core_db and k :: "nat \<times> string" and v r
  assume "runNodeOutputs_find s k = Some r"
  then show "runNodeOutputs_record (fst k) (snd k) v s = (Inr r, s)"
    by (simp add: core_defs tx_simps)
next
  fix s :: core_db and k :: "nat \<times> string" and v
  assume "fst k \<notin> set (map run_id (db_workflow_runs s))" "runNodeOutputs_find s k = None"
  then show "\<exists>e. runNodeOutputs_record (fst k) (snd k) v s = (Inl e, s)"
    by (simp add: core_defs tx_simps)
qed

end
