(* ===== verification/Core_Claims.thy ===== *)
theory Core_Claims
  imports Core_Laws
begin

text \<open>
  The two SQL functions that move executions between states: \<open>claim_execution()\<close>, the
  dispatcher, and \<open>signal_wait()\<close>, the broadcast that wakes durable waits. Both are stated
  as one statement over the whole tables, which is what their callers rely on.
\<close>

subsection \<open>The dispatcher\<close>

definition claims_before :: "core_db \<Rightarrow> execution \<Rightarrow> bool" where
  "claims_before s v \<longleftrightarrow>
     claimable s v \<and> ex_id v \<notin> set (locked_executions s)
     \<and> (\<forall>u \<in> set (db_executions s).
          claimable s u \<and> ex_id u \<notin> set (locked_executions s) \<longrightarrow> ex_id v \<le> ex_id u)"

lemma set_claim_candidates:
  "set (claim_candidates s) =
     {e \<in> set (db_executions s). claimable s e \<and> ex_id e \<notin> set (locked_executions s)}"
  by (auto simp: claim_candidates_def table_simps)

lemma claim_candidates_first:
  assumes "first_row (claim_candidates s) = Some v"
  shows "v \<in> set (db_executions s)" "claims_before s v"
proof -
  have srt: "sorted (map ex_id (claim_candidates s))" by (simp add: claim_candidates_def)
  from assms obtain vs where vs: "claim_candidates s = v # vs"
    by (cases "claim_candidates s") auto
  have "v \<in> set (claim_candidates s)" using vs by simp
  then show "v \<in> set (db_executions s)" "claims_before s v"
    using srt vs set_claim_candidates [of s] unfolding claims_before_def by auto
qed

lemma claimed_row_sel [simp]:
  "ex_id (claimed_row w l n e) = ex_id e" "ex_runId (claimed_row w l n e) = ex_runId e"
  "ex_step (claimed_row w l n e) = ex_step e" "ex_status (claimed_row w l n e) = Running"
  "ex_attempts (claimed_row w l n e) = Suc (ex_attempts e)"
  "ex_leaseUntil (claimed_row w l n e) = Some (n + l * 1000)"
  "ex_sessionId (claimed_row w l n e) = ex_sessionId e" "ex_input (claimed_row w l n e) = ex_input e"
  "ex_workerId (claimed_row w l n e) = Some w"
  by (simp_all add: claimed_row_def)

lemma claim_execution_eq:
  assumes "core_inv s"
  shows "claim_execution w lease s =
    (case first_row (claim_candidates s) of
       None \<Rightarrow> (Inr None, s)
     | Some v \<Rightarrow> (Inr (Some (claimed_row w lease (db_now s) v)),
         s\<lparr>db_waits := sql_update (due_timer_wait (db_now s) (ex_id v))
                         (\<lambda>x. x\<lparr>wt_satisfiedAt := Some (db_now s)\<rparr>) (db_waits s),
           db_executions := sql_update (\<lambda>e. ex_id e = ex_id v)
                         (claimed_row w lease (db_now s)) (db_executions s)\<rparr>))"
proof (cases "first_row (claim_candidates s)")
  case (Some v)
  let ?es = "sql_update (\<lambda>e. ex_id e = ex_id v) (claimed_row w lease (db_now s)) (db_executions s)"
  from Some have "v \<in> set (db_executions s)" by (rule claim_candidates_first)
  then have "claimed_row w lease (db_now s) v \<in> set ?es" by (auto simp: set_sql_update)
  moreover have "key_unique ex_id ?es" using core_inv_keys(1) [OF assms] by (simp add: key_unique_update)
  ultimately have "first_row (sql_select (\<lambda>e. ex_id e = ex_id v) ?es)
      = Some (claimed_row w lease (db_now s) v)"
    by (intro first_row_select_unique [where k = ex_id]) auto
  with Some show ?thesis by (simp add: claim_execution_def Let_def)
qed (simp add: claim_execution_def)

lemma claim_execution_cases:
  assumes "core_inv s" "claim_execution w lease s = (r, s')"
  obtains (idle) "r = Inr None" "s' = s"
      "\<And>e. e \<in> set (db_executions s) \<Longrightarrow> claimable s e \<Longrightarrow> ex_id e \<in> set (locked_executions s)"
  | (claimed) v where "v \<in> set (db_executions s)" "claims_before s v"
      "r = Inr (Some (claimed_row w lease (db_now s) v))"
      "s' = s\<lparr>db_waits := sql_update (due_timer_wait (db_now s) (ex_id v))
                         (\<lambda>x. x\<lparr>wt_satisfiedAt := Some (db_now s)\<rparr>) (db_waits s),
           db_executions := sql_update (\<lambda>e. ex_id e = ex_id v)
                         (claimed_row w lease (db_now s)) (db_executions s)\<rparr>"
proof (cases "first_row (claim_candidates s)")
  case None
  with assms have "r = Inr None" "s' = s" by (auto simp: claim_execution_eq)
  moreover from None have "set (claim_candidates s) = {}" by simp
  ultimately show ?thesis
    by (intro idle) (use set_claim_candidates [of s] in auto)
next
  case (Some v)
  with assms show ?thesis
    by (intro claimed [of v]) (auto simp: claim_execution_eq claim_candidates_first)
qed

text \<open>C9. The dispatcher hands out the oldest row that is queued, running under an expired lease
  or waiting on a due timer and that no other transaction holds. It gives that row, and no
  other, a fresh lease, one more attempt and status \<open>running\<close>, marks exactly its due timer
  waits satisfied, and changes nothing else of the database.\<close>

theorem claim_takes_the_oldest:
  assumes "core_inv s" "claim_execution w lease s = (Inr (Some e), s')"
  shows "\<exists>v \<in> set (db_executions s). claims_before s v \<and> e = claimed_row w lease (db_now s) v
    \<and> s' = s\<lparr>db_waits := map (\<lambda>x. if due_timer_wait (db_now s) (ex_id e) x
                              then x\<lparr>wt_satisfiedAt := Some (db_now s)\<rparr> else x) (db_waits s),
             db_executions := map (\<lambda>u. if ex_id u = ex_id e then e else u) (db_executions s)\<rparr>"
  using assms
proof (cases rule: claim_execution_cases)
  case (claimed v)
  have "map (\<lambda>u. if ex_id u = ex_id v then claimed_row w lease (db_now s) u else u) (db_executions s)
      = map (\<lambda>u. if ex_id u = ex_id v then claimed_row w lease (db_now s) v else u) (db_executions s)"
    using claimed(1) key_uniqueD [OF core_inv_keys(1) [OF assms(1)]] by fastforce
  with claimed show ?thesis by (intro bexI [of _ v]) (simp_all add: sql_update_def)
qed simp

text \<open>C10. No execution is claimed twice while its lease runs: a later poll by any worker, before
  the lease has expired, passes over a row that is still running under it.\<close>

theorem no_double_claim:
  assumes "core_inv s" "claim_execution w lease s = (Inr (Some e), s')"
    and "core_inv t" "e \<in> set (db_executions t)" "db_now t \<le> db_now s + lease * 1000"
    and "claim_execution w' lease' t = (Inr (Some e'), t')"
  shows "ex_id e' \<noteq> ex_id e"
proof
  assume same: "ex_id e' = ex_id e"
  have e: "ex_status e = Running" "ex_leaseUntil e = Some (db_now s + lease * 1000)"
    using assms(1,2) by (cases rule: claim_execution_cases; simp)+
  from assms(3,6) obtain v where v: "v \<in> set (db_executions t)" "claimable t v" "ex_id v = ex_id e'"
    by (cases rule: claim_execution_cases) (auto simp: claims_before_def)
  with assms(3,4) same have "v = e" by (auto intro: key_uniqueD [OF core_inv_keys(1)])
  with v e assms(5) show False by (auto simp: claimable_def lease_expired_def)
qed

subsection \<open>Signals\<close>

definition pending_on :: "string \<Rightarrow> wait \<Rightarrow> bool" where
  "pending_on key w \<longleftrightarrow> wt_waitKey w = Some key \<and> wt_satisfiedAt w = None"

text \<open>The effect of \<open>signal_wait(key)\<close> as two \<open>UPDATE\<close> statements.\<close>

definition satisfy_waits :: "(wait \<Rightarrow> bool) \<Rightarrow> core_db \<Rightarrow> core_db" where
  "satisfy_waits p s =
     s\<lparr>db_waits := sql_update p (\<lambda>x. x\<lparr>wt_satisfiedAt := Some (db_now s)\<rparr>) (db_waits s),
       db_executions := sql_update
         (\<lambda>e. ex_status e = Waiting \<and> (\<exists>w \<in> set (db_waits s). p w \<and> wt_executionId w = ex_id e))
         (\<lambda>e. e\<lparr>ex_status := Queued, ex_updatedAt := db_now s\<rparr>) (db_executions s)\<rparr>"

lemma signal_one_eq:
  assumes "key_unique wt_id (db_waits s)" "c \<in> set (db_waits s)" "wt_satisfiedAt c = None"
  shows "signal_one c s =
    ([c\<lparr>wt_satisfiedAt := Some (db_now s)\<rparr>], satisfy_waits (\<lambda>w. wt_id w = wt_id c) s)"
proof -
  have "first_row (sql_select (\<lambda>w. wt_id w = wt_id c) (db_waits s)) = Some c"
    using assms by (intro first_row_select_unique [where k = wt_id]) auto
  moreover have ex: "(\<lambda>e. ex_id e = wt_executionId c \<and> ex_status e = Waiting)
      = (\<lambda>e. ex_status e = Waiting
              \<and> (\<exists>w \<in> set (db_waits s). wt_id w = wt_id c \<and> wt_executionId w = ex_id e))"
    using assms key_uniqueD by (fastforce simp: fun_eq_iff)
  ultimately show ?thesis
    using assms(3) by (simp add: signal_one_def set_execution_status_def satisfy_waits_def)
      (subst ex, rule refl)
qed

lemma satisfy_waits_sel [simp]:
  "db_now (satisfy_waits p s) = db_now s"
  "db_waits (satisfy_waits p s) =
     sql_update p (\<lambda>x. x\<lparr>wt_satisfiedAt := Some (db_now s)\<rparr>) (db_waits s)"
  by (simp_all add: satisfy_waits_def)

lemma satisfy_waits_comp:
  assumes "\<And>w u. q (w\<lparr>wt_satisfiedAt := u\<rparr>) = q w"
  shows "satisfy_waits q (satisfy_waits p s) = satisfy_waits (\<lambda>w. p w \<or> q w) s"
proof -
  have ws: "sql_update q f (sql_update p f ws) = sql_update (\<lambda>w. p w \<or> q w) f ws"
    if "f = (\<lambda>x. x\<lparr>wt_satisfiedAt := u\<rparr>)" for f :: "wait \<Rightarrow> wait" and u ws
    using that by (auto simp: sql_update_def assms)
  have ex: "(\<exists>w \<in> set (sql_update p (\<lambda>x. x\<lparr>wt_satisfiedAt := u\<rparr>) ws). q w \<and> wt_executionId w = i)
      \<longleftrightarrow> (\<exists>w \<in> set ws. q w \<and> wt_executionId w = i)" for u ws i
    unfolding set_sql_update by (simp add: assms bex_Un) (use assms in blast)
  have es: "sql_update (\<lambda>e. ex_status e = Waiting \<and> b e) f (sql_update (\<lambda>e. ex_status e = Waiting \<and> a e) f es)
      = sql_update (\<lambda>e. ex_status e = Waiting \<and> (a e \<or> b e)) f es"
    if "f = (\<lambda>e. e\<lparr>ex_status := Queued, ex_updatedAt := u\<rparr>)" for f a b u es
    using that by (auto simp: sql_update_def)
  show ?thesis
    unfolding satisfy_waits_def
    by (simp add: ws [OF refl] ex es [OF refl] conj_disj_distribR bex_disj_distrib)
qed

lemma satisfy_waits_none: "(\<And>w. w \<in> set (db_waits s) \<Longrightarrow> \<not> p w) \<Longrightarrow> satisfy_waits p s = s"
  unfolding satisfy_waits_def by (subst sql_update_none, blast)+ simp

lemma satisfy_waits_cong:
  "(\<And>w. w \<in> set (db_waits s) \<Longrightarrow> p w = q w) \<Longrightarrow> satisfy_waits p s = satisfy_waits q s"
  unfolding satisfy_waits_def sql_update_def by (simp cong: map_cong bex_cong)

lemma signal_loop_eq:
  assumes "key_unique wt_id (db_waits s)" "distinct (map wt_id cs)"
    and "\<And>c. c \<in> set cs \<Longrightarrow> c \<in> set (db_waits s) \<and> wt_satisfiedAt c = None"
  shows "signal_loop cs s =
    (map (\<lambda>c. c\<lparr>wt_satisfiedAt := Some (db_now s)\<rparr>) cs,
     satisfy_waits (\<lambda>w. wt_id w \<in> wt_id ` set cs) s)"
  using assms
proof (induction cs arbitrary: s)
  case Nil
  then show ?case by (simp add: satisfy_waits_none)
next
  case (Cons c cs)
  let ?s' = "satisfy_waits (\<lambda>w. wt_id w = wt_id c) s"
  have step: "signal_one c s = ([c\<lparr>wt_satisfiedAt := Some (db_now s)\<rparr>], ?s')"
    using Cons.prems by (intro signal_one_eq) auto
  have "signal_loop cs ?s' = (map (\<lambda>c. c\<lparr>wt_satisfiedAt := Some (db_now ?s')\<rparr>) cs,
     satisfy_waits (\<lambda>w. wt_id w \<in> wt_id ` set cs) ?s')"
  proof (rule Cons.IH)
    show "key_unique wt_id (db_waits ?s')" using Cons.prems(1) by (simp add: key_unique_update)
    show "distinct (map wt_id cs)" using Cons.prems(2) by simp
    fix d assume d: "d \<in> set cs"
    then have "wt_id d \<noteq> wt_id c" using Cons.prems(2) by (metis distinct.simps(2) image_eqI image_set list.simps(9))
    then show "d \<in> set (db_waits ?s') \<and> wt_satisfiedAt d = None"
      using Cons.prems(3) [of d] d by (auto simp: set_sql_update)
  qed
  with step show ?case by (simp add: satisfy_waits_comp)
qed

lemma signal_candidates:
  assumes "core_inv s"
  shows "signal_loop (sql_select (pending_on key) (db_waits s)) s =
    (map (\<lambda>c. c\<lparr>wt_satisfiedAt := Some (db_now s)\<rparr>) (sql_select (pending_on key) (db_waits s)),
     satisfy_waits (pending_on key) s)"
proof -
  note keys = core_inv_keys(2) [OF assms]
  have "signal_loop (sql_select (pending_on key) (db_waits s)) s =
    (map (\<lambda>c. c\<lparr>wt_satisfiedAt := Some (db_now s)\<rparr>) (sql_select (pending_on key) (db_waits s)),
     satisfy_waits (\<lambda>w. wt_id w \<in> wt_id ` set (sql_select (pending_on key) (db_waits s))) s)"
    using keys by (intro signal_loop_eq)
      (auto simp: key_unique_def sql_select_def distinct_map_filter pending_on_def)
  moreover have "satisfy_waits (\<lambda>w. wt_id w \<in> wt_id ` set (sql_select (pending_on key) (db_waits s))) s
      = satisfy_waits (pending_on key) s"
    using key_uniqueD [OF keys] by (intro satisfy_waits_cong) (force simp: table_simps)
  ultimately show ?thesis by simp
qed

lemma waits_signal_eq:
  assumes "core_inv s"
  shows "waits_signal key s =
    (if PG_NOTIFY_PAYLOAD_LIMIT \<le> length key
     then (Inl (DbError InvalidParameterValue), satisfy_waits (pending_on key) s)
     else (Inr (map (\<lambda>c. c\<lparr>wt_satisfiedAt := Some (db_now s)\<rparr>) (sql_select (pending_on key) (db_waits s))),
       (satisfy_waits (pending_on key) s)\<lparr>db_notifications :=
          db_notifications s @ [(EXECUTION_READY_CHANNEL, key)]\<rparr>))"
proof -
  have "(\<lambda>w. wt_waitKey w = Some key \<and> wt_satisfiedAt w = None) = pending_on key"
    by (simp add: pending_on_def fun_eq_iff)
  then show ?thesis
    using signal_candidates [OF assms, of key]
    by (simp add: waits_signal_def Let_def satisfy_waits_def)
qed

text \<open>C11. A signal is a broadcast: every wait pending on the key, and no other, is satisfied and
  returned, every execution that is waiting on one of them is queued again, executions in any
  other status are left alone, and one notification is sent.\<close>

theorem signal_wakes_every_waiter:
  assumes "core_inv s" "waits_signal key s = (Inr ws, s')"
  shows "ws = map (\<lambda>w. w\<lparr>wt_satisfiedAt := Some (db_now s)\<rparr>) (filter (pending_on key) (db_waits s))
    \<and> db_waits s' = map (\<lambda>w. if pending_on key w then w\<lparr>wt_satisfiedAt := Some (db_now s)\<rparr> else w)
                        (db_waits s)
    \<and> db_executions s' = map (\<lambda>e. if ex_status e = Waiting
                                  \<and> (\<exists>w \<in> set (db_waits s). pending_on key w \<and> wt_executionId w = ex_id e)
                               then e\<lparr>ex_status := Queued, ex_updatedAt := db_now s\<rparr> else e)
                             (db_executions s)
    \<and> db_notifications s' = db_notifications s @ [(EXECUTION_READY_CHANNEL, key)]"
  using assms
  by (auto simp: waits_signal_eq satisfy_waits_def sql_update_def sql_select_def split: if_splits)

lemma core_inv_satisfy_waits: "core_inv s \<Longrightarrow> core_inv (satisfy_waits p s)"
  unfolding core_inv_def satisfy_waits_def by (simp del: set_map)

lemma core_inv_signal:
  assumes "core_inv s" "waits_signal key s = (r, s')"
  shows "core_inv s'"
proof -
  have "core_inv (t\<lparr>db_notifications := n\<rparr>) = core_inv t" for t n by (simp add: core_inv_def)
  with assms core_inv_satisfy_waits show ?thesis
    by (auto simp: waits_signal_eq split: if_splits)
qed

subsection \<open>The properties on a sample database\<close>

text \<open>Two queued executions; the first is locked by another transaction, or waits on a key.\<close>

definition db_queue :: core_db where
  "db_queue = snd (executions_enqueue ''s'' ''q'' JNull (snd (executions_enqueue ''s'' ''p'' JNull empty_db)))"

definition db_asleep :: core_db where
  "db_asleep = snd (executions_markWaiting 1 (snd (waits_create 1 (Some ''k'') None db_queue)))"

lemma core_inv_enqueue:
  "core_inv s \<Longrightarrow> core_inv (snd (executions_enqueue sid stp inp s))"
  using core_inv_insert_execution [of s sid stp inp Queued None _ "snd (insert_execution sid stp inp Queued None s)"]
  by (simp add: executions_enqueue_def tx_simps insert_execution_def Let_def)

lemma core_inv_samples: "core_inv db_queue" "core_inv (db_queue\<lparr>locked_executions := [1]\<rparr>)" "core_inv db_asleep"
proof -
  show q: "core_inv db_queue" unfolding db_queue_def by (intro core_inv_enqueue core_inv_empty)
  then show "core_inv (db_queue\<lparr>locked_executions := [1]\<rparr>)" by (simp add: core_inv_def)
  have "core_inv (snd (waits_create 1 (Some ''k'') None db_queue))"
    by (rule core_inv_waits_create [OF q surjective_pairing])
  then show "core_inv db_asleep"
    unfolding db_asleep_def executions_markWaiting_def by (simp add: tx_simps core_inv_set_execution_status)
qed

lemma claim_takes_the_oldest_witness:
  "\<exists>v \<in> set (db_executions db_queue). ex_id v = 2
     \<and> claims_before (db_queue\<lparr>locked_executions := [1]\<rparr>) v"
proof -
  let ?s = "db_queue\<lparr>locked_executions := [1]\<rparr>"
  obtain e where e: "claim_execution ''w'' 30 ?s = (Inr (Some e), snd (claim_execution ''w'' 30 ?s))" "ex_id e = 2"
  proof
    show "claim_execution ''w'' 30 ?s = (Inr (Some (claimed_row ''w'' 30 0 (db_executions db_queue ! 1))),
        snd (claim_execution ''w'' 30 ?s))" by code_simp
    show "ex_id (claimed_row ''w'' 30 0 (db_executions db_queue ! 1)) = 2" by code_simp
  qed
  from claim_takes_the_oldest [OF core_inv_samples(2) e(1)] e(2) show ?thesis by auto
qed

lemma no_double_claim_witness:
  "\<exists>e e' t t'. claim_execution ''w1'' 30 db_queue = (Inr (Some e), t)
     \<and> claim_execution ''w2'' 30 (t\<lparr>db_now := 30000\<rparr>) = (Inr (Some e'), t') \<and> ex_id e' \<noteq> ex_id e"
proof -
  let ?t = "snd (claim_execution ''w1'' 30 db_queue)"
  let ?e = "db_executions ?t ! 0"
  let ?t' = "snd (claim_execution ''w2'' 30 (?t\<lparr>db_now := 30000\<rparr>))"
  let ?e' = "db_executions ?t' ! 1"
  have c: "claim_execution ''w1'' 30 db_queue = (Inr (Some ?e), ?t)"
    "claim_execution ''w2'' 30 (?t\<lparr>db_now := 30000\<rparr>) = (Inr (Some ?e'), ?t')"
    "?e \<in> set (db_executions (?t\<lparr>db_now := 30000\<rparr>))"
    "db_now (?t\<lparr>db_now := 30000\<rparr>) \<le> db_now db_queue + 30 * 1000" by code_simp+
  have "core_inv ?t" by (rule core_inv_claim [OF core_inv_samples(1) c(1)])
  then have "core_inv (?t\<lparr>db_now := 30000\<rparr>)" by (simp add: core_inv_def)
  from no_double_claim [OF core_inv_samples(1) c(1) this c(3,4,2)] c(1,2) show ?thesis by blast
qed

lemma signal_wakes_every_waiter_witness:
  "\<exists>ws s'. waits_signal ''k'' db_asleep = (Inr ws, s') \<and> length ws = 1
     \<and> map ex_status (db_executions db_asleep) = [Waiting, Queued]
     \<and> map ex_status (db_executions s') = [Queued, Queued]"
proof -
  have ok: "PG_NOTIFY_PAYLOAD_LIMIT > length ''k''" by (simp add: PG_NOTIFY_PAYLOAD_LIMIT_def)
  then obtain ws s' where s: "waits_signal ''k'' db_asleep = (Inr ws, s')"
    using waits_signal_eq [OF core_inv_samples(3), of "''k''"] by auto
  have v: "length (filter (pending_on ''k'') (db_waits db_asleep)) = 1"
    "map ex_status (db_executions db_asleep) = [Waiting, Queued]"
    "map ex_status (map (\<lambda>e. if ex_status e = Waiting
        \<and> (\<exists>w \<in> set (db_waits db_asleep). pending_on ''k'' w \<and> wt_executionId w = ex_id e)
      then e\<lparr>ex_status := Queued, ex_updatedAt := db_now db_asleep\<rparr> else e) (db_executions db_asleep))
      = [Queued, Queued]" by code_simp+
  from signal_wakes_every_waiter [OF core_inv_samples(3) s] v s show ?thesis by simp
qed

end
