(* ===== verification/Interpreter.thy ===== *)
theory Interpreter
  imports Core_Claims
begin

text \<open>
  \<open>engine/\<close>: the dependency graph of a step (\<open>dependency-graph.ts\<close>), binding resolution
  (\<open>bindings.ts\<close>), claiming, completing and waiting (\<open>claim-complete.ts\<close>, \<open>wait.ts\<close>) and
  the interpreter that submits a run, promotes its steps and reads its result
  (\<open>interpreter.ts\<close>). Each function runs in the caller's transaction. Log calls are left out.
\<close>

subsection \<open>\<open>dependency-graph.ts\<close> and \<open>bindings.ts\<close>\<close>

definition computeStepDependencies :: "step \<Rightarrow> string list" where
  "computeStepDependencies s = js_dedup (collectStepReferenceIds s)"

lemma set_computeStepDependencies [simp]: "i \<in> set (computeStepDependencies s) \<longleftrightarrow> refers_to s i"
  by (simp add: computeStepDependencies_def collect_refers_to)

lemma computeStepDependencies_Nil: "computeStepDependencies s = [] \<longleftrightarrow> (\<forall>i. \<not> refers_to s i)"
  by (metis empty_iff last_in_set list.set(1) set_computeStepDependencies)

record binding_context =
  ctx_input :: js_object
  ctx_nodeOutputs :: "(string \<times> js_object) list"

definition resolveBinding :: "binding \<Rightarrow> binding_context \<Rightarrow> json option result" where
  "resolveBinding b ctx =
     (case b of
        LiteralBinding v \<Rightarrow> Inr (Some v)
      | ComputeBinding _ _ \<Rightarrow> Inl (FatalError ENGINE_BINDING_KIND_NOT_SUPPORTED)
      | RequestBinding param \<Rightarrow> Inr (js_get (ctx_input ctx) param)
      | StepBinding i out \<Rightarrow>
          (case map_of (ctx_nodeOutputs ctx) i of
             None \<Rightarrow> Inl (FatalError ENGINE_NODE_OUTPUT_MISSING)
           | Some output \<Rightarrow> Inr (js_get output out))
      | SessionBinding _ \<Rightarrow> Inl (FatalError ENGINE_BINDING_KIND_NOT_SUPPORTED)
      | StaticBinding _ \<Rightarrow> Inl (FatalError ENGINE_BINDING_KIND_NOT_SUPPORTED)
      | ItemBinding \<Rightarrow> Inl (FatalError ENGINE_BINDING_KIND_NOT_SUPPORTED)
      | ItemResourceBinding _ _ \<Rightarrow> Inl (FatalError ENGINE_BINDING_KIND_NOT_SUPPORTED))"

text \<open>\<open>Object.fromEntries(Object.entries(bs ?? {}).map(([k, b]) => [k, resolveBinding(b, ctx)]))\<close>\<close>

definition resolve_entries :: "binding_map option \<Rightarrow> binding_context \<Rightarrow> (string \<times> json option) list result" where
  "resolve_entries bs ctx =
     res_map (\<lambda>(k, b). res_bind (resolveBinding b ctx) (\<lambda>v. Inr (k, v))) (nullish bs [])"

subsection \<open>\<open>claim-complete.ts\<close> and \<open>wait.ts\<close>\<close>

definition claimExecution :: "string \<Rightarrow> int option \<Rightarrow> execution option core_tx" where
  "claimExecution worker lease = executions_claim worker lease"

definition completeExecution :: "nat \<Rightarrow> string \<Rightarrow> json \<Rightarrow> checkpoint core_tx" where
  "completeExecution eid sid out =
     tx_bind (checkpoints_insert eid sid out) (\<lambda>c.
     tx_then (executions_markDone eid) (tx_return c))"

definition waitFor :: "nat \<Rightarrow> string option \<Rightarrow> int option \<Rightarrow> wait core_tx" where
  "waitFor eid key wakeAt =
     tx_bind (waits_create eid key wakeAt) (\<lambda>w.
     tx_then (executions_markWaiting eid) (tx_return w))"

definition signalWait :: "string \<Rightarrow> wait list core_tx" where
  "signalWait key = waits_signal key"

subsection \<open>\<open>interpreter.ts\<close>\<close>

text \<open>\<open>seenIds\<close> is threaded through the \<open>map\<close> callback.\<close>

fun assert_plain :: "string list \<Rightarrow> node list \<Rightarrow> step list result" where
  "assert_plain seen [] = Inr []"
| "assert_plain seen (PlainStep s # ns) =
     (if step_id s \<in> set seen then Inl (FatalError ENGINE_DUPLICATE_NODE_ID)
      else res_bind (assert_plain (set_add (step_id s) seen) ns) (\<lambda>rest. Inr (s # rest)))"
| "assert_plain seen (BranchNode _ _ _ # ns) = Inl (FatalError ENGINE_UNSUPPORTED_NODE_KIND)"
| "assert_plain seen (MapNode _ _ _ _ # ns) = Inl (FatalError ENGINE_UNSUPPORTED_NODE_KIND)"

definition assertPlainSteps :: "workflow_spec \<Rightarrow> step list result" where
  "assertPlainSteps spec = assert_plain [] (spec_steps spec)"

definition findStepNode :: "step list \<Rightarrow> string \<Rightarrow> step result" where
  "findStepNode steps nid =
     (case List.find (\<lambda>s. step_id s = nid) steps of
        None \<Rightarrow> Inl (FatalError ENGINE_NODE_NOT_FOUND)
      | Some s \<Rightarrow> Inr s)"

definition run_session_label :: "workflow_run \<Rightarrow> string option \<Rightarrow> string" where
  "run_session_label run sid = nullish sid (''workflow-run:'' @ string_of_nat (run_id run))"

definition initial_status :: "step \<Rightarrow> execution_status" where
  "initial_status s = (if length (computeStepDependencies s) = 0 then Queued else Blocked)"

definition submitRun :: "workflow_spec \<Rightarrow> js_object \<Rightarrow> string option \<Rightarrow> workflow_run core_tx" where
  "submitRun spec inp sid =
     tx_bind (tx_lift (assertPlainSteps spec)) (\<lambda>steps.
     tx_bind (workflowRuns_create sid spec inp) (\<lambda>run.
       if length steps = 0
       then tx_then (workflowRuns_markDone (run_id run)) (tx_return (run\<lparr>run_status := RunDone\<rparr>))
       else tx_then
         (tx_for steps (\<lambda>st.
            tx_bind (executions_enqueueForRun (run_id run) (step_id st) (JObj [])
                       (initial_status st) (run_session_label run sid)) (\<lambda>_. tx_return ())))
         (tx_return run)))"

definition promoteReadyNodes :: "workflow_run \<Rightarrow> string list \<Rightarrow> unit core_tx" where
  "promoteReadyNodes run completedIds =
     tx_bind (tx_lift (assertPlainSteps (run_spec run))) (\<lambda>steps.
       tx_for steps (\<lambda>st.
         if step_id st \<in> set completedIds then tx_return ()
         else if list_all (\<lambda>i. i \<in> set completedIds) (computeStepDependencies st)
         then executions_promoteBlockedToQueued (run_id run) (step_id st)
         else tx_return ()))"

text \<open>The outputs already recorded for the given node ids.\<close>

definition recorded_outputs :: "core_db \<Rightarrow> nat \<Rightarrow> string list \<Rightarrow> (string \<times> js_object) list" where
  "recorded_outputs s rid ids =
     concat (map (\<lambda>i. case runNodeOutputs_find s (rid, i) of
                        None \<Rightarrow> [] | Some r \<Rightarrow> [(i, no_output r)]) ids)"

definition resolveStepReads :: "workflow_run \<Rightarrow> step \<Rightarrow> (string \<times> json option) list core_tx" where
  "resolveStepReads run st =
     tx_bind (tx_read (\<lambda>s. recorded_outputs s (run_id run) (computeStepDependencies st)))
       (\<lambda>outs. tx_lift (resolve_entries (step_reads st)
          \<lparr>ctx_input = run_input run, ctx_nodeOutputs = outs\<rparr>))"

definition completeStep :: "workflow_run \<Rightarrow> nat \<Rightarrow> string \<Rightarrow> js_object \<Rightarrow> unit core_tx" where
  "completeStep run eid nid out =
     tx_then (workflowRuns_lockForUpdate (run_id run))
    (tx_then (completeExecution eid nid (JObj out))
    (tx_then (runNodeOutputs_record (run_id run) nid out)
    (tx_bind (runNodeOutputs_listCompletedNodeIds (run_id run)) (\<lambda>completedIds.
     tx_then (promoteReadyNodes run completedIds)
    (tx_bind (tx_lift (assertPlainSteps (run_spec run))) (\<lambda>steps.
       if list_all (\<lambda>st. step_id st \<in> set completedIds) steps
       then workflowRuns_markDone (run_id run)
       else tx_return ()))))))"

definition findRunStepNode :: "workflow_run \<Rightarrow> string \<Rightarrow> step result" where
  "findRunStepNode run nid =
     res_bind (assertPlainSteps (run_spec run)) (\<lambda>steps. findStepNode steps nid)"

text \<open>The outputs are present only when the run is done.\<close>

definition getRunResult ::
  "workflow_run \<Rightarrow> (workflow_run_status \<times> (string \<times> json option) list option) core_tx" where
  "getRunResult run =
     tx_bind (workflowRuns_findById (run_id run)) (\<lambda>fresh.
       case fresh of
         None \<Rightarrow> tx_throw (FatalError ENGINE_RUN_NOT_FOUND)
       | Some r \<Rightarrow>
           if run_status r \<noteq> RunDone then tx_return (run_status r, None)
           else tx_bind (runNodeOutputs_listCompletedNodeIds (run_id r)) (\<lambda>completedIds.
                tx_bind (tx_read (\<lambda>s. recorded_outputs s (run_id r) completedIds)) (\<lambda>outs.
                tx_bind (tx_lift (resolve_entries (spec_outputs (run_spec r))
                           \<lparr>ctx_input = run_input r, ctx_nodeOutputs = outs\<rparr>)) (\<lambda>outputs.
                  tx_return (run_status r, Some outputs)))))"

end
