(* ===== verification/Run_Lifecycle.thy ===== *)
theory Run_Lifecycle
  imports Interpreter
begin

text \<open>
  How the operations of \<open>engine/\<close> and the failure path of \<open>apps/worker\<close> act on a workflow run,
  as one statement over the tables each, and the invariant of runs that all of them keep:
  one execution per step, none dispatched before its dependencies have their outputs.
\<close>

subsection \<open>Specs the interpreter accepts\<close>

lemma assert_plain_Inr:
  "assert_plain seen ns = Inr steps \<longleftrightarrow>
     ns = map PlainStep steps \<and> distinct (map step_id steps)
     \<and> set (map step_id steps) \<inter> set seen = {}"
proof (induction seen ns arbitrary: steps rule: assert_plain.induct)
  case (2 seen s ns)
  show ?case by (cases steps) (auto simp: res_bind_Inr 2)
qed auto

lemma assertPlainSteps_Inr:
  "assertPlainSteps spec = Inr steps \<longleftrightarrow>
     spec_steps spec = map PlainStep steps \<and> distinct (map step_id steps)"
  by (simp add: assertPlainSteps_def assert_plain_Inr)

lemma find_by_id:
  assumes "distinct (map step_id steps)" "st \<in> set steps"
  shows "List.find (\<lambda>s. step_id s = step_id st) steps = Some st"
  using assms by (induction steps) (auto simp: image_iff)

lemma findRunStepNode_eq:
  assumes "assertPlainSteps (run_spec run) = Inr steps" "st \<in> set steps"
  shows "findRunStepNode run (step_id st) = Inr st"
proof -
  have "distinct (map step_id steps)" using assms(1) by (simp add: assertPlainSteps_Inr)
  then show ?thesis using assms by (simp add: findRunStepNode_def findStepNode_def find_by_id)
qed

subsection \<open>Submission\<close>

definition new_execution ::
  "core_db \<Rightarrow> nat \<Rightarrow> string \<Rightarrow> nat \<Rightarrow> step \<Rightarrow> execution" where
  "new_execution s rid sid n st =
     \<lparr>ex_id = n, ex_sessionId = sid, ex_step = step_id st, ex_input = JObj [],
      ex_status = initial_status st, ex_workerId = None, ex_leaseUntil = None, ex_attempts = 0,
      ex_createdAt = db_now s, ex_updatedAt = db_now s, ex_runId = Some rid\<rparr>"

fun new_executions :: "core_db \<Rightarrow> nat \<Rightarrow> string \<Rightarrow> nat \<Rightarrow> step list \<Rightarrow> execution list" where
  "new_executions s rid sid n [] = []"
| "new_executions s rid sid n (st # sts) =
     new_execution s rid sid (Suc n) st # new_executions s rid sid (Suc n) sts"

lemma new_executions_cong:
  "db_now s = db_now t \<Longrightarrow> new_executions s rid sid n sts = new_executions t rid sid n sts"
  by (induction sts arbitrary: n) (simp_all add: new_execution_def)

lemma new_executions_columns [simp]:
  "map ex_step (new_executions s rid sid n sts) = map step_id sts"
  "map ex_runId (new_executions s rid sid n sts) = replicate (length sts) (Some rid)"
  by (induction sts arbitrary: n) (simp_all add: new_execution_def)

lemma new_executions_in:
  "e \<in> set (new_executions s rid sid n sts) \<Longrightarrow>
     ex_runId e = Some rid \<and> ex_attempts e = 0
     \<and> (\<exists>st \<in> set sts. ex_step e = step_id st \<and> ex_status e = initial_status st)"
  by (induction sts arbitrary: n) (auto simp: new_execution_def)

lemma enqueue_loop:
  assumes "rid \<in> set (map run_id (db_workflow_runs s))"
  shows "tx_for sts (\<lambda>st. tx_bind (executions_enqueueForRun rid (step_id st) (JObj [])
           (initial_status st) sid) (\<lambda>_. tx_return ())) s =
    (Inr (), s\<lparr>db_executions := db_executions s @ new_executions s rid sid (executions_id_seq s) sts,
               executions_id_seq := executions_id_seq s + length sts\<rparr>)"
  using assms
proof (induction sts arbitrary: s)
  case (Cons st sts)
  let ?s = "s\<lparr>db_executions := db_executions s @ [new_execution s rid sid (Suc (executions_id_seq s)) st],
              executions_id_seq := Suc (executions_id_seq s)\<rparr>"
  have "new_executions ?s rid sid n sts = new_executions s rid sid n sts" for n
    by (rule new_executions_cong) simp
  moreover have "rid \<in> set (map run_id (db_workflow_runs ?s))" using Cons.prems by simp
  ultimately show ?case
    using Cons.IH [of ?s] Cons.prems
    by (simp add: tx_simps executions_enqueueForRun_def insert_execution_def Let_def new_execution_def)
qed (simp add: tx_simps)

definition new_run :: "core_db \<Rightarrow> workflow_spec \<Rightarrow> js_object \<Rightarrow> string option \<Rightarrow> workflow_run" where
  "new_run s spec inp sid =
     \<lparr>run_id = Suc (workflow_runs_id_seq s), run_sessionId = sid, run_spec = spec, run_input = inp,
      run_status = RunRunning, run_createdAt = db_now s, run_updatedAt = db_now s\<rparr>"

lemma submitRun_eq:
  "submitRun spec inp sid s =
    (case assertPlainSteps spec of
       Inl e \<Rightarrow> (Inl e, s)
     | Inr [] \<Rightarrow> (Inr ((new_run s spec inp sid)\<lparr>run_status := RunDone\<rparr>),
         set_run_status (\<lambda>r. run_id r = Suc (workflow_runs_id_seq s) \<and> run_status r \<noteq> RunFailed) RunDone
           (s\<lparr>db_workflow_runs := db_workflow_runs s @ [new_run s spec inp sid],
              workflow_runs_id_seq := Suc (workflow_runs_id_seq s)\<rparr>))
     | Inr (st # sts) \<Rightarrow> (Inr (new_run s spec inp sid),
         s\<lparr>db_workflow_runs := db_workflow_runs s @ [new_run s spec inp sid],
           workflow_runs_id_seq := Suc (workflow_runs_id_seq s),
           db_executions := db_executions s
             @ new_executions s (Suc (workflow_runs_id_seq s)) (run_session_label (new_run s spec inp sid) sid)
                 (executions_id_seq s) (st # sts),
           executions_id_seq := executions_id_seq s + length (st # sts)\<rparr>))"
proof (cases "assertPlainSteps spec")
  case (Inr steps)
  let ?s = "s\<lparr>db_workflow_runs := db_workflow_runs s @ [new_run s spec inp sid],
              workflow_runs_id_seq := Suc (workflow_runs_id_seq s)\<rparr>"
  have create: "workflowRuns_create sid spec inp s = (Inr (new_run s spec inp sid), ?s)"
    by (simp add: workflowRuns_create_eq new_run_def Let_def)
  show ?thesis
  proof (cases steps)
    case Nil
    with Inr create show ?thesis
      by (simp add: submitRun_def tx_simps workflowRuns_markDone_def new_run_def)
  next
    case (Cons st sts)
    have "run_id (new_run s spec inp sid) = Suc (workflow_runs_id_seq s)" by (simp add: new_run_def)
    moreover from this have
      "run_id (new_run s spec inp sid) \<in> set (map run_id (db_workflow_runs ?s))" by simp
    moreover have "new_executions ?s rid l n xs = new_executions s rid l n xs" for rid l n xs
      by (rule new_executions_cong) simp
    ultimately show ?thesis
      using Inr Cons create by (simp add: submitRun_def tx_simps enqueue_loop del: tx_for.simps new_executions.simps)
  qed
qed (simp add: submitRun_def tx_simps)

subsection \<open>Completion\<close>

definition ready :: "string set \<Rightarrow> step \<Rightarrow> bool" where
  "ready C st \<longleftrightarrow> list_all (\<lambda>i. i \<in> C) (computeStepDependencies st)"

lemma ready_iff: "ready C st \<longleftrightarrow> (\<forall>i. refers_to st i \<longrightarrow> i \<in> C)"
  by (auto simp: ready_def list_all_iff)

lemma ready_mono: "ready C st \<Longrightarrow> C \<subseteq> D \<Longrightarrow> ready D st"
  by (auto simp: ready_iff)

lemma set_status_comp:
  "set_execution_status q st (set_execution_status p st s)
    = set_execution_status (\<lambda>e. p e \<or> q e) st s"
  unfolding set_execution_status_def by (simp add: sql_update_def)

definition promotable :: "nat \<Rightarrow> string set \<Rightarrow> step list \<Rightarrow> execution \<Rightarrow> bool" where
  "promotable rid C steps e \<longleftrightarrow>
     ex_runId e = Some rid \<and> ex_status e = Blocked
     \<and> (\<exists>st \<in> set steps. ex_step e = step_id st \<and> step_id st \<notin> C \<and> ready C st)"

lemma promote_loop:
  "tx_for steps (\<lambda>st.
     if step_id st \<in> C then tx_return ()
     else if list_all (\<lambda>i. i \<in> C) (computeStepDependencies st)
     then executions_promoteBlockedToQueued rid (step_id st)
     else tx_return ()) s
   = (Inr (), set_execution_status (promotable rid C steps) Queued s)"
proof (induction steps arbitrary: s)
  case Nil
  have "set_execution_status (promotable rid C []) Queued s = s"
    by (simp add: set_execution_status_def promotable_def sql_update_def)
  then show ?case by (simp add: tx_simps)
next
  case (Cons st steps)
  let ?p = "\<lambda>e. ex_runId e = Some rid \<and> ex_step e = step_id st \<and> ex_status e = Blocked"
  show ?case
  proof (cases "step_id st \<notin> C \<and> ready C st")
    case True
    have "promotable rid C (st # steps) = (\<lambda>e. ?p e \<or> promotable rid C steps e)"
      using True by (auto simp: promotable_def fun_eq_iff)
    then show ?thesis
      using True Cons.IH [of "set_execution_status ?p Queued s"]
      by (simp add: tx_simps ready_def executions_promoteBlockedToQueued_def set_status_comp)
  next
    case False
    then have "promotable rid C (st # steps) = promotable rid C steps"
      by (auto simp: promotable_def fun_eq_iff)
    with False Cons.IH [of s] show ?thesis by (auto simp: tx_simps ready_def)
  qed
qed

lemma promoteReadyNodes_eq:
  assumes "assertPlainSteps (run_spec run) = Inr steps"
  shows "promoteReadyNodes run ids s
    = (Inr (), set_execution_status (promotable (run_id run) (set ids) steps) Queued s)"
  using assms promote_loop [where C = "set ids"] by (simp add: promoteReadyNodes_def tx_simps)

definition completed :: "core_db \<Rightarrow> nat \<Rightarrow> string set" where
  "completed s rid = set (completed_ids s rid)"

lemma completed_cong: "db_run_node_outputs s = db_run_node_outputs t \<Longrightarrow> completed s rid = completed t rid"
  by (simp add: completed_def completed_ids_def)

lemma completed_update [simp]:
  "completed (set_execution_status p st s) rid = completed s rid"
  "completed (set_run_status z rst s) rid = completed s rid"
  by (rule completed_cong, simp)+

lemma completed_find: "nid \<in> completed s rid \<longleftrightarrow> runNodeOutputs_find s (rid, nid) \<noteq> None"
  by (force simp: completed_def completed_ids_def sql_select_def runNodeOutputs_find_None)

lemma checkpoint_stored:
  assumes "core_inv s" "eid \<in> set (map ex_id (db_executions s))"
  obtains c s' where "checkpoints_insert eid nid out s = (Inr c, s')" "core_inv s'"
    "db_executions s' = db_executions s" "db_workflow_runs s' = db_workflow_runs s"
    "db_run_node_outputs s' = db_run_node_outputs s"
proof (cases "checkpoints_insert eid nid out s")
  case (Pair x s')
  have "core_inv s'" by (rule core_inv_checkpoints_insert [OF assms(1) Pair])
  then show ?thesis using that assms(2) by (cases rule: checkpoints_insert_cases [OF Pair]) (use Pair in auto)
qed

lemma output_recorded:
  assumes "core_inv s" "rid \<in> set (map run_id (db_workflow_runs s))"
  obtains o' s' where "runNodeOutputs_record rid nid out s = (Inr o', s')" "core_inv s'"
    "db_executions s' = db_executions s" "db_workflow_runs s' = db_workflow_runs s"
    "completed s' rid = insert nid (completed s rid)"
    "\<And>k. k \<noteq> rid \<Longrightarrow> completed s' k = completed s k"
    "\<exists>o'. no_output o' = (case runNodeOutputs_find s (rid, nid) of None \<Rightarrow> out | Some x \<Rightarrow> no_output x)
       \<and> runNodeOutputs_find s' = (runNodeOutputs_find s)((rid, nid) \<mapsto> o')"
proof (cases "runNodeOutputs_record rid nid out s")
  case (Pair x s')
  have inv: "core_inv s'" by (rule core_inv_record [OF assms(1) Pair])
  have "completed s' rid = insert nid (completed s rid)" if "x = Inr o'" for o'
  proof (rule set_eqI)
    fix i
    show "i \<in> completed s' rid \<longleftrightarrow> i \<in> insert nid (completed s rid)"
      using that rno.put_look [of "(rid, nid)" out s] Pair
        rno.look_other [of "(rid, i)" "(rid, nid)" out s]
      by (cases "i = nid") (simp_all add: completed_find)
  qed
  moreover have "completed s' k = completed s k" if "k \<noteq> rid" for k
    using rno.look_other [of "(k, _)" "(rid, nid)" out s] that Pair by (auto simp: completed_find)
  moreover obtain o' where "x = Inr o'" "db_executions s' = db_executions s"
    "db_workflow_runs s' = db_workflow_runs s"
    using assms(2) by (cases rule: record_cases [OF Pair]) auto
  moreover from this have "runNodeOutputs_find s' k = ((runNodeOutputs_find s)((rid, nid) \<mapsto> o')) k" for k
    using rno.put_look [of "(rid, nid)" out s] rno.look_other [of k "(rid, nid)" out s] Pair by simp
  moreover have "no_output o' = (case runNodeOutputs_find s (rid, nid) of None \<Rightarrow> out | Some x \<Rightarrow> no_output x)"
    using rno.put_value [of "(rid, nid)" out s] Pair \<open>x = Inr o'\<close> by simp
  ultimately show ?thesis using that [of o' s'] inv Pair by blast
qed

lemma workflowRuns_lockForUpdate_eq:
  "core_inv s \<Longrightarrow> r \<in> set (db_workflow_runs s) \<Longrightarrow> workflowRuns_lockForUpdate (run_id r) s = (Inr r, s)"
  using find_run_eq [of s r]
  by (simp add: workflowRuns_lockForUpdate_def tx_simps row_or_throw_def find_run_def)

definition all_completed :: "string set \<Rightarrow> step list \<Rightarrow> bool" where
  "all_completed C steps \<longleftrightarrow> list_all (\<lambda>st. step_id st \<in> C) steps"

lemma completeStep_eq:
  assumes "core_inv s" "r \<in> set (db_workflow_runs s)" "eid \<in> set (map ex_id (db_executions s))"
    and run: "run_id run = run_id r" "run_spec run = run_spec r"
    and steps: "assertPlainSteps (run_spec r) = Inr steps"
  obtains s' where "completeStep run eid nid out s = (Inr (), s')" "core_inv s'"
    "completed s' (run_id r) = insert nid (completed s (run_id r))"
    "\<And>k. k \<noteq> run_id r \<Longrightarrow> completed s' k = completed s k"
    "db_executions s' = sql_update (promotable (run_id r) (completed s' (run_id r)) steps)
        (\<lambda>e. e\<lparr>ex_status := Queued, ex_updatedAt := db_now s'\<rparr>)
        (sql_update (\<lambda>e. ex_id e = eid) (\<lambda>e. e\<lparr>ex_status := Done, ex_updatedAt := db_now s'\<rparr>)
          (db_executions s))"
    "db_workflow_runs s' =
       (if all_completed (completed s' (run_id r)) steps
        then sql_update (\<lambda>x. run_id x = run_id r \<and> run_status x \<noteq> RunFailed)
               (\<lambda>x. x\<lparr>run_status := RunDone, run_updatedAt := db_now s'\<rparr>) (db_workflow_runs s)
        else db_workflow_runs s)"
    "\<exists>o'. no_output o' = (case runNodeOutputs_find s (run_id r, nid) of None \<Rightarrow> out | Some x \<Rightarrow> no_output x)
       \<and> runNodeOutputs_find s' = (runNodeOutputs_find s)((run_id r, nid) \<mapsto> o')"
proof -
  let ?rid = "run_id r"
  obtain c s1 where c: "checkpoints_insert eid nid (JObj out) s = (Inr c, s1)" "core_inv s1"
    "db_executions s1 = db_executions s" "db_workflow_runs s1 = db_workflow_runs s"
    "db_run_node_outputs s1 = db_run_node_outputs s" by (rule checkpoint_stored [OF assms(1,3)]) blast
  let ?s2 = "set_execution_status (\<lambda>e. ex_id e = eid) Done s1"
  have "?rid \<in> set (map run_id (db_workflow_runs ?s2))" using assms(2) c(4) by simp
  with c(2) obtain o' s3 where o': "runNodeOutputs_record ?rid nid out ?s2 = (Inr o', s3)" "core_inv s3"
    "db_executions s3 = db_executions ?s2" "db_workflow_runs s3 = db_workflow_runs ?s2"
    "completed s3 ?rid = insert nid (completed ?s2 ?rid)"
    "\<And>k. k \<noteq> ?rid \<Longrightarrow> completed s3 k = completed ?s2 k"
    "\<exists>o'. no_output o' = (case runNodeOutputs_find ?s2 (?rid, nid) of None \<Rightarrow> out | Some x \<Rightarrow> no_output x)
       \<and> runNodeOutputs_find s3 = (runNodeOutputs_find ?s2)((?rid, nid) \<mapsto> o')"
    using output_recorded [of ?s2 ?rid nid out] core_inv_set_execution_status by blast
  have now: "db_now s3 = db_now s1" using record_cases [OF o'(1)] by fastforce
  let ?C = "completed s3 ?rid"
  let ?s4 = "set_execution_status (promotable ?rid ?C steps) Queued s3"
  let ?s5 = "if all_completed ?C steps
    then set_run_status (\<lambda>x. run_id x = ?rid \<and> run_status x \<noteq> RunFailed) RunDone ?s4 else ?s4"
  have "completeStep run eid nid out s = (Inr (), ?s5)"
    using workflowRuns_lockForUpdate_eq [OF assms(1,2)] c(1) o'(1) steps run
    by (simp add: completeStep_def completeExecution_def executions_markDone_def tx_simps
        runNodeOutputs_listCompletedNodeIds_def promoteReadyNodes_eq workflowRuns_markDone_def
        all_completed_def flip: completed_def)
  moreover have "core_inv ?s5"
    using o'(2) by (simp add: core_inv_set_execution_status core_inv_set_run_status)
  moreover have C: "completed ?s5 k = completed s3 k" for k by simp
  moreover have "completed ?s2 k = completed s k" for k
    by simp (rule completed_cong [OF c(5)])
  moreover have "db_now ?s5 = db_now s1" using now by simp
  moreover have "runNodeOutputs_find ?s2 = runNodeOutputs_find s"
    "runNodeOutputs_find ?s5 = runNodeOutputs_find s3"
    using c(5) by (simp_all add: runNodeOutputs_find_def fun_eq_iff)
  moreover have "db_executions ?s5 = sql_update (promotable ?rid ?C steps)
        (\<lambda>e. e\<lparr>ex_status := Queued, ex_updatedAt := db_now s1\<rparr>)
        (sql_update (\<lambda>e. ex_id e = eid) (\<lambda>e. e\<lparr>ex_status := Done, ex_updatedAt := db_now s1\<rparr>)
          (db_executions s))"
    using o'(3) c(3) now by (simp add: db_executions_set_status)
  moreover have "db_workflow_runs ?s5 =
       (if all_completed ?C steps
        then sql_update (\<lambda>x. run_id x = ?rid \<and> run_status x \<noteq> RunFailed)
               (\<lambda>x. x\<lparr>run_status := RunDone, run_updatedAt := db_now s1\<rparr>) (db_workflow_runs s)
        else db_workflow_runs s)"
    using o'(4) c(4) now by (simp add: db_workflow_runs_set_status)
  ultimately show ?thesis
    using o'(5-7) by (intro that [of ?s5]) (simp_all only: C simp_thms)
qed

end
