(* ===== verification/Run_Invariant.thy ===== *)
theory Run_Invariant
  imports Run_Lifecycle
begin

text \<open>
  The states that the engine's operations can reach, as an inductive step relation in which
  each step is one committed transaction of a client or of a worker, and the invariant of
  workflow runs in all of them.
\<close>

subsection \<open>The failure path\<close>

text \<open>\<open>failRun\<close> of \<open>apps/worker/worker-loop.ts\<close>.\<close>

definition failRun :: "nat \<Rightarrow> nat \<Rightarrow> unit core_tx" where
  "failRun rid eid =
     tx_then (workflowRuns_markFailed rid)
    (tx_then (executions_markFailed eid)
             (executions_failRemainingForRun rid))"

definition fails_with_run :: "nat \<Rightarrow> nat \<Rightarrow> execution \<Rightarrow> bool" where
  "fails_with_run rid eid e \<longleftrightarrow>
     ex_id e = eid \<or> ex_runId e = Some rid \<and> ex_status e \<in> {Blocked, Queued, Waiting}"

lemma failRun_eq:
  "failRun rid eid s =
     (Inr (), set_execution_status (fails_with_run rid eid) Failed
                (set_run_status (\<lambda>r. run_id r = rid) RunFailed s))"
  unfolding failRun_def workflowRuns_markFailed_def executions_markFailed_def
    executions_failRemainingForRun_def fails_with_run_def
  by (simp only: tx_simps prod.case sum.case set_status_comp)

subsection \<open>What holds of a run\<close>

definition run_execs :: "core_db \<Rightarrow> nat \<Rightarrow> execution list" where
  "run_execs s rid = sql_select (\<lambda>e. ex_runId e = Some rid) (db_executions s)"

text \<open>
  An execution of step \<open>st\<close> when the steps in \<open>C\<close> have recorded outputs: blocked means that a
  dependency is missing and nobody has claimed it; any other live status, and any attempt
  ever made, means that all dependencies are there; done means its output is recorded; an
  output is only ever recorded by somebody who claimed it; failed means the run failed.
\<close>

definition exec_ok :: "string set \<Rightarrow> step \<Rightarrow> workflow_run_status \<Rightarrow> execution \<Rightarrow> bool" where
  "exec_ok C st rs e \<longleftrightarrow>
     (ex_status e = Blocked \<longrightarrow> \<not> ready C st \<and> ex_attempts e = 0)
     \<and> (ex_status e \<notin> {Blocked, Failed} \<or> 0 < ex_attempts e \<longrightarrow> ready C st)
     \<and> (ex_status e = Done \<longrightarrow> step_id st \<in> C)
     \<and> (step_id st \<in> C \<longrightarrow> 0 < ex_attempts e)
     \<and> (ex_status e = Failed \<longrightarrow> rs = RunFailed)"

definition run_status_ok :: "string set \<Rightarrow> step list \<Rightarrow> workflow_run_status \<Rightarrow> bool" where
  "run_status_ok C steps rs \<longleftrightarrow>
     (rs = RunDone \<longrightarrow> all_completed C steps) \<and> (rs = RunRunning \<longrightarrow> \<not> all_completed C steps)"

definition run_ok_steps :: "core_db \<Rightarrow> workflow_run \<Rightarrow> step list \<Rightarrow> bool" where
  "run_ok_steps s r steps \<longleftrightarrow>
     map ex_step (run_execs s (run_id r)) = map step_id steps
     \<and> completed s (run_id r) \<subseteq> set (map step_id steps)
     \<and> (\<forall>st \<in> set steps. \<forall>e \<in> set (run_execs s (run_id r)).
          ex_step e = step_id st \<longrightarrow> exec_ok (completed s (run_id r)) st (run_status r) e)
     \<and> run_status_ok (completed s (run_id r)) steps (run_status r)"

definition run_ok :: "core_db \<Rightarrow> workflow_run \<Rightarrow> bool" where
  "run_ok s r \<longleftrightarrow>
     (case assertPlainSteps (run_spec r) of Inl e \<Rightarrow> False | Inr steps \<Rightarrow> run_ok_steps s r steps)"

definition engine_inv :: "core_db \<Rightarrow> bool" where
  "engine_inv s \<longleftrightarrow> core_inv s \<and> list_all (run_ok s) (db_workflow_runs s)"

lemma engine_inv_core: "engine_inv s \<Longrightarrow> core_inv s"
  by (simp add: engine_inv_def)

lemma run_okE:
  assumes "run_ok s r"
  obtains steps where "assertPlainSteps (run_spec r) = Inr steps" "run_ok_steps s r steps"
  using assms by (auto simp: run_ok_def split: sum.splits)

lemma engine_inv_run:
  assumes "engine_inv s" "r \<in> set (db_workflow_runs s)"
  obtains steps where "assertPlainSteps (run_spec r) = Inr steps" "run_ok_steps s r steps"
  using assms run_okE [of s r] by (auto simp: engine_inv_def list_all_iff)

text \<open>
  How the invariant of a run is carried over an \<open>UPDATE\<close> of its executions: the columns that
  identify an execution stay, and each execution of the run is well-formed afterwards.
\<close>

lemma run_ok_mapI:
  assumes ok: "run_ok s r" and r': "run_id r' = run_id r" "run_spec r' = run_spec r"
    and es: "db_executions s' = map f (db_executions s)"
    and f: "\<And>e. ex_step (f e) = ex_step e" "\<And>e. ex_runId (f e) = ex_runId e"
    and upd: "\<And>steps. assertPlainSteps (run_spec r) = Inr steps \<Longrightarrow> run_ok_steps s r steps \<Longrightarrow>
        completed s' (run_id r) \<subseteq> set (map step_id steps)
        \<and> run_status_ok (completed s' (run_id r)) steps (run_status r')
        \<and> (\<forall>st \<in> set steps. \<forall>e \<in> set (db_executions s). ex_runId e = Some (run_id r) \<longrightarrow>
             ex_step e = step_id st \<longrightarrow> exec_ok (completed s (run_id r)) st (run_status r) e \<longrightarrow>
             exec_ok (completed s' (run_id r)) st (run_status r') (f e))"
  shows "run_ok s' r'"
proof -
  from ok obtain steps where steps: "assertPlainSteps (run_spec r) = Inr steps"
    and s: "run_ok_steps s r steps" by (rule run_okE)
  have execs: "run_execs s' i = map f (run_execs s i)" for i
    by (simp add: run_execs_def sql_select_def es filter_map o_def f(2))
  have "map ex_step (run_execs s' (run_id r)) = map step_id steps"
    using s by (simp add: execs run_ok_steps_def o_def f(1) del: map_map)
      (simp add: o_def f(1))
  moreover have "exec_ok (completed s' (run_id r)) st (run_status r') e'"
    if "st \<in> set steps" "e' \<in> set (run_execs s' (run_id r))" "ex_step e' = step_id st" for st e'
  proof -
    from that(2) obtain e where e: "e \<in> set (run_execs s (run_id r))" "e' = f e" by (auto simp: execs)
    with that s f(1) have "exec_ok (completed s (run_id r)) st (run_status r) e"
      by (simp add: run_ok_steps_def)
    with upd [OF steps s] e that f(1) show ?thesis by (simp add: run_execs_def table_simps)
  qed
  ultimately show ?thesis
    using steps r' upd [OF steps s] by (simp add: run_ok_def run_ok_steps_def)
qed

lemma run_ok_same:
  assumes "run_ok s r" "db_executions s' = map f (db_executions s)"
    and "completed s' (run_id r) = completed s (run_id r)"
    and "\<And>e. ex_step (f e) = ex_step e" "\<And>e. ex_runId (f e) = ex_runId e"
    and "\<And>C st e. e \<in> set (db_executions s) \<Longrightarrow> ex_runId e = Some (run_id r) \<Longrightarrow>
           exec_ok C st (run_status r) e \<Longrightarrow> exec_ok C st (run_status r) (f e)"
  shows "run_ok s' r"
  by (rule run_ok_mapI [OF assms(1) refl refl assms(2,4,5)])
    (use assms(3,6) in \<open>auto simp: run_ok_steps_def\<close>)

text \<open>The usual case: an \<open>UPDATE\<close> of executions that leaves the other tables alone.\<close>

lemma engine_inv_update:
  assumes inv: "engine_inv s" and core: "core_inv s'"
    and es: "db_executions s' = sql_update p f (db_executions s)"
    and runs: "db_workflow_runs s' = db_workflow_runs s"
    and outs: "db_run_node_outputs s' = db_run_node_outputs s"
    and f: "\<And>e. ex_step (f e) = ex_step e" "\<And>e. ex_runId (f e) = ex_runId e"
    and ok: "\<And>C st rs e. e \<in> set (db_executions s) \<Longrightarrow> p e \<Longrightarrow> ex_runId e \<noteq> None \<Longrightarrow>
        exec_ok C st rs e \<Longrightarrow> exec_ok C st rs (f e)"
  shows "engine_inv s'"
proof -
  have "run_ok s' r" if "run_ok s r" for r
  proof (rule run_ok_same [OF that, where f = "\<lambda>e. if p e then f e else e"])
    show "completed s' (run_id r) = completed s (run_id r)" by (rule completed_cong [OF outs])
  qed (use es f ok in \<open>auto simp: sql_update_def\<close>)
  with inv core runs show ?thesis by (auto simp: engine_inv_def list_all_iff)
qed

subsection \<open>The steps of the system\<close>

text \<open>
  One step is one committed transaction. A client completes, waits for or fails an execution
  that was claimed; the run it passes may have been read earlier, so only its id and its spec
  agree with the table. \<open>elsewhere\<close> is everything that touches none of the engine's tables:
  the clock, row locks of other transactions, sessions, placement.
\<close>

definition engine_tables_same :: "core_db \<Rightarrow> core_db \<Rightarrow> bool" where
  "engine_tables_same s s' \<longleftrightarrow>
     db_executions s' = db_executions s \<and> db_checkpoints s' = db_checkpoints s
     \<and> db_waits s' = db_waits s \<and> db_workflow_runs s' = db_workflow_runs s
     \<and> db_run_node_outputs s' = db_run_node_outputs s
     \<and> executions_id_seq s' = executions_id_seq s \<and> waits_id_seq s' = waits_id_seq s
     \<and> workflow_runs_id_seq s' = workflow_runs_id_seq s"

definition claimed_once :: "core_db \<Rightarrow> execution \<Rightarrow> bool" where
  "claimed_once s e \<longleftrightarrow> e \<in> set (db_executions s) \<and> 0 < ex_attempts e"

definition run_of :: "core_db \<Rightarrow> execution \<Rightarrow> workflow_run \<Rightarrow> bool" where
  "run_of s e run \<longleftrightarrow> ex_runId e = Some (run_id run)
     \<and> list_ex (\<lambda>r. run_id r = run_id run \<and> run_spec r = run_spec run) (db_workflow_runs s)"

inductive engine_step :: "core_db \<Rightarrow> core_db \<Rightarrow> bool" where
  submit: "submitRun spec inp sid s = (Inr run, s') \<Longrightarrow> engine_step s s'"
| enqueue: "executions_enqueue sid stp jsn s = (Inr e, s') \<Longrightarrow> engine_step s s'"
| claim: "claimExecution w lease s = (Inr x, s') \<Longrightarrow> engine_step s s'"
| complete: "claimed_once s e \<Longrightarrow> run_of s e run \<Longrightarrow>
    completeStep run (ex_id e) (ex_step e) out s = (Inr (), s') \<Longrightarrow> engine_step s s'"
| fail: "claimed_once s e \<Longrightarrow> run_of s e run \<Longrightarrow>
    failRun (run_id run) (ex_id e) s = (Inr (), s') \<Longrightarrow> engine_step s s'"
| sleep: "claimed_once s e \<Longrightarrow> waitFor (ex_id e) key wakeAt s = (Inr w, s') \<Longrightarrow> engine_step s s'"
| signal: "signalWait key s = (Inr ws, s') \<Longrightarrow> engine_step s s'"
| elsewhere: "engine_tables_same s s' \<Longrightarrow> engine_step s s'"

definition engine_init :: "core_db \<Rightarrow> bool" where
  "engine_init s \<longleftrightarrow> db_executions s = [] \<and> db_checkpoints s = [] \<and> db_waits s = []
     \<and> db_workflow_runs s = [] \<and> db_run_node_outputs s = []"

inductive engine_reachable :: "core_db \<Rightarrow> bool" where
  init: "engine_init s \<Longrightarrow> engine_reachable s"
| step: "engine_reachable s \<Longrightarrow> engine_step s s' \<Longrightarrow> engine_reachable s'"

subsection \<open>Every operation keeps the invariant\<close>

lemma engine_inv_init: "engine_init s \<Longrightarrow> engine_inv s"
  by (simp add: engine_inv_def engine_init_def core_inv_def serial_ids_def)

lemma engine_inv_elsewhere:
  assumes "engine_inv s" "engine_tables_same s s'"
  shows "engine_inv s'"
proof (rule engine_inv_update [OF assms(1), where p = "\<lambda>_. False" and f = id])
  show "core_inv s'"
    using assms engine_inv_core [OF assms(1)] by (simp add: core_inv_def engine_tables_same_def)
qed (use assms(2) in \<open>auto simp: engine_tables_same_def sql_update_def\<close>)

lemma engine_inv_claim:
  assumes inv: "engine_inv s" and c: "claimExecution w lease s = (r, s')"
  shows "engine_inv s'"
proof -
  from c have c': "claim_execution w (nullish lease DEFAULT_LEASE_SECONDS) s = (r, s')"
    by (simp add: claimExecution_def executions_claim_def)
  have core: "core_inv s'" by (rule core_inv_claim [OF engine_inv_core [OF inv] c'])
  from engine_inv_core [OF inv] c' show ?thesis
  proof (cases rule: claim_execution_cases)
    case idle
    with inv show ?thesis by simp
  next
    case (claimed v)
    have same: "e = v" if "e \<in> set (db_executions s)" "ex_id e = ex_id v" for e
      using that claimed(1) by (intro key_uniqueD [OF core_inv_keys(1) [OF engine_inv_core [OF inv]]])
    have live: "ex_status v \<notin> {Blocked, Failed, Done}"
      using claimed(2) by (auto simp: claims_before_def claimable_def)
    show ?thesis
      by (rule engine_inv_update [OF inv core, where p = "\<lambda>e. ex_id e = ex_id v"
            and f = "claimed_row w (nullish lease DEFAULT_LEASE_SECONDS) (db_now s)"])
        (use claimed(4) same live in \<open>auto simp: exec_ok_def\<close>)
  qed
qed

lemma engine_inv_signal:
  assumes inv: "engine_inv s" and w: "signalWait key s = (r, s')"
  shows "engine_inv s'"
proof (rule engine_inv_update [OF inv])
  note core = engine_inv_core [OF inv]
  from w have w': "waits_signal key s = (r, s')" by (simp add: signalWait_def)
  show "core_inv s'" by (rule core_inv_signal [OF core w'])
  show "db_executions s' = sql_update
      (\<lambda>e. ex_status e = Waiting \<and> (\<exists>w \<in> set (db_waits s). pending_on key w \<and> wt_executionId w = ex_id e))
      (\<lambda>e. e\<lparr>ex_status := Queued, ex_updatedAt := db_now s\<rparr>) (db_executions s)"
    and "db_workflow_runs s' = db_workflow_runs s" "db_run_node_outputs s' = db_run_node_outputs s"
    using w' by (auto simp: waits_signal_eq [OF core] satisfy_waits_def split: if_splits)
qed (auto simp: exec_ok_def)

lemma waitFor_eq:
  "waitFor eid key wakeAt s =
     (case wait_rejection s eid key wakeAt of
        Some e \<Rightarrow> (Inl e, s)
      | None \<Rightarrow> (Inr (new_wait s eid key wakeAt),
          set_execution_status (\<lambda>e. ex_id e = eid) Waiting
            (s\<lparr>db_waits := db_waits s @ [new_wait s eid key wakeAt],
               waits_id_seq := Suc (waits_id_seq s)\<rparr>)))"
  by (simp add: waitFor_def tx_simps waits_create_eq executions_markWaiting_def split: option.split)

lemma engine_inv_waitFor:
  assumes inv: "engine_inv s" and e: "claimed_once s e"
    and w: "waitFor (ex_id e) key wakeAt s = (Inr x, s')"
  shows "engine_inv s'"
proof (rule engine_inv_update [OF inv])
  note core = engine_inv_core [OF inv]
  let ?t = "s\<lparr>db_waits := db_waits s @ [new_wait s (ex_id e) key wakeAt],
               waits_id_seq := Suc (waits_id_seq s)\<rparr>"
  from w have ok: "wait_rejection s (ex_id e) key wakeAt = None"
    and s': "s' = set_execution_status (\<lambda>u. ex_id u = ex_id e) Waiting ?t"
    by (auto simp: waitFor_eq split: option.splits)
  have "waits_create (ex_id e) key wakeAt s = (Inr (new_wait s (ex_id e) key wakeAt), ?t)"
    using ok by (simp add: waits_create_eq)
  from core_inv_waits_create [OF core this] show "core_inv s'"
    unfolding s' by (rule core_inv_set_execution_status)
  show "db_executions s' = sql_update (\<lambda>u. ex_id u = ex_id e)
      (\<lambda>e. e\<lparr>ex_status := Waiting, ex_updatedAt := db_now s\<rparr>) (db_executions s)"
    and "db_workflow_runs s' = db_workflow_runs s" "db_run_node_outputs s' = db_run_node_outputs s"
    unfolding s' by (simp_all add: db_executions_set_status)
  show "exec_ok C st rs (u\<lparr>ex_status := Waiting, ex_updatedAt := db_now s\<rparr>)"
    if "u \<in> set (db_executions s)" "ex_id u = ex_id e" "exec_ok C st rs u" for C st rs u
  proof -
    have "u = e" using that(1,2) e key_uniqueD [OF core_inv_keys(1) [OF core]]
      by (auto simp: claimed_once_def)
    with that(3) e show ?thesis by (auto simp: exec_ok_def claimed_once_def)
  qed
qed simp_all

lemma run_of_find:
  assumes "core_inv s" "run_of s e run"
  obtains r where "r \<in> set (db_workflow_runs s)" "run_id r = run_id run" "run_spec r = run_spec run"
    "ex_runId e = Some (run_id r)"
  using assms by (auto simp: run_of_def list_ex_iff)

lemma exec_ok_mono_status: "exec_ok C st rs e \<Longrightarrow> rs' = rs \<or> rs' = RunFailed \<Longrightarrow> exec_ok C st rs' e"
  by (auto simp: exec_ok_def)

text \<open>A row of an execution, or of a run, once the run \<open>rid\<close> is failed because of \<open>eid\<close>.\<close>

abbreviation fail_row :: "nat \<Rightarrow> nat \<Rightarrow> int \<Rightarrow> execution \<Rightarrow> execution" where
  "fail_row rid eid now x \<equiv>
     (if fails_with_run rid eid x then x\<lparr>ex_status := Failed, ex_updatedAt := now\<rparr> else x)"

abbreviation fail_run_row :: "nat \<Rightarrow> int \<Rightarrow> workflow_run \<Rightarrow> workflow_run" where
  "fail_run_row rid now r \<equiv>
     (if run_id r = rid then r\<lparr>run_status := RunFailed, run_updatedAt := now\<rparr> else r)"

lemma failed_run_ok:
  assumes ok: "run_ok s r" and es: "db_executions t = map (fail_row rid eid now) (db_executions s)"
    and comp: "\<And>k. completed t k = completed s k"
    and own: "\<And>x. x \<in> set (db_executions s) \<Longrightarrow> fails_with_run rid eid x \<Longrightarrow> ex_runId x = Some rid"
  shows "run_ok t (fail_run_row rid now r)"
proof (rule run_ok_mapI [OF ok _ _ es])
  let ?r = "fail_run_row rid now r"
  show "run_id ?r = run_id r" "run_spec ?r = run_spec r" by simp_all
  show "completed t (run_id r) \<subseteq> set (map step_id steps)
      \<and> run_status_ok (completed t (run_id r)) steps (run_status ?r)
      \<and> (\<forall>st \<in> set steps. \<forall>x \<in> set (db_executions s). ex_runId x = Some (run_id r) \<longrightarrow>
           ex_step x = step_id st \<longrightarrow> exec_ok (completed s (run_id r)) st (run_status r) x \<longrightarrow>
           exec_ok (completed t (run_id r)) st (run_status ?r) (fail_row rid eid now x))"
    if "run_ok_steps s r steps" for steps
  proof (intro conjI ballI impI)
    fix st x
    assume x: "x \<in> set (db_executions s)" "ex_runId x = Some (run_id r)"
      "exec_ok (completed s (run_id r)) st (run_status r) x"
    from x(2) own [OF x(1)] have "fails_with_run rid eid x \<Longrightarrow> run_status ?r = RunFailed" by simp
    moreover from x(3) have "exec_ok (completed s (run_id r)) st (run_status ?r) x"
      by (rule exec_ok_mono_status) simp
    ultimately show "exec_ok (completed t (run_id r)) st (run_status ?r) (fail_row rid eid now x)"
      by (auto simp: comp exec_ok_def)
  qed (use that in \<open>auto simp: comp run_ok_steps_def run_status_ok_def\<close>)
qed simp_all

lemma engine_inv_failRun:
  assumes inv: "engine_inv s" and e: "e \<in> set (db_executions s)" and run: "run_of s e run"
    and f: "failRun (run_id run) (ex_id e) s = (r, s')"
  shows "engine_inv s'"
proof -
  note core = engine_inv_core [OF inv]
  let ?rid = "run_id run"
  from f have s': "s' = set_execution_status (fails_with_run ?rid (ex_id e)) Failed
      (set_run_status (\<lambda>x. run_id x = ?rid) RunFailed s)"
    by (simp add: failRun_eq)
  have core': "core_inv s'"
    unfolding s' by (intro core_inv_set_execution_status core_inv_set_run_status core)
  have "ex_runId x = Some ?rid" if "x \<in> set (db_executions s)" "fails_with_run ?rid (ex_id e) x" for x
    using that run e key_uniqueD [OF core_inv_keys(1) [OF core]]
    by (auto simp: fails_with_run_def run_of_def)
  moreover have "db_executions s' = map (fail_row ?rid (ex_id e) (db_now s)) (db_executions s)"
    unfolding s' by (simp add: db_executions_set_status sql_update_def set_run_status_def)
  moreover have "completed s' k = completed s k" for k unfolding s' by simp
  ultimately have all: "run_ok s' (fail_run_row ?rid (db_now s) r)" if "r \<in> set (db_workflow_runs s)" for r
    using inv that by (intro failed_run_ok) (auto simp: engine_inv_def list_all_iff)
  have "db_workflow_runs s' = map (fail_run_row ?rid (db_now s)) (db_workflow_runs s)"
    unfolding s' by (simp add: db_workflow_runs_set_status sql_update_def)
  then show ?thesis
    unfolding engine_inv_def list_all_iff by (simp only: set_map ball_simps) (blast intro: core' all)
qed

lemma run_execs_unknown:
  assumes "core_inv s" "rid \<notin> set (map run_id (db_workflow_runs s))"
  shows "run_execs s rid = []" "completed s rid = {}"
proof -
  have "Some rid \<notin> set (map ex_runId (db_executions s))" "rid \<notin> set (map no_runId (db_run_node_outputs s))"
    using assms by (auto simp: core_inv_def)
  then show "run_execs s rid = []" "completed s rid = {}"
    by (force simp: run_execs_def completed_def completed_ids_def sql_select_def filter_empty_conv)+
qed

lemma run_ok_append:
  assumes "run_ok s r" "db_executions s' = db_executions s @ es"
    and "completed s' (run_id r) = completed s (run_id r)"
    and "\<And>e. e \<in> set es \<Longrightarrow> ex_runId e \<noteq> Some (run_id r)"
  shows "run_ok s' r"
proof -
  have "run_execs s' (run_id r) = run_execs s (run_id r)"
    using assms(2,4) by (simp add: run_execs_def sql_select_def)
  with assms(1,3) show ?thesis by (simp add: run_ok_def run_ok_steps_def split: sum.splits)
qed

lemma engine_inv_enqueue:
  assumes inv: "engine_inv s" and e: "executions_enqueue sid stp jsn s = (Inr e, s')"
  shows "engine_inv s'"
proof -
  obtain es where ins: "insert_execution sid stp jsn Queued None s = (Inr es, s')"
    using e by (auto simp: executions_enqueue_def tx_simps insert_execution_def Let_def)
  have core': "core_inv s'" by (rule core_inv_insert_execution [OF engine_inv_core [OF inv] ins]) simp
  have "db_workflow_runs s' = db_workflow_runs s" "db_run_node_outputs s' = db_run_node_outputs s"
    "\<exists>x. db_executions s' = db_executions s @ [x] \<and> ex_runId x = None"
    using ins by (auto simp: insert_execution_def Let_def)
  then obtain x where x: "db_executions s' = db_executions s @ [x]" "ex_runId x = None"
    "db_workflow_runs s' = db_workflow_runs s" "db_run_node_outputs s' = db_run_node_outputs s" by blast
  have "run_ok s' r" if "run_ok s r" for r
    by (rule run_ok_append [OF that x(1) completed_cong [OF x(4)]]) (simp add: x(2))
  with inv core' x(3) show ?thesis by (simp add: engine_inv_def list_all_iff)
qed

lemma new_run_ok:
  assumes steps: "assertPlainSteps (run_spec r) = Inr steps"
    and execs: "run_execs s (run_id r) = new_executions t rid sid n steps"
    and none: "completed s (run_id r) = {}"
    and rs: "run_status r = (if steps = [] then RunDone else RunRunning)"
  shows "run_ok s r"
proof -
  have dist: "distinct (map step_id steps)" using steps by (simp add: assertPlainSteps_Inr)
  have "exec_ok {} st (run_status r) e"
    if "st \<in> set steps" "e \<in> set (new_executions t rid sid n steps)" "ex_step e = step_id st" for st e
  proof -
    from new_executions_in [OF that(2)] obtain st' where st': "st' \<in> set steps" "ex_step e = step_id st'"
      "ex_status e = initial_status st'" "ex_attempts e = 0" by blast
    with that(1,3) dist have "st' = st" by (auto simp: distinct_map dest: inj_onD)
    with st' show ?thesis
      by (auto simp: exec_ok_def initial_status_def ready_iff computeStepDependencies_Nil split: if_splits)
  qed
  then show ?thesis
    using steps execs none rs
    by (auto simp: run_ok_def run_ok_steps_def run_status_ok_def all_completed_def list_all_iff)
qed

lemma serial_new_executions:
  "serial_ids ids n \<Longrightarrow> serial_ids (ids @ map ex_id (new_executions s rid sid n sts)) (n + length sts)"
proof (induction sts arbitrary: ids n)
  case (Cons st sts)
  from Cons.IH [OF serial_ids_next [OF Cons.prems]] show ?case by (simp add: new_execution_def)
qed simp

lemma core_inv_submit:
  assumes "core_inv s" "submitRun spec inp sid s = (Inr run, s')"
  shows "core_inv s'"
proof -
  let ?row = "new_run s spec inp sid"
  let ?t = "s\<lparr>db_workflow_runs := db_workflow_runs s @ [?row],
               workflow_runs_id_seq := Suc (workflow_runs_id_seq s)\<rparr>"
  have "workflowRuns_create sid spec inp s = (Inr ?row, ?t)"
    by (simp add: workflowRuns_create_eq new_run_def Let_def)
  from core_inv_create_run [OF assms(1) this] have t: "core_inv ?t" .
  from assms(2) obtain steps where steps: "assertPlainSteps spec = Inr steps"
    by (auto simp: submitRun_eq split: sum.splits list.splits)
  show ?thesis
  proof (cases steps)
    case Nil
    with assms(2) steps t show ?thesis by (auto simp: submitRun_eq intro: core_inv_set_run_status)
  next
    case (Cons st sts)
    let ?es = "new_executions s (Suc (workflow_runs_id_seq s)) (run_session_label ?row sid)
        (executions_id_seq s) (st # sts)"
    have s': "s' = ?t\<lparr>db_executions := db_executions ?t @ ?es,
        executions_id_seq := executions_id_seq ?t + length (st # sts)\<rparr>"
      using assms(2) steps Cons by (auto simp: submitRun_eq simp del: new_executions.simps)
    have "serial_ids (map ex_id (db_executions ?t @ ?es)) (executions_id_seq ?t + length (st # sts))"
      using t serial_new_executions [of "map ex_id (db_executions s)" "executions_id_seq s" s
          "Suc (workflow_runs_id_seq s)" "run_session_label ?row sid" "st # sts"]
      by (simp add: core_inv_def del: new_executions.simps)
    moreover have "set (map ex_runId ?es) \<subseteq> {Some (Suc (workflow_runs_id_seq s))}"
      by (simp only: new_executions_columns set_replicate_conv_if) simp
    moreover have "Suc (workflow_runs_id_seq s) \<in> set (map run_id (db_workflow_runs ?t))"
      by (simp add: new_run_def)
    ultimately show ?thesis
      using t unfolding s' core_inv_def by (auto simp del: new_executions.simps)
  qed
qed

text \<open>What a submission adds: one run, and its executions.\<close>

lemma submitRun_rows:
  assumes core: "core_inv s" and sub: "submitRun spec inp sid s = (Inr run, s')"
    and steps: "assertPlainSteps spec = Inr steps"
  obtains r' where "db_workflow_runs s' = db_workflow_runs s @ [r']"
    "run_id r' = Suc (workflow_runs_id_seq s)" "run_spec r' = spec"
    "run_status r' = (if steps = [] then RunDone else RunRunning)"
    "db_executions s' = db_executions s @ new_executions s (Suc (workflow_runs_id_seq s))
       (run_session_label (new_run s spec inp sid) sid) (executions_id_seq s) steps"
    "db_run_node_outputs s' = db_run_node_outputs s"
proof (cases steps)
  case Nil
  have "r \<in> set (db_workflow_runs s) \<Longrightarrow> run_id r \<noteq> Suc (workflow_runs_id_seq s)" for r
    using core by (force simp: core_inv_def serial_ids_def)
  then have "db_workflow_runs s' = db_workflow_runs s
      @ [(new_run s spec inp sid)\<lparr>run_status := RunDone, run_updatedAt := db_now s\<rparr>]"
    using sub steps Nil
    by (auto simp: submitRun_eq db_workflow_runs_set_status sql_update_def new_run_def intro!: map_idI)
  with that sub steps Nil show ?thesis by (auto simp: submitRun_eq new_run_def)
next
  case (Cons st sts)
  with that sub steps show ?thesis
    by (auto simp: submitRun_eq new_run_def simp del: new_executions.simps)
qed

lemma engine_inv_submit:
  assumes inv: "engine_inv s" and sub: "submitRun spec inp sid s = (Inr run, s')"
  shows "engine_inv s'"
proof -
  note core = engine_inv_core [OF inv]
  let ?rid = "Suc (workflow_runs_id_seq s)"
  have fresh: "?rid \<notin> set (map run_id (db_workflow_runs s))"
    using core by (auto simp: core_inv_def serial_ids_def)
  then have ne: "r \<in> set (db_workflow_runs s) \<Longrightarrow> run_id r \<noteq> ?rid" for r
    by (metis (no_types) image_eqI set_map)
  from sub obtain steps where steps: "assertPlainSteps spec = Inr steps"
    by (auto simp: submitRun_eq split: sum.splits list.splits)
  obtain r' where r': "db_workflow_runs s' = db_workflow_runs s @ [r']" "run_id r' = ?rid"
    "run_spec r' = spec" "run_status r' = (if steps = [] then RunDone else RunRunning)"
    and es: "db_executions s' = db_executions s
        @ new_executions s ?rid (run_session_label (new_run s spec inp sid) sid) (executions_id_seq s) steps"
    and outs: "db_run_node_outputs s' = db_run_node_outputs s"
    by (rule submitRun_rows [OF core sub steps])
  have old: "run_ok s' r" if "r \<in> set (db_workflow_runs s)" for r
  proof (rule run_ok_append [OF _ es completed_cong [OF outs]])
    show "run_ok s r" using inv that by (simp add: engine_inv_def list_all_iff)
    have "run_id r \<noteq> ?rid" using that by (rule ne)
    then show "ex_runId e \<noteq> Some (run_id r)" if "e \<in> set (new_executions s ?rid l n steps)" for e l n
      using new_executions_in [OF that] by simp
  qed
  have "run_execs s' ?rid = new_executions s ?rid (run_session_label (new_run s spec inp sid) sid)
      (executions_id_seq s) steps"
    using run_execs_unknown(1) [OF core fresh] new_executions_in
    by (auto simp: run_execs_def es sql_select_append) (auto simp: sql_select_def intro!: filter_True)
  moreover have "completed s' ?rid = {}"
    using run_execs_unknown(2) [OF core fresh] completed_cong [OF outs] by simp
  ultimately have "run_ok s' r'"
    using steps r' by (intro new_run_ok [of r' steps]) auto
  with old core_inv_submit [OF core sub] show ?thesis
    by (simp add: engine_inv_def list_all_iff r'(1))
qed

text \<open>
  The executions after a completion of \<open>eid\<close>: its row is done, and the blocked rows whose
  step has become ready are queued.
\<close>

definition completed_row :: "nat \<Rightarrow> nat \<Rightarrow> string set \<Rightarrow> step list \<Rightarrow> int \<Rightarrow> execution \<Rightarrow> execution" where
  "completed_row rid eid C steps now u =
     (if ex_id u = eid then u\<lparr>ex_status := Done, ex_updatedAt := now\<rparr>
      else if promotable rid C steps u then u\<lparr>ex_status := Queued, ex_updatedAt := now\<rparr> else u)"

lemma completed_row_sel [simp]:
  "ex_step (completed_row rid eid C steps now u) = ex_step u"
  "ex_runId (completed_row rid eid C steps now u) = ex_runId u"
  by (simp_all add: completed_row_def)

lemma completed_rows:
  "sql_update (promotable rid C steps) (\<lambda>e. e\<lparr>ex_status := Queued, ex_updatedAt := now\<rparr>)
     (sql_update (\<lambda>u. ex_id u = eid) (\<lambda>e. e\<lparr>ex_status := Done, ex_updatedAt := now\<rparr>) es)
   = map (completed_row rid eid C steps now) es"
  by (auto simp: sql_update_def completed_row_def promotable_def)

lemma exec_ok_completed_row:
  assumes "distinct (map step_id steps)" "st \<in> set steps" "ex_step u = step_id st"
    and "ex_runId u = Some rid" "exec_ok C st rs u"
    and "ex_id u = eid \<Longrightarrow> 0 < ex_attempts u" "ex_id u = eid \<longleftrightarrow> step_id st = nid"
  shows "exec_ok (insert nid C) st rs (completed_row rid eid (insert nid C) steps now u)"
proof (cases "ex_id u = eid")
  case True
  with assms show ?thesis by (auto simp: exec_ok_def completed_row_def intro: ready_mono)
next
  case False
  have "promotable rid (insert nid C) steps u \<longleftrightarrow>
      ex_status u = Blocked \<and> step_id st \<notin> insert nid C \<and> ready (insert nid C) st"
    using assms(1-4) by (auto simp: promotable_def distinct_map dest: inj_onD)
  with False assms(5,7) ready_mono [of C st "insert nid C"] show ?thesis
    by (auto simp: exec_ok_def completed_row_def)
qed

lemma run_ok_one_exec:
  assumes "assertPlainSteps (run_spec r) = Inr steps" "run_ok_steps s r steps"
    and "u \<in> set (db_executions s)" "ex_runId u = Some (run_id r)"
    and "v \<in> set (db_executions s)" "ex_runId v = Some (run_id r)" "ex_step u = ex_step v"
  shows "u = v"
proof -
  have "distinct (map ex_step (run_execs s (run_id r)))"
    using assms(1,2) by (simp add: run_ok_steps_def assertPlainSteps_Inr)
  moreover have "u \<in> set (run_execs s (run_id r))" "v \<in> set (run_execs s (run_id r))"
    using assms(3-6) by (simp_all add: run_execs_def table_simps)
  ultimately show ?thesis using assms(7) by (auto simp: distinct_map dest: inj_onD)
qed

lemma run_ok_exec_step:
  assumes "run_ok_steps s r steps" "u \<in> set (db_executions s)" "ex_runId u = Some (run_id r)"
  obtains st where "st \<in> set steps" "ex_step u = step_id st"
    "exec_ok (completed s (run_id r)) st (run_status r) u"
proof -
  have u: "u \<in> set (run_execs s (run_id r))" using assms(2,3) by (simp add: run_execs_def table_simps)
  then have "ex_step u \<in> set (map step_id steps)"
    using assms(1) unfolding run_ok_steps_def by (metis image_eqI image_set)
  then obtain st where "st \<in> set steps" "ex_step u = step_id st" by auto
  with assms(1) u that show ?thesis by (simp add: run_ok_steps_def)
qed

lemma completed_run_ok:
  assumes core: "core_inv s" and ok: "run_ok s r" and e: "claimed_once s e" "ex_runId e = Some (run_id r)"
    and es: "db_executions t = map (completed_row (run_id r) (ex_id e) (completed t (run_id r)) steps now)
        (db_executions s)"
    and C: "completed t (run_id r) = insert (ex_step e) (completed s (run_id r))"
    and steps: "assertPlainSteps (run_spec r) = Inr steps"
    and r': "run_id r' = run_id r" "run_spec r' = run_spec r" "run_status r' =
        (if all_completed (completed t (run_id r)) steps \<and> run_status r \<noteq> RunFailed then RunDone
         else run_status r)"
  shows "run_ok t r'"
proof (rule run_ok_mapI [OF ok r'(1,2) es])
  let ?C' = "completed t (run_id r)"
  fix steps'
  assume "assertPlainSteps (run_spec r) = Inr steps'" and s: "run_ok_steps s r steps'"
  then have same: "steps' = steps" using steps by simp
  have dist: "distinct (map step_id steps)" using steps by (simp add: assertPlainSteps_Inr)
  have e_in: "e \<in> set (db_executions s)" "0 < ex_attempts e" using e(1) by (simp_all add: claimed_once_def)
  have "exec_ok ?C' st (run_status r') (completed_row (run_id r) (ex_id e) ?C' steps now u)"
    if u: "st \<in> set steps" "u \<in> set (db_executions s)" "ex_runId u = Some (run_id r)"
      "ex_step u = step_id st" "exec_ok (completed s (run_id r)) st (run_status r) u" for st u
  proof -
    have "u = e" if "ex_id u = ex_id e"
      using that u(2) e_in(1) by (intro key_uniqueD [OF core_inv_keys(1) [OF core]])
    moreover have "u = e" if "step_id st = ex_step e"
      using that u(2-4) e_in(1) e(2) s same steps by (intro run_ok_one_exec) auto
    moreover have "exec_ok (completed s (run_id r)) st (run_status r') u"
      using u(5) r'(3) by (auto simp: exec_ok_def split: if_splits)
    ultimately show ?thesis
      unfolding C using u e_in(2) dist by (intro exec_ok_completed_row) auto
  qed
  moreover have "ex_step e \<in> set (map step_id steps)"
    using run_ok_exec_step [OF s e_in(1) e(2)] same by (metis image_eqI set_map)
  then have "?C' \<subseteq> set (map step_id steps)"
    using s same C by (simp add: run_ok_steps_def)
  moreover have "run_status_ok ?C' steps (run_status r')"
    using s same C r'(3) by (auto simp: run_ok_steps_def run_status_ok_def all_completed_def list_all_iff)
  ultimately show "?C' \<subseteq> set (map step_id steps') \<and> run_status_ok ?C' steps' (run_status r')
      \<and> (\<forall>st \<in> set steps'. \<forall>u \<in> set (db_executions s). ex_runId u = Some (run_id r) \<longrightarrow>
           ex_step u = step_id st \<longrightarrow> exec_ok (completed s (run_id r)) st (run_status r) u \<longrightarrow>
           exec_ok ?C' st (run_status r') (completed_row (run_id r) (ex_id e) ?C' steps now u))"
    unfolding same by blast
qed simp_all

text \<open>Completing a step of one run changes nothing that another run's consistency reads.\<close>

lemma completed_other_run_ok:
  assumes "run_ok s r'" "run_id r' \<noteq> rid" "core_inv s" "claimed_once s e" "ex_runId e = Some rid"
    and "db_executions t = map (completed_row rid (ex_id e) C steps now) (db_executions s)"
    and "completed t (run_id r') = completed s (run_id r')"
  shows "run_ok t r'"
proof (rule run_ok_same [OF assms(1,6,7)])
  fix D st u
  assume u: "u \<in> set (db_executions s)" "ex_runId u = Some (run_id r')" "exec_ok D st (run_status r') u"
  moreover have "ex_id u \<noteq> ex_id e"
    using u(1,2) assms(2,4,5) key_uniqueD [OF core_inv_keys(1) [OF assms(3)], of u e]
    by (auto simp: claimed_once_def)
  ultimately show "exec_ok D st (run_status r') (completed_row rid (ex_id e) C steps now u)"
    using assms(2) by (auto simp: completed_row_def promotable_def)
qed simp_all

lemma engine_inv_complete:
  assumes inv: "engine_inv s" and e: "claimed_once s e" and run: "run_of s e run"
    and c: "completeStep run (ex_id e) (ex_step e) out s = (x, s')"
  shows "engine_inv s'" "x = Inr ()"
proof -
  note core = engine_inv_core [OF inv]
  obtain r where r: "r \<in> set (db_workflow_runs s)" "run_id r = run_id run" "run_spec r = run_spec run"
    "ex_runId e = Some (run_id r)" by (rule run_of_find [OF core run])
  obtain steps where steps: "assertPlainSteps (run_spec r) = Inr steps" by (rule engine_inv_run [OF inv r(1)])
  have eid: "ex_id e \<in> set (map ex_id (db_executions s))" using e by (simp add: claimed_once_def)
  obtain t where t: "completeStep run (ex_id e) (ex_step e) out s = (Inr (), t)" "core_inv t"
    "completed t (run_id r) = insert (ex_step e) (completed s (run_id r))"
    "\<And>k. k \<noteq> run_id r \<Longrightarrow> completed t k = completed s k"
    "db_executions t = map (completed_row (run_id r) (ex_id e) (completed t (run_id r)) steps (db_now t))
        (db_executions s)"
    "db_workflow_runs t =
       (if all_completed (completed t (run_id r)) steps
        then sql_update (\<lambda>x. run_id x = run_id r \<and> run_status x \<noteq> RunFailed)
               (\<lambda>x. x\<lparr>run_status := RunDone, run_updatedAt := db_now t\<rparr>) (db_workflow_runs s)
        else db_workflow_runs s)"
    by (rule completeStep_eq [OF core r(1) eid r(2,3) [symmetric] steps, of "ex_step e" out,
          unfolded completed_rows], rule that; assumption)
  let ?all = "all_completed (completed t (run_id r)) steps"
  let ?upd = "\<lambda>x. if ?all \<and> run_id x = run_id r \<and> run_status x \<noteq> RunFailed
      then x\<lparr>run_status := RunDone, run_updatedAt := db_now t\<rparr> else x"
  have "run_ok t (?upd r')" if r': "r' \<in> set (db_workflow_runs s)" for r'
  proof (cases "run_id r' = run_id r")
    case True
    then have "r' = r" using r(1) r' by (intro key_uniqueD [OF core_inv_keys(3) [OF core]])
    moreover have "run_ok s r" using inv r(1) by (simp add: engine_inv_def list_all_iff)
    then have "run_ok t (?upd r)"
      by (rule completed_run_ok [OF core _ e r(4) t(5,3) steps]) simp_all
    ultimately show ?thesis by (auto split: if_splits)
  next
    case False
    have "run_ok s r'" using inv r' by (simp add: engine_inv_def list_all_iff)
    then have "run_ok t r'" by (rule completed_other_run_ok [OF _ False core e r(4) t(5) t(4) [OF False]])
    with False show ?thesis by simp
  qed
  moreover have "db_workflow_runs t = map ?upd (db_workflow_runs s)" using t(6) by (simp add: sql_update_def)
  ultimately have "engine_inv t"
    using t(2) unfolding engine_inv_def list_all_iff by (simp only: set_map ball_simps) blast
  with c t(1) show "engine_inv s'" "x = Inr ()" by simp_all
qed

lemma engine_inv_step: "engine_step s s' \<Longrightarrow> engine_inv s \<Longrightarrow> engine_inv s'"
proof (induction rule: engine_step.induct)
  case (fail s e run s')
  then show ?case using engine_inv_failRun claimed_once_def by blast
qed (blast intro: engine_inv_submit engine_inv_enqueue engine_inv_claim engine_inv_complete
    engine_inv_waitFor engine_inv_signal engine_inv_elsewhere)+

lemma engine_reachable_inv: "engine_reachable s \<Longrightarrow> engine_inv s"
  by (induction rule: engine_reachable.induct) (auto intro: engine_inv_init engine_inv_step)

end
