(* ===== verification/Samples.thy ===== *)
theory Samples
  imports Run_Invariant
begin

text \<open>
  A small workflow of two steps, and the states of a database in which it is submitted, its
  first step claimed and completed: the concrete inputs on which the properties are applied.
\<close>

definition plain_step :: "string \<Rightarrow> string list option \<Rightarrow> binding_map option \<Rightarrow> step" where
  "plain_step i deps reads =
     \<lparr>step_id = i, step_service = ''svc@sha256:1'', step_function = ''f'', step_dependsOn = deps,
      step_reads = reads, step_writes = None, step_secrets = None\<rparr>"

definition spec_of :: "step list \<Rightarrow> binding_map option \<Rightarrow> workflow_spec" where
  "spec_of steps outs =
     \<lparr>spec_version = 1, spec_name = ''sample'', spec_description = None,
      spec_inputParameters = Some [''x''], spec_sessionState = None,
      spec_steps = map PlainStep steps, spec_outputs = outs\<rparr>"

definition step_a :: step where
  "step_a = plain_step ''a'' None (Some [(''in'', RequestBinding ''x'')])"

definition step_b :: step where
  "step_b = plain_step ''b'' None (Some [(''prev'', StepBinding ''a'' ''y'')])"

definition two_steps :: workflow_spec where
  "two_steps = spec_of [step_a, step_b] (Some [(''result'', StepBinding ''b'' ''z'')])"

definition db_submitted :: core_db where
  "db_submitted = snd (submitRun two_steps [(''x'', JStr ''v'')] None empty_db)"

definition db_claimed :: core_db where
  "db_claimed = snd (claimExecution ''w1'' None db_submitted)"

definition the_run :: workflow_run where
  "the_run = hd (db_workflow_runs db_submitted)"

definition db_half :: core_db where
  "db_half = snd (completeStep the_run 1 ''a'' [(''y'', JBool True)] db_claimed)"

definition db_b_claimed :: core_db where
  "db_b_claimed = snd (claimExecution ''w2'' None db_half)"

definition db_done :: core_db where
  "db_done = snd (completeStep the_run 2 ''b'' [(''z'', JStr ''end'')] db_b_claimed)"

definition exec_a :: execution where
  "exec_a = db_executions db_claimed ! 0"

definition exec_b :: execution where
  "exec_b = db_executions db_b_claimed ! 1"

definition ok_tx :: "('s, 'e, 'a) tx \<Rightarrow> 's \<Rightarrow> bool" where
  "ok_tx m s \<longleftrightarrow> (case fst (m s) of Inl _ \<Rightarrow> False | Inr _ \<Rightarrow> True)"

lemma ok_txD: "ok_tx m s \<Longrightarrow> \<exists>a. m s = (Inr a, snd (m s))"
  by (cases "m s") (auto simp: ok_tx_def split: sum.splits)

lemma ok_tx_unit: "ok_tx m s \<Longrightarrow> m s = (Inr (), snd (m s))"
  by (cases "m s") (auto simp: ok_tx_def split: sum.splits)

lemma sample_txs:
  "ok_tx (submitRun two_steps [(''x'', JStr ''v'')] None) empty_db"
  "ok_tx (claimExecution ''w1'' None) db_submitted"
  "ok_tx (completeStep the_run 1 ''a'' [(''y'', JBool True)]) db_claimed"
  "ok_tx (claimExecution ''w2'' None) db_half"
  "ok_tx (completeStep the_run 2 ''b'' [(''z'', JStr ''end'')]) db_b_claimed"
  by code_simp+

lemma sample_execs:
  "exec_a \<in> set (db_executions db_claimed)" "0 < ex_attempts exec_a" "run_of db_claimed exec_a the_run"
  "exec_b \<in> set (db_executions db_b_claimed)" "0 < ex_attempts exec_b" "run_of db_b_claimed exec_b the_run"
  "ex_id exec_a = 1" "ex_step exec_a = ''a''" "ex_id exec_b = 2" "ex_step exec_b = ''b''"
  by code_simp+

lemma sample_steps:
  "engine_step empty_db db_submitted" "engine_step db_submitted db_claimed"
  "engine_step db_claimed db_half" "engine_step db_half db_b_claimed" "engine_step db_b_claimed db_done"
proof -
  show "engine_step empty_db db_submitted"
    using ok_txD [OF sample_txs(1)] by (auto simp: db_submitted_def intro: engine_step.submit)
  show "engine_step db_submitted db_claimed"
    using ok_txD [OF sample_txs(2)] by (auto simp: db_claimed_def intro: engine_step.claim)
  show "engine_step db_half db_b_claimed"
    using ok_txD [OF sample_txs(4)] by (auto simp: db_b_claimed_def intro: engine_step.claim)
  show "engine_step db_claimed db_half"
    by (rule engine_step.complete [of _ exec_a the_run "[(''y'', JBool True)]"])
      (use sample_execs ok_tx_unit [OF sample_txs(3)] in \<open>simp_all add: claimed_once_def db_half_def\<close>)
  show "engine_step db_b_claimed db_done"
    by (rule engine_step.complete [of _ exec_b the_run "[(''z'', JStr ''end'')]"])
      (use sample_execs ok_tx_unit [OF sample_txs(5)] in \<open>simp_all add: claimed_once_def db_done_def\<close>)
qed

lemma sample_reachable:
  "engine_reachable empty_db" "engine_reachable db_submitted" "engine_reachable db_claimed"
  "engine_reachable db_half" "engine_reachable db_b_claimed" "engine_reachable db_done"
proof -
  show 0: "engine_reachable empty_db"
    by (rule engine_reachable.init) (simp add: engine_init_def empty_db_def)
  show 1: "engine_reachable db_submitted" by (rule engine_reachable.step [OF 0 sample_steps(1)])
  show 2: "engine_reachable db_claimed" by (rule engine_reachable.step [OF 1 sample_steps(2)])
  show 3: "engine_reachable db_half" by (rule engine_reachable.step [OF 2 sample_steps(3)])
  show 4: "engine_reachable db_b_claimed" by (rule engine_reachable.step [OF 3 sample_steps(4)])
  show "engine_reachable db_done" by (rule engine_reachable.step [OF 4 sample_steps(5)])
qed

text \<open>A step that depends on itself: submitted, its run stays as it is.\<close>

definition self_step :: step where
  "self_step = plain_step ''c'' (Some [''c'']) None"

definition db_circle :: core_db where
  "db_circle = snd (submitRun (spec_of [self_step] None) [] None empty_db)"

lemma circle_reachable: "engine_reachable db_circle"
proof -
  have "ok_tx (submitRun (spec_of [self_step] None) [] None) empty_db" by code_simp
  from ok_txD [OF this] have "engine_step empty_db db_circle"
    by (auto simp: db_circle_def intro: engine_step.submit)
  with sample_reachable(1) show ?thesis by (rule engine_reachable.step)
qed

end
