(* ===== verification/Node_Walk.thy ===== *)
theory Node_Walk
  imports Workflow_Spec
begin

text \<open>
  \<open>dsl-compiler/node-walk.ts\<close>: the traversal shared by the semantic and the registry
  checks. A visitor is a record of callbacks that update an accumulator; a callback the
  caller did not supply leaves it alone. The lemmas at the end say what the traversal
  does without any callback: it visits the flat list of visits \<open>node_visits\<close>, in order.
\<close>

type_synonym scope_path = "string list"

record 'a node_visitor =
  onStep :: "step \<Rightarrow> scope_path \<Rightarrow> 'a \<Rightarrow> 'a"
  onBranch :: "string \<Rightarrow> binding \<Rightarrow> (string \<times> case_body) list \<Rightarrow> scope_path \<Rightarrow> 'a \<Rightarrow> 'a"
  onCaseWalked :: "string \<Rightarrow> string \<Rightarrow> case_body \<Rightarrow> scope_path \<Rightarrow> 'a \<Rightarrow> 'a"
  onMap :: "string \<Rightarrow> binding \<Rightarrow> node list \<Rightarrow> binding_map option \<Rightarrow> scope_path \<Rightarrow> 'a \<Rightarrow> 'a"
  onBodyWalked :: "string \<Rightarrow> binding_map option \<Rightarrow> scope_path \<Rightarrow> 'a \<Rightarrow> 'a"

text \<open>The visitor none of whose callbacks is supplied.\<close>

definition empty_visitor :: "'a node_visitor" where
  "empty_visitor = \<lparr>onStep = \<lambda>_ _ a. a, onBranch = \<lambda>_ _ _ _ a. a,
     onCaseWalked = \<lambda>_ _ _ _ a. a, onMap = \<lambda>_ _ _ _ _ a. a, onBodyWalked = \<lambda>_ _ _ a. a\<rparr>"

definition case_scope :: "scope_path \<Rightarrow> string \<Rightarrow> string \<Rightarrow> scope_path" where
  "case_scope scope i k = scope @ [''branch:'' @ i, ''case:'' @ k]"

definition body_scope :: "scope_path \<Rightarrow> string \<Rightarrow> scope_path" where
  "body_scope scope i = scope @ [''map:'' @ i]"

fun walkNodes :: "node list \<Rightarrow> scope_path \<Rightarrow> 'a node_visitor \<Rightarrow> 'a \<Rightarrow> 'a"
  and walkNode :: "node \<Rightarrow> scope_path \<Rightarrow> 'a node_visitor \<Rightarrow> 'a \<Rightarrow> 'a"
  and walkCases ::
    "string \<Rightarrow> (string \<times> case_body) list \<Rightarrow> scope_path \<Rightarrow> 'a node_visitor \<Rightarrow> 'a \<Rightarrow> 'a"
where
  "walkNodes [] scope v a = a"
| "walkNodes (n # ns) scope v a = walkNodes ns scope v (walkNode n scope v a)"
| "walkNode (PlainStep s) scope v a = onStep v s scope a"
| "walkNode (BranchNode i sel cases) scope v a =
     walkCases i cases scope v (onBranch v i sel cases scope a)"
| "walkNode (MapNode i src body ys) scope v a =
     onBodyWalked v i ys (body_scope scope i)
       (walkNodes body (body_scope scope i) v (onMap v i src body ys scope a))"
| "walkCases i [] scope v a = a"
| "walkCases i ((k, CaseBody steps ys) # cs) scope v a =
     walkCases i cs scope v
       (onCaseWalked v i k (CaseBody steps ys) (case_scope scope i k)
         (walkNodes steps (case_scope scope i k) v a))"

subsection \<open>The traversal as a flat list of visits\<close>

datatype visit =
    VStep step scope_path
  | VBranch string binding "(string \<times> case_body) list" scope_path
  | VCaseWalked string string case_body scope_path
  | VMap string binding "node list" "binding_map option" scope_path
  | VBodyWalked string "binding_map option" scope_path

fun node_visits :: "node list \<Rightarrow> scope_path \<Rightarrow> visit list"
  and visits_of :: "node \<Rightarrow> scope_path \<Rightarrow> visit list"
  and case_visits :: "string \<Rightarrow> (string \<times> case_body) list \<Rightarrow> scope_path \<Rightarrow> visit list"
where
  "node_visits [] scope = []"
| "node_visits (n # ns) scope = visits_of n scope @ node_visits ns scope"
| "visits_of (PlainStep s) scope = [VStep s scope]"
| "visits_of (BranchNode i sel cases) scope =
     VBranch i sel cases scope # case_visits i cases scope"
| "visits_of (MapNode i src body ys) scope =
     VMap i src body ys scope # node_visits body (body_scope scope i)
     @ [VBodyWalked i ys (body_scope scope i)]"
| "case_visits i [] scope = []"
| "case_visits i ((k, CaseBody steps ys) # cs) scope =
     node_visits steps (case_scope scope i k)
     @ VCaseWalked i k (CaseBody steps ys) (case_scope scope i k) # case_visits i cs scope"

fun run_visit :: "'a node_visitor \<Rightarrow> visit \<Rightarrow> 'a \<Rightarrow> 'a" where
  "run_visit v (VStep s scope) = onStep v s scope"
| "run_visit v (VBranch i sel cases scope) = onBranch v i sel cases scope"
| "run_visit v (VCaseWalked i k c scope) = onCaseWalked v i k c scope"
| "run_visit v (VMap i src body ys scope) = onMap v i src body ys scope"
| "run_visit v (VBodyWalked i ys scope) = onBodyWalked v i ys scope"

text \<open>Walking is running the callbacks over the visits, first to last.\<close>

lemma walk_fold:
  "walkNodes ns scope v a = fold (run_visit v) (node_visits ns scope) a"
  "walkNode n scope v a = fold (run_visit v) (visits_of n scope) a"
  "walkCases i cs scope v a = fold (run_visit v) (case_visits i cs scope) a"
  by (induction ns scope v a and n scope v a and i cs scope v a
      rule: walkNodes_walkNode_walkCases.induct) simp_all

subsection \<open>The steps of a document\<close>

fun visit_step :: "visit \<Rightarrow> step list" where
  "visit_step (VStep s _) = [s]"
| "visit_step _ = []"

text \<open>A step occurs in a list of nodes, at any depth of nesting.\<close>

inductive occurs_in :: "step \<Rightarrow> node list \<Rightarrow> bool" where
  occurs_here: "PlainStep s \<in> set ns \<Longrightarrow> occurs_in s ns"
| occurs_case: "BranchNode i sel cases \<in> set ns \<Longrightarrow> (k, CaseBody steps ys) \<in> set cases \<Longrightarrow>
    occurs_in s steps \<Longrightarrow> occurs_in s ns"
| occurs_body: "MapNode i src body ys \<in> set ns \<Longrightarrow> occurs_in s body \<Longrightarrow> occurs_in s ns"

lemma visits_subset:
  "n \<in> set ns \<Longrightarrow> set (visits_of n scope) \<subseteq> set (node_visits ns scope)"
  by (induction ns) auto

lemma case_visits_subset:
  "(k, CaseBody steps ys) \<in> set cs \<Longrightarrow>
     set (node_visits steps (case_scope scope i k)) \<subseteq> set (case_visits i cs scope)"
proof (induction cs)
  case (Cons c cs)
  obtain k' steps' ys' where "c = (k', CaseBody steps' ys')"
    by (metis case_body.exhaust prod.exhaust)
  with Cons show ?case by auto
qed simp

lemma occurs_visited: "occurs_in s ns \<Longrightarrow> \<exists>sc. VStep s sc \<in> set (node_visits ns scope)"
proof (induction arbitrary: scope rule: occurs_in.induct)
  case (occurs_here s ns)
  then show ?case using visits_subset by fastforce
next
  case (occurs_case i sel cases ns k steps ys s)
  from occurs_case.IH obtain sc where
    "VStep s sc \<in> set (node_visits steps (case_scope scope i k))" by blast
  moreover have "set (case_visits i cases scope) \<subseteq> set (node_visits ns scope)"
    using visits_subset [OF occurs_case.hyps(1), of scope] by simp
  ultimately show ?case
    using case_visits_subset [OF occurs_case.hyps(2), of scope i] by blast
next
  case (occurs_body i src body ys ns s)
  from occurs_body.IH obtain sc where
    "VStep s sc \<in> set (node_visits body (body_scope scope i))" by blast
  then show ?case using visits_subset [OF occurs_body.hyps(1), of scope] by auto
qed

lemma visited_occurs:
  "VStep s sc \<in> set (node_visits ns scope) \<Longrightarrow> occurs_in s ns"
  "VStep s sc \<in> set (visits_of n scope) \<Longrightarrow> occurs_in s [n]"
  "VStep s sc \<in> set (case_visits i cs scope) \<Longrightarrow>
     \<exists>k steps ys. (k, CaseBody steps ys) \<in> set cs \<and> occurs_in s steps"
proof (induction ns scope and n scope and i cs scope
    rule: node_visits_visits_of_case_visits.induct)
  case (2 n ns scope)
  have mono: "occurs_in s ms \<Longrightarrow> set ms \<subseteq> set ns' \<Longrightarrow> occurs_in s ns'" for ms ns'
    by (induction rule: occurs_in.induct) (auto intro: occurs_in.intros)
  from 2 mono [of "[n]" "n # ns"] mono [of ns "n # ns"] show ?case by auto
next
  case (4 i sel cases scope)
  then obtain k steps ys where "(k, CaseBody steps ys) \<in> set cases" "occurs_in s steps"
    by auto
  then show ?case by (auto intro: occurs_case)
next
  case (5 i src body ys scope)
  then show ?case by (auto intro: occurs_body)
next
  case (7 i k steps ys cs scope)
  then show ?case by (auto; blast)
qed (auto intro: occurs_here)

end
