(* ===== verification/Semantic_Validation.thy ===== *)
theory Semantic_Validation
  imports Node_Walk "HOL-Library.Sublist"
begin

text \<open>
  \<open>dsl-compiler/semantic-validation.ts\<close>: step ids are unique in the whole document, every
  reference names an existing id, and no reference reaches into a branch case or a map
  body it is not part of. The lemmas replace the visitor's bookkeeping by two lists read
  off the visits of the document (its definitions and its reference sites), and then the
  list of errors by the three rules themselves.
\<close>

subsection \<open>Errors (\<open>domain/compile-result.ts\<close>, \<open>constants.ts\<close>)\<close>

datatype compile_error_code =
    restricted_yaml_violation
  | schema_invalid
  | duplicate_step_id
  | unresolved_step_reference
  | internal_step_id_referenced_externally
  | unknown_service_digest
  | unknown_service_function

record compile_error =
  err_code :: compile_error_code
  err_path :: string
  err_message :: string

subsection \<open>The walk\<close>

record reference_site =
  siteId :: string
  siteScope :: scope_path
  targetId :: string

text \<open>\<open>isVisible(targetScope, siteScope)\<close>.\<close>

definition isVisible :: "scope_path \<Rightarrow> scope_path \<Rightarrow> bool" where
  "isVisible tgt site =
     (if length tgt > length site then False
      else list_all (\<lambda>i. site ! i = tgt ! i) [0..<length tgt])"

definition walkBindingForStepRefs ::
  "binding option \<Rightarrow> string \<Rightarrow> scope_path \<Rightarrow> reference_site list \<Rightarrow> reference_site list" where
  "walkBindingForStepRefs b sid scope out =
     (case b of None \<Rightarrow> out
      | Some b \<Rightarrow> fold (\<lambda>t out. out @ [\<lparr>siteId = sid, siteScope = scope, targetId = t\<rparr>])
                   (collectStepBindingIds b) out)"

definition walkBindingMapForStepRefs ::
  "binding_map option \<Rightarrow> string \<Rightarrow> scope_path \<Rightarrow> reference_site list \<Rightarrow> reference_site list" where
  "walkBindingMapForStepRefs bs sid scope out =
     (case bs of None \<Rightarrow> out
      | Some kvs \<Rightarrow> fold (\<lambda>kv. walkBindingForStepRefs (Some (snd kv)) sid scope) kvs out)"

record walk_result =
  idToScope :: "string \<rightharpoonup> scope_path"
  duplicateIds :: "string list"
  references :: "reference_site list"

definition recordId :: "string \<Rightarrow> scope_path \<Rightarrow> walk_result \<Rightarrow> walk_result" where
  "recordId i scope r =
     (if idToScope r i \<noteq> None then r\<lparr>duplicateIds := set_add i (duplicateIds r)\<rparr>
      else r\<lparr>idToScope := (idToScope r)(i \<mapsto> scope)\<rparr>)"

text \<open>The five callbacks that \<open>validateStepReferences\<close> passes to \<open>walkNodes\<close>.\<close>

definition reference_visitor :: "walk_result node_visitor" where
  "reference_visitor =
     \<lparr>onStep = (\<lambda>s scope r.
        (recordId (step_id s) scope r)\<lparr>references :=
          references r @ map (\<lambda>t. \<lparr>siteId = step_id s, siteScope = scope, targetId = t\<rparr>)
                           (collectStepReferenceIds s)\<rparr>),
      onBranch = (\<lambda>i sel cases scope r.
        (recordId i scope r)\<lparr>references :=
          walkBindingForStepRefs (Some sel) i scope (references r)\<rparr>),
      onCaseWalked = (\<lambda>i k c scope r. case c of CaseBody steps ys \<Rightarrow>
        r\<lparr>references := walkBindingMapForStepRefs ys i scope (references r)\<rparr>),
      onMap = (\<lambda>i src body ys scope r.
        (recordId i scope r)\<lparr>references :=
          walkBindingForStepRefs (Some src) i scope (references r)\<rparr>),
      onBodyWalked = (\<lambda>i ys scope r.
        r\<lparr>references := walkBindingMapForStepRefs ys i scope (references r)\<rparr>)\<rparr>"

definition quoted :: "string \<Rightarrow> string" where
  "quoted s = [CHR 0x22] @ s @ [CHR 0x22]"

definition duplicate_error :: "string \<Rightarrow> compile_error" where
  "duplicate_error i =
     \<lparr>err_code = duplicate_step_id, err_path = i,
      err_message = ''Step id '' @ quoted i @ '' is used more than once in this document - step ids share one flat, document-wide namespace (D8c).''\<rparr>"

text \<open>The errors of one reference site, against the ids the walk recorded.\<close>

definition reference_errors ::
  "(string \<rightharpoonup> scope_path) \<Rightarrow> reference_site \<Rightarrow> compile_error list" where
  "reference_errors ids r =
     (case ids (targetId r) of
        None \<Rightarrow> [\<lparr>err_code = unresolved_step_reference, err_path = siteId r,
          err_message = ''References step id '' @ quoted (targetId r) @ '', which does not exist anywhere in this document.''\<rparr>]
      | Some tgt \<Rightarrow>
          if \<not> isVisible tgt (siteScope r) then
            [\<lparr>err_code = internal_step_id_referenced_externally, err_path = siteId r,
              err_message = ''References step id '' @ quoted (targetId r) @ '', which is internal to a branch case/map body this reference site is not part of (D8c).''\<rparr>]
          else [])"

definition walk_document :: "workflow_spec \<Rightarrow> walk_result" where
  "walk_document spec =
     (let r0 = \<lparr>idToScope = Map.empty, duplicateIds = [], references = []\<rparr>;
          r1 = walkNodes (spec_steps spec) [] reference_visitor r0;
          r2 = r1\<lparr>references := walkBindingMapForStepRefs (spec_outputs spec) [] [] (references r1)\<rparr>
      in r2\<lparr>references :=
           fold (\<lambda>kd. walkBindingForStepRefs (decl_fallback (snd kd)) (fst kd) [])
             (nullish (spec_sessionState spec) []) (references r2)\<rparr>)"

definition validateStepReferences :: "workflow_spec \<Rightarrow> compile_error list" where
  "validateStepReferences spec =
     (let result = walk_document spec
      in map duplicate_error (duplicateIds result)
         @ concat (map (reference_errors (idToScope result)) (references result)))"

subsection \<open>What the walk collects\<close>

text \<open>The id a visit defines, with its scope, and the reference sites it contributes.\<close>

fun visit_defs :: "visit \<Rightarrow> (string \<times> scope_path) list" where
  "visit_defs (VStep s scope) = [(step_id s, scope)]"
| "visit_defs (VBranch i _ _ scope) = [(i, scope)]"
| "visit_defs (VMap i _ _ _ scope) = [(i, scope)]"
| "visit_defs _ = []"

definition sites :: "string \<Rightarrow> scope_path \<Rightarrow> string list \<Rightarrow> reference_site list" where
  "sites sid scope ts = map (\<lambda>t. \<lparr>siteId = sid, siteScope = scope, targetId = t\<rparr>) ts"

definition map_targets :: "binding_map option \<Rightarrow> string list" where
  "map_targets bs = concat (map (\<lambda>kv. collectStepBindingIds (snd kv)) (nullish bs []))"

fun visit_refs :: "visit \<Rightarrow> reference_site list" where
  "visit_refs (VStep s scope) = sites (step_id s) scope (collectStepReferenceIds s)"
| "visit_refs (VBranch i sel _ scope) = sites i scope (collectStepBindingIds sel)"
| "visit_refs (VCaseWalked i _ (CaseBody _ ys) scope) = sites i scope (map_targets ys)"
| "visit_refs (VMap i src _ _ scope) = sites i scope (collectStepBindingIds src)"
| "visit_refs (VBodyWalked i ys scope) = sites i scope (map_targets ys)"

definition spec_defs :: "workflow_spec \<Rightarrow> (string \<times> scope_path) list" where
  "spec_defs spec = concat (map visit_defs (node_visits (spec_steps spec) []))"

definition spec_refs :: "workflow_spec \<Rightarrow> reference_site list" where
  "spec_refs spec =
     concat (map visit_refs (node_visits (spec_steps spec) []))
     @ sites [] [] (map_targets (spec_outputs spec))
     @ concat (map (\<lambda>kd. sites (fst kd) []
          (case decl_fallback (snd kd) of None \<Rightarrow> [] | Some b \<Rightarrow> collectStepBindingIds b))
        (nullish (spec_sessionState spec) []))"

lemma fold_snoc: "fold (\<lambda>x out. out @ [f x]) xs out = out @ map f xs"
  by (induction xs arbitrary: out) simp_all

lemma walkBinding_sites:
  "walkBindingForStepRefs b sid scope out =
     out @ sites sid scope (case b of None \<Rightarrow> [] | Some b \<Rightarrow> collectStepBindingIds b)"
  by (simp add: walkBindingForStepRefs_def sites_def fold_snoc split: option.split)

lemma sites_append: "sites sid scope (ts @ us) = sites sid scope ts @ sites sid scope us"
  by (simp add: sites_def)

lemma sites_Nil [simp]: "sites sid scope [] = []"
  by (simp add: sites_def)

lemma walkBindingMap_sites:
  "walkBindingMapForStepRefs bs sid scope out = out @ sites sid scope (map_targets bs)"
proof (cases bs)
  case (Some kvs)
  have "fold (\<lambda>kv. walkBindingForStepRefs (Some (snd kv)) sid scope) kvs out =
      out @ sites sid scope (concat (map (\<lambda>kv. collectStepBindingIds (snd kv)) kvs))" for out
    by (induction kvs arbitrary: out) (simp_all add: walkBinding_sites sites_append)
  with Some show ?thesis by (simp add: walkBindingMapForStepRefs_def map_targets_def)
qed (simp add: walkBindingMapForStepRefs_def map_targets_def)

text \<open>The state of the walk after the definitions \<open>ds\<close> and the references \<open>rs\<close>.\<close>

definition repeated :: "'k list \<Rightarrow> 'k set" where
  "repeated xs = {x. 1 < count_list xs x}"

lemma repeated_Nil [simp]: "repeated [] = {}"
  by (simp add: repeated_def)

lemma repeated_snoc: "repeated (xs @ [x]) = repeated xs \<union> (if x \<in> set xs then {x} else {})"
  by (auto simp: repeated_def count_list_0_iff neq0_conv [symmetric] simp del: neq0_conv)

lemma repeated_empty: "repeated xs = {} \<longleftrightarrow> distinct xs"
  by (induction xs rule: rev_induct) (auto simp: repeated_snoc)

definition walked :: "(string \<times> scope_path) list \<Rightarrow> reference_site list \<Rightarrow> walk_result \<Rightarrow> bool" where
  "walked ds rs r \<longleftrightarrow>
     idToScope r = map_of ds \<and> set (duplicateIds r) = repeated (map fst ds) \<and> distinct (duplicateIds r)
     \<and> references r = rs"

lemma map_of_snoc:
  "map_of (ds @ [(i, sc)]) =
     (if map_of ds i = None then (map_of ds)(i \<mapsto> sc) else map_of ds)"
  by (rule ext) (auto simp: map_add_def split: option.splits)

lemma walked_recordId:
  "walked ds rs r \<Longrightarrow> walked (ds @ [(i, sc)]) rs (recordId i sc r)"
  by (auto simp: walked_def recordId_def map_of_snoc repeated_snoc map_of_eq_None_iff
      simp del: map_of_append dest: map_of_SomeD)

lemma recordId_references [simp]: "references (recordId i sc r) = references r"
  by (simp add: recordId_def)

lemma walked_references:
  "walked ds rs r \<Longrightarrow> walked ds rs' (r\<lparr>references := rs'\<rparr>)"
  by (simp add: walked_def)

lemma walked_visit:
  assumes "walked ds rs r"
  shows "walked (ds @ visit_defs v) (rs @ visit_refs v) (run_visit reference_visitor v r)"
proof -
  have rs: "references r = rs" using assms by (simp add: walked_def)
  note rules = walked_references [OF walked_recordId [OF assms]] walked_references [OF assms]
  show ?thesis
  proof (cases v)
    case (VCaseWalked i k c scope)
    then show ?thesis
      by (cases c) (auto simp: reference_visitor_def walkBindingMap_sites rs intro: rules)
  qed (auto simp: reference_visitor_def walkBinding_sites walkBindingMap_sites rs sites_def
      intro: rules)
qed

lemma walked_visits:
  "walked ds rs r \<Longrightarrow>
     walked (ds @ concat (map visit_defs vs)) (rs @ concat (map visit_refs vs))
       (fold (run_visit reference_visitor) vs r)"
proof (induction vs arbitrary: ds rs r)
  case (Cons v vs)
  then show ?case using Cons.IH [OF walked_visit [OF Cons.prems, of v]] by simp
qed simp

lemma fold_fallbacks:
  "fold (\<lambda>kd. walkBindingForStepRefs (decl_fallback (snd kd)) (fst kd) []) kds out =
     out @ concat (map (\<lambda>kd. sites (fst kd) []
       (case decl_fallback (snd kd) of None \<Rightarrow> [] | Some b \<Rightarrow> collectStepBindingIds b)) kds)"
  by (induction kds arbitrary: out) (simp_all add: walkBinding_sites)

lemma walk_document_walked: "walked (spec_defs spec) (spec_refs spec) (walk_document spec)"
proof -
  let ?r0 = "\<lparr>idToScope = Map.empty, duplicateIds = [], references = []\<rparr>"
  have "walked [] [] ?r0" by (simp add: walked_def)
  from walked_visits [OF this, of "node_visits (spec_steps spec) []"]
  show ?thesis
    by (simp add: walk_document_def Let_def walk_fold fold_fallbacks walkBindingMap_sites
        walked_def spec_defs_def spec_refs_def)
qed

subsection \<open>The rules behind the errors\<close>

lemma isVisible_prefix: "isVisible tgt site \<longleftrightarrow> prefix tgt site"
proof -
  have "prefix tgt site \<longleftrightarrow> length tgt \<le> length site \<and> take (length tgt) site = tgt"
    by (metis prefix_def append_eq_conv_conj prefix_length_le append_take_drop_id)
  also have "\<dots> \<longleftrightarrow> length tgt \<le> length site \<and> (\<forall>i < length tgt. site ! i = tgt ! i)"
    by (auto simp: list_eq_iff_nth_eq)
  also have "\<dots> \<longleftrightarrow> isVisible tgt site"
    by (auto simp: isVisible_def list_all_iff)
  finally show ?thesis by simp
qed

text \<open>A reference site resolves: its target is defined, in its own scope or an enclosing one.\<close>

definition resolves :: "workflow_spec \<Rightarrow> reference_site \<Rightarrow> bool" where
  "resolves spec r \<longleftrightarrow>
     (\<exists>tgt. map_of (spec_defs spec) (targetId r) = Some tgt \<and> prefix tgt (siteScope r))"

lemma reference_errors_Nil:
  "reference_errors (map_of (spec_defs spec)) r = [] \<longleftrightarrow> resolves spec r"
  by (auto simp: reference_errors_def resolves_def isVisible_prefix split: option.splits)

text \<open>The single error of a reference that does not resolve.\<close>

lemma reference_error_of:
  "map (\<lambda>e. (err_code e, err_path e)) (reference_errors (map_of (spec_defs spec)) r) =
     (if resolves spec r then []
      else [(if targetId r \<notin> set (map fst (spec_defs spec)) then unresolved_step_reference
             else internal_step_id_referenced_externally, siteId r)])"
proof (cases "map_of (spec_defs spec) (targetId r)")
  case None
  then have "targetId r \<notin> fst ` set (spec_defs spec)" by (simp add: map_of_eq_None_iff)
  with None show ?thesis by (simp add: reference_errors_def resolves_def)
next
  case (Some tgt)
  then have "targetId r \<in> set (map fst (spec_defs spec))" by (metis map_of_eq_None_iff not_None_eq image_set)
  with Some show ?thesis by (simp add: reference_errors_def resolves_def isVisible_prefix)
qed

lemma walk_document_simps:
  "idToScope (walk_document spec) = map_of (spec_defs spec)"
  "set (duplicateIds (walk_document spec)) = repeated (map fst (spec_defs spec))"
  "references (walk_document spec) = spec_refs spec" "distinct (duplicateIds (walk_document spec))"
  using walk_document_walked [of spec] by (simp_all add: walked_def)

lemma validate_Nil:
  "validateStepReferences spec = [] \<longleftrightarrow>
     distinct (map fst (spec_defs spec)) \<and> (\<forall>r \<in> set (spec_refs spec). resolves spec r)"
proof -
  have "duplicateIds (walk_document spec) = [] \<longleftrightarrow> distinct (map fst (spec_defs spec))"
    using walk_document_simps(2) [of spec] repeated_empty by (metis set_empty)
  then show ?thesis
    by (auto simp: validateStepReferences_def Let_def walk_document_simps reference_errors_Nil)
qed

text \<open>C30. The compiler reports exactly the violations of the reference rules, each once: first an
  error \<open>duplicate_step_id\<close> at each id that more than one node has; then, for the references that
  do not resolve and in document order, one error at the node that makes the reference, which is
  \<open>unresolved_step_reference\<close> when no node of the document has the target's id and
  \<open>internal_step_id_referenced_externally\<close> when one has. A reference resolves when the first
  definition of its target in document order is in the reference's own scope or an enclosing one
  (of an id that several nodes have, only the first counts). So a document passes exactly when
  its ids are unique and every reference resolves.\<close>

theorem reference_errors_are_the_violations:
  "(\<exists>ds. distinct ds \<and> set ds = {i. 1 < count_list (map fst (spec_defs spec)) i}
      \<and> map (\<lambda>e. (err_code e, err_path e)) (validateStepReferences spec) =
          map (\<lambda>i. (duplicate_step_id, i)) ds
          @ map (\<lambda>r. (if targetId r \<notin> set (map fst (spec_defs spec)) then unresolved_step_reference
                      else internal_step_id_referenced_externally, siteId r))
              (filter (\<lambda>r. \<not> resolves spec r) (spec_refs spec)))
   \<and> (validateStepReferences spec = [] \<longleftrightarrow>
        distinct (map fst (spec_defs spec)) \<and> list_all (resolves spec) (spec_refs spec))"
proof -
  let ?key = "\<lambda>e. (err_code e, err_path e)"
  let ?errors = "reference_errors (map_of (spec_defs spec))"
  have refs: "map ?key (concat (map ?errors rs)) =
      map (\<lambda>r. (if targetId r \<notin> set (map fst (spec_defs spec)) then unresolved_step_reference
                else internal_step_id_referenced_externally, siteId r)) (filter (\<lambda>r. \<not> resolves spec r) rs)" for rs
    by (induction rs) (simp_all add: reference_error_of)
  have dups: "map ?key (map duplicate_error ds) = map (\<lambda>i. (duplicate_step_id, i)) ds" for ds
    by (simp add: duplicate_error_def)
  have "validateStepReferences spec =
      map duplicate_error (duplicateIds (walk_document spec)) @ concat (map ?errors (spec_refs spec))"
    by (simp add: validateStepReferences_def Let_def walk_document_simps)
  note keys = arg_cong [OF this, of "map ?key", unfolded map_append dups refs]
  have "validateStepReferences spec = [] \<longleftrightarrow>
      distinct (map fst (spec_defs spec)) \<and> list_all (resolves spec) (spec_refs spec)"
    by (simp add: validate_Nil list_all_iff)
  with keys walk_document_simps(2,4) [of spec, unfolded repeated_def] show ?thesis by blast
qed

end
