(* ===== verification/Run_Properties.thy ===== *)
theory Run_Properties
  imports Samples Semantic_Validation
begin

text \<open>
  What the interpreter of \<open>engine/\<close> guarantees in every state its operations can reach:
  dispatch in dependency order, progress of acyclic runs, a run that is done exactly when all
  its steps are, outputs that never change, and the behaviour on cyclic specs.
\<close>

subsection \<open>What no operation takes back\<close>

text \<open>
  Between two states of the database: every run is still there with its spec and its input, a
  failed run is still failed, and every recorded output and checkpoint has its value.
\<close>

definition map_kept :: "('b \<Rightarrow> 'b \<Rightarrow> bool) \<Rightarrow> ('a \<Rightarrow> 'b option) \<Rightarrow> ('a \<Rightarrow> 'b option) \<Rightarrow> bool" where
  "map_kept R m n \<longleftrightarrow> (\<forall>k x. m k = Some x \<longrightarrow> (\<exists>y. n k = Some y \<and> R x y))"

lemma map_kept_trans:
  assumes "\<And>x y z. R x y \<Longrightarrow> R y z \<Longrightarrow> R x z" "map_kept R m n" "map_kept R n p"
  shows "map_kept R m p"
  using assms unfolding map_kept_def by meson

lemma map_kept_refl: "(\<And>x. R x x) \<Longrightarrow> map_kept R m m"
  by (simp add: map_kept_def)

definition run_kept :: "workflow_run \<Rightarrow> workflow_run \<Rightarrow> bool" where
  "run_kept r r' \<longleftrightarrow> run_spec r' = run_spec r \<and> run_input r' = run_input r
     \<and> (run_status r = RunFailed \<longrightarrow> run_status r' = RunFailed)"

definition history_kept :: "core_db \<Rightarrow> core_db \<Rightarrow> bool" where
  "history_kept s t \<longleftrightarrow>
     map_kept run_kept (\<lambda>i. find_run i s) (\<lambda>i. find_run i t)
     \<and> map_kept (=) (runNodeOutputs_find s) (runNodeOutputs_find t)
     \<and> map_kept (=) (checkpoints_find s) (checkpoints_find t)"

interpretation kept: tx_frame history_kept
proof unfold_locales
  have run_kept: "run_kept x x" "run_kept x y \<Longrightarrow> run_kept y z \<Longrightarrow> run_kept x z" for x y z
    by (auto simp: run_kept_def)
  show "history_kept s s" for s by (simp add: history_kept_def map_kept_refl run_kept(1))
  show "history_kept s u" if st: "history_kept s t" and tu: "history_kept t u" for s t u
    unfolding history_kept_def
  proof (intro conjI)
    show "map_kept run_kept (\<lambda>i. find_run i s) (\<lambda>i. find_run i u)"
      by (rule map_kept_trans [where n = "\<lambda>i. find_run i t"])
        (use st tu run_kept(2) in \<open>auto simp: history_kept_def\<close>)
    show "map_kept (=) (runNodeOutputs_find s) (runNodeOutputs_find u)"
      by (rule map_kept_trans [where n = "runNodeOutputs_find t"])
        (use st tu in \<open>auto simp: history_kept_def\<close>)
    show "map_kept (=) (checkpoints_find s) (checkpoints_find u)"
      by (rule map_kept_trans [where n = "checkpoints_find t"])
        (use st tu in \<open>auto simp: history_kept_def\<close>)
  qed
qed

lemma history_kept_same:
  assumes "db_workflow_runs t = db_workflow_runs s" "db_run_node_outputs t = db_run_node_outputs s"
    "db_checkpoints t = db_checkpoints s"
  shows "history_kept s t"
  using assms
  by (simp add: history_kept_def map_kept_def run_kept_def find_run_def runNodeOutputs_find_def
      checkpoints_find_def)

lemma history_kept_set_run_status:
  assumes "\<And>r. z r \<Longrightarrow> run_status r = RunFailed \<Longrightarrow> st = RunFailed"
  shows "history_kept s (set_run_status z st s)"
  unfolding history_kept_def map_kept_def run_kept_def
  by (auto simp: find_run_def db_workflow_runs_set_status first_row_select_update assms
      runNodeOutputs_find_def checkpoints_find_def)

lemma kept_writes:
  "kept.keeps (executions_markDone i)" "kept.keeps (executions_markWaiting i)"
  "kept.keeps (executions_markFailed i)" "kept.keeps (executions_failRemainingForRun i)"
  "kept.keeps (executions_promoteBlockedToQueued i n)"
  "kept.keeps (workflowRuns_markDone i)" "kept.keeps (workflowRuns_markFailed i)"
  unfolding core_defs
  by (rule kept.keeps_write, auto intro: history_kept_same history_kept_set_run_status)+

lemma kept_inserts:
  "kept.keeps (insert_execution sid stp jsn est rid)"
  "kept.keeps (executions_claim w lease)"
  "kept.keeps (waits_create eid key wakeAt)"
  "kept.keeps (waits_signal k)"
proof -
  show "kept.keeps (insert_execution sid stp jsn est rid)"
    by rule (simp add: insert_execution_def Let_def history_kept_same)
  show "kept.keeps (executions_claim w lease)"
    by rule (simp add: executions_claim_def claim_execution_def Let_def history_kept_same split: option.split)
  show "kept.keeps (waits_create eid key wakeAt)"
    by rule (simp add: waits_create_eq history_kept_same split: option.split)
  have one: "signal_one c s = (ws, t) \<Longrightarrow> history_kept s t" for c s ws t
    by (auto simp: signal_one_def Let_def intro!: history_kept_same split: option.splits if_splits)
  have loop: "signal_loop cs s = (ws, t) \<Longrightarrow> history_kept s t" for cs s ws t
  proof (induction cs arbitrary: s ws)
    case (Cons c cs)
    then show ?case by (auto split: prod.splits intro: kept.rel_trans dest: one)
  qed (simp add: kept.rel_refl)
  have "history_kept t (t\<lparr>db_notifications := n\<rparr>)" for t n by (rule history_kept_same) simp_all
  then show "kept.keeps (waits_signal k)"
    by (intro kept.keepsI) (auto simp: waits_signal_def Let_def split: prod.splits
        dest!: loop intro: kept.rel_trans)
qed

lemma first_row_select_append:
  "first_row (sql_select p t) = Some r \<Longrightarrow> first_row (sql_select p (t @ u)) = Some r"
  by (simp add: sql_select_append first_row_append)

lemma kept_idempotent_inserts:
  "kept.keeps (checkpoints_insert eid sid out)"
  "kept.keeps (runNodeOutputs_record rid nid obj)"
  "kept.keeps (workflowRuns_create sid' spec inp)"
proof -
  show "kept.keeps (checkpoints_insert eid sid out)"
  proof
    fix s
    obtain r t where c: "checkpoints_insert eid sid out s = (r, t)" by fastforce
    have "db_workflow_runs t = db_workflow_runs s" "db_run_node_outputs t = db_run_node_outputs s"
      by (cases rule: checkpoints_insert_cases [OF c]; simp)+
    then show "history_kept s (snd (checkpoints_insert eid sid out s))"
      using cp.look_stable [of s _ _ "(eid, sid)" out] c
      by (auto simp: history_kept_def map_kept_def run_kept_def find_run_def runNodeOutputs_find_def)
  qed
  show "kept.keeps (runNodeOutputs_record rid nid obj)"
  proof
    fix s
    obtain r t where c: "runNodeOutputs_record rid nid obj s = (r, t)" by fastforce
    have "db_workflow_runs t = db_workflow_runs s" "db_checkpoints t = db_checkpoints s"
      by (cases rule: record_cases [OF c]; simp)+
    then show "history_kept s (snd (runNodeOutputs_record rid nid obj s))"
      using rno.look_stable [of s _ _ "(rid, nid)" obj] c
      by (auto simp: history_kept_def map_kept_def run_kept_def find_run_def checkpoints_find_def)
  qed
  show "kept.keeps (workflowRuns_create sid' spec inp)"
    by rule (auto simp: workflowRuns_create_eq Let_def history_kept_def map_kept_def run_kept_def find_run_def
        runNodeOutputs_find_def checkpoints_find_def dest: first_row_select_append)
qed

lemma kept_row_or_throw: "kept.keeps (row_or_throw e rows)"
  unfolding row_or_throw_def by (cases "first_row rows") (simp_all add: kept.keeps_rules)

lemma kept_enqueue: "kept.keeps (executions_enqueue sid stp jsn)"
  "kept.keeps (executions_enqueueForRun rid nid jsn st sid)"
proof -
  show "kept.keeps (executions_enqueue sid stp jsn)"
    unfolding executions_enqueue_def by (intro kept.keeps_bind kept_inserts kept_row_or_throw)
  have "kept.keeps (tx_bind (insert_execution sid nid jsn st (Some rid))
      (row_or_throw CORE_ENQUEUE_NO_ROW_RETURNED))"
    by (intro kept.keeps_bind kept_inserts kept_row_or_throw)
  then show "kept.keeps (executions_enqueueForRun rid nid jsn st sid)"
    unfolding executions_enqueueForRun_def kept.keeps_def by (simp add: kept.rel_refl)
qed

lemma kept_promote: "kept.keeps (promoteReadyNodes run ids)"
proof -
  have "kept.keeps (if step_id st \<in> set ids then tx_return ()
       else if list_all (\<lambda>i. i \<in> set ids) (computeStepDependencies st)
       then executions_promoteBlockedToQueued (run_id run) (step_id st) else tx_return ())" for st
    by (simp add: kept.keeps_return kept_writes)
  then show ?thesis
    unfolding promoteReadyNodes_def by (intro kept.keeps_bind kept.keeps_lift kept.keeps_for)
qed

lemma kept_engine:
  "kept.keeps (submitRun spec inp sid)"
  "kept.keeps (claimExecution w lease)"
  "kept.keeps (completeStep run eid nid out)"
  "kept.keeps (failRun rid eid)"
  "kept.keeps (waitFor eid key wakeAt)"
  "kept.keeps (signalWait k)"
  unfolding submitRun_def claimExecution_def completeStep_def completeExecution_def failRun_def
    waitFor_def signalWait_def workflowRuns_lockForUpdate_def runNodeOutputs_listCompletedNodeIds_def
  by (auto intro!: kept.keeps_rules kept_writes kept_inserts kept_idempotent_inserts kept_enqueue
      kept_promote kept_row_or_throw)

lemma engine_step_kept: "engine_step s t \<Longrightarrow> history_kept s t"
  by (induction rule: engine_step.induct)
    (auto simp: engine_tables_same_def intro: history_kept_same kept.keepsD kept_engine kept_enqueue)

text \<open>C4. Nothing that was committed is taken back: along any sequence of engine transactions, by
  any clients and workers, a run keeps its spec and its input, a failed run stays failed, and
  a recorded step output or checkpoint never changes, whoever completes the step again.\<close>

theorem committed_history_is_kept:
  assumes "engine_step\<^sup>*\<^sup>* s t"
  shows "history_kept s t"
  using assms by (induction rule: rtranclp_induct) (auto intro: kept.rel_refl kept.rel_trans engine_step_kept)

subsection \<open>Dispatch in dependency order\<close>

lemma claimed_exec_facts:
  assumes "engine_inv s" "r \<in> set (db_workflow_runs s)" "e \<in> set (db_executions s)"
    "ex_runId e = Some (run_id r)" "ex_status e \<notin> {Blocked, Failed} \<or> 0 < ex_attempts e"
  obtains st where "findRunStepNode r (ex_step e) = Inr st" "step_id st = ex_step e"
    "ready (completed s (run_id r)) st"
proof -
  obtain steps where steps: "assertPlainSteps (run_spec r) = Inr steps" "run_ok_steps s r steps"
    by (rule engine_inv_run [OF assms(1,2)])
  obtain st where st: "st \<in> set steps" "ex_step e = step_id st"
    "exec_ok (completed s (run_id r)) st (run_status r) e"
    by (rule run_ok_exec_step [OF steps(2) assms(3,4)])
  with assms(5) show ?thesis
    by (intro that [of st]) (auto simp: findRunStepNode_eq [OF steps(1)] exec_ok_def)
qed

lemma run_of_execution:
  assumes "core_inv s" "e \<in> set (db_executions s)" "ex_runId e = Some i"
  obtains r where "r \<in> set (db_workflow_runs s)" "run_id r = i"
  using assms by (force simp: core_inv_def)

text \<open>C1. No step is dispatched before its dependencies: an execution of a run that a worker claims
  belongs to a step of the run's spec, and every step it refers to, through \<open>dependsOn\<close> or
  through a binding at any depth, has its output recorded at that moment.\<close>

theorem no_dispatch_before_dependencies:
  assumes "engine_reachable s" "claimExecution w lease s = (Inr (Some e), s')" "ex_runId e = Some i"
  shows "\<exists>r st. find_run i s' = Some r \<and> findRunStepNode r (ex_step e) = Inr st
    \<and> (\<forall>d. refers_to st d \<longrightarrow> runNodeOutputs_find s' (i, d) \<noteq> None)"
proof -
  have inv: "engine_inv s'" and inv0: "engine_inv s"
    using assms(1,2) by (auto intro: engine_reachable_inv engine_inv_claim)
  have "claim_execution w (nullish lease DEFAULT_LEASE_SECONDS) s = (Inr (Some e), s')"
    using assms(2) by (simp add: claimExecution_def executions_claim_def)
  with engine_inv_core [OF inv0] have e: "e \<in> set (db_executions s')" "ex_status e = Running"
    by (cases rule: claim_execution_cases; auto simp: set_sql_update)+
  obtain r where r: "r \<in> set (db_workflow_runs s')" "run_id r = i"
    by (rule run_of_execution [OF engine_inv_core [OF inv] e(1) assms(3)])
  obtain st where "findRunStepNode r (ex_step e) = Inr st" "ready (completed s' (run_id r)) st"
    by (rule claimed_exec_facts [OF inv r(1) e(1)]) (use e r assms(3) in auto)
  moreover have "find_run i s' = Some r" using find_run_eq [OF engine_inv_core [OF inv] r(1)] r(2) by simp
  ultimately show ?thesis using r(2) by (auto simp: ready_iff completed_find)
qed

text \<open>
  Why a binding cannot be resolved once the outputs of the nodes in \<open>known\<close> are there, and the value
  that it stands for otherwise.
\<close>

fun binding_fault :: "string set \<Rightarrow> binding \<Rightarrow> error_id option" where
  "binding_fault known (LiteralBinding v) = None"
| "binding_fault known (RequestBinding p) = None"
| "binding_fault known (StepBinding i out) = (if i \<in> known then None else Some ENGINE_NODE_OUTPUT_MISSING)"
| "binding_fault known _ = Some ENGINE_BINDING_KIND_NOT_SUPPORTED"

text \<open>The kinds of binding that the plain-step interpreter resolves.\<close>

fun binding_supported :: "binding \<Rightarrow> bool" where
  "binding_supported (LiteralBinding v) = True"
| "binding_supported (RequestBinding p) = True"
| "binding_supported (StepBinding i out) = True"
| "binding_supported _ = False"

lemma binding_fault_UNIV:
  "binding_fault UNIV b = (if binding_supported b then None else Some ENGINE_BINDING_KIND_NOT_SUPPORTED)"
  by (cases b) simp_all

fun binding_value :: "core_db \<Rightarrow> workflow_run \<Rightarrow> binding \<Rightarrow> json option" where
  "binding_value s r (LiteralBinding v) = Some v"
| "binding_value s r (RequestBinding p) = js_get (run_input r) p"
| "binding_value s r (StepBinding i out) =
     (case runNodeOutputs_find s (run_id r, i) of None \<Rightarrow> None | Some o' \<Rightarrow> js_get (no_output o') out)"
| "binding_value s r _ = None"

lemma map_of_recorded_outputs:
  "map_of (recorded_outputs s rid ids) i =
     (if i \<in> set ids then map_option no_output (runNodeOutputs_find s (rid, i)) else None)"
  by (induction ids) (auto simp: recorded_outputs_def map_add_def split: option.splits)

lemma res_map_fault:
  assumes "\<And>x. x \<in> set xs \<Longrightarrow> f x = (case fault x of None \<Rightarrow> Inr (g x) | Some e \<Rightarrow> Inl (h e))"
  shows "res_map f xs = (case find (\<lambda>x. fault x \<noteq> None) xs of
    None \<Rightarrow> Inr (map g xs) | Some x \<Rightarrow> Inl (h (the (fault x))))"
  using assms by (induction xs) (auto split: option.splits)

text \<open>A map of bindings, against recorded outputs of which \<open>known\<close> says for which nodes there is one.\<close>

lemma resolve_entries_faults:
  assumes "\<And>k i out. (k, StepBinding i out) \<in> set (nullish bs []) \<Longrightarrow>
    i \<in> known \<longleftrightarrow> i \<in> set ids \<and> runNodeOutputs_find s (run_id r, i) \<noteq> None"
  shows "resolve_entries bs \<lparr>ctx_input = run_input r, ctx_nodeOutputs = recorded_outputs s (run_id r) ids\<rparr>
    = (case find (\<lambda>(k, b). binding_fault known b \<noteq> None) (nullish bs []) of
         None \<Rightarrow> Inr (map (\<lambda>(k, b). (k, binding_value s r b)) (nullish bs []))
       | Some (k, b) \<Rightarrow> Inl (FatalError (the (binding_fault known b))))"
proof -
  have "res_bind (resolveBinding b \<lparr>ctx_input = run_input r, ctx_nodeOutputs = recorded_outputs s (run_id r) ids\<rparr>)
        (\<lambda>v. Inr (k, v))
      = (case binding_fault known b of None \<Rightarrow> Inr (k, binding_value s r b) | Some e \<Rightarrow> Inl (FatalError e))"
    if "(k, b) \<in> set (nullish bs [])" for k b
    using assms [of k] that
    by (cases b) (auto simp: resolveBinding_def map_of_recorded_outputs split: option.splits)
  then have "res_map (\<lambda>(k, b). res_bind (resolveBinding b
        \<lparr>ctx_input = run_input r, ctx_nodeOutputs = recorded_outputs s (run_id r) ids\<rparr>) (\<lambda>v. Inr (k, v))) (nullish bs [])
      = (case find (\<lambda>x. binding_fault known (snd x) \<noteq> None) (nullish bs []) of
           None \<Rightarrow> Inr (map (\<lambda>(k, b). (k, binding_value s r b)) (nullish bs []))
         | Some x \<Rightarrow> Inl (FatalError (the (binding_fault known (snd x)))))"
    by (intro res_map_fault) auto
  then show ?thesis by (simp add: resolve_entries_def case_prod_beta' split: option.splits)
qed

text \<open>C5. Resolving the reads of a claimed step never meets a missing output. If every read is of a kind
  that the interpreter supports (a literal, an input parameter of the run, an output of a step),
  each gets its value: the literal, the parameter, or the field of the recorded output. A step
  with a read of any other kind always gets the error that says so, whatever its other reads are,
  and nothing changes either way.\<close>

theorem claimed_step_reads_resolve:
  assumes "engine_reachable s" "claimed_once s e" "r \<in> set (db_workflow_runs s)"
    and "ex_runId e = Some (run_id r)" "findRunStepNode r (ex_step e) = Inr st"
  shows "resolveStepReads r st s =
    (if list_all (\<lambda>(k, b). binding_supported b) (nullish (step_reads st) [])
     then Inr (map (\<lambda>(k, b). (k, binding_value s r b)) (nullish (step_reads st) []))
     else Inl (FatalError ENGINE_BINDING_KIND_NOT_SUPPORTED), s)"
proof -
  let ?reads = "nullish (step_reads st) []"
  have "ready (completed s (run_id r)) st"
    using claimed_exec_facts [OF engine_reachable_inv [OF assms(1)] assms(3) _ assms(4)] assms(2,5)
    by (auto simp: claimed_once_def)
  moreover have "refers_to st i" if "(k, StepBinding i out) \<in> set ?reads" for k i out
    using that unfolding refers_to_def by (cases "step_reads st") (force intro: mentions_step)+
  ultimately have entries: "resolve_entries (step_reads st)
      \<lparr>ctx_input = run_input r,
       ctx_nodeOutputs = recorded_outputs s (run_id r) (computeStepDependencies st)\<rparr>
    = (case find (\<lambda>(k, b). binding_fault UNIV b \<noteq> None) ?reads of
         None \<Rightarrow> Inr (map (\<lambda>(k, b). (k, binding_value s r b)) ?reads)
       | Some (k, b) \<Rightarrow> Inl (FatalError (the (binding_fault UNIV b))))"
    by (intro resolve_entries_faults) (auto simp: ready_iff completed_find)
  show ?thesis
  proof (cases "find (\<lambda>(k, b). binding_fault UNIV b \<noteq> None) ?reads")
    case None
    then have "list_all (\<lambda>(k, b). binding_supported b) ?reads"
      by (fastforce simp: find_None_iff list_all_iff binding_fault_UNIV split: if_splits)
    with None entries show ?thesis by (simp add: resolveStepReads_def tx_simps)
  next
    case (Some kb)
    then have "kb \<in> set ?reads" "binding_fault UNIV (snd kb) \<noteq> None"
      by (auto simp: find_Some_iff case_prod_beta')
    moreover from this have "\<not> list_all (\<lambda>(k, b). binding_supported b) ?reads"
      by (auto simp: list_all_iff binding_fault_UNIV case_prod_beta' split: if_splits)
    ultimately show ?thesis
      using Some entries by (simp add: resolveStepReads_def tx_simps binding_fault_UNIV case_prod_beta' split: if_splits)
  qed
qed

subsection \<open>Progress and completion\<close>

text \<open>
  A spec whose references stay inside the document and can be ranked: no step refers,
  directly or through others, to itself.
\<close>

definition acyclic_refs :: "(string \<Rightarrow> nat) \<Rightarrow> step list \<Rightarrow> bool" where
  "acyclic_refs rank steps \<longleftrightarrow>
     list_all (\<lambda>st. list_all (\<lambda>i. i \<in> set (map step_id steps) \<and> rank i < rank (step_id st))
                     (computeStepDependencies st)) steps"

lemma acyclic_refsD:
  "acyclic_refs rank steps \<Longrightarrow> st \<in> set steps \<Longrightarrow> refers_to st i \<Longrightarrow>
     i \<in> set (map step_id steps) \<and> rank i < rank (step_id st)"
  by (simp add: acyclic_refs_def list_all_iff)

lemma least_incomplete:
  assumes "acyclic_refs rank steps" "\<not> all_completed C steps"
  obtains st where "st \<in> set steps" "step_id st \<notin> C" "ready C st"
proof -
  from assms(2) obtain st0 where "st0 \<in> set steps" "step_id st0 \<notin> C"
    by (auto simp: all_completed_def list_all_iff)
  then obtain st where st: "st \<in> set steps" "step_id st \<notin> C"
    and least: "\<And>x. x \<in> set steps \<Longrightarrow> step_id x \<notin> C \<Longrightarrow> rank (step_id st) \<le> rank (step_id x)"
    using ex_has_least_nat [of "\<lambda>st. st \<in> set steps \<and> step_id st \<notin> C" st0 "\<lambda>st. rank (step_id st)"]
    by auto
  have "ready C st"
    unfolding ready_iff
  proof (intro allI impI)
    fix i assume "refers_to st i"
    from acyclic_refsD [OF assms(1) st(1) this] obtain x where
      "x \<in> set steps" "i = step_id x" "rank i < rank (step_id st)" by auto
    with least [of x] show "i \<in> C" by fastforce
  qed
  with st that show ?thesis by blast
qed

lemma running_run_is_live:
  assumes "engine_reachable s" "r \<in> set (db_workflow_runs s)" "run_status r = RunRunning"
    and "assertPlainSteps (run_spec r) = Inr steps" "acyclic_refs rank steps"
  shows "\<exists>e \<in> set (db_executions s). ex_runId e = Some (run_id r)
    \<and> ex_status e \<in> {Queued, Running, Waiting} \<and> ex_step e \<notin> completed s (run_id r)
    \<and> (\<exists>st \<in> set steps. step_id st = ex_step e \<and> ready (completed s (run_id r)) st)"
proof -
  obtain steps' where s': "assertPlainSteps (run_spec r) = Inr steps'" "run_ok_steps s r steps'"
    by (rule engine_inv_run [OF engine_reachable_inv [OF assms(1)] assms(2)])
  then have ok: "run_ok_steps s r steps" using assms(4) by simp
  then have "\<not> all_completed (completed s (run_id r)) steps"
    using assms(3) by (simp add: run_ok_steps_def run_status_ok_def)
  then obtain st where st: "st \<in> set steps" "step_id st \<notin> completed s (run_id r)"
    "ready (completed s (run_id r)) st" by (rule least_incomplete [OF assms(5)])
  have "step_id st \<in> set (map ex_step (run_execs s (run_id r)))"
    using ok st(1) by (simp add: run_ok_steps_def)
  then obtain e where e: "e \<in> set (run_execs s (run_id r))" "ex_step e = step_id st" by auto
  then have "exec_ok (completed s (run_id r)) st (run_status r) e"
    using ok st(1) by (simp add: run_ok_steps_def)
  then have "ex_status e \<in> {Queued, Running, Waiting}"
    using st assms(3) by (cases "ex_status e") (auto simp: exec_ok_def)
  moreover have "e \<in> set (db_executions s)" "ex_runId e = Some (run_id r)"
    using e(1) by (simp_all add: run_execs_def table_simps)
  moreover have "\<exists>st \<in> set steps. step_id st = ex_step e \<and> ready (completed s (run_id r)) st"
    using e(2) st by (intro bexI [of _ st]) simp_all
  ultimately show ?thesis using e(2) st(2) by (intro bexI [of _ e]) simp_all
qed

text \<open>C2. A run never gets stuck: as long as a run is neither done nor failed, and its spec refers
  only to its own steps without a cycle, some execution of it is queued, running or waiting,
  for a step that is not complete and whose dependencies all are.\<close>

theorem running_run_has_live_execution:
  assumes "engine_reachable s" "r \<in> set (db_workflow_runs s)" "run_status r = RunRunning"
    and "assertPlainSteps (run_spec r) = Inr steps" "acyclic_refs rank steps"
  shows "\<exists>e \<in> set (db_executions s). ex_runId e = Some (run_id r)
    \<and> ex_status e \<in> {Queued, Running, Waiting} \<and> ex_step e \<notin> completed s (run_id r)
    \<and> (\<exists>st \<in> set steps. step_id st = ex_step e \<and> ready (completed s (run_id r)) st)"
  by (rule running_run_is_live [OF assms])

text \<open>C3. A run is done exactly when it has not failed and every step of its spec has its output;
  only steps of the spec ever have one.\<close>

theorem run_done_iff_all_outputs:
  assumes "engine_reachable s" "r \<in> set (db_workflow_runs s)" "run_status r \<noteq> RunFailed"
  shows "(run_status r = RunDone \<longleftrightarrow>
      (\<forall>nd \<in> set (spec_steps (run_spec r)). runNodeOutputs_find s (run_id r, node_id nd) \<noteq> None))
    \<and> (\<forall>i. runNodeOutputs_find s (run_id r, i) \<noteq> None \<longrightarrow> i \<in> node_id ` set (spec_steps (run_spec r)))"
proof -
  obtain steps where steps: "assertPlainSteps (run_spec r) = Inr steps" and ok: "run_ok_steps s r steps"
    by (rule engine_inv_run [OF engine_reachable_inv [OF assms(1)] assms(2)])
  have sp: "spec_steps (run_spec r) = map PlainStep steps" using steps by (simp add: assertPlainSteps_Inr)
  have "run_status r = RunDone \<longleftrightarrow> all_completed (completed s (run_id r)) steps"
    using ok assms(3) by (cases "run_status r") (auto simp: run_ok_steps_def run_status_ok_def)
  moreover have "completed s (run_id r) \<subseteq> set (map step_id steps)" using ok by (simp add: run_ok_steps_def)
  ultimately show ?thesis
    by (auto simp: sp all_completed_def list_all_iff completed_find image_iff subset_iff)
qed

text \<open>The steps of the system that record an output.\<close>

lemma engine_step_completed:
  assumes "engine_inv s" "engine_step s s'"
  shows "completed s' rid = completed s rid
    \<or> (\<exists>e. claimed_once s e \<and> ex_runId e = Some rid
        \<and> completed s' rid = insert (ex_step e) (completed s rid))"
  using assms(2)
proof cases
  case (complete e run out)
  note core = engine_inv_core [OF assms(1)]
  obtain r where r: "r \<in> set (db_workflow_runs s)" "run_id r = run_id run" "run_spec r = run_spec run"
    "ex_runId e = Some (run_id r)" by (rule run_of_find [OF core complete(2)])
  obtain steps where steps: "assertPlainSteps (run_spec r) = Inr steps"
    by (rule engine_inv_run [OF assms(1) r(1)])
  have "ex_id e \<in> set (map ex_id (db_executions s))" using complete(1) by (simp add: claimed_once_def)
  from completeStep_eq [OF core r(1) this r(2,3) [symmetric] steps, of "ex_step e" out] complete(3)
  have "completed s' (run_id r) = insert (ex_step e) (completed s (run_id r))
      \<and> (\<forall>k. k \<noteq> run_id r \<longrightarrow> completed s' k = completed s k)" by auto
  with complete(1) r(4) show ?thesis by (cases "rid = run_id r") auto
next
  case (claim w lease x)
  then have "claim_execution w (nullish lease DEFAULT_LEASE_SECONDS) s = (Inr x, s')"
    by (simp add: claimExecution_def executions_claim_def)
  from claim_execution_cases [OF engine_inv_core [OF assms(1)] this]
  have "db_run_node_outputs s' = db_run_node_outputs s" by cases auto
  then show ?thesis by (intro disjI1 completed_cong)
qed (auto intro!: completed_cong simp: submitRun_eq executions_enqueue_def tx_simps insert_execution_def
    Let_def failRun_eq waitFor_eq signalWait_def waits_signal_eq [OF engine_inv_core [OF assms(1)]]
    satisfy_waits_def engine_tables_same_def split: sum.splits list.splits option.splits if_splits)

lemma engine_step_runs:
  assumes "engine_inv s" "engine_step s s'" "r' \<in> set (db_workflow_runs s')"
  obtains (old) r where "r \<in> set (db_workflow_runs s)" "run_id r = run_id r'" "run_spec r = run_spec r'"
  | (fresh) "completed s (run_id r') = {}" "run_execs s (run_id r') = []"
proof (cases "find_run (run_id r') s")
  case None
  then have "run_id r' \<notin> set (map run_id (db_workflow_runs s))" by (simp add: find_run_None)
  then show ?thesis by (intro fresh run_execs_unknown [OF engine_inv_core [OF assms(1)]])
next
  case (Some r)
  have "find_run (run_id r') s' = Some r'"
    by (rule find_run_eq [OF engine_inv_core [OF engine_inv_step [OF assms(2,1)]] assms(3)])
  with Some engine_step_kept [OF assms(2)] have "run_spec r = run_spec r'"
    by (fastforce simp: history_kept_def map_kept_def run_kept_def)
  with find_run_in [OF Some] show ?thesis by (intro old [of r]) auto
qed

text \<open>
  A set of steps that wait for each other, or for an id that no step of the document has.
\<close>

definition waits_in_circles :: "string set \<Rightarrow> step list \<Rightarrow> bool" where
  "waits_in_circles S steps \<longleftrightarrow>
     list_all (\<lambda>st. step_id st \<in> S \<longrightarrow>
       list_ex (\<lambda>i. i \<in> S \<or> i \<notin> set (map step_id steps)) (computeStepDependencies st)) steps"

lemma circle_step_not_ready:
  assumes "waits_in_circles S steps" "st \<in> set steps" "step_id st \<in> S"
    and "C \<subseteq> set (map step_id steps)" "S \<inter> C = {}"
  shows "\<not> ready C st"
proof -
  obtain i where "refers_to st i" "i \<in> S \<or> i \<notin> set (map step_id steps)"
    using assms(1-3) by (auto simp: waits_in_circles_def list_all_iff list_ex_iff)
  with assms(4,5) show ?thesis unfolding ready_iff by blast
qed

text \<open>Nobody can have claimed a step of a circle, and so none completes.\<close>

lemma claimed_step_outside_circle:
  assumes "engine_inv s" "r \<in> set (db_workflow_runs s)" "assertPlainSteps (run_spec r) = Inr steps"
    and "waits_in_circles S steps" "S \<inter> completed s (run_id r) = {}"
    and e: "claimed_once s e" "ex_runId e = Some (run_id r)"
  shows "ex_step e \<notin> S"
proof -
  have ok: "run_ok_steps s r steps" using engine_inv_run [OF assms(1,2)] assms(3) by auto
  obtain st where st: "st \<in> set steps" "ex_step e = step_id st"
    "exec_ok (completed s (run_id r)) st (run_status r) e"
    using run_ok_exec_step [OF ok] e by (auto simp: claimed_once_def)
  then have "ready (completed s (run_id r)) st" using e(1) by (simp add: exec_ok_def claimed_once_def)
  moreover have "completed s (run_id r) \<subseteq> set (map step_id steps)" using ok by (simp add: run_ok_steps_def)
  ultimately show ?thesis using circle_step_not_ready [OF assms(4) st(1)] assms(5) st(2) by auto
qed

lemma circles_stay_incomplete:
  assumes "engine_reachable s" "r \<in> set (db_workflow_runs s)"
    and "assertPlainSteps (run_spec r) = Inr steps" "waits_in_circles S steps"
  shows "S \<inter> completed s (run_id r) = {}"
  using assms
proof (induction arbitrary: r rule: engine_reachable.induct)
  case (init s)
  then show ?case by (simp add: engine_init_def)
next
  case (step s s')
  have inv: "engine_inv s" by (rule engine_reachable_inv [OF step.hyps(1)])
  note change = engine_step_completed [OF inv step.hyps(2), of "run_id r"]
  from inv step.hyps(2) step.prems(1) show ?case
  proof (cases rule: engine_step_runs)
    case (old r0)
    then have s0: "assertPlainSteps (run_spec r0) = Inr steps" using step.prems(2) by simp
    have IH: "S \<inter> completed s (run_id r0) = {}" using step.IH [OF old(1) s0 step.prems(3)] .
    with change claimed_step_outside_circle [OF inv old(1) s0 step.prems(3) IH] old(2) show ?thesis by auto
  next
    case fresh
    have "claimed_once s e \<Longrightarrow> ex_runId e \<noteq> Some (run_id r)" for e
      using fresh(2) by (auto simp: run_execs_def claimed_once_def sql_select_def filter_empty_conv)
    with change fresh(1) show ?thesis by auto
  qed
qed

text \<open>C8. A run whose spec has steps that wait for each other in a circle never completes one of
  them, in no reachable state, so it is never done: nothing in the engine detects the cycle.\<close>

theorem circular_steps_never_complete:
  assumes "engine_reachable s" "r \<in> set (db_workflow_runs s)"
    and "assertPlainSteps (run_spec r) = Inr steps" "waits_in_circles S steps"
  shows "S \<inter> completed s (run_id r) = {}
    \<and> (S \<inter> set (map step_id steps) \<noteq> {} \<longrightarrow> run_status r \<noteq> RunDone)"
proof -
  have "run_ok_steps s r steps"
    using engine_inv_run [OF engine_reachable_inv [OF assms(1)] assms(2)] assms(3) by auto
  with circles_stay_incomplete [OF assms] show ?thesis
    by (auto simp: run_ok_steps_def run_status_ok_def all_completed_def list_all_iff)
qed

text \<open>C6. Completing a step succeeds for whoever has claimed it, and the first completion wins: the
  output stored for the step is the given one only when none was stored before, no other
  output changes, and the run counts exactly this step as completed in addition.\<close>

theorem first_completion_wins:
  assumes "engine_reachable s" "claimed_once s e" "run_of s e run"
    and "completeStep run (ex_id e) (ex_step e) out s = (x, s')"
  shows "x = Inr ()
    \<and> (\<exists>o'. no_output o' = (case runNodeOutputs_find s (run_id run, ex_step e) of
                              None \<Rightarrow> out | Some prev \<Rightarrow> no_output prev)
           \<and> runNodeOutputs_find s' = (runNodeOutputs_find s)((run_id run, ex_step e) \<mapsto> o'))
    \<and> completed s' (run_id run) = insert (ex_step e) (completed s (run_id run))"
proof -
  have inv: "engine_inv s" by (rule engine_reachable_inv [OF assms(1)])
  note core = engine_inv_core [OF inv]
  obtain r where r: "r \<in> set (db_workflow_runs s)" "run_id r = run_id run" "run_spec r = run_spec run"
    by (rule run_of_find [OF core assms(3)])
  obtain steps where steps: "assertPlainSteps (run_spec r) = Inr steps" by (rule engine_inv_run [OF inv r(1)])
  have eid: "ex_id e \<in> set (map ex_id (db_executions s))" using assms(2) by (simp add: claimed_once_def)
  obtain t where "completeStep run (ex_id e) (ex_step e) out s = (Inr (), t)"
    "completed t (run_id r) = insert (ex_step e) (completed s (run_id r))"
    "\<exists>o'. no_output o' = (case runNodeOutputs_find s (run_id r, ex_step e) of
           None \<Rightarrow> out | Some x \<Rightarrow> no_output x)
       \<and> runNodeOutputs_find t = (runNodeOutputs_find s)((run_id r, ex_step e) \<mapsto> o')"
    by (rule completeStep_eq [OF core r(1) eid r(2,3) [symmetric] steps, of "ex_step e" out],
        rule that; assumption)
  with assms(4) r(2) show ?thesis by simp
qed

text \<open>C7. The result of a run, in every case: its status and no outputs until it is done, and then the
  value of each output binding of its spec, resolved against the request input and the outputs of
  its steps. If an output binding is of a kind that the interpreter does not support, or names no
  top-level step of the spec, the first such binding decides the error and there is no result.\<close>

theorem result_of_a_run:
  assumes "engine_reachable s" "r \<in> set (db_workflow_runs s)"
  shows "getRunResult r s =
    (if run_status r \<noteq> RunDone then Inr (run_status r, None)
     else case find (\<lambda>(k, b). binding_fault (node_id ` set (spec_steps (run_spec r))) b \<noteq> None)
                 (nullish (spec_outputs (run_spec r)) []) of
            None \<Rightarrow> Inr (RunDone, Some (map (\<lambda>(k, b). (k, binding_value s r b)) (nullish (spec_outputs (run_spec r)) [])))
          | Some (k, b) \<Rightarrow> Inl (FatalError (the (binding_fault (node_id ` set (spec_steps (run_spec r))) b))), s)"
proof -
  have inv: "engine_inv s" by (rule engine_reachable_inv [OF assms(1)])
  have found: "find_run (run_id r) s = Some r" by (rule find_run_eq [OF engine_inv_core [OF inv] assms(2)])
  have "resolve_entries (spec_outputs (run_spec r))
      \<lparr>ctx_input = run_input r, ctx_nodeOutputs = recorded_outputs s (run_id r) (completed_ids s (run_id r))\<rparr>
    = (case find (\<lambda>(k, b). binding_fault (node_id ` set (spec_steps (run_spec r))) b \<noteq> None)
          (nullish (spec_outputs (run_spec r)) []) of
         None \<Rightarrow> Inr (map (\<lambda>(k, b). (k, binding_value s r b)) (nullish (spec_outputs (run_spec r)) []))
       | Some (k, b) \<Rightarrow> Inl (FatalError (the (binding_fault (node_id ` set (spec_steps (run_spec r))) b))))"
    if fin: "run_status r = RunDone"
  proof (rule resolve_entries_faults)
    obtain steps where steps: "assertPlainSteps (run_spec r) = Inr steps" "run_ok_steps s r steps"
      by (rule engine_inv_run [OF inv assms(2)])
    then have "all_completed (completed s (run_id r)) steps" "spec_steps (run_spec r) = map PlainStep steps"
      "completed s (run_id r) \<subseteq> set (map step_id steps)"
      using fin by (simp_all add: run_ok_steps_def run_status_ok_def assertPlainSteps_Inr)
    then have "completed s (run_id r) = node_id ` set (spec_steps (run_spec r))"
      by (force simp: all_completed_def list_all_iff)
    then show "i \<in> node_id ` set (spec_steps (run_spec r)) \<longleftrightarrow>
        i \<in> set (completed_ids s (run_id r)) \<and> runNodeOutputs_find s (run_id r, i) \<noteq> None" for i
      by (auto simp: completed_find simp flip: completed_def)
  qed
  with found show ?thesis
    by (auto simp: getRunResult_def tx_simps workflowRuns_findById_def runNodeOutputs_listCompletedNodeIds_def
        split: option.split)
qed

subsection \<open>The properties on the sample runs\<close>

lemma committed_history_is_kept_witness:
  "history_kept db_submitted db_done \<and> find_run 1 db_done \<noteq> None
   \<and> runNodeOutputs_find db_half (1, ''a'') = runNodeOutputs_find db_done (1, ''a'')
   \<and> runNodeOutputs_find db_half (1, ''a'') \<noteq> None"
proof -
  have "engine_step\<^sup>*\<^sup>* db_submitted db_done"
    using sample_steps by (meson converse_rtranclp_into_rtranclp rtranclp.rtrancl_refl)
  moreover have "find_run 1 db_done \<noteq> None" "runNodeOutputs_find db_half (1, ''a'') \<noteq> None"
    "runNodeOutputs_find db_half (1, ''a'') = runNodeOutputs_find db_done (1, ''a'')" by code_simp+
  ultimately show ?thesis using committed_history_is_kept by blast
qed

lemma no_dispatch_before_dependencies_witness:
  "\<exists>e r st. claimExecution ''w2'' None db_half = (Inr (Some e), db_b_claimed) \<and> ex_step e = ''b''
     \<and> find_run 1 db_b_claimed = Some r \<and> findRunStepNode r ''b'' = Inr st
     \<and> (\<forall>d. refers_to st d \<longrightarrow> runNodeOutputs_find db_b_claimed (1, d) \<noteq> None)"
proof -
  have c: "claimExecution ''w2'' None db_half = (Inr (Some exec_b), db_b_claimed)"
    "ex_runId exec_b = Some 1" "ex_step exec_b = ''b''" by code_simp+
  from no_dispatch_before_dependencies [OF sample_reachable(4) c(1,2)] c(1,3) show ?thesis by auto
qed

lemma claimed_step_reads_resolve_witness:
  "resolveStepReads the_run step_b db_b_claimed = (Inr [(''prev'', Some (JBool True))], db_b_claimed)"
proof -
  have p: "claimed_once db_b_claimed exec_b" "the_run \<in> set (db_workflow_runs db_b_claimed)"
    "ex_runId exec_b = Some (run_id the_run)" "findRunStepNode the_run (ex_step exec_b) = Inr step_b" by code_simp+
  have "list_all (\<lambda>(k, b). binding_supported b) (nullish (step_reads step_b) [])" by code_simp
  moreover have "map (\<lambda>(k, b). (k, binding_value db_b_claimed the_run b)) (nullish (step_reads step_b) [])
      = [(''prev'', Some (JBool True))]" by code_simp
  ultimately show ?thesis using claimed_step_reads_resolve [OF sample_reachable(5) p] by simp
qed

lemma running_run_has_live_execution_witness:
  "\<exists>e \<in> set (db_executions db_half). ex_runId e = Some 1
     \<and> ex_status e \<in> {Queued, Running, Waiting} \<and> ex_step e \<notin> completed db_half 1"
proof -
  have p: "the_run \<in> set (db_workflow_runs db_half)" "run_status the_run = RunRunning"
    "assertPlainSteps (run_spec the_run) = Inr [step_a, step_b]"
    "acyclic_refs (\<lambda>i. if i = ''b'' then 1 else 0) [step_a, step_b]" "run_id the_run = 1" by code_simp+
  from running_run_has_live_execution [OF sample_reachable(4) p(1-4)] p(5) show ?thesis by auto
qed

lemma run_done_iff_all_outputs_witness:
  "runNodeOutputs_find db_done (1, ''a'') \<noteq> None \<and> runNodeOutputs_find db_done (1, ''b'') \<noteq> None"
proof -
  let ?r = "hd (db_workflow_runs db_done)"
  have p: "?r \<in> set (db_workflow_runs db_done)" "run_status ?r \<noteq> RunFailed" "run_status ?r = RunDone"
    "spec_steps (run_spec ?r) = [PlainStep step_a, PlainStep step_b]" "run_id ?r = 1"
    "step_id step_a = ''a''" "step_id step_b = ''b''" by code_simp+
  from run_done_iff_all_outputs [OF sample_reachable(6) p(1,2)] p(3-7) show ?thesis by simp
qed

lemma circular_steps_never_complete_witness:
  "validateStepReferences (spec_of [self_step] None) = []
   \<and> ''c'' \<notin> completed db_circle 1 \<and> run_status (hd (db_workflow_runs db_circle)) \<noteq> RunDone"
proof -
  let ?r = "hd (db_workflow_runs db_circle)"
  have p: "?r \<in> set (db_workflow_runs db_circle)" "assertPlainSteps (run_spec ?r) = Inr [self_step]"
    "waits_in_circles {''c''} [self_step]" "run_id ?r = 1" "step_id self_step = ''c''" by code_simp+
  have "validateStepReferences (spec_of [self_step] None) = []" by code_simp
  with circular_steps_never_complete [OF circle_reachable p(1-3)] p(4,5) show ?thesis by simp
qed

lemma first_completion_wins_witness:
  "\<exists>s'. completeStep the_run 1 ''a'' [(''y'', JBool False)] db_half = (Inr (), s')
     \<and> (\<exists>o'. runNodeOutputs_find s' (1, ''a'') = Some o' \<and> no_output o' = [(''y'', JBool True)])"
proof -
  let ?e = "db_executions db_half ! 0"
  have p: "claimed_once db_half ?e" "run_of db_half ?e the_run" "ex_id ?e = 1" "ex_step ?e = ''a''"
    "run_id the_run = 1" "map_option no_output (runNodeOutputs_find db_half (1, ''a'')) = Some [(''y'', JBool True)]"
    by code_simp+
  obtain x s' where c: "completeStep the_run (ex_id ?e) (ex_step ?e) [(''y'', JBool False)] db_half = (x, s')"
    by fastforce
  from first_completion_wins [OF sample_reachable(4) p(1,2) c] p(3-6) c show ?thesis by auto
qed

lemma result_of_a_run_witness:
  "getRunResult (hd (db_workflow_runs db_done)) db_done =
     (Inr (RunDone, Some [(''result'', Some (JStr ''end''))]), db_done)"
proof -
  let ?r = "hd (db_workflow_runs db_done)"
  have p: "?r \<in> set (db_workflow_runs db_done)" "run_status ?r = RunDone"
    "find (\<lambda>(k, b). binding_fault (node_id ` set (spec_steps (run_spec ?r))) b \<noteq> None)
      (nullish (spec_outputs (run_spec ?r)) []) = None"
    "map (\<lambda>(k, b). (k, binding_value db_done ?r b)) (nullish (spec_outputs (run_spec ?r)) [])
      = [(''result'', Some (JStr ''end''))]" by code_simp+
  from result_of_a_run [OF sample_reachable(6) p(1)] p(2-4) show ?thesis by simp
qed

end
