(* ===== verification/Session_Log.thy ===== *)
theory Session_Log
  imports Core_Laws
begin

text \<open>
  The durable session log: the repositories of \<open>session_log\<close> and \<open>session_pointer\<close>
  (\<open>core/repositories/session-*.repository.ts\<close>) and the three operations of
  \<open>session/session-log.ts\<close>. A session's history is the list of the inputs that replay
  returns; appending and rewinding refine \<open>@\<close> and \<open>take\<close> on it. Sequence numbers and
  rewind targets are integers.
\<close>

subsection \<open>Repositories\<close>

definition session_rows :: "core_db \<Rightarrow> string \<Rightarrow> session_log_entry list" where
  "session_rows s k = sql_select (\<lambda>r. sl_sessionId r = k) (db_session_log s)"

definition find_pointer :: "core_db \<Rightarrow> string \<Rightarrow> session_pointer option" where
  "find_pointer s k = first_row (sql_select (\<lambda>p. sp_sessionId p = k) (db_session_pointer s))"

text \<open>\<open>INSERT ... ON CONFLICT (session_id) DO UPDATE\<close> with a write that changes nothing.\<close>

definition sessionPointer_lock :: "string \<Rightarrow> session_pointer core_tx" where
  "sessionPointer_lock k =
     tx_bind (\<lambda>s. case find_pointer s k of
         Some p \<Rightarrow> (Inr [p], s)
       | None \<Rightarrow>
           let p = \<lparr>sp_sessionId = k, sp_currentSequence = 0, sp_updatedAt = db_now s\<rparr>
           in (Inr [p], s\<lparr>db_session_pointer := db_session_pointer s @ [p]\<rparr>))
       (row_or_throw CORE_SESSION_POINTER_NO_ROW_RETURNED)"

text \<open>The \<open>CHECK (current_sequence >= 0)\<close> fires only when a row is updated.\<close>

definition sessionPointer_setSequence :: "string \<Rightarrow> int \<Rightarrow> session_pointer core_tx" where
  "sessionPointer_setSequence k n =
     tx_bind (\<lambda>s.
         if find_pointer s k \<noteq> None \<and> n < 0 then (Inl (DbError CheckViolation), s)
         else let ps = sql_update (\<lambda>p. sp_sessionId p = k)
                         (\<lambda>p. p\<lparr>sp_currentSequence := n, sp_updatedAt := db_now s\<rparr>)
                         (db_session_pointer s)
              in (Inr (sql_select (\<lambda>p. sp_sessionId p = k) ps), s\<lparr>db_session_pointer := ps\<rparr>))
       (row_or_throw CORE_SESSION_POINTER_NO_ROW_RETURNED)"

definition sessionLog_append :: "string \<Rightarrow> int \<Rightarrow> json \<Rightarrow> session_log_entry core_tx" where
  "sessionLog_append k n inp =
     tx_bind (\<lambda>s.
         if list_ex (\<lambda>r. sl_sessionId r = k \<and> sl_sequence r = n) (db_session_log s)
         then (Inl (DbError UniqueViolation), s\<lparr>session_log_id_seq := Suc (session_log_id_seq s)\<rparr>)
         else let row = \<lparr>sl_id = Suc (session_log_id_seq s), sl_sessionId = k, sl_sequence = n,
                         sl_input = inp, sl_createdAt = db_now s\<rparr>
              in (Inr [row], s\<lparr>db_session_log := db_session_log s @ [row],
                               session_log_id_seq := Suc (session_log_id_seq s)\<rparr>))
       (row_or_throw CORE_SESSION_LOG_NO_ROW_RETURNED)"

definition sessionLog_deleteAfter :: "string \<Rightarrow> int \<Rightarrow> unit core_tx" where
  "sessionLog_deleteAfter k n =
     tx_write (\<lambda>s. s\<lparr>db_session_log :=
       sql_delete (\<lambda>r. sl_sessionId r = k \<and> sl_sequence r > n) (db_session_log s)\<rparr>)"

definition sessionLog_listBySession :: "string \<Rightarrow> session_log_entry list core_tx" where
  "sessionLog_listBySession k = tx_read (\<lambda>s. sort_key sl_sequence (session_rows s k))"

text \<open>A session without a pointer compares with \<open>NULL\<close> and has no live row.\<close>

definition live_rows :: "core_db \<Rightarrow> string \<Rightarrow> session_log_entry list" where
  "live_rows s k =
     (case find_pointer s k of
        None \<Rightarrow> []
      | Some p \<Rightarrow> sort_key sl_sequence
          (sql_select (\<lambda>r. sl_sequence r \<le> sp_currentSequence p) (session_rows s k)))"

definition sessionLog_listLive :: "string \<Rightarrow> session_log_entry list core_tx" where
  "sessionLog_listLive k = tx_read (\<lambda>s. live_rows s k)"

subsection \<open>\<open>session/session-log.ts\<close>\<close>

definition appendEntry :: "string \<Rightarrow> json \<Rightarrow> session_log_entry core_tx" where
  "appendEntry k inp =
     tx_bind (sessionPointer_lock k) (\<lambda>pointer.
     tx_then (sessionLog_deleteAfter k (sp_currentSequence pointer))
    (let nextSequence = sp_currentSequence pointer + 1 in
     tx_bind (sessionLog_append k nextSequence inp) (\<lambda>entry.
     tx_then (sessionPointer_setSequence k nextSequence)
       (tx_return entry))))"

definition rewindSession :: "string \<Rightarrow> int \<Rightarrow> session_pointer core_tx" where
  "rewindSession k target =
     tx_bind (sessionPointer_lock k) (\<lambda>pointer.
       if target < 0 \<or> target > sp_currentSequence pointer
       then tx_throw (FatalError SESSION_REWIND_TARGET_OUT_OF_RANGE)
       else if target = sp_currentSequence pointer then tx_return pointer
       else sessionPointer_setSequence k target)"

definition replaySession :: "string \<Rightarrow> session_log_entry list core_tx" where
  "replaySession k = sessionLog_listLive k"

subsection \<open>The invariant of the two tables\<close>

text \<open>
  The entries of a session are numbered 1, 2, ... in the order they were stored, and its
  pointer stands at one of them or at 0. Every session with an entry has a pointer.
\<close>

definition pointer_of :: "core_db \<Rightarrow> string \<Rightarrow> int" where
  "pointer_of s k = (case find_pointer s k of None \<Rightarrow> 0 | Some p \<Rightarrow> sp_currentSequence p)"

definition numbered :: "session_log_entry list \<Rightarrow> bool" where
  "numbered rows \<longleftrightarrow> map sl_sequence rows = map int [1..<Suc (length rows)]"

definition session_inv :: "core_db \<Rightarrow> bool" where
  "session_inv s \<longleftrightarrow>
     key_unique sp_sessionId (db_session_pointer s)
     \<and> (\<forall>k \<in> set (map sl_sessionId (db_session_log s) @ map sp_sessionId (db_session_pointer s)).
          numbered (session_rows s k) \<and> find_pointer s k \<noteq> None
          \<and> 0 \<le> pointer_of s k \<and> pointer_of s k \<le> int (length (session_rows s k)))"

definition history :: "core_db \<Rightarrow> string \<Rightarrow> json list" where
  "history s k = map sl_input (live_rows s k)"

lemma find_pointer_None: "find_pointer s k = None \<longleftrightarrow> k \<notin> sp_sessionId ` set (db_session_pointer s)"
  by (auto simp: find_pointer_def sql_select_def filter_empty_conv)

lemma session_rows_Nil: "k \<notin> sl_sessionId ` set (db_session_log s) \<Longrightarrow> session_rows s k = []"
  by (auto simp: session_rows_def sql_select_def filter_empty_conv)

lemma session_invD:
  assumes "session_inv s"
  shows "numbered (session_rows s k)" "0 \<le> pointer_of s k"
    "pointer_of s k \<le> int (length (session_rows s k))"
proof -
  let ?K = "set (map sl_sessionId (db_session_log s) @ map sp_sessionId (db_session_pointer s))"
  have "numbered (session_rows s k) \<and> 0 \<le> pointer_of s k
    \<and> pointer_of s k \<le> int (length (session_rows s k))"
  proof (cases "k \<in> ?K")
    case False
    then have "session_rows s k = []" "find_pointer s k = None"
      by (auto simp: session_rows_Nil find_pointer_None)
    then show ?thesis by (simp add: numbered_def pointer_of_def)
  qed (use assms in \<open>auto simp: session_inv_def\<close>)
  then show "numbered (session_rows s k)" "0 \<le> pointer_of s k"
    "pointer_of s k \<le> int (length (session_rows s k))" by simp_all
qed

lemma session_invI:
  assumes "key_unique sp_sessionId (db_session_pointer s)"
    and "\<And>k. numbered (session_rows s k) \<and> 0 \<le> pointer_of s k
           \<and> pointer_of s k \<le> int (length (session_rows s k))"
    and "\<And>k. find_pointer s k = None \<Longrightarrow> session_rows s k = []"
  shows "session_inv s"
  unfolding session_inv_def
proof (intro conjI ballI)
  fix k
  assume k: "k \<in> set (map sl_sessionId (db_session_log s) @ map sp_sessionId (db_session_pointer s))"
  show "find_pointer s k \<noteq> None"
  proof
    assume none: "find_pointer s k = None"
    with k assms(3) have "session_rows s k = []" "k \<in> sl_sessionId ` set (db_session_log s)"
      by (auto simp: find_pointer_None)
    then show False by (auto simp: session_rows_def sql_select_def filter_empty_conv)
  qed
qed (use assms in simp_all)

lemma session_inv_rows: "session_inv s \<Longrightarrow> find_pointer s k = None \<Longrightarrow> session_rows s k = []"
  by (rule session_rows_Nil)
    (simp only: session_inv_def set_append set_map Un_iff ball_Un, metis)

lemma numbered_Nil [simp]: "numbered []"
  by (simp add: numbered_def)

lemma numbered_snoc [simp]:
  "numbered (rows @ [r]) \<longleftrightarrow> numbered rows \<and> sl_sequence r = int (length rows) + 1"
  by (auto simp: numbered_def)

lemma numbered_take: "numbered rows \<Longrightarrow> numbered (take n rows)"
  by (simp add: numbered_def take_map flip: take_map) (simp add: take_map min_def take_upt)

lemma numbered_bound: "numbered rows \<Longrightarrow> r \<in> set rows \<Longrightarrow> sl_sequence r \<le> int (length rows)"
proof -
  assume "numbered rows" "r \<in> set rows"
  then have "sl_sequence r \<in> set (map int [1..<Suc (length rows)])"
    unfolding numbered_def by (metis image_eqI image_set)
  then show ?thesis by auto
qed

lemma numbered_filter:
  assumes "numbered rows" "0 \<le> n"
  shows "filter (\<lambda>r. sl_sequence r \<le> n) rows = take (nat n) rows"
  using assms
proof (induction rows rule: rev_induct)
  case (snoc r rows)
  show ?case
  proof (cases "int (length rows) + 1 \<le> n")
    case True
    with snoc show ?thesis by (simp add: take_all)
  next
    case False
    with snoc show ?thesis by simp
  qed
qed simp

lemma numbered_sorted: "numbered rows \<Longrightarrow> sorted (map sl_sequence rows)"
proof (induction rows rule: rev_induct)
  case (snoc r rows)
  then show ?case by (force simp: sorted_append dest: numbered_bound)
qed simp

lemma live_rows_eq:
  assumes "session_inv s"
  shows "live_rows s k = take (nat (pointer_of s k)) (session_rows s k)"
proof (cases "find_pointer s k")
  case None
  then show ?thesis by (simp add: live_rows_def pointer_of_def)
next
  case (Some p)
  let ?rows = "take (nat (pointer_of s k)) (session_rows s k)"
  have "sql_select (\<lambda>r. sl_sequence r \<le> sp_currentSequence p) (session_rows s k) = ?rows"
    using session_invD [OF assms, of k] Some
    by (simp add: sql_select_def pointer_of_def numbered_filter)
  moreover have "sorted (map sl_sequence ?rows)"
    using session_invD(1) [OF assms] by (intro numbered_sorted numbered_take)
  ultimately show ?thesis using Some by (simp add: live_rows_def sort_key_id_if_sorted)
qed

subsection \<open>Appending and rewinding\<close>

lemma lock_eq:
  assumes "session_inv s"
  obtains p s1 where "sessionPointer_lock k s = (Inr p, s1)" "find_pointer s1 k = Some p"
    "sp_currentSequence p = pointer_of s k" "db_session_log s1 = db_session_log s"
    "\<And>k'. pointer_of s1 k' = pointer_of s k'"
    "session_inv s1"
proof (cases "find_pointer s k")
  case (Some p)
  with assms show ?thesis
    by (intro that [of p s]) (auto simp: sessionPointer_lock_def tx_simps pointer_of_def)
next
  case None
  let ?p = "\<lparr>sp_sessionId = k, sp_currentSequence = 0, sp_updatedAt = db_now s\<rparr>"
  let ?s = "s\<lparr>db_session_pointer := db_session_pointer s @ [?p]\<rparr>"
  have find: "find_pointer ?s k' = (if k' = k then Some ?p else find_pointer s k')" for k'
    using None by (auto simp: find_pointer_def sql_select_append sql_select_def first_row_append
        split: option.splits)
  have rows: "session_rows ?s k' = session_rows s k'" for k'
    by (simp add: session_rows_def)
  have ptr: "pointer_of ?s k' = pointer_of s k'" for k'
    using None by (simp add: pointer_of_def find)
  have "k \<notin> sp_sessionId ` set (db_session_pointer s)" using None by (simp add: find_pointer_None)
  then have "session_inv ?s"
    using assms session_invD [OF assms] session_inv_rows [OF assms]
    by (intro session_invI)
      (auto simp: key_unique_snoc session_inv_def rows ptr find split: if_splits)
  with None show ?thesis
    by (intro that [of ?p ?s])
      (auto simp: sessionPointer_lock_def tx_simps pointer_of_def find rows Let_def)
qed

lemma setSequence_eq:
  assumes "key_unique sp_sessionId (db_session_pointer s)" "find_pointer s k = Some p" "0 \<le> n"
  obtains p' s' where "sessionPointer_setSequence k n s = (Inr p', s')"
    "sp_currentSequence p' = n" "db_session_log s' = db_session_log s"
    "find_pointer s' k = Some p'" "\<And>k'. k' \<noteq> k \<Longrightarrow> find_pointer s' k' = find_pointer s k'"
    "key_unique sp_sessionId (db_session_pointer s')"
proof -
  let ?u = "\<lambda>p. p\<lparr>sp_currentSequence := n, sp_updatedAt := db_now s\<rparr>"
  let ?ps = "sql_update (\<lambda>p. sp_sessionId p = k) ?u (db_session_pointer s)"
  let ?s = "s\<lparr>db_session_pointer := ?ps\<rparr>"
  have "first_row (sql_select (\<lambda>p. sp_sessionId p = k') ?ps)
      = (if k' = k then Some (?u p) else find_pointer s k')" for k'
    using assms(2) by (auto simp: find_pointer_def sql_select_update_key first_row_map option.map_id)
  then have find: "find_pointer ?s k' = (if k' = k then Some (?u p) else find_pointer s k')" for k'
    by (simp add: find_pointer_def)
  then have "first_row (sql_select (\<lambda>p. sp_sessionId p = k) ?ps) = Some (?u p)"
    by (simp add: find_pointer_def split: if_splits)
  with assms find show ?thesis
    by (intro that [of "?u p" ?s])
      (auto simp: sessionPointer_setSequence_def tx_simps row_or_throw_def Let_def key_unique_update)
qed

text \<open>What an operation on session \<open>k\<close> leaves alone: the entries and pointers of all others.\<close>

definition other_sessions_same :: "string \<Rightarrow> core_db \<Rightarrow> core_db \<Rightarrow> bool" where
  "other_sessions_same k s s' \<longleftrightarrow>
     (\<forall>k'. k' \<noteq> k \<longrightarrow> session_rows s' k' = session_rows s k' \<and> pointer_of s' k' = pointer_of s k')"

lemma session_rows_cong: "db_session_log s = db_session_log s' \<Longrightarrow> session_rows s k = session_rows s' k"
  by (simp add: session_rows_def)

lemma deleteAfter_eq:
  obtains s' where "sessionLog_deleteAfter k n s = (Inr (), s')"
    "db_session_pointer s' = db_session_pointer s"
    "session_rows s' k = filter (\<lambda>r. sl_sequence r \<le> n) (session_rows s k)"
    "\<And>k'. k' \<noteq> k \<Longrightarrow> session_rows s' k' = session_rows s k'"
proof -
  let ?s = "s\<lparr>db_session_log :=
    sql_delete (\<lambda>r. sl_sessionId r = k \<and> sl_sequence r > n) (db_session_log s)\<rparr>"
  show ?thesis
    by (rule that [of ?s])
      (auto simp: sessionLog_deleteAfter_def tx_simps session_rows_def sql_select_def sql_delete_def
        not_less intro!: filter_cong)
qed

lemma append_eq:
  assumes "\<And>r. r \<in> set (session_rows s k) \<Longrightarrow> sl_sequence r \<noteq> n"
  obtains e s' where "sessionLog_append k n inp s = (Inr e, s')" "sl_input e = inp"
    "sl_sequence e = n" "sl_sessionId e = k" "db_session_pointer s' = db_session_pointer s"
    "session_rows s' k = session_rows s k @ [e]"
    "\<And>k'. k' \<noteq> k \<Longrightarrow> session_rows s' k' = session_rows s k'"
proof -
  let ?e = "\<lparr>sl_id = Suc (session_log_id_seq s), sl_sessionId = k, sl_sequence = n,
    sl_input = inp, sl_createdAt = db_now s\<rparr>"
  let ?s = "s\<lparr>db_session_log := db_session_log s @ [?e], session_log_id_seq := Suc (session_log_id_seq s)\<rparr>"
  have "\<not> list_ex (\<lambda>r. sl_sessionId r = k \<and> sl_sequence r = n) (db_session_log s)"
    using assms by (auto simp: list_ex_iff session_rows_def table_simps)
  then show ?thesis
    by (intro that [of ?e ?s])
      (auto simp: sessionLog_append_def tx_simps Let_def session_rows_def sql_select_def)
qed

text \<open>Appending at the pointer keeps the rows numbered and the pointers within them.\<close>

lemma session_inv_append:
  assumes inv: "session_inv s" and keys: "key_unique sp_sessionId (db_session_pointer t)"
    and k: "session_rows t k = take (nat (pointer_of s k)) (session_rows s k) @ [e]"
      "sl_sequence e = pointer_of s k + 1" "pointer_of t k = pointer_of s k + 1" "find_pointer t k \<noteq> None"
    and others: "\<And>k'. k' \<noteq> k \<Longrightarrow> session_rows t k' = session_rows s k' \<and> pointer_of t k' = pointer_of s k'"
    and fresh: "\<And>k'. k' \<noteq> k \<Longrightarrow> find_pointer t k' = None \<Longrightarrow> session_rows s k' = []"
  shows "session_inv t"
proof (rule session_invI)
  fix k'
  show "numbered (session_rows t k') \<and> 0 \<le> pointer_of t k'
      \<and> pointer_of t k' \<le> int (length (session_rows t k'))"
    using session_invD [OF inv, of k'] k(1-3) others [of k']
    by (cases "k' = k") (auto simp: numbered_take min_def)
  show "session_rows t k' = []" if "find_pointer t k' = None"
    using that k(4) others [of k'] fresh [of k'] by (cases "k' = k") auto
qed (rule keys)

lemma appendEntry_eq:
  assumes inv: "session_inv s"
  obtains e s' where "appendEntry k inp s = (Inr e, s')" "sl_input e = inp"
    "sl_sequence e = pointer_of s k + 1"
    "session_rows s' k = take (nat (pointer_of s k)) (session_rows s k) @ [e]"
    "pointer_of s' k = pointer_of s k + 1" "other_sessions_same k s s'" "session_inv s'"
proof -
  let ?n = "pointer_of s k"
  note rows = session_invD [OF inv, of k]
  obtain p s1 where l: "sessionPointer_lock k s = (Inr p, s1)" "find_pointer s1 k = Some p"
    "sp_currentSequence p = ?n" "db_session_log s1 = db_session_log s"
    "\<And>k'. pointer_of s1 k' = pointer_of s k'" "session_inv s1" by (rule lock_eq [OF inv, of k]) blast
  obtain s2 where d: "sessionLog_deleteAfter k ?n s1 = (Inr (), s2)"
    "db_session_pointer s2 = db_session_pointer s1"
    "session_rows s2 k = filter (\<lambda>r. sl_sequence r \<le> ?n) (session_rows s1 k)"
    "\<And>k'. k' \<noteq> k \<Longrightarrow> session_rows s2 k' = session_rows s1 k'" by (rule deleteAfter_eq [of k ?n s1]) blast
  have s2: "session_rows s2 k = take (nat ?n) (session_rows s k)"
    using d(3) rows by (simp add: session_rows_cong [OF l(4)] numbered_filter)
  have "sl_sequence r \<noteq> ?n + 1" if "r \<in> set (session_rows s2 k)" for r using that d(3) by auto
  then obtain e s3 where a: "sessionLog_append k (?n + 1) inp s2 = (Inr e, s3)" "sl_input e = inp"
    "sl_sequence e = ?n + 1" "sl_sessionId e = k" "db_session_pointer s3 = db_session_pointer s2"
    "session_rows s3 k = session_rows s2 k @ [e]"
    "\<And>k'. k' \<noteq> k \<Longrightarrow> session_rows s3 k' = session_rows s2 k'" by (rule append_eq [of s2 k "?n + 1" inp]) blast+
  have fp: "find_pointer s3 k' = find_pointer s1 k'" for k' using a(5) d(2) by (simp add: find_pointer_def)
  obtain p' s4 where u: "sessionPointer_setSequence k (?n + 1) s3 = (Inr p', s4)"
    "sp_currentSequence p' = ?n + 1" "db_session_log s4 = db_session_log s3"
    "find_pointer s4 k = Some p'" "\<And>k'. k' \<noteq> k \<Longrightarrow> find_pointer s4 k' = find_pointer s3 k'"
    "key_unique sp_sessionId (db_session_pointer s4)"
    using setSequence_eq [of s3 k p "?n + 1"] a(5) d(2) l(2,6) rows fp
    unfolding session_inv_def by auto
  have k: "session_rows s4 k = take (nat ?n) (session_rows s k) @ [e]" "pointer_of s4 k = ?n + 1"
    using a(6) s2 u by (simp_all add: session_rows_cong [OF u(3)] pointer_of_def)
  have others: "session_rows s4 k' = session_rows s k'" "pointer_of s4 k' = pointer_of s k'"
    if "k' \<noteq> k" for k'
    using that a(7) d(4) l(5) [of k'] u(5) fp
    by (simp_all add: session_rows_cong [OF u(3)] session_rows_cong [OF l(4)] pointer_of_def)
  have "session_inv s4"
  proof (rule session_inv_append [OF inv u(6) k(1) a(3) k(2)])
    show "session_rows s k' = []" if "k' \<noteq> k" "find_pointer s4 k' = None" for k'
      using that u(5) fp session_inv_rows [OF l(6), of k'] l(4) by (simp add: session_rows_def)
  qed (simp_all add: u(4) others)
  moreover have "appendEntry k inp s = (Inr e, s4)"
    using l(1,3) d(1) a(1) u(1) by (simp add: appendEntry_def tx_simps Let_def)
  ultimately show ?thesis
    using that a(2,3) k others by (auto simp: other_sessions_same_def)
qed

lemma rewindSession_cases:
  assumes inv: "session_inv s"
  obtains (rejected) s' where "n < 0 \<or> n > pointer_of s k"
      "rewindSession k n s = (Inl (FatalError SESSION_REWIND_TARGET_OUT_OF_RANGE), s')"
      "db_session_log s' = db_session_log s" "\<And>k'. pointer_of s' k' = pointer_of s k'" "session_inv s'"
  | (moved) p s' where "0 \<le> n" "n \<le> pointer_of s k" "rewindSession k n s = (Inr p, s')"
      "sp_currentSequence p = n" "db_session_log s' = db_session_log s" "pointer_of s' k = n"
      "other_sessions_same k s s'" "session_inv s'"
proof -
  obtain p s1 where l: "sessionPointer_lock k s = (Inr p, s1)" "find_pointer s1 k = Some p"
    "sp_currentSequence p = pointer_of s k" "db_session_log s1 = db_session_log s"
    "\<And>k'. pointer_of s1 k' = pointer_of s k'" "session_inv s1" by (rule lock_eq [OF inv, of k]) blast
  consider "n < 0 \<or> n > pointer_of s k" | "n = pointer_of s k" "0 \<le> n"
    | "0 \<le> n" "n < pointer_of s k" by linarith
  then show ?thesis
  proof cases
    case 1
    with l show ?thesis by (intro rejected [of s1]) (simp_all add: rewindSession_def tx_simps)
  next
    case 2
    with l show ?thesis
      by (intro moved [of p s1])
        (simp_all add: rewindSession_def tx_simps other_sessions_same_def session_rows_cong [OF l(4)])
  next
    case 3
    obtain p' s2 where u: "sessionPointer_setSequence k n s1 = (Inr p', s2)"
      "sp_currentSequence p' = n" "db_session_log s2 = db_session_log s1" "find_pointer s2 k = Some p'"
      "\<And>k'. k' \<noteq> k \<Longrightarrow> find_pointer s2 k' = find_pointer s1 k'"
      "key_unique sp_sessionId (db_session_pointer s2)"
      using setSequence_eq [of s1 k p n] 3 l unfolding session_inv_def by auto
    have ptr: "pointer_of s2 k' = (if k' = k then n else pointer_of s k')" for k'
      using u l(5) [of k'] by (simp add: pointer_of_def)
    have log: "session_rows s2 k' = session_rows s k'" for k'
      using u(3) l(4) by (simp add: session_rows_def)
    have "session_inv s2"
    proof (rule session_invI)
      fix k'
      show "numbered (session_rows s2 k') \<and> 0 \<le> pointer_of s2 k'
          \<and> pointer_of s2 k' \<le> int (length (session_rows s2 k'))"
        using session_invD [OF inv, of k'] 3 by (auto simp: log ptr)
      show "session_rows s2 k' = []" if "find_pointer s2 k' = None"
        using that u(4,5) session_inv_rows [OF l(6), of k'] l(4) log
        by (cases "k' = k") (auto simp: session_rows_def)
    qed (rule u(6))
    with 3 l u ptr log show ?thesis
      by (intro moved [of p' s2]) (simp_all add: rewindSession_def tx_simps other_sessions_same_def)
  qed
qed

text \<open>\<open>lock\<close> may create a pointer; history and the other sessions are as before.\<close>

lemma history_eq:
  "session_inv s \<Longrightarrow> history s k = take (nat (pointer_of s k)) (map sl_input (session_rows s k))"
  by (simp add: history_def live_rows_eq take_map)

lemma length_history: "session_inv s \<Longrightarrow> length (history s k) = nat (pointer_of s k)"
  using session_invD(2,3) [of s k] by (simp add: history_eq)

lemma history_other:
  "other_sessions_same k s s' \<Longrightarrow> session_inv s \<Longrightarrow> session_inv s' \<Longrightarrow> k' \<noteq> k \<Longrightarrow> history s' k' = history s k'"
  by (simp add: history_eq other_sessions_same_def)

lemma history_append:
  assumes "session_inv s" "appendEntry k inp s = (r, s')"
  shows "session_inv s'" "history s' k = history s k @ [inp]" "k' \<noteq> k \<Longrightarrow> history s' k' = history s k'"
    "\<exists>e. r = Inr e"
proof -
  obtain e t where t: "appendEntry k inp s = (Inr e, t)" "sl_input e = inp"
    "session_rows t k = take (nat (pointer_of s k)) (session_rows s k) @ [e]"
    "pointer_of t k = pointer_of s k + 1" "other_sessions_same k s t" "session_inv t"
    by (rule appendEntry_eq [OF assms(1)])
  with assms show "session_inv s'" "k' \<noteq> k \<Longrightarrow> history s' k' = history s k'" "\<exists>e. r = Inr e"
    by (auto intro: history_other)
  show "history s' k = history s k @ [inp]"
    using t assms session_invD [OF assms(1), of k]
    by (simp add: history_eq take_map nat_add_distrib)
qed

lemma history_rewind:
  assumes "session_inv s" "rewindSession k n s = (r, s')"
  shows "session_inv s'"
    "history s' k = (case r of Inl _ \<Rightarrow> history s k | Inr _ \<Rightarrow> take (nat n) (history s k))"
    "k' \<noteq> k \<Longrightarrow> history s' k' = history s k'"
    "(\<exists>p. r = Inr p) \<longleftrightarrow> 0 \<le> n \<and> nat n \<le> length (history s k)"
proof -
  note b = session_invD [OF assms(1), of k]
  have "session_inv s' \<and> (k' \<noteq> k \<longrightarrow> history s' k' = history s k')
    \<and> history s' k = (case r of Inl _ \<Rightarrow> history s k | Inr _ \<Rightarrow> take (nat n) (history s k))
    \<and> ((\<exists>p. r = Inr p) \<longleftrightarrow> 0 \<le> n \<and> nat n \<le> length (history s k))"
  proof (rule rewindSession_cases [OF assms(1), of n k], goal_cases rejected moved)
    case (rejected t)
    with assms have "history s' k'' = history s k''" for k''
      by (simp add: history_eq session_rows_def)
    with rejected assms b show ?thesis by (auto simp: length_history)
  next
    case (moved p t)
    then have "history t k = take (nat n) (history s k)"
      using assms(1) by (simp add: history_eq session_rows_cong [of t s] min_def nat_le_eq_zle)
    with moved assms b show ?thesis by (auto simp: length_history history_other)
  qed
  then show "session_inv s'"
    "history s' k = (case r of Inl _ \<Rightarrow> history s k | Inr _ \<Rightarrow> take (nat n) (history s k))"
    "k' \<noteq> k \<Longrightarrow> history s' k' = history s k'"
    "(\<exists>p. r = Inr p) \<longleftrightarrow> 0 \<le> n \<and> nat n \<le> length (history s k)" by blast+
qed

subsection \<open>A session as a list that is appended to and cut back\<close>

datatype ('k, 'i) session_command = AppendEntry 'k 'i | RewindSession 'k int

fun command_key :: "('k, 'i) session_command \<Rightarrow> 'k" where
  "command_key (AppendEntry k x) = k"
| "command_key (RewindSession k n) = k"

text \<open>The specification: a rewind outside the history is refused and changes nothing.\<close>

fun history_step :: "('k, 'i) session_command \<Rightarrow> ('k \<Rightarrow> 'i list) \<Rightarrow> 'k \<Rightarrow> 'i list" where
  "history_step (AppendEntry k x) h = h(k := h k @ [x])"
| "history_step (RewindSession k n) h =
     (if 0 \<le> n \<and> nat n \<le> length (h k) then h(k := take (nat n) (h k)) else h)"

locale linear_history =
  fixes push :: "'k \<Rightarrow> 'i \<Rightarrow> 's \<Rightarrow> 's"
    and seek :: "'k \<Rightarrow> int \<Rightarrow> 's \<Rightarrow> 's"
    and past :: "'s \<Rightarrow> 'k \<Rightarrow> 'i list"
    and ok :: "'s \<Rightarrow> bool"
  assumes ok_push: "ok s \<Longrightarrow> ok (push k x s)"
    and ok_seek: "ok s \<Longrightarrow> ok (seek k n s)"
    and past_push: "ok s \<Longrightarrow> past (push k x s) = history_step (AppendEntry k x) (past s)"
    and past_seek: "ok s \<Longrightarrow> past (seek k n s) = history_step (RewindSession k n) (past s)"
begin

fun exec :: "('k, 'i) session_command \<Rightarrow> 's \<Rightarrow> 's" where
  "exec (AppendEntry k x) s = push k x s"
| "exec (RewindSession k n) s = seek k n s"

lemma exec_ok: "ok s \<Longrightarrow> ok (exec c s)"
  by (cases c) (simp_all add: ok_push ok_seek)

lemma exec_past: "ok s \<Longrightarrow> past (exec c s) = history_step c (past s)"
  by (cases c) (simp_all add: past_push past_seek del: history_step.simps)

lemma run_refines:
  "ok s \<Longrightarrow> ok (fold exec cs s) \<and> past (fold exec cs s) = fold history_step cs (past s)"
  by (induction cs arbitrary: s) (simp_all add: exec_ok exec_past)

end

lemma history_step_other: "command_key c \<noteq> k \<Longrightarrow> history_step c h k = h k"
  by (cases c) auto

lemma history_step_local: "h k = h' k \<Longrightarrow> history_step c h k = history_step c h' k"
  by (cases c) auto

lemma history_fold_local:
  "h k = h' k \<Longrightarrow> fold history_step cs h k = fold history_step (filter (\<lambda>c. command_key c = k) cs) h' k"
proof (induction cs arbitrary: h h')
  case (Cons c cs)
  show ?case
  proof (cases "command_key c = k")
    case True
    have "history_step c h k = history_step c h' k" using Cons.prems by (rule history_step_local)
    from Cons.IH [of "history_step c h" "history_step c h'", OF this] True show ?thesis by simp
  next
    case False
    then have "history_step c h k = h' k" using Cons.prems by (simp add: history_step_other)
    from Cons.IH [of "history_step c h" h', OF this] False show ?thesis by simp
  qed
qed simp

interpretation sl: linear_history "\<lambda>k x s. snd (appendEntry k x s)" "\<lambda>k n s. snd (rewindSession k n s)"
  history session_inv
proof unfold_locales
  fix s :: core_db and k x
  assume inv: "session_inv s"
  note h = history_append [OF inv surjective_pairing [of "appendEntry k x s"]]
  show "session_inv (snd (appendEntry k x s))" by (rule h(1))
  show "history (snd (appendEntry k x s)) = history_step (AppendEntry k x) (history s)"
    by (rule ext) (simp add: h(2,3))
next
  fix s :: core_db and k n
  assume inv: "session_inv s"
  note h = history_rewind [OF inv surjective_pairing [of "rewindSession k n s"]]
  show "session_inv (snd (rewindSession k n s))" by (rule h(1))
  show "history (snd (rewindSession k n s)) = history_step (RewindSession k n) (history s)"
    using h(4) by (intro ext) (auto simp: h(2,3) split: sum.splits)
qed

text \<open>The commands as the code runs them, one committed transaction each.\<close>

fun session_exec :: "(string, json) session_command \<Rightarrow> core_db \<Rightarrow> core_db" where
  "session_exec (AppendEntry k x) s = snd (appendEntry k x s)"
| "session_exec (RewindSession k n) s = snd (rewindSession k n s)"

lemma session_exec_eq: "session_exec = sl.exec"
  by (intro ext, rename_tac c s, case_tac c) simp_all

text \<open>C12. Replay refines lists: after any sequence of appends and rewinds, in any order and on any
  sessions, what replay returns for a session is what appending to and cutting back its own
  list gives, and commands on other sessions have no part in it.\<close>

theorem session_log_refines_lists:
  assumes "session_inv s"
  shows "history (fold session_exec cs s) k =
      fold history_step (filter (\<lambda>c. command_key c = k) cs) (history s) k
    \<and> session_inv (fold session_exec cs s)"
  using sl.run_refines [OF assms, of cs] history_fold_local [of "history s" k "history s" cs]
  by (simp add: session_exec_eq)

text \<open>\<open>appendEntry\<close> never fails on a well-formed log: whatever a rewind left behind, it drops
  the abandoned tail, stores the input under the sequence number after the pointer, and the
  session's stored rows become exactly the live ones.\<close>

theorem append_drops_the_abandoned_tail:
  assumes "session_inv s"
  shows "\<exists>e s'. appendEntry k inp s = (Inr e, s')
    \<and> sl_input e = inp \<and> sl_sequence e = int (length (history s k)) + 1
    \<and> sessionLog_listBySession k s' = (Inr (live_rows s k @ [e]), s')
    \<and> replaySession k s' = (Inr (live_rows s k @ [e]), s')"
proof -
  obtain e s' where e: "appendEntry k inp s = (Inr e, s')" "sl_input e = inp"
    "sl_sequence e = pointer_of s k + 1"
    "session_rows s' k = take (nat (pointer_of s k)) (session_rows s k) @ [e]"
    "pointer_of s' k = pointer_of s k + 1" "session_inv s'"
    by (rule appendEntry_eq [OF assms])
  note b = session_invD [OF assms, of k]
  have live: "live_rows s k @ [e] = session_rows s' k" using e(4) by (simp add: live_rows_eq [OF assms])
  moreover have "live_rows s' k = session_rows s' k"
    using e(4,5) b by (simp add: live_rows_eq [OF e(6)] nat_add_distrib)
  moreover have "sort_key sl_sequence (session_rows s' k) = session_rows s' k"
    using session_invD(1) [OF e(6)] by (intro sort_key_id_if_sorted numbered_sorted)
  ultimately show ?thesis
    using e b by (simp add: length_history [OF assms] replaySession_def sessionLog_listLive_def
      sessionLog_listBySession_def tx_simps)
qed

text \<open>\<open>rewindSession\<close> succeeds exactly for a target between 0 and the current sequence; it
  then moves only this session's pointer, deletes nothing, and replay shows the entries up to
  the target. Otherwise it fails with its own error and no history changes.\<close>

theorem rewind_moves_only_the_pointer:
  assumes "session_inv s" "rewindSession k n s = (r, s')"
  shows "db_session_log s' = db_session_log s
    \<and> (if 0 \<le> n \<and> n \<le> int (length (history s k))
       then (\<exists>p. r = Inr p \<and> sp_currentSequence p = n) \<and> history s' k = take (nat n) (history s k)
       else r = Inl (FatalError SESSION_REWIND_TARGET_OUT_OF_RANGE) \<and> history s' = history s)"
proof -
  note b = session_invD [OF assms(1), of k]
  show ?thesis
  proof (rule rewindSession_cases [OF assms(1), of n k], goal_cases rejected moved)
    case (rejected t)
    with assms have "history s' = history s"
      by (simp add: history_eq session_rows_def fun_eq_iff)
    with rejected assms b show ?thesis by (auto simp: length_history)
  next
    case (moved p t)
    with assms have "history s' k = take (nat n) (history s k)"
      by (simp add: history_eq session_rows_def min_def nat_le_eq_zle)
    with moved assms b show ?thesis by (auto simp: length_history)
  qed
qed

subsection \<open>The properties on a sample session\<close>

lemma session_inv_empty: "session_inv empty_db"
  by (simp add: session_inv_def empty_db_def)

lemma session_log_refines_lists_witness:
  "history (fold session_exec
     [AppendEntry ''s'' (JStr ''a''), AppendEntry ''t'' JNull, AppendEntry ''s'' (JStr ''b''),
      RewindSession ''s'' 1, AppendEntry ''s'' (JStr ''c'')] empty_db) ''s'' = [JStr ''a'', JStr ''c'']"
proof -
  have "history empty_db ''s'' = []" by code_simp
  with session_log_refines_lists [OF session_inv_empty, of
    "[AppendEntry ''s'' (JStr ''a''), AppendEntry ''t'' JNull, AppendEntry ''s'' (JStr ''b''),
      RewindSession ''s'' 1, AppendEntry ''s'' (JStr ''c'')]" "''s''"]
  show ?thesis by simp
qed

definition db_rewound :: core_db where
  "db_rewound = fold session_exec
     [AppendEntry ''s'' (JStr ''a''), AppendEntry ''s'' (JStr ''b''), RewindSession ''s'' 1] empty_db"

lemma session_inv_rewound: "session_inv db_rewound"
  unfolding db_rewound_def session_exec_eq using sl.run_refines [OF session_inv_empty] by blast

lemma append_drops_the_abandoned_tail_witness:
  "\<exists>e s'. appendEntry ''s'' (JStr ''c'') db_rewound = (Inr e, s') \<and> sl_sequence e = 2
     \<and> length (session_rows db_rewound ''s'') = 2 \<and> sl_input e = JStr ''c''"
proof -
  have "length (history db_rewound ''s'') = 1" "length (session_rows db_rewound ''s'') = 2" by code_simp+
  with append_drops_the_abandoned_tail [OF session_inv_rewound, of "''s''" "JStr ''c''"]
  show ?thesis by auto
qed

lemma rewind_moves_only_the_pointer_witness:
  "\<exists>s'. rewindSession ''s'' 2 db_rewound = (Inl (FatalError SESSION_REWIND_TARGET_OUT_OF_RANGE), s')"
proof -
  have "length (history db_rewound ''s'') = 1" by code_simp
  moreover obtain r s' where "rewindSession ''s'' 2 db_rewound = (r, s')" by fastforce
  ultimately show ?thesis using rewind_moves_only_the_pointer [OF session_inv_rewound] by fastforce
qed

end
