(* ===== verification/Trust_Tier.thy ===== *)
theory Trust_Tier
  imports Prelude
begin

text \<open>
  \<open>shared/trust-tier.ts\<close>: the vocabulary of trust tiers, ordered from the least to the most
  trusted as the list \<open>TRUST_TIERS\<close> has them.
\<close>

datatype trust_tier = Unverified | ConformancePassed | ProductionProven

definition TRUST_TIERS :: "trust_tier list" where
  "TRUST_TIERS = [Unverified, ConformancePassed, ProductionProven]"

fun trust_tier_name :: "trust_tier \<Rightarrow> string" where
  "trust_tier_name Unverified = ''unverified''"
| "trust_tier_name ConformancePassed = ''conformance-passed''"
| "trust_tier_name ProductionProven = ''production-proven''"

fun trust_rank :: "trust_tier \<Rightarrow> nat" where
  "trust_rank Unverified = 0"
| "trust_rank ConformancePassed = 1"
| "trust_rank ProductionProven = 2"

lemma trust_rank_inj: "trust_rank a = trust_rank b \<Longrightarrow> a = b"
  by (cases a; cases b) simp_all

lemma trust_tier_name_inj: "trust_tier_name a = trust_tier_name b \<Longrightarrow> a = b"
  by (cases a; cases b) simp_all

instantiation trust_tier :: linorder
begin

definition less_eq_trust_tier :: "trust_tier \<Rightarrow> trust_tier \<Rightarrow> bool" where
  "a \<le> b \<longleftrightarrow> trust_rank a \<le> trust_rank b"

definition less_trust_tier :: "trust_tier \<Rightarrow> trust_tier \<Rightarrow> bool" where
  "a < b \<longleftrightarrow> trust_rank a < trust_rank b"

instance
  by standard (auto simp: less_eq_trust_tier_def less_trust_tier_def intro: trust_rank_inj)

end

text \<open>The tiers in order: the list is sorted, and holds each tier once.\<close>

lemma TRUST_TIERS_sorted: "sorted TRUST_TIERS" "distinct TRUST_TIERS" "t \<in> set TRUST_TIERS"
  by (simp_all add: TRUST_TIERS_def less_eq_trust_tier_def) (cases t; simp)

end
