(* ===== verification/Registry_Types.thy ===== *)
theory Registry_Types
  imports Workflow_Spec Trust_Tier
begin

text \<open>
  \<open>registry/constants.ts\<close> and \<open>registry/domain/\<close>: the vocabularies of the registry and its rows.
  The names of each vocabulary are the strings the code compares with; \<open>decode_entry\<close> is what
  the dispatcher reads of an \<open>InvocationDescriptorEntry\<close> that is stored as JSON.
\<close>

subsection \<open>Vocabularies\<close>

datatype materialization_cost_class = Negligible | Heavy

fun materialization_cost_class_name :: "materialization_cost_class \<Rightarrow> string" where
  "materialization_cost_class_name Negligible = ''negligible''"
| "materialization_cost_class_name Heavy = ''heavy''"

definition MATERIALIZATION_COST_CLASSES :: "materialization_cost_class list" where
  "MATERIALIZATION_COST_CLASSES = [Negligible, Heavy]"

datatype nesting_transport = ViaSdk | ViaHttp | ViaCli | ViaMcp

fun nesting_transport_name :: "nesting_transport \<Rightarrow> string" where
  "nesting_transport_name ViaSdk = ''sdk''"
| "nesting_transport_name ViaHttp = ''http''"
| "nesting_transport_name ViaCli = ''cli''"
| "nesting_transport_name ViaMcp = ''mcp''"

definition NESTING_TRANSPORTS :: "nesting_transport list" where
  "NESTING_TRANSPORTS = [ViaSdk, ViaHttp, ViaCli, ViaMcp]"

datatype invocation_style = FlagStyle | PositionalStyle | StdinStyle

fun invocation_style_name :: "invocation_style \<Rightarrow> string" where
  "invocation_style_name FlagStyle = ''flag''"
| "invocation_style_name PositionalStyle = ''positional''"
| "invocation_style_name StdinStyle = ''stdin''"

definition INVOCATION_STYLES :: "invocation_style list" where
  "INVOCATION_STYLES = [FlagStyle, PositionalStyle, StdinStyle]"

datatype state_reuse = NoStateReuse | StateIdKeyed

fun state_reuse_name :: "state_reuse \<Rightarrow> string" where
  "state_reuse_name NoStateReuse = ''none''"
| "state_reuse_name StateIdKeyed = ''stateIdKeyed''"

definition STATE_REUSE_KINDS :: "state_reuse list" where
  "STATE_REUSE_KINDS = [NoStateReuse, StateIdKeyed]"

text \<open>\<open>VOCABULARY.includes(value)\<close>, as the member of the vocabulary that the value names.\<close>

definition named_by :: "('a \<Rightarrow> string) \<Rightarrow> 'a list \<Rightarrow> json option \<Rightarrow> 'a option" where
  "named_by name vocabulary v =
     (case v of Some (JStr s) \<Rightarrow> List.find (\<lambda>x. name x = s) vocabulary | _ \<Rightarrow> None)"

lemma named_by_Some:
  assumes "inj name"
  shows "named_by name vocabulary v = Some x \<longleftrightarrow> v = Some (JStr (name x)) \<and> x \<in> set vocabulary"
proof -
  have "List.find (\<lambda>y. name y = name x) vocabulary = Some x" if "x \<in> set vocabulary"
    using that assms by (induction vocabulary) (auto dest: injD)
  then show ?thesis
    by (auto simp: named_by_def find_Some_iff in_set_conv_nth split: option.splits json.splits)
qed

lemma vocabulary_names [simp]:
  "inj materialization_cost_class_name" "inj nesting_transport_name" "inj invocation_style_name"
  "inj state_reuse_name" "inj trust_tier_name"
proof -
  show "inj materialization_cost_class_name"
    by (rule injI; elim materialization_cost_class_name.elims; simp)
  show "inj nesting_transport_name" by (rule injI; elim nesting_transport_name.elims; simp)
  show "inj invocation_style_name" by (rule injI; elim invocation_style_name.elims; simp)
  show "inj state_reuse_name" by (rule injI; elim state_reuse_name.elims; simp)
  show "inj trust_tier_name" by (rule injI; elim trust_tier_name.elims; simp)
qed

lemma vocabulary_complete [simp]:
  "c \<in> set MATERIALIZATION_COST_CLASSES" "t \<in> set NESTING_TRANSPORTS" "i \<in> set INVOCATION_STYLES"
  "s \<in> set STATE_REUSE_KINDS"
  by ((cases c; simp add: MATERIALIZATION_COST_CLASSES_def)
      | (cases t; simp add: NESTING_TRANSPORTS_def) | (cases i; simp add: INVOCATION_STYLES_def)
      | (cases s; simp add: STATE_REUSE_KINDS_def))+

text \<open>\<open>/^[a-zA-Z][a-zA-Z0-9-]*$/\<close> and \<open>/^--[a-zA-Z][a-zA-Z0-9-]*$/\<close>.\<close>

fun AGENT_ARG_FLAG_NAME_PATTERN :: "string \<Rightarrow> bool" where
  "AGENT_ARG_FLAG_NAME_PATTERN [] \<longleftrightarrow> False"
| "AGENT_ARG_FLAG_NAME_PATTERN (c # cs) \<longleftrightarrow> is_alpha c \<and> list_all is_flag_char cs"

fun INVOCATION_FLAG_NAME_PATTERN :: "string \<Rightarrow> bool" where
  "INVOCATION_FLAG_NAME_PATTERN (a # b # cs) \<longleftrightarrow>
     a = CHR ''-'' \<and> b = CHR ''-'' \<and> AGENT_ARG_FLAG_NAME_PATTERN cs"
| "INVOCATION_FLAG_NAME_PATTERN _ \<longleftrightarrow> False"

lemma flag_name_not_dash: "AGENT_ARG_FLAG_NAME_PATTERN s \<Longrightarrow> \<not> starts_with ''-'' s"
  by (cases s) (auto simp: is_alpha_def)

subsection \<open>Rows\<close>

record invocation_descriptor_entry =
  ie_param :: string
  ie_style :: invocation_style
  ie_flagName :: "string option"
  ie_positionIndex :: "rat option"

datatype nesting_targets = OpenTargets | TargetList "string list"

record nesting_declaration =
  nd_via :: nesting_transport
  nd_targets :: nesting_targets

record function_capability_input =
  fc_mutates :: bool
  fc_materializationCostClass :: materialization_cost_class
  fc_cowSupport :: bool
  fc_changeDetectionSupport :: bool
  fc_nestingDeclaration :: "nesting_declaration option"
  fc_invocationDescriptor :: "invocation_descriptor_entry list"
  fc_stateReuse :: state_reuse
  fc_additiveWarmUpdate :: bool

record function_capability = function_capability_input +
  fc_digest :: string
  fc_functionName :: string

record service_image =
  si_digest :: string
  si_ociRef :: string
  si_openapiSpec :: json
  si_hardwareRequirements :: js_object
  si_trustTier :: trust_tier
  si_registeredAt :: int
  si_updatedAt :: int

subsection \<open>Typed views of stored JSON\<close>

fun as_string :: "json option \<Rightarrow> string option" where
  "as_string (Some (JStr s)) = Some s"
| "as_string _ = None"

fun as_bool :: "json option \<Rightarrow> bool option" where
  "as_bool (Some (JBool b)) = Some b"
| "as_bool _ = None"

fun as_number :: "json option \<Rightarrow> rat option" where
  "as_number (Some (JNum n)) = Some n"
| "as_number _ = None"

lemma as_Some [simp]:
  "as_string v = Some s \<longleftrightarrow> v = Some (JStr s)"
  "as_bool v = Some b \<longleftrightarrow> v = Some (JBool b)"
  "as_number v = Some n \<longleftrightarrow> v = Some (JNum n)"
  by ((cases v rule: as_string.cases; auto) | (cases v rule: as_bool.cases; auto)
      | (cases v rule: as_number.cases; auto))+

fun option_list :: "'a option list \<Rightarrow> 'a list option" where
  "option_list [] = Some []"
| "option_list (x # xs) =
     (case x of None \<Rightarrow> None | Some a \<Rightarrow> map_option ((#) a) (option_list xs))"

lemma option_list_Some: "option_list xs = Some ys \<longleftrightarrow> xs = map Some ys"
  by (induction xs arbitrary: ys) (auto split: option.splits)

text \<open>
  The dispatcher reads \<open>flagName\<close> of a flag entry only and \<open>positionIndex\<close> of a positional one
  only; of the others a value of another type is as good as none.
\<close>

definition decode_entry :: "json \<Rightarrow> invocation_descriptor_entry option" where
  "decode_entry e =
     (case (as_string (js_member e ''param''),
            named_by invocation_style_name INVOCATION_STYLES (js_member e ''style'')) of
        (Some param, Some style) \<Rightarrow>
          Some \<lparr>ie_param = param, ie_style = style,
                ie_flagName = as_string (js_member e ''flagName''),
                ie_positionIndex = as_number (js_member e ''positionIndex'')\<rparr>
      | _ \<Rightarrow> None)"

definition decode_descriptor :: "json option \<Rightarrow> invocation_descriptor_entry list option" where
  "decode_descriptor d =
     (case d of Some (JArr es) \<Rightarrow> option_list (map decode_entry es) | _ \<Rightarrow> None)"

fun decode_targets :: "json option \<Rightarrow> nesting_targets option" where
  "decode_targets (Some (JStr s)) = (if s = ''open'' then Some OpenTargets else None)"
| "decode_targets (Some (JArr ts)) =
     map_option TargetList (option_list (map (\<lambda>t. as_string (Some t)) ts))"
| "decode_targets _ = None"

text \<open>The column \<open>nesting_declaration\<close>: \<open>NULL\<close> for \<open>null\<close> and \<open>undefined\<close>.\<close>

definition decode_nesting :: "json option \<Rightarrow> nesting_declaration option option" where
  "decode_nesting v =
     (case v of
        None \<Rightarrow> Some None
      | Some JNull \<Rightarrow> Some None
      | Some n \<Rightarrow>
          (case (named_by nesting_transport_name NESTING_TRANSPORTS (js_member n ''via''),
                 decode_targets (js_member n ''targets'')) of
             (Some via, Some targets) \<Rightarrow> Some (Some \<lparr>nd_via = via, nd_targets = targets\<rparr>)
           | _ \<Rightarrow> None))"

definition decode_capability :: "json \<Rightarrow> function_capability_input option" where
  "decode_capability c =
     (case (as_bool (js_member c ''mutates''),
            named_by materialization_cost_class_name MATERIALIZATION_COST_CLASSES
              (js_member c ''materializationCostClass''),
            as_bool (js_member c ''cowSupport''),
            as_bool (js_member c ''changeDetectionSupport''),
            decode_nesting (js_member c ''nestingDeclaration''),
            decode_descriptor (js_member c ''invocationDescriptor''),
            named_by state_reuse_name STATE_REUSE_KINDS (js_member c ''stateReuse''),
            as_bool (js_member c ''additiveWarmUpdate'')) of
        (Some mutates, Some cost, Some cow, Some change, Some nesting, Some descriptor,
         Some reuse, Some warm) \<Rightarrow>
          Some \<lparr>fc_mutates = mutates, fc_materializationCostClass = cost, fc_cowSupport = cow,
                fc_changeDetectionSupport = change, fc_nestingDeclaration = nesting,
                fc_invocationDescriptor = descriptor, fc_stateReuse = reuse,
                fc_additiveWarmUpdate = warm\<rparr>
      | _ \<Rightarrow> None)"

end
