(* ===== verification/Registry_Validate.thy ===== *)
theory Registry_Validate
  imports Registry_Types
begin

text \<open>
  \<open>registry/validate.ts\<close>: the checks a registration passes before anything is stored. The
  payload is of type \<open>unknown\<close>, so it is JSON here. An error is a constructor per message
  template, with the values the message interpolates; a list that is pushed to is the list of
  the errors in the order in which they are pushed. The second half says what the checks are
  for: a payload passes them exactly when the casts that follow it in the program are sound.
\<close>

datatype registration_error =
    DigestRequired
  | OciRefRequired
  | OpenapiSpecRequired
  | HardwareRequirementsNotObject
  | CapabilityMetadataRequired
  | EmptyFunctionName
  | CapabilityNotObject string
  | MutatesNotBoolean string
  | CostClassInvalid string "json option"
  | CowSupportNotBoolean string
  | ChangeDetectionNotBoolean string
  | NestingNotObject string
  | NestingViaInvalid string "json option"
  | NestingTargetsInvalid string
  | DescriptorNotArray string
  | EntryNotObject string
  | ParamEmpty string
  | ParamDuplicate string string
  | StyleInvalid string "json option" "json option"
  | FlagNameMissing string "json option"
  | FlagNameMalformed string "json option" string
  | PositionIndexInvalid string "json option"
  | PositionIndexDuplicate string rat "json option"
  | TooManyStdinEntries string nat
  | StateReuseInvalid string "json option"
  | AdditiveWarmUpdateNotBoolean string
  | AdditiveWarmUpdateWithoutStateId string
  | StateReuseWithoutEntries string
  | StateReuseWithPositional string "json option list"
  | UndeclaredFunction string "string list"
  | TrustTierInvalid "json option"

subsection \<open>The checks\<close>

text \<open>\<open>v && typeof v === "object"\<close>, which arrays satisfy, and \<open>Object.values(v)\<close>.\<close>

fun is_object :: "json option \<Rightarrow> bool" where
  "is_object (Some (JObj _)) = True"
| "is_object (Some (JArr _)) = True"
| "is_object _ = False"

fun js_values :: "json \<Rightarrow> json list" where
  "js_values (JObj obj) = map snd obj"
| "js_values (JArr xs) = xs"
| "js_values _ = []"

text \<open>The ids of one path item, and of the whole specification as a \<open>Set\<close> in insertion order.\<close>

definition path_item_ids :: "json \<Rightarrow> string list" where
  "path_item_ids item =
     concat (map (\<lambda>op'. case as_string (js_member op' ''operationId'') of
                          None \<Rightarrow> [] | Some i \<Rightarrow> [i]) (js_values item))"

definition operationIdsFromOpenApi :: "json option \<Rightarrow> string list" where
  "operationIdsFromOpenApi spec =
     (case spec of
        None \<Rightarrow> []
      | Some v \<Rightarrow>
          (case js_member v ''paths'' of
             None \<Rightarrow> []
           | Some paths \<Rightarrow>
               fold set_add (concat (map path_item_ids (js_values paths))) []))"

definition validateNestingDeclaration :: "json option \<Rightarrow> string \<Rightarrow> registration_error list" where
  "validateNestingDeclaration nesting fnName =
     (case nesting of
        None \<Rightarrow> []
      | Some JNull \<Rightarrow> []
      | Some (JObj obj) \<Rightarrow>
          (if named_by nesting_transport_name NESTING_TRANSPORTS (js_get obj ''via'') = None
           then [NestingViaInvalid fnName (js_get obj ''via'')] else [])
          @ (if js_get obj ''targets'' = Some (JStr ''open'')
                \<or> (case js_get obj ''targets'' of
                      Some (JArr ts) \<Rightarrow> list_all (\<lambda>t. as_string (Some t) \<noteq> None) ts
                    | _ \<Rightarrow> False)
             then [] else [NestingTargetsInvalid fnName])
      | Some _ \<Rightarrow> [NestingNotObject fnName])"

text \<open>The variables of the loop over the entries of a descriptor.\<close>

record descriptor_state =
  seenParams :: "string list"
  seenPositionIndexes :: "rat list"
  stdinEntryCount :: nat
  descriptorErrors :: "registration_error list"

definition push_error :: "registration_error \<Rightarrow> descriptor_state \<Rightarrow> descriptor_state" where
  "push_error e st = st\<lparr>descriptorErrors := descriptorErrors st @ [e]\<rparr>"

definition validate_param :: "string \<Rightarrow> json option \<Rightarrow> descriptor_state \<Rightarrow> descriptor_state" where
  "validate_param fnName param st =
     (case as_string param of
        None \<Rightarrow> push_error (ParamEmpty fnName) st
      | Some p \<Rightarrow>
          if length p = 0 then push_error (ParamEmpty fnName) st
          else if p \<in> set (seenParams st) then push_error (ParamDuplicate fnName p) st
          else st\<lparr>seenParams := set_add p (seenParams st)\<rparr>)"

definition validate_flag_name ::
  "string \<Rightarrow> json option \<Rightarrow> json option \<Rightarrow> descriptor_state \<Rightarrow> descriptor_state" where
  "validate_flag_name fnName param flagName st =
     (case as_string flagName of
        None \<Rightarrow> push_error (FlagNameMissing fnName param) st
      | Some f \<Rightarrow>
          if length f = 0 then push_error (FlagNameMissing fnName param) st
          else if \<not> INVOCATION_FLAG_NAME_PATTERN f
          then push_error (FlagNameMalformed fnName param f) st
          else st)"

text \<open>\<open>Number.isInteger(n) && n >= 0\<close>.\<close>

definition is_index :: "rat \<Rightarrow> bool" where
  "is_index n \<longleftrightarrow> snd (quotient_of n) = 1 \<and> 0 \<le> n"

definition validate_position_index ::
  "string \<Rightarrow> json option \<Rightarrow> json option \<Rightarrow> descriptor_state \<Rightarrow> descriptor_state" where
  "validate_position_index fnName param positionIndex st =
     (case as_number positionIndex of
        None \<Rightarrow> push_error (PositionIndexInvalid fnName param) st
      | Some n \<Rightarrow>
          if \<not> is_index n then push_error (PositionIndexInvalid fnName param) st
          else if n \<in> set (seenPositionIndexes st)
          then push_error (PositionIndexDuplicate fnName n param) st
          else st\<lparr>seenPositionIndexes := set_add n (seenPositionIndexes st)\<rparr>)"

definition validate_entry :: "string \<Rightarrow> json \<Rightarrow> descriptor_state \<Rightarrow> descriptor_state" where
  "validate_entry fnName entry st =
     (case entry of
        JObj obj \<Rightarrow>
          (let param = js_get obj ''param''; st1 = validate_param fnName param st
           in case named_by invocation_style_name INVOCATION_STYLES (js_get obj ''style'') of
                None \<Rightarrow> push_error (StyleInvalid fnName param (js_get obj ''style'')) st1
              | Some FlagStyle \<Rightarrow> validate_flag_name fnName param (js_get obj ''flagName'') st1
              | Some PositionalStyle \<Rightarrow>
                  validate_position_index fnName param (js_get obj ''positionIndex'') st1
              | Some StdinStyle \<Rightarrow> st1\<lparr>stdinEntryCount := stdinEntryCount st1 + 1\<rparr>)
      | _ \<Rightarrow> push_error (EntryNotObject fnName) st)"

definition validateInvocationDescriptor :: "json option \<Rightarrow> string \<Rightarrow> registration_error list" where
  "validateInvocationDescriptor descriptor fnName =
     (case descriptor of
        Some (JArr es) \<Rightarrow>
          (let st = fold (validate_entry fnName) es
                 \<lparr>seenParams = [], seenPositionIndexes = [], stdinEntryCount = 0,
                  descriptorErrors = []\<rparr>
           in descriptorErrors st
              @ (if stdinEntryCount st > 1
                 then [TooManyStdinEntries fnName (stdinEntryCount st)] else []))
      | _ \<Rightarrow> [DescriptorNotArray fnName])"

text \<open>The entries of a descriptor, when it is an array at all.\<close>

definition descriptor_items :: "json option \<Rightarrow> json list option" where
  "descriptor_items d = (case d of Some (JArr es) \<Rightarrow> Some es | _ \<Rightarrow> None)"

definition unless :: "bool \<Rightarrow> registration_error \<Rightarrow> registration_error list" where
  "unless ok e = (if ok then [] else [e])"

definition validateCapability :: "string \<Rightarrow> json \<Rightarrow> registration_error list" where
  "validateCapability fnName cap =
     unless (length fnName \<noteq> 0) EmptyFunctionName
     @ (if \<not> is_object (Some cap) then [CapabilityNotObject fnName]
        else
          (let c = js_member cap; items = descriptor_items (c ''invocationDescriptor'');
               reuse = c ''stateReuse'' in
             unless (as_bool (c ''mutates'') \<noteq> None) (MutatesNotBoolean fnName)
           @ unless (named_by materialization_cost_class_name MATERIALIZATION_COST_CLASSES
                       (c ''materializationCostClass'') \<noteq> None)
               (CostClassInvalid fnName (c ''materializationCostClass''))
           @ unless (as_bool (c ''cowSupport'') \<noteq> None) (CowSupportNotBoolean fnName)
           @ unless (as_bool (c ''changeDetectionSupport'') \<noteq> None) (ChangeDetectionNotBoolean fnName)
           @ validateNestingDeclaration (c ''nestingDeclaration'') fnName
           @ validateInvocationDescriptor (c ''invocationDescriptor'') fnName
           @ unless (named_by state_reuse_name STATE_REUSE_KINDS reuse \<noteq> None)
               (StateReuseInvalid fnName reuse)
           @ (case as_bool (c ''additiveWarmUpdate'') of
                None \<Rightarrow> [AdditiveWarmUpdateNotBoolean fnName]
              | Some warm \<Rightarrow>
                  unless (\<not> (warm \<and> reuse \<noteq> Some (JStr ''stateIdKeyed'')))
                    (AdditiveWarmUpdateWithoutStateId fnName))
           @ unless (\<not> (reuse = Some (JStr ''stateIdKeyed'') \<and> items = Some []))
               (StateReuseWithoutEntries fnName)
           @ (case items of
                Some es \<Rightarrow>
                  (let positional = filter (\<lambda>e. js_member e ''style'' = Some (JStr ''positional'')) es
                   in unless (\<not> (reuse = Some (JStr ''stateIdKeyed'') \<and> positional \<noteq> []))
                        (StateReuseWithPositional fnName
                           (map (\<lambda>e. js_member e ''param'') positional)))
              | None \<Rightarrow> [])))"

record registration_input =
  in_digest :: "json option"
  in_ociRef :: "json option"
  in_openapiSpec :: "json option"
  in_capabilityMetadata :: "json option"
  in_hardwareRequirements :: "json option"

definition nonempty_string :: "json option \<Rightarrow> bool" where
  "nonempty_string v \<longleftrightarrow> (case as_string v of None \<Rightarrow> False | Some s \<Rightarrow> length s \<noteq> 0)"

definition validateRegistration :: "registration_input \<Rightarrow> registration_error list" where
  "validateRegistration inp =
     unless (nonempty_string (in_digest inp)) DigestRequired
     @ unless (nonempty_string (in_ociRef inp)) OciRefRequired
     @ unless (is_object (in_openapiSpec inp)) OpenapiSpecRequired
     @ unless (case in_hardwareRequirements inp of
                 None \<Rightarrow> True | Some (JObj _) \<Rightarrow> True | _ \<Rightarrow> False) HardwareRequirementsNotObject
     @ (case in_capabilityMetadata inp of
          Some (JObj metadata) \<Rightarrow>
            concat (map (\<lambda>(fnName, cap). validateCapability fnName cap) metadata)
            @ (if is_object (in_openapiSpec inp)
               then (let declared = operationIdsFromOpenApi (in_openapiSpec inp)
                     in concat (map (\<lambda>(fnName, cap).
                          unless (fnName \<in> set declared) (UndeclaredFunction fnName declared)) metadata))
               else [])
        | _ \<Rightarrow> [CapabilityMetadataRequired])"

definition validateTrustTier :: "json option \<Rightarrow> registration_error list" where
  "validateTrustTier tier =
     unless (named_by trust_tier_name TRUST_TIERS tier \<noteq> None) (TrustTierInvalid tier)"

subsection \<open>What a valid descriptor is\<close>

definition entry_wf :: "invocation_descriptor_entry \<Rightarrow> bool" where
  "entry_wf d \<longleftrightarrow> ie_param d \<noteq> []
     \<and> (ie_style d = FlagStyle \<longrightarrow>
          (\<exists>f. ie_flagName d = Some f \<and> INVOCATION_FLAG_NAME_PATTERN f))
     \<and> (ie_style d = PositionalStyle \<longrightarrow> (\<exists>n. ie_positionIndex d = Some n \<and> is_index n))"

definition entry_position :: "invocation_descriptor_entry \<Rightarrow> rat list" where
  "entry_position d =
     (case (ie_style d, ie_positionIndex d) of (PositionalStyle, Some n) \<Rightarrow> [n] | _ \<Rightarrow> [])"

definition stdin_entries :: "invocation_descriptor_entry list \<Rightarrow> nat" where
  "stdin_entries ds = length (filter (\<lambda>d. ie_style d = StdinStyle) ds)"

definition descriptor_wf :: "invocation_descriptor_entry list \<Rightarrow> bool" where
  "descriptor_wf ds \<longleftrightarrow> list_all entry_wf ds \<and> distinct (map ie_param ds)
     \<and> distinct (concat (map entry_position ds)) \<and> stdin_entries ds \<le> 1"

lemma unless_Nil [simp]: "unless ok e = [] \<longleftrightarrow> ok"
  by (simp add: unless_def)

lemma push_error_sel [simp]: "descriptorErrors (push_error e st) \<noteq> []"
  by (simp add: push_error_def)

lemmas entry_checks = validate_entry_def validate_param_def validate_flag_name_def
  validate_position_index_def Let_def

lemma validate_entry_grows: "descriptorErrors st \<noteq> [] \<Longrightarrow> descriptorErrors (validate_entry fnName e st) \<noteq> []"
  by (auto simp: entry_checks push_error_def
      split: json.split option.split invocation_style.split if_split)

lemma validate_entries_grow:
  "descriptorErrors st \<noteq> [] \<Longrightarrow> descriptorErrors (fold (validate_entry fnName) es st) \<noteq> []"
  by (induction es arbitrary: st) (simp_all add: validate_entry_grows)

text \<open>One turn of the loop, on an entry that raises no error.\<close>

definition accept_entry :: "invocation_descriptor_entry \<Rightarrow> descriptor_state \<Rightarrow> descriptor_state" where
  "accept_entry d st = st\<lparr>seenParams := set_add (ie_param d) (seenParams st),
     seenPositionIndexes := fold set_add (entry_position d) (seenPositionIndexes st),
     stdinEntryCount := stdinEntryCount st + stdin_entries [d]\<rparr>"

definition entry_accepted :: "invocation_descriptor_entry \<Rightarrow> descriptor_state \<Rightarrow> bool" where
  "entry_accepted d st \<longleftrightarrow> entry_wf d \<and> ie_param d \<notin> set (seenParams st)
     \<and> set (entry_position d) \<inter> set (seenPositionIndexes st) = {}"

lemma validate_entry_accepts:
  assumes "decode_entry e = Some d" "entry_accepted d st"
  shows "validate_entry fnName e st = accept_entry d st"
proof (cases e)
  case (JObj obj)
  with assms show ?thesis
    by (cases "ie_style d")
      (auto simp: decode_entry_def entry_accepted_def entry_wf_def entry_position_def accept_entry_def
        entry_checks stdin_entries_def split: option.splits)
qed (use assms(1) in \<open>simp_all add: decode_entry_def\<close>)

lemma validate_entry_rejects:
  assumes "descriptorErrors (validate_entry fnName e st) = []"
  obtains d where "decode_entry e = Some d" "entry_accepted d st"
proof (cases e)
  case (JObj obj)
  with assms obtain param style where ps: "as_string (js_get obj ''param'') = Some param"
    "named_by invocation_style_name INVOCATION_STYLES (js_get obj ''style'') = Some style"
    "param \<noteq> []" "param \<notin> set (seenParams st)"
    by (auto simp: entry_checks push_error_def split: option.splits invocation_style.splits if_splits)
  let ?d = "\<lparr>ie_param = param, ie_style = style, ie_flagName = as_string (js_get obj ''flagName''),
              ie_positionIndex = as_number (js_get obj ''positionIndex'')\<rparr>"
  from ps JObj have "decode_entry e = Some ?d" by (simp add: decode_entry_def)
  moreover from assms ps JObj have "entry_accepted ?d st"
    by (cases style) (auto simp: entry_accepted_def entry_wf_def entry_position_def entry_checks push_error_def
        split: option.splits if_splits)
  ultimately show ?thesis by (rule that)
qed (use assms in \<open>simp_all add: validate_entry_def\<close>)

lemma accept_entry_sel [simp]:
  "set (seenParams (accept_entry d st)) = insert (ie_param d) (set (seenParams st))"
  "set (seenPositionIndexes (accept_entry d st)) = set (entry_position d) \<union> set (seenPositionIndexes st)"
  "stdinEntryCount (accept_entry d st) = stdinEntryCount st + stdin_entries [d]"
  "descriptorErrors (accept_entry d st) = descriptorErrors st"
  by (auto simp: accept_entry_def entry_position_def split: invocation_style.split option.split)

lemma entry_position_distinct: "distinct (entry_position d)"
  by (simp add: entry_position_def split: invocation_style.split option.split)

lemma stdin_entries_Cons: "stdin_entries (d # ds) = stdin_entries [d] + stdin_entries ds"
  by (simp add: stdin_entries_def)

text \<open>The loop as a whole, from any state of its variables.\<close>

definition entries_accepted :: "invocation_descriptor_entry list \<Rightarrow> descriptor_state \<Rightarrow> bool" where
  "entries_accepted ds st \<longleftrightarrow> list_all entry_wf ds
     \<and> distinct (map ie_param ds) \<and> set (map ie_param ds) \<inter> set (seenParams st) = {}
     \<and> distinct (concat (map entry_position ds))
     \<and> set (concat (map entry_position ds)) \<inter> set (seenPositionIndexes st) = {}"

lemma entries_accepted_Cons:
  "entries_accepted (d # ds) st \<longleftrightarrow> entry_accepted d st \<and> entries_accepted ds (accept_entry d st)"
  unfolding entries_accepted_def entry_accepted_def accept_entry_sel
  by (simp only: list.map list.set list.pred_inject concat.simps distinct_append distinct.simps
      set_append entry_position_distinct simp_thms) blast

lemma validate_entries_iff:
  assumes "descriptorErrors st = []"
  shows "descriptorErrors (fold (validate_entry fnName) es st) = [] \<longleftrightarrow>
    (\<exists>ds. option_list (map decode_entry es) = Some ds \<and> entries_accepted ds st)"
  using assms
proof (induction es arbitrary: st)
  case Nil
  then show ?case by (simp add: entries_accepted_def)
next
  case (Cons e es)
  show ?case
  proof (cases "\<exists>d. decode_entry e = Some d \<and> entry_accepted d st")
    case True
    then obtain d where d: "decode_entry e = Some d" "entry_accepted d st" by blast
    with Cons validate_entry_accepts [OF d] show ?thesis
      by (auto simp: entries_accepted_Cons)
  next
    case False
    then have bad: "descriptorErrors (validate_entry fnName e st) \<noteq> []"
      using validate_entry_rejects by metis
    from False have "\<not> (\<exists>ds. option_list (map decode_entry (e # es)) = Some ds \<and> entries_accepted ds st)"
      by (auto simp: entries_accepted_Cons split: option.splits)
    with validate_entries_grow [OF bad] show ?thesis by simp
  qed
qed

lemma validate_entries_stdin:
  assumes "option_list (map decode_entry es) = Some ds" "entries_accepted ds st"
  shows "stdinEntryCount (fold (validate_entry fnName) es st) = stdinEntryCount st + stdin_entries ds"
  using assms
proof (induction es arbitrary: ds st)
  case Nil
  then show ?case by (simp add: stdin_entries_def)
next
  case (Cons e es)
  then obtain d ds' where d: "decode_entry e = Some d" "ds = d # ds'"
    "option_list (map decode_entry es) = Some ds'" by (auto split: option.splits)
  with Cons.prems have "entry_accepted d st" "entries_accepted ds' (accept_entry d st)"
    by (simp_all add: entries_accepted_Cons)
  with Cons.IH [OF d(3), of "accept_entry d st"] d show ?case
    by (simp add: validate_entry_accepts stdin_entries_Cons [of d ds'])
qed

lemma validateInvocationDescriptor_Nil:
  "validateInvocationDescriptor d fnName = [] \<longleftrightarrow>
     (\<exists>ds. decode_descriptor d = Some ds \<and> descriptor_wf ds)"
proof (cases "\<exists>es. d = Some (JArr es)")
  case True
  then obtain es where d: "d = Some (JArr es)" by blast
  let ?st = "\<lparr>seenParams = [], seenPositionIndexes = [], stdinEntryCount = 0, descriptorErrors = []\<rparr>"
  have "validateInvocationDescriptor d fnName = [] \<longleftrightarrow>
      descriptorErrors (fold (validate_entry fnName) es ?st) = []
      \<and> stdinEntryCount (fold (validate_entry fnName) es ?st) \<le> 1"
    by (simp add: d validateInvocationDescriptor_def Let_def)
  also have "\<dots> \<longleftrightarrow> (\<exists>ds. option_list (map decode_entry es) = Some ds \<and> entries_accepted ds ?st
      \<and> stdin_entries ds \<le> 1)"
    using validate_entries_iff [of ?st fnName es] validate_entries_stdin [of es _ ?st fnName] by auto
  also have "\<dots> \<longleftrightarrow> (\<exists>ds. decode_descriptor d = Some ds \<and> descriptor_wf ds)"
    by (simp add: d decode_descriptor_def descriptor_wf_def entries_accepted_def conj_assoc)
  finally show ?thesis .
next
  case False
  then show ?thesis
    by (auto simp: validateInvocationDescriptor_def decode_descriptor_def
        split: option.splits json.splits)
qed

subsection \<open>What a valid capability and a valid registration are\<close>

definition capability_wf :: "function_capability_input \<Rightarrow> bool" where
  "capability_wf c \<longleftrightarrow> descriptor_wf (fc_invocationDescriptor c)
     \<and> (fc_additiveWarmUpdate c \<longrightarrow> fc_stateReuse c = StateIdKeyed)
     \<and> (fc_stateReuse c = StateIdKeyed \<longrightarrow> fc_invocationDescriptor c \<noteq> []
          \<and> list_all (\<lambda>d. ie_style d \<noteq> PositionalStyle) (fc_invocationDescriptor c))"

lemma all_strings: "list_all (\<lambda>t. \<exists>y. t = JStr y) ts \<longleftrightarrow>
    (\<exists>ss. option_list (map (\<lambda>t. as_string (Some t)) ts) = Some ss)"
  by (induction ts) (auto split: option.splits)

lemma validateNestingDeclaration_Nil:
  "validateNestingDeclaration n fnName = [] \<longleftrightarrow> decode_nesting n \<noteq> None"
proof (cases "\<exists>obj. n = Some (JObj obj)")
  case True
  then obtain obj where n: "n = Some (JObj obj)" by blast
  have targets: "js_get obj ''targets'' = Some (JStr ''open'')
      \<or> (case js_get obj ''targets'' of
           Some (JArr ts) \<Rightarrow> list_all (\<lambda>t. as_string (Some t) \<noteq> None) ts | _ \<Rightarrow> False)
    \<longleftrightarrow> decode_targets (js_get obj ''targets'') \<noteq> None"
    by (cases "js_get obj ''targets''" rule: decode_targets.cases) (auto simp: all_strings)
  show ?thesis
    by (simp only: n validateNestingDeclaration_def decode_nesting_def option.case json.case
        append_is_Nil_conv targets js_member_simps) (auto split: option.split)
next
  case False
  then show ?thesis
    by (auto simp: validateNestingDeclaration_def decode_nesting_def named_by_def
        split: option.splits json.splits)
qed

lemma decode_entry_positional:
  "decode_entry e = Some d \<Longrightarrow> js_member e ''style'' = Some (JStr ''positional'') \<longleftrightarrow> ie_style d = PositionalStyle"
  by (auto simp: decode_entry_def named_by_Some split: option.splits)
    (metis invocation_style_name.simps(2) injD vocabulary_names(3))

lemma descriptor_items_decoded:
  assumes "decode_descriptor d = Some ds"
  obtains es where "descriptor_items d = Some es" "es = [] \<longleftrightarrow> ds = []"
    "filter (\<lambda>e. js_member e ''style'' = Some (JStr ''positional'')) es = []
       \<longleftrightarrow> list_all (\<lambda>d. ie_style d \<noteq> PositionalStyle) ds"
proof -
  obtain es where es: "d = Some (JArr es)" "option_list (map decode_entry es) = Some ds"
    using assms by (auto simp: decode_descriptor_def split: option.splits json.splits)
  have "(\<forall>e \<in> set es. js_member e ''style'' \<noteq> Some (JStr ''positional''))
      \<longleftrightarrow> list_all (\<lambda>d. ie_style d \<noteq> PositionalStyle) ds"
    using es(2) by (induction es arbitrary: ds) (auto simp: decode_entry_positional split: option.splits)
  moreover have "es = [] \<longleftrightarrow> ds = []" using es(2) by (auto simp: option_list_Some)
  ultimately show ?thesis using es(1) by (intro that [of es]) (auto simp: descriptor_items_def filter_empty_conv)
qed

lemma decode_capability_Some:
  "decode_capability cap = Some c \<longleftrightarrow>
     as_bool (js_member cap ''mutates'') = Some (fc_mutates c)
     \<and> named_by materialization_cost_class_name MATERIALIZATION_COST_CLASSES
         (js_member cap ''materializationCostClass'') = Some (fc_materializationCostClass c)
     \<and> as_bool (js_member cap ''cowSupport'') = Some (fc_cowSupport c)
     \<and> as_bool (js_member cap ''changeDetectionSupport'') = Some (fc_changeDetectionSupport c)
     \<and> decode_nesting (js_member cap ''nestingDeclaration'') = Some (fc_nestingDeclaration c)
     \<and> decode_descriptor (js_member cap ''invocationDescriptor'') = Some (fc_invocationDescriptor c)
     \<and> named_by state_reuse_name STATE_REUSE_KINDS (js_member cap ''stateReuse'') = Some (fc_stateReuse c)
     \<and> as_bool (js_member cap ''additiveWarmUpdate'') = Some (fc_additiveWarmUpdate c)"
  by (cases c) (auto simp: decode_capability_def simp del: as_Some split: option.splits)

lemma state_reuse_named:
  "named_by state_reuse_name STATE_REUSE_KINDS v = Some r \<Longrightarrow>
     v = Some (JStr ''stateIdKeyed'') \<longleftrightarrow> r = StateIdKeyed"
  by (auto simp: named_by_Some) (metis state_reuse_name.simps(2) injD vocabulary_names(4))

text \<open>The checks that involve more than one field, on fields that are well typed.\<close>

lemma validateCapability_decoded:
  assumes "decode_capability cap = Some c" "fnName \<noteq> []"
  shows "validateCapability fnName cap = [] \<longleftrightarrow> capability_wf c"
proof -
  note c = assms(1) [unfolded decode_capability_Some]
  obtain es where es: "descriptor_items (js_member cap ''invocationDescriptor'') = Some es"
    "es = [] \<longleftrightarrow> fc_invocationDescriptor c = []"
    "filter (\<lambda>e. js_member e ''style'' = Some (JStr ''positional'')) es = []
       \<longleftrightarrow> list_all (\<lambda>d. ie_style d \<noteq> PositionalStyle) (fc_invocationDescriptor c)"
    by (rule descriptor_items_decoded [of "js_member cap ''invocationDescriptor''" "fc_invocationDescriptor c"])
      (use c in \<open>blast intro: that\<close>)+
  have obj: "is_object (Some cap)" using c by (cases cap) auto
  have reuse: "js_member cap ''stateReuse'' = Some (JStr ''stateIdKeyed'') \<longleftrightarrow> fc_stateReuse c = StateIdKeyed"
    using c by (blast dest: state_reuse_named)
  have nest: "validateNestingDeclaration (js_member cap ''nestingDeclaration'') fnName = []"
    using c by (simp add: validateNestingDeclaration_Nil)
  have desc: "validateInvocationDescriptor (js_member cap ''invocationDescriptor'') fnName = []
      \<longleftrightarrow> descriptor_wf (fc_invocationDescriptor c)"
    using c by (simp add: validateInvocationDescriptor_Nil)
  show ?thesis
    using c assms(2) es(2) unfolding capability_wf_def
    by (simp add: validateCapability_def Let_def obj nest desc es(1,3) reuse del: as_Some) blast
qed

lemma validateCapability_Nil:
  "validateCapability fnName cap = [] \<longleftrightarrow>
     fnName \<noteq> [] \<and> (\<exists>c. decode_capability cap = Some c \<and> capability_wf c)"
proof (cases "decode_capability cap")
  case (Some c)
  moreover have "validateCapability [] cap \<noteq> []" by (simp add: validateCapability_def)
  ultimately show ?thesis by (cases fnName) (auto simp: validateCapability_decoded)
next
  case None
  have "validateCapability fnName cap \<noteq> []"
  proof
    assume ok: "validateCapability fnName cap = []"
    then have "is_object (Some cap)" by (auto simp: validateCapability_def split: if_splits)
    with ok obtain m co cw ch re wa ne ds where
      "as_bool (js_member cap ''mutates'') = Some m"
      "named_by materialization_cost_class_name MATERIALIZATION_COST_CLASSES
         (js_member cap ''materializationCostClass'') = Some co"
      "as_bool (js_member cap ''cowSupport'') = Some cw"
      "as_bool (js_member cap ''changeDetectionSupport'') = Some ch"
      "decode_nesting (js_member cap ''nestingDeclaration'') = Some ne"
      "decode_descriptor (js_member cap ''invocationDescriptor'') = Some ds"
      "named_by state_reuse_name STATE_REUSE_KINDS (js_member cap ''stateReuse'') = Some re"
      "as_bool (js_member cap ''additiveWarmUpdate'') = Some wa"
      by (auto simp: validateCapability_def Let_def validateNestingDeclaration_Nil
          validateInvocationDescriptor_Nil simp del: as_Some split: option.splits)
    with None show False by (simp add: decode_capability_def del: as_Some)
  qed
  with None show ?thesis by simp
qed

text \<open>The functions of a payload, by name, as the typed data they are stored as.\<close>

definition registration_ok :: "registration_input \<Rightarrow> bool" where
  "registration_ok inp \<longleftrightarrow>
     nonempty_string (in_digest inp) \<and> nonempty_string (in_ociRef inp)
     \<and> is_object (in_openapiSpec inp)
     \<and> (in_hardwareRequirements inp = None \<or> (\<exists>hw. in_hardwareRequirements inp = Some (JObj hw)))
     \<and> (\<exists>metadata. in_capabilityMetadata inp = Some (JObj metadata)
          \<and> (\<forall>(fnName, cap) \<in> set metadata. fnName \<noteq> []
               \<and> fnName \<in> set (operationIdsFromOpenApi (in_openapiSpec inp))
               \<and> (\<exists>c. decode_capability cap = Some c \<and> capability_wf c)))"

lemma validateRegistration_Nil: "validateRegistration inp = [] \<longleftrightarrow> registration_ok inp"
proof (cases "\<exists>metadata. in_capabilityMetadata inp = Some (JObj metadata)")
  case True
  then obtain metadata where md: "in_capabilityMetadata inp = Some (JObj metadata)" by blast
  have hw: "(case in_hardwareRequirements inp of None \<Rightarrow> True | Some (JObj x) \<Rightarrow> True | _ \<Rightarrow> False)
      \<longleftrightarrow> in_hardwareRequirements inp = None \<or> (\<exists>hw. in_hardwareRequirements inp = Some (JObj hw))"
    by (auto split: option.splits json.splits)
  show ?thesis
    by (auto simp: validateRegistration_def registration_ok_def md hw validateCapability_Nil
        case_prod_beta Let_def)
next
  case False
  then have "validateRegistration inp \<noteq> []"
    by (auto simp: validateRegistration_def split: option.splits json.splits)
  with False show ?thesis by (auto simp: registration_ok_def)
qed

lemma validateTrustTier_Nil: "validateTrustTier tier = [] \<longleftrightarrow> (\<exists>t. tier = Some (JStr (trust_tier_name t)))"
proof -
  have "validateTrustTier tier = [] \<longleftrightarrow> (\<exists>t. named_by trust_tier_name TRUST_TIERS tier = Some t)"
    by (simp add: validateTrustTier_def)
  then show ?thesis by (auto simp: named_by_Some TRUST_TIERS_sorted)
qed

end
