(* ===== verification/Agent_Client.thy ===== *)
theory Agent_Client
  imports Workflow_Spec
begin

text \<open>
  \<open>apps/worker/agent-client.ts\<close>: the request the worker posts to the exec-agent and how the
  outcome of the HTTP exchange is classified. \<open>fetch\<close> and the agent behind it are a parameter:
  a function of the url and the request that rejects (\<open>None\<close>: connection refused, DNS failure,
  the client-side timeout) or gives the response. A body that cannot be read to its end or is
  not JSON is \<open>None\<close> in \<open>rs_json\<close>; the text of a number is the parameter \<open>num\<close>.
\<close>

record agent_data_file =
  df_flag :: "string option"
  df_path :: string
  df_stateId :: "string option"
  df_stdinFromPath :: "bool option"

record invoke_request =
  rq_executionId :: string
  rq_stepId :: string
  rq_function :: string
  rq_args :: "(string \<times> string) list"
  rq_positionalArgs :: "string list option"
  rq_dataFiles :: "agent_data_file list option"
  rq_timeoutMs :: int

record http_request =
  hr_authorization :: "string option"
  hr_body :: string
  hr_abortAfterMs :: int

record http_response =
  rs_status :: nat
  rs_json :: "json option"

type_synonym http_fetch = "string \<Rightarrow> http_request \<Rightarrow> http_response option"

definition AGENT_FETCH_TIMEOUT_MARGIN_MS :: int where
  "AGENT_FETCH_TIMEOUT_MARGIN_MS = 5000"

definition AGENT_INVOKE_PATH :: string where
  "AGENT_INVOKE_PATH = ''/invoke''"

definition data_file_json :: "agent_data_file \<Rightarrow> json" where
  "data_file_json f = JObj
     (optional_field ''flag'' (map_option JStr (df_flag f)) @ [(''path'', JStr (df_path f))]
      @ optional_field ''stateId'' (map_option JStr (df_stateId f))
      @ optional_field ''stdinFromPath'' (map_option JBool (df_stdinFromPath f)))"

definition invoke_request_json :: "invoke_request \<Rightarrow> json" where
  "invoke_request_json r = JObj
     ([(''executionId'', JStr (rq_executionId r)), (''stepId'', JStr (rq_stepId r)),
       (''function'', JStr (rq_function r)),
       (''args'', JObj (map (\<lambda>(k, v). (k, JStr v)) (rq_args r)))]
      @ optional_field ''positionalArgs'' (map_option (\<lambda>ps. JArr (map JStr ps)) (rq_positionalArgs r))
      @ optional_field ''dataFiles'' (map_option (\<lambda>fs. JArr (map data_file_json fs)) (rq_dataFiles r))
      @ [(''timeoutMs'', JNum (of_int (rq_timeoutMs r)))])"

text \<open>
  A 4xx is the worker's own fault and fatal, any other status outside 200 to 299 and a rejected
  \<open>fetch\<close> are transient. \<open>await response.json()\<close> is outside the \<open>try\<close>: its rejection is neither.
\<close>

definition postJson ::
  "http_fetch \<Rightarrow> (rat \<Rightarrow> string) \<Rightarrow> string \<Rightarrow> json \<Rightarrow> int \<Rightarrow> string option \<Rightarrow> json result" where
  "postJson fetch num url body timeoutMs authToken =
     (case fetch url
        \<lparr>hr_authorization =
           (case authToken of None \<Rightarrow> None
            | Some t \<Rightarrow> if t = [] then None else Some (''Bearer '' @ t)),
         hr_body = json_stringify num body,
         hr_abortAfterMs = timeoutMs + AGENT_FETCH_TIMEOUT_MARGIN_MS\<rparr> of
        None \<Rightarrow> Inl (RetryableError WORKER_AGENT_UNREACHABLE)
      | Some response \<Rightarrow>
          if 400 \<le> rs_status response \<and> rs_status response < 500
          then Inl (FatalError WORKER_INVOKE_REQUEST_REJECTED)
          else if \<not> (200 \<le> rs_status response \<and> rs_status response \<le> 299)
          then Inl (RetryableError WORKER_AGENT_UNREACHABLE)
          else case rs_json response of
                 None \<Rightarrow> Inl (HostError ''SyntaxError'')
               | Some v \<Rightarrow> Inr v)"

definition agent_invoke ::
  "http_fetch \<Rightarrow> (rat \<Rightarrow> string) \<Rightarrow> string \<Rightarrow> invoke_request \<Rightarrow> string option \<Rightarrow> json result" where
  "agent_invoke fetch num baseUrl request authToken =
     postJson fetch num (baseUrl @ AGENT_INVOKE_PATH) (invoke_request_json request)
       (rq_timeoutMs request) authToken"

text \<open>Only a transport failure is retryable: the agent was not reached or answered 5xx (or 1xx, 3xx).\<close>

definition unreachable :: "http_response option \<Rightarrow> bool" where
  "unreachable r \<longleftrightarrow>
     (case r of None \<Rightarrow> True
      | Some x \<Rightarrow> \<not> (200 \<le> rs_status x \<and> rs_status x \<le> 299) \<and> \<not> (400 \<le> rs_status x \<and> rs_status x < 500))"

definition exchange ::
  "http_fetch \<Rightarrow> (rat \<Rightarrow> string) \<Rightarrow> string \<Rightarrow> invoke_request \<Rightarrow> string option \<Rightarrow> http_response option" where
  "exchange fetch num baseUrl request authToken =
     fetch (baseUrl @ AGENT_INVOKE_PATH)
       \<lparr>hr_authorization =
          (case authToken of None \<Rightarrow> None | Some t \<Rightarrow> if t = [] then None else Some (''Bearer '' @ t)),
        hr_body = json_stringify num (invoke_request_json request),
        hr_abortAfterMs = rq_timeoutMs request + AGENT_FETCH_TIMEOUT_MARGIN_MS\<rparr>"

lemma agent_invoke_cases:
  "agent_invoke fetch num baseUrl request authToken =
     (if unreachable (exchange fetch num baseUrl request authToken)
      then Inl (RetryableError WORKER_AGENT_UNREACHABLE)
      else let r = the (exchange fetch num baseUrl request authToken) in
           if 400 \<le> rs_status r then Inl (FatalError WORKER_INVOKE_REQUEST_REJECTED)
           else case rs_json r of None \<Rightarrow> Inl (HostError ''SyntaxError'') | Some v \<Rightarrow> Inr v)"
  by (auto simp: agent_invoke_def postJson_def exchange_def unreachable_def Let_def split: option.split)

end
