(* ===== verification/Dispatch.thy ===== *)
theory Dispatch
  imports Registry_Validate Agent_Client "HOL-Library.AList"
begin

text \<open>
  \<open>apps/worker/dispatch.ts\<close>: from the resolved inputs of a step and the capability its function
  declares to the request the agent gets, and from the agent's answer to the outputs of the
  step. A resolved input is a list of the names with their values, \<open>None\<close> for \<open>undefined\<close>.
\<close>

subsection \<open>Rendering arguments\<close>

type_synonym resolved_input = "(string \<times> json option) list"

definition resolved :: "resolved_input \<Rightarrow> string \<Rightarrow> json option" where
  "resolved inp k = (case map_of inp k of None \<Rightarrow> None | Some v \<Rightarrow> v)"

definition stringifyArgValue :: "(rat \<Rightarrow> string) \<Rightarrow> json \<Rightarrow> string" where
  "stringifyArgValue num v =
     (case v of JStr s \<Rightarrow> s | JNum n \<Rightarrow> num n | JBool b \<Rightarrow> (if b then ''true'' else ''false'')
      | _ \<Rightarrow> json_stringify num v)"

definition assertValidArgFlagName :: "string \<Rightarrow> unit result" where
  "assertValidArgFlagName key =
     (if AGENT_ARG_FLAG_NAME_PATTERN key then Inr () else Inl (FatalError WORKER_INVALID_ARG_FLAG_NAME))"

definition assertSafeArgValue :: "string \<Rightarrow> unit result" where
  "assertSafeArgValue v =
     (if starts_with ''-'' v then Inl (FatalError WORKER_UNSAFE_ARG_VALUE) else Inr ())"

text \<open>The loop over \<open>Object.entries(resolvedInput)\<close>; \<open>args[key] = value\<close> is \<open>AList.update\<close>.\<close>

fun translate_entries ::
  "(rat \<Rightarrow> string) \<Rightarrow> string list \<Rightarrow> resolved_input \<Rightarrow> (string \<times> string) list \<Rightarrow> (string \<times> string) list result"
where
  "translate_entries num heavyParams [] args = Inr args"
| "translate_entries num heavyParams ((key, None) # rest) args =
     translate_entries num heavyParams rest args"
| "translate_entries num heavyParams ((key, Some v) # rest) args =
     (if key \<in> set heavyParams then translate_entries num heavyParams rest args
      else res_bind (assertValidArgFlagName key) (\<lambda>_.
           let stringified = stringifyArgValue num v in
           res_bind (assertSafeArgValue stringified) (\<lambda>_.
             translate_entries num heavyParams rest (AList.update key stringified args))))"

definition translateArgsToInvokeArgs ::
  "(rat \<Rightarrow> string) \<Rightarrow> resolved_input \<Rightarrow> invocation_descriptor_entry list \<Rightarrow> (string \<times> string) list result"
where
  "translateArgsToInvokeArgs num inp descriptor =
     translate_entries num (js_dedup (map ie_param descriptor)) inp []"

text \<open>\<open>value.split(/[/\\]/)\<close>.\<close>

fun path_segments :: "string \<Rightarrow> string list" where
  "path_segments [] = [[]]"
| "path_segments (c # cs) =
     (if c = CHR 0x2F \<or> c = CHR 0x5C then [] # path_segments cs
      else case path_segments cs of [] \<Rightarrow> [[c]] | w # ws \<Rightarrow> (c # w) # ws)"

definition assertHeavyBindingIsPath :: "json \<Rightarrow> string result" where
  "assertHeavyBindingIsPath v =
     (case v of
        JStr p \<Rightarrow>
          if length p = 0 then Inl (FatalError WORKER_INVALID_HEAVY_BINDING_VALUE)
          else res_bind (assertSafeArgValue p) (\<lambda>_.
               if ''..'' \<in> set (path_segments p) then Inl (FatalError WORKER_UNSAFE_ARG_VALUE)
               else Inr p)
      | _ \<Rightarrow> Inl (FatalError WORKER_INVALID_HEAVY_BINDING_VALUE))"

record dispatch_capability =
  dc_invocationDescriptor :: "invocation_descriptor_entry list"
  dc_stateReuse :: state_reuse

record rendered_heavy_bindings =
  rh_dataFiles :: "agent_data_file list"
  rh_positionalArgs :: "string list"

definition heavy_state_id :: "state_reuse \<Rightarrow> string option \<Rightarrow> string option" where
  "heavy_state_id reuse contentHash =
     (case contentHash of
        None \<Rightarrow> None
      | Some h \<Rightarrow> if reuse = StateIdKeyed \<and> h \<noteq> [] then Some h else None)"

text \<open>
  The loop over the descriptor. \<open>positionalByIndex\<close> is a \<open>Map\<close> that only ever gets new keys:
  the list of its entries in insertion order.
\<close>

fun render_entries ::
  "resolved_input \<Rightarrow> string option \<Rightarrow> invocation_descriptor_entry list \<Rightarrow> agent_data_file list
    \<Rightarrow> (rat \<times> string) list \<Rightarrow> (agent_data_file list \<times> (rat \<times> string) list) result"
where
  "render_entries inp stateId [] dataFiles positional = Inr (dataFiles, positional)"
| "render_entries inp stateId (e # es) dataFiles positional =
     (case resolved inp (ie_param e) of
        None \<Rightarrow> render_entries inp stateId es dataFiles positional
      | Some v \<Rightarrow>
          res_bind (assertHeavyBindingIsPath v) (\<lambda>path.
            case ie_style e of
              FlagStyle \<Rightarrow> render_entries inp stateId es
                (dataFiles @ [\<lparr>df_flag = ie_flagName e, df_path = path, df_stateId = stateId,
                               df_stdinFromPath = None\<rparr>]) positional
            | PositionalStyle \<Rightarrow>
                (let positionIndex = nullish (ie_positionIndex e) 0 in
                 if positionIndex \<in> fst ` set positional
                 then Inl (FatalError WORKER_INVALID_HEAVY_BINDING_VALUE)
                 else render_entries inp stateId es dataFiles (positional @ [(positionIndex, path)]))
            | StdinStyle \<Rightarrow> render_entries inp stateId es
                (dataFiles @ [\<lparr>df_flag = None, df_path = path, df_stateId = stateId,
                               df_stdinFromPath = Some True\<rparr>]) positional))"

definition renderHeavyBindings ::
  "resolved_input \<Rightarrow> dispatch_capability \<Rightarrow> string option \<Rightarrow> rendered_heavy_bindings result" where
  "renderHeavyBindings inp capability contentHash =
     res_bind (render_entries inp (heavy_state_id (dc_stateReuse capability) contentHash)
                 (dc_invocationDescriptor capability) [] [])
       (\<lambda>(dataFiles, positional).
          Inr \<lparr>rh_dataFiles = dataFiles, rh_positionalArgs = map snd (sort_key fst positional)\<rparr>)"

subsection \<open>The request and the answer\<close>

record build_invoke_request_params =
  bp_executionId :: nat
  bp_step :: step
  bp_resolvedInput :: resolved_input
  bp_timeoutMs :: int
  bp_capability :: "dispatch_capability option"
  bp_contentHash :: "string option"

definition NO_HEAVY_BINDINGS_CAPABILITY :: dispatch_capability where
  "NO_HEAVY_BINDINGS_CAPABILITY = \<lparr>dc_invocationDescriptor = [], dc_stateReuse = NoStateReuse\<rparr>"

definition buildInvokeRequest ::
  "(rat \<Rightarrow> string) \<Rightarrow> build_invoke_request_params \<Rightarrow> invoke_request result" where
  "buildInvokeRequest num params =
     (let capability = nullish (bp_capability params) NO_HEAVY_BINDINGS_CAPABILITY in
      res_bind (renderHeavyBindings (bp_resolvedInput params) capability (bp_contentHash params)) (\<lambda>heavy.
      res_bind (translateArgsToInvokeArgs num (bp_resolvedInput params)
                  (dc_invocationDescriptor capability)) (\<lambda>args.
        Inr \<lparr>rq_executionId = string_of_nat (bp_executionId params),
             rq_stepId = step_id (bp_step params),
             rq_function = step_function (bp_step params),
             rq_args = args,
             rq_positionalArgs =
               (if length (rh_positionalArgs heavy) > 0 then Some (rh_positionalArgs heavy) else None),
             rq_dataFiles =
               (if length (rh_dataFiles heavy) > 0 then Some (rh_dataFiles heavy) else None),
             rq_timeoutMs = bp_timeoutMs params\<rparr>)))"

text \<open>An answer without output is an empty output; anything but a plain object is malformed.\<close>

definition parseInvokeOutput :: "json \<Rightarrow> js_object result" where
  "parseInvokeOutput response =
     (case js_member response ''output'' of
        None \<Rightarrow> Inr []
      | Some JNull \<Rightarrow> Inr []
      | Some (JObj output) \<Rightarrow> Inr output
      | Some _ \<Rightarrow> Inl (FatalError WORKER_MALFORMED_INVOKE_OUTPUT))"

datatype dispatch_result = DispatchOk js_object | DispatchFailed json

text \<open>The answer is cast, not validated: reading \<open>status\<close> of \<open>null\<close> is a \<open>TypeError\<close>.\<close>

definition dispatchStep ::
  "http_fetch \<Rightarrow> (rat \<Rightarrow> string) \<Rightarrow> string \<Rightarrow> build_invoke_request_params \<Rightarrow> string option
    \<Rightarrow> dispatch_result result" where
  "dispatchStep fetch num agentBaseUrl params authToken =
     res_bind (buildInvokeRequest num params) (\<lambda>request.
     res_bind (agent_invoke fetch num agentBaseUrl request authToken) (\<lambda>response.
       if response = JNull then Inl (HostError ''TypeError'')
       else if js_member response ''status'' \<noteq> Some (JStr ''ok'') then Inr (DispatchFailed response)
       else res_bind (parseInvokeOutput response) (\<lambda>output. Inr (DispatchOk output))))"

subsection \<open>What a request carries\<close>

definition safe_path :: "string \<Rightarrow> bool" where
  "safe_path p \<longleftrightarrow> p \<noteq> [] \<and> \<not> starts_with ''-'' p \<and> ''..'' \<notin> set (path_segments p)"

lemma assertSafeArgValue_Inr [simp]: "assertSafeArgValue v = Inr u \<longleftrightarrow> \<not> starts_with ''-'' v"
  by (simp add: assertSafeArgValue_def)

lemma assertValidArgFlagName_Inr [simp]:
  "assertValidArgFlagName k = Inr u \<longleftrightarrow> AGENT_ARG_FLAG_NAME_PATTERN k"
  by (simp add: assertValidArgFlagName_def)

lemma assertHeavyBindingIsPath_Inr:
  "assertHeavyBindingIsPath v = Inr p \<longleftrightarrow> v = JStr p \<and> safe_path p"
  by (auto simp: assertHeavyBindingIsPath_def safe_path_def res_bind_Inr split: json.splits if_splits)

lemma assert_errors_fatal:
  "assertHeavyBindingIsPath v = Inl e \<Longrightarrow> \<exists>x. e = FatalError x"
  "assertSafeArgValue s = Inl e \<Longrightarrow> \<exists>x. e = FatalError x"
  "assertValidArgFlagName s = Inl e \<Longrightarrow> \<exists>x. e = FatalError x"
  by (auto simp: assertHeavyBindingIsPath_def assertSafeArgValue_def assertValidArgFlagName_def res_bind_Inl
      split: json.splits if_splits)

text \<open>The bindings of a descriptor that the step supplies, and what each is rendered to.\<close>

definition supplied :: "resolved_input \<Rightarrow> invocation_descriptor_entry list \<Rightarrow> invocation_descriptor_entry list" where
  "supplied inp ds = filter (\<lambda>e. resolved inp (ie_param e) \<noteq> None) ds"

definition path_of :: "resolved_input \<Rightarrow> invocation_descriptor_entry \<Rightarrow> string" where
  "path_of inp e = nullish (as_string (resolved inp (ie_param e))) []"

definition position_of :: "invocation_descriptor_entry \<Rightarrow> rat" where
  "position_of e = nullish (ie_positionIndex e) 0"

definition heavy_file :: "resolved_input \<Rightarrow> string option \<Rightarrow> invocation_descriptor_entry \<Rightarrow> agent_data_file" where
  "heavy_file inp stateId e =
     \<lparr>df_flag = (if ie_style e = FlagStyle then ie_flagName e else None), df_path = path_of inp e,
      df_stateId = stateId, df_stdinFromPath = (if ie_style e = StdinStyle then Some True else None)\<rparr>"

abbreviation positional_entry :: "invocation_descriptor_entry \<Rightarrow> bool" where
  "positional_entry e \<equiv> ie_style e = PositionalStyle"

definition heavy_ok :: "resolved_input \<Rightarrow> invocation_descriptor_entry \<Rightarrow> bool" where
  "heavy_ok inp e \<longleftrightarrow> (case resolved inp (ie_param e) of None \<Rightarrow> True | Some v \<Rightarrow> (\<exists>p. v = JStr p \<and> safe_path p))"

lemma render_entries_ok:
  assumes "list_all (heavy_ok inp) ds"
    and "distinct (map position_of (filter positional_entry (supplied inp ds)))"
    and "set (map position_of (filter positional_entry (supplied inp ds))) \<inter> fst ` set positional = {}"
  shows "render_entries inp stateId ds files positional =
    Inr (files @ map (heavy_file inp stateId) (filter (\<lambda>e. \<not> positional_entry e) (supplied inp ds)),
         positional @ map (\<lambda>e. (position_of e, path_of inp e)) (filter positional_entry (supplied inp ds)))"
  using assms
proof (induction ds arbitrary: files positional)
  case Nil
  then show ?case by (simp add: supplied_def)
next
  case (Cons e es)
  show ?case
  proof (cases "resolved inp (ie_param e)")
    case None
    with Cons show ?thesis by (simp add: supplied_def)
  next
    case (Some v)
    with Cons.prems obtain p where p: "v = JStr p" "assertHeavyBindingIsPath (JStr p) = Inr p"
      by (auto simp: heavy_ok_def assertHeavyBindingIsPath_Inr)
    have path: "path_of inp e = p" by (simp add: path_of_def Some p)
    have sup: "supplied inp (e # es) = e # supplied inp es" by (simp add: supplied_def Some)
    show ?thesis
      using Cons.prems by (cases "ie_style e")
        (auto simp: Some p sup path Cons.IH heavy_file_def position_of_def [symmetric] Let_def)
  qed
qed

lemma render_entries_err:
  "\<not> list_all (heavy_ok inp) ds \<Longrightarrow> \<exists>x. render_entries inp stateId ds files positional = Inl (FatalError x)"
proof (induction ds arbitrary: files positional)
  case (Cons e es)
  show ?case
  proof (cases "resolved inp (ie_param e)")
    case None
    with Cons show ?thesis by (simp add: heavy_ok_def)
  next
    case (Some v)
    show ?thesis
    proof (cases "assertHeavyBindingIsPath v")
      case (Inl err)
      with Some show ?thesis using assert_errors_fatal(1) by fastforce
    next
      case (Inr p)
      with Some have "heavy_ok inp e" by (simp add: heavy_ok_def assertHeavyBindingIsPath_Inr)
      with Cons.prems have "\<not> list_all (heavy_ok inp) es" by simp
      with Some Inr Cons.IH show ?thesis by (simp add: Let_def split: invocation_style.split)
    qed
  qed
qed simp

text \<open>In a valid descriptor the positions of the positional entries are distinct.\<close>

lemma descriptor_positions:
  assumes "descriptor_wf ds"
  shows "distinct (map position_of (filter positional_entry (supplied inp ds)))"
proof -
  have pos: "entry_position e = (if positional_entry e then [position_of e] else [])" if "e \<in> set ds" for e
    using assms that by (auto simp: descriptor_wf_def entry_wf_def list_all_iff entry_position_def position_of_def
        split: invocation_style.split)
  have "concat (map entry_position ds) = map position_of (filter positional_entry ds)"
    using pos by (induction ds) simp_all
  with assms have "distinct (map position_of (filter positional_entry ds))"
    by (simp add: descriptor_wf_def)
  then have "distinct (map position_of (supplied inp (filter positional_entry ds)))"
    unfolding supplied_def by (rule distinct_map_filter)
  moreover have "filter positional_entry (supplied inp ds) = supplied inp (filter positional_entry ds)"
    by (simp add: supplied_def conj_commute)
  ultimately show ?thesis by simp
qed

lemma renderHeavyBindings_eq:
  assumes "descriptor_wf (dc_invocationDescriptor cap)"
    and given: "given = supplied inp (dc_invocationDescriptor cap)"
  shows "list_all (heavy_ok inp) (dc_invocationDescriptor cap) \<Longrightarrow>
      renderHeavyBindings inp cap h = Inr
        \<lparr>rh_dataFiles = map (heavy_file inp (heavy_state_id (dc_stateReuse cap) h))
                          (filter (\<lambda>e. \<not> positional_entry e) given),
         rh_positionalArgs = map (path_of inp) (sort_key position_of (filter positional_entry given))\<rparr>"
    and "\<not> list_all (heavy_ok inp) (dc_invocationDescriptor cap) \<Longrightarrow>
      \<exists>x. renderHeavyBindings inp cap h = Inl (FatalError x)"
proof -
  assume "list_all (heavy_ok inp) (dc_invocationDescriptor cap)"
  from render_entries_ok [OF this descriptor_positions [OF assms(1)]]
  show "renderHeavyBindings inp cap h = Inr
        \<lparr>rh_dataFiles = map (heavy_file inp (heavy_state_id (dc_stateReuse cap) h))
                          (filter (\<lambda>e. \<not> positional_entry e) given),
         rh_positionalArgs = map (path_of inp) (sort_key position_of (filter positional_entry given))\<rparr>"
    by (simp add: renderHeavyBindings_def given sort_key_map comp_def)
next
  assume "\<not> list_all (heavy_ok inp) (dc_invocationDescriptor cap)"
  from render_entries_err [OF this, of "heavy_state_id (dc_stateReuse cap) h" "[]" "[]"]
  show "\<exists>x. renderHeavyBindings inp cap h = Inl (FatalError x)"
    by (auto simp: renderHeavyBindings_def)
qed

text \<open>What rendering throws is fatal.\<close>

lemma translate_entries_fatal:
  "translate_entries num hs inp args = Inl e \<Longrightarrow> \<exists>x. e = FatalError x"
  by (induction num hs inp args rule: translate_entries.induct)
    (auto simp: res_bind_Inl Let_def dest: assert_errors_fatal split: if_splits)

lemma render_entries_fatal:
  "render_entries inp sid ds fs ps = Inl e \<Longrightarrow> \<exists>x. e = FatalError x"
proof (induction inp sid ds fs ps rule: render_entries.induct)
  case (2 inp stateId d ds files positional)
  show ?case
  proof (cases "resolved inp (ie_param d)")
    case None
    with 2 show ?thesis by simp
  next
    case (Some v)
    show ?thesis
    proof (cases "assertHeavyBindingIsPath v")
      case (Inl err)
      with 2 Some show ?thesis using assert_errors_fatal(1) [OF Inl] by simp
    next
      case (Inr p)
      with 2 Some show ?thesis by (cases "ie_style d") (auto simp: Let_def split: if_splits)
    qed
  qed
qed simp

lemma buildInvokeRequest_fatal: "buildInvokeRequest num params = Inl e \<Longrightarrow> \<exists>x. e = FatalError x"
  by (auto simp: buildInvokeRequest_def renderHeavyBindings_def translateArgsToInvokeArgs_def
      Let_def res_bind_Inl dest!: render_entries_fatal translate_entries_fatal)

text \<open>Nothing a dispatch throws comes from the database.\<close>

lemma dispatchStep_retryable:
  "dispatchStep fetch num url params token = Inl (RetryableError x) \<longleftrightarrow>
     x = WORKER_AGENT_UNREACHABLE
     \<and> (\<exists>rq. buildInvokeRequest num params = Inr rq \<and> unreachable (exchange fetch num url rq token))"
proof -
  have parse: "parseInvokeOutput r \<noteq> Inl (RetryableError x)" for r
    by (auto simp: parseInvokeOutput_def split: option.splits json.splits)
  show ?thesis
    using parse
    by (auto simp: dispatchStep_def res_bind_Inl agent_invoke_cases Let_def
        dest: buildInvokeRequest_fatal split: if_splits option.splits)
qed

lemma dispatchStep_not_db: "dispatchStep fetch num url params token \<noteq> Inl (DbError d)"
proof -
  have "parseInvokeOutput r \<noteq> Inl (DbError d)" for r
    by (auto simp: parseInvokeOutput_def split: option.splits json.splits)
  then show ?thesis
    by (auto simp: dispatchStep_def res_bind_Inl agent_invoke_cases Let_def
        dest: buildInvokeRequest_fatal split: if_splits option.splits)
qed

end
