(* ===== verification/Transactions.thy ===== *)
theory Transactions
  imports Core_Laws
begin

text \<open>
  \<open>shared/database/transactions.ts\<close> and its wrappers: \<open>BEGIN\<close>, the function, \<open>COMMIT\<close>, and
  \<open>ROLLBACK\<close> when anything throws. A rollback gives the tables back as they were at the start;
  what it cannot take back (the ids a \<open>BIGSERIAL\<close> has given out) is up to the database, so the
  wrapper takes it as a parameter. \<open>connection\<close> says which of the statements that the wrapper
  itself sends fails; a failure of the \<open>ROLLBACK\<close> is swallowed and changes nothing, since the
  server rolls back a connection it has lost.
\<close>

datatype connection = Healthy | ConnectFails | BeginFails | CommitFails

definition withTransaction ::
  "('s \<Rightarrow> 's \<Rightarrow> 's) \<Rightarrow> connection \<Rightarrow> ('s, platform_error, 'a) tx \<Rightarrow> ('s, platform_error, 'a) tx" where
  "withTransaction rollback conn fn =
     (\<lambda>s. if conn = ConnectFails then (Inl (HostError ''connect''), s)
          else if conn = BeginFails then (Inl (HostError ''BEGIN''), rollback s s)
          else case fn s of
                 (Inl err, t) \<Rightarrow> (Inl err, rollback s t)
               | (Inr result, t) \<Rightarrow>
                   if conn = CommitFails then (Inl (HostError ''COMMIT''), rollback s t)
                   else (Inr result, t))"

text \<open>
  What the callers rely on. \<open>tables\<close> is what a query can read; \<open>rollback\<close> brings it back.
\<close>

locale atomic_store =
  fixes rollback :: "'s \<Rightarrow> 's \<Rightarrow> 's"
    and tables :: "'s \<Rightarrow> 'v"
  assumes rollback_tables: "tables (rollback s t) = tables s"
    and rollback_same: "rollback s s = s"
begin

lemma throws_leave_tables:
  "withTransaction rollback conn fn s = (Inl err, s') \<Longrightarrow> tables s' = tables s"
  by (auto simp: withTransaction_def rollback_tables split: if_splits prod.splits sum.splits)

lemma returns_commit:
  "withTransaction rollback conn fn s = (Inr a, s') \<longleftrightarrow> conn = Healthy \<and> fn s = (Inr a, s')"
  by (cases conn) (auto simp: withTransaction_def split: prod.splits sum.splits)

lemma healthy_throws:
  "withTransaction rollback Healthy fn s = (Inl err, s') \<longleftrightarrow> (\<exists>t. fn s = (Inl err, t) \<and> s' = rollback s t)"
  by (auto simp: withTransaction_def split: prod.splits sum.splits)

text \<open>A transaction changes the tables as its function does, or not at all.\<close>

lemma all_or_nothing:
  "tables (snd (withTransaction rollback conn fn s)) \<in> {tables s, tables (snd (fn s))}"
  by (auto simp: withTransaction_def rollback_tables rollback_same split: prod.splits sum.splits)

end

subsection \<open>\<open>core/database/transactions.ts\<close>\<close>

text \<open>The sequences behind \<open>BIGSERIAL\<close> columns are not transactional.\<close>

definition core_rollback :: "core_db \<Rightarrow> core_db \<Rightarrow> core_db" where
  "core_rollback s t =
     s\<lparr>executions_id_seq := executions_id_seq t, waits_id_seq := waits_id_seq t,
       workflow_runs_id_seq := workflow_runs_id_seq t, session_log_id_seq := session_log_id_seq t\<rparr>"

definition core_tables :: "core_db \<Rightarrow> core_db" where
  "core_tables s = s\<lparr>executions_id_seq := 0, waits_id_seq := 0, workflow_runs_id_seq := 0,
     session_log_id_seq := 0\<rparr>"

definition core_withTransaction :: "connection \<Rightarrow> 'a core_tx \<Rightarrow> 'a core_tx" where
  "core_withTransaction = withTransaction core_rollback"

interpretation core_store: atomic_store core_rollback core_tables
  by unfold_locales (simp_all add: core_rollback_def core_tables_def)

lemma core_rollback_seqs:
  assumes "executions_id_seq t = executions_id_seq s" "waits_id_seq t = waits_id_seq s"
    "workflow_runs_id_seq t = workflow_runs_id_seq s" "session_log_id_seq t = session_log_id_seq s"
  shows "core_rollback s t = s"
  by (simp add: core_rollback_def assms)

end
