(* ===== verification/Worker_Loop.thy ===== *)
theory Worker_Loop
  imports Dispatch Transactions Samples
begin

text \<open>
  \<open>apps/worker/worker-loop.ts\<close>: one cycle of a worker (claim, dispatch, complete or fail, in one
  transaction) and the loop around it. The agent is the parameter \<open>fetch\<close> of the dispatch.
  \<open>failRun\<close> is modelled beside the engine's invariant.
\<close>

subsection \<open>One cycle\<close>

record worker_deps =
  wd_agentBaseUrl :: string
  wd_workerId :: string
  wd_leaseSeconds :: int
  wd_invokeTimeoutMs :: int
  wd_agentAuthToken :: "string option"

text \<open>\<open>try { m } catch (err) { h(err) }\<close>: the handler goes on in the state that \<open>m\<close> left.\<close>

definition tx_catch :: "('s, 'e, 'a) tx \<Rightarrow> ('e \<Rightarrow> ('s, 'e, 'a) tx) \<Rightarrow> ('s, 'e, 'a) tx" where
  "tx_catch m h = (\<lambda>s. case m s of (Inl e, t) \<Rightarrow> h e t | (Inr a, t) \<Rightarrow> (Inr a, t))"

text \<open>
  A statement that the database refused has aborted the transaction: every later statement of
  the same transaction is refused as well.
\<close>

definition after_error :: "platform_error \<Rightarrow> 'a core_tx \<Rightarrow> 'a core_tx" where
  "after_error err m =
     (case err of DbError _ \<Rightarrow> tx_throw (DbError InFailedTransaction) | _ \<Rightarrow> m)"

text \<open>\<open>response.stderr.slice(0, 500)\<close> in the arguments of the log call.\<close>

definition stderr_excerpt :: "json \<Rightarrow> unit result" where
  "stderr_excerpt response =
     (case js_member response ''stderr'' of
        Some (JStr _) \<Rightarrow> Inr ()
      | Some (JArr _) \<Rightarrow> Inr ()
      | _ \<Rightarrow> Inl (HostError ''TypeError''))"

definition dispatch_params :: "worker_deps \<Rightarrow> nat \<Rightarrow> step \<Rightarrow> resolved_input \<Rightarrow> build_invoke_request_params" where
  "dispatch_params deps eid node inp =
     \<lparr>bp_executionId = eid, bp_step = node, bp_resolvedInput = inp,
      bp_timeoutMs = wd_invokeTimeoutMs deps, bp_capability = None, bp_contentHash = None\<rparr>"

text \<open>The inner \<open>try\<close> block.\<close>

definition process_execution ::
  "http_fetch \<Rightarrow> (rat \<Rightarrow> string) \<Rightarrow> worker_deps \<Rightarrow> execution \<Rightarrow> workflow_run \<Rightarrow> bool core_tx" where
  "process_execution fetch num deps e run =
     tx_bind (tx_lift (findRunStepNode run (ex_step e))) (\<lambda>node.
     tx_bind (resolveStepReads run node) (\<lambda>resolvedInput.
     tx_bind (tx_lift (dispatchStep fetch num (wd_agentBaseUrl deps)
                (dispatch_params deps (ex_id e) node resolvedInput) (wd_agentAuthToken deps)))
       (\<lambda>dispatchResult. case dispatchResult of
          DispatchFailed response \<Rightarrow>
            tx_then (tx_lift (stderr_excerpt response))
           (tx_then (failRun (run_id run) (ex_id e))
                    (tx_return True))
        | DispatchOk output \<Rightarrow>
            tx_then (completeStep run (ex_id e) (step_id node) output)
                    (tx_return True))))"

definition run_cycle :: "http_fetch \<Rightarrow> (rat \<Rightarrow> string) \<Rightarrow> worker_deps \<Rightarrow> bool core_tx" where
  "run_cycle fetch num deps =
     tx_bind (claimExecution (wd_workerId deps) (Some (wd_leaseSeconds deps))) (\<lambda>claimed.
       case claimed of
         None \<Rightarrow> tx_return False
       | Some e \<Rightarrow>
           (case ex_runId e of
              None \<Rightarrow> tx_throw (RetryableError WORKER_EXECUTION_MISSING_RUN)
            | Some rid \<Rightarrow>
                tx_bind (workflowRuns_findById rid) (\<lambda>found.
                  case found of
                    None \<Rightarrow> tx_throw (FatalError WORKER_EXECUTION_MISSING_RUN)
                  | Some run \<Rightarrow>
                      tx_catch (process_execution fetch num deps e run) (\<lambda>err.
                        if is_retryable err then tx_throw err
                        else after_error err (tx_then (failRun (run_id run) (ex_id e))
                                                      (tx_return True))))))"

text \<open>\<open>runOnce\<close>: the answer and the database it leaves; whatever is thrown is the answer \<open>false\<close>.\<close>

definition runOnce ::
  "http_fetch \<Rightarrow> (rat \<Rightarrow> string) \<Rightarrow> connection \<Rightarrow> worker_deps \<Rightarrow> core_db \<Rightarrow> bool \<times> core_db" where
  "runOnce fetch num conn deps s =
     (case core_withTransaction conn (run_cycle fetch num deps) s of
        (Inl err, t) \<Rightarrow> (False, t)
      | (Inr didWork, t) \<Rightarrow> (didWork, t))"

subsection \<open>The loop\<close>

text \<open>
  \<open>sleep(ms, signal)\<close>, in milliseconds: the timer, or the abort when that comes first. \<open>setTimeout\<close>
  takes a delay below 1 or above \<open>2147483647\<close> as 1.
\<close>

definition timer_delay :: "int \<Rightarrow> int" where
  "timer_delay ms = (if 1 \<le> ms \<and> ms \<le> 2147483647 then ms else 1)"

definition worker_sleep :: "int \<Rightarrow> int option \<Rightarrow> int" where
  "worker_sleep ms aborted_after =
     (case aborted_after of None \<Rightarrow> timer_delay ms | Some t \<Rightarrow> min t (timer_delay ms))"

text \<open>
  What happens around the worker is the parameter \<open>world\<close>: whether the abort signal has fired
  at each look at it (the loop looks before a cycle and, when the cycle did no work, after it:
  looks \<open>2n\<close> and \<open>2n + 1\<close>), after how many milliseconds it fires in the sleep that follows a
  cycle, and at each cycle the connection, the agent and what the other clients do to the
  database meanwhile. The result is the database when the loop returns, the number of cycles
  and how long each sleep was; \<open>None\<close> means that it never returns.
\<close>

record world =
  wo_aborted :: "nat \<Rightarrow> bool"
  wo_abortedAfter :: "nat \<Rightarrow> int option"
  wo_connection :: "nat \<Rightarrow> connection"
  wo_fetch :: "nat \<Rightarrow> http_fetch"
  wo_others :: "nat \<Rightarrow> core_db \<Rightarrow> core_db"

definition loop_cycle :: "(rat \<Rightarrow> string) \<Rightarrow> worker_deps \<Rightarrow> world \<Rightarrow> nat \<Rightarrow> core_db \<Rightarrow> bool \<times> core_db" where
  "loop_cycle num deps w n s = runOnce (wo_fetch w n) num (wo_connection w n) deps (wo_others w n s)"

partial_function (option) runWorkerLoop ::
  "(rat \<Rightarrow> string) \<Rightarrow> worker_deps \<Rightarrow> int \<Rightarrow> world \<Rightarrow> nat \<Rightarrow> int list \<Rightarrow> core_db \<Rightarrow> (core_db \<times> nat \<times> int list) option"
where
  "runWorkerLoop num deps pollIntervalMs w n slept s =
     (if wo_aborted w (2 * n) then Some (s, n, slept)
      else let (didWork, s') = loop_cycle num deps w n s in
           runWorkerLoop num deps pollIntervalMs w (Suc n)
             (if \<not> didWork \<and> \<not> wo_aborted w (2 * n + 1)
              then slept @ [worker_sleep pollIntervalMs (wo_abortedAfter w n)] else slept) s')"

subsection \<open>A cycle on a consistent database\<close>

lemma tx_catch_apply: "tx_catch m h s = (case m s of (Inl e, t) \<Rightarrow> h e t | (Inr a, t) \<Rightarrow> (Inr a, t))"
  by (simp add: tx_catch_def)

text \<open>
  What the worker learns about a claimed execution before it writes anything: the outputs of
  the step, a failure that the agent reported, or an error.
\<close>

definition verdict ::
  "http_fetch \<Rightarrow> (rat \<Rightarrow> string) \<Rightarrow> worker_deps \<Rightarrow> execution \<Rightarrow> workflow_run \<Rightarrow> core_db \<Rightarrow> dispatch_result result"
where
  "verdict fetch num deps e run s =
     res_bind (findRunStepNode run (ex_step e)) (\<lambda>node.
     res_bind (fst (resolveStepReads run node s)) (\<lambda>inp.
       dispatchStep fetch num (wd_agentBaseUrl deps) (dispatch_params deps (ex_id e) node inp)
         (wd_agentAuthToken deps)))"

lemma resolveStepReads_state: "snd (resolveStepReads run node s) = s"
  by (simp add: resolveStepReads_def tx_simps)

lemma findRunStepNode_id: "findRunStepNode run i = Inr node \<Longrightarrow> step_id node = i"
  by (auto simp: findRunStepNode_def findStepNode_def res_bind_Inr find_Some_iff split: option.splits)

lemma process_execution_eq:
  "process_execution fetch num deps e run s =
     (case verdict fetch num deps e run s of
        Inl err \<Rightarrow> (Inl err, s)
      | Inr (DispatchFailed response) \<Rightarrow>
          tx_then (tx_lift (stderr_excerpt response))
            (tx_then (failRun (run_id run) (ex_id e)) (tx_return True)) s
      | Inr (DispatchOk output) \<Rightarrow>
          tx_then (completeStep run (ex_id e) (ex_step e) output) (tx_return True) s)"
proof (cases "findRunStepNode run (ex_step e)")
  case (Inr node)
  obtain r where r: "resolveStepReads run node s = (r, s)"
    using resolveStepReads_state [of run node s] by (cases "resolveStepReads run node s") simp
  with Inr findRunStepNode_id [OF Inr] show ?thesis
    by (cases r) (simp_all add: process_execution_def verdict_def tx_simps
        split: sum.split dispatch_result.split)
qed (simp add: process_execution_def verdict_def tx_simps)

lemma resolveBinding_fatal: "resolveBinding b ctx = Inl e \<Longrightarrow> \<exists>x. e = FatalError x"
  by (auto simp: resolveBinding_def split: binding.splits option.splits)

lemma read_errors_fatal:
  "fst (resolveStepReads run node s) = Inl e \<Longrightarrow> \<exists>x. e = FatalError x"
  "findRunStepNode run i = Inl e \<Longrightarrow> \<exists>x. e = FatalError x"
proof -
  have "resolve_entries bs ctx = Inl e \<Longrightarrow> \<exists>x. e = FatalError x" for bs ctx
    unfolding resolve_entries_def
    by (drule res_map_Inl) (auto simp: res_bind_Inl dest: resolveBinding_fatal)
  then show "fst (resolveStepReads run node s) = Inl e \<Longrightarrow> \<exists>x. e = FatalError x"
    by (simp add: resolveStepReads_def tx_simps)
  have "assert_plain seen ns = Inl e \<Longrightarrow> \<exists>x. e = FatalError x" for seen ns
    by (induction seen ns rule: assert_plain.induct) (auto simp: res_bind_Inl split: if_splits)
  then show "findRunStepNode run i = Inl e \<Longrightarrow> \<exists>x. e = FatalError x"
    by (auto simp: findRunStepNode_def assertPlainSteps_def findStepNode_def res_bind_Inl split: option.splits)
qed

text \<open>Only a dispatch can fail with an error that is not fatal, and none of its errors is the database's.\<close>

lemma verdict_Inl:
  assumes "verdict fetch num deps e run s = Inl err" "\<nexists>x. err = FatalError x"
  obtains node inp where "dispatchStep fetch num (wd_agentBaseUrl deps)
      (dispatch_params deps (ex_id e) node inp) (wd_agentAuthToken deps) = Inl err"
  using assms by (auto simp: verdict_def res_bind_Inl dest: read_errors_fatal)

lemma verdict_not_db: "verdict fetch num deps e run s \<noteq> Inl (DbError d)"
  using dispatchStep_not_db by (auto elim: verdict_Inl)

text \<open>What a claim of a run's execution leaves behind.\<close>

lemma claimed_run_execution:
  assumes "engine_reachable s" "claimExecution w lease s = (Inr (Some e), s1)"
  shows "engine_reachable s1" "claimed_once s1 e" "core_rollback s s1 = s"
    "ex_runId e = Some i \<Longrightarrow> \<exists>r. find_run i s1 = Some r \<and> run_id r = i \<and> run_of s1 e r"
proof -
  show reach: "engine_reachable s1"
    using assms by (auto intro: engine_reachable.step engine_step.claim)
  have core: "core_inv s" "core_inv s1"
    using engine_inv_core engine_reachable_inv assms(1) reach by blast+
  have "claim_execution w (nullish lease DEFAULT_LEASE_SECONDS) s = (Inr (Some e), s1)"
    using assms(2) by (simp add: claimExecution_def executions_claim_def)
  with core(1) obtain v where v: "v \<in> set (db_executions s)"
    "e = claimed_row w (nullish lease DEFAULT_LEASE_SECONDS) (db_now s) v"
    "s1 = s\<lparr>db_waits := sql_update (due_timer_wait (db_now s) (ex_id v))
                         (\<lambda>x. x\<lparr>wt_satisfiedAt := Some (db_now s)\<rparr>) (db_waits s),
            db_executions := sql_update (\<lambda>e. ex_id e = ex_id v)
                (claimed_row w (nullish lease DEFAULT_LEASE_SECONDS) (db_now s)) (db_executions s)\<rparr>"
    by (cases rule: claim_execution_cases) auto
  show once: "claimed_once s1 e" using v by (auto simp: claimed_once_def set_sql_update)
  show "\<exists>r. find_run i s1 = Some r \<and> run_id r = i \<and> run_of s1 e r" if i: "ex_runId e = Some i"
  proof -
    have "e \<in> set (db_executions s1)" using once by (simp add: claimed_once_def)
    with core(2) i obtain r where r: "r \<in> set (db_workflow_runs s1)" "run_id r = i"
      by (force simp: core_inv_def)
    with find_run_eq [OF core(2) r(1)] i show ?thesis by (auto simp: run_of_def list_ex_iff)
  qed
  show "core_rollback s s1 = s" by (rule core_rollback_seqs) (simp_all add: v(3))
qed

text \<open>The state in which a run is failed because of one of its executions.\<close>

definition run_failed :: "nat \<Rightarrow> nat \<Rightarrow> core_db \<Rightarrow> core_db" where
  "run_failed rid eid s =
     set_execution_status (fails_with_run rid eid) Failed (set_run_status (\<lambda>r. run_id r = rid) RunFailed s)"

lemma runOnce_claimed:
  assumes s: "engine_reachable s"
    and claim: "claimExecution (wd_workerId deps) (Some (wd_leaseSeconds deps)) s = (Inr (Some e), s1)"
    and run: "ex_runId e = Some i" "find_run i s1 = Some r"
  shows "runOnce fetch num Healthy deps s =
    (case verdict fetch num deps e r s1 of
       Inr (DispatchOk output) \<Rightarrow> (True, snd (completeStep r (ex_id e) (ex_step e) output s1))
     | Inr (DispatchFailed _) \<Rightarrow> (True, run_failed i (ex_id e) s1)
     | Inl err \<Rightarrow> if is_retryable err then (False, s) else (True, run_failed i (ex_id e) s1))"
proof -
  note reach = claimed_run_execution(1) [OF s claim] and once = claimed_run_execution(2) [OF s claim]
    and restore = claimed_run_execution(3) [OF s claim]
  have r: "run_id r = i" "run_of s1 e r" using claimed_run_execution(4) [OF s claim run(1)] run(2) by auto
  have ok: "\<exists>t. completeStep r (ex_id e) (ex_step e) out s1 = (Inr (), t)" for out
    using engine_inv_complete(2) [OF engine_reachable_inv [OF reach] once r(2)]
    by (cases "completeStep r (ex_id e) (ex_step e) out s1") auto
  have fail: "failRun i (ex_id e) s1 = (Inr (), run_failed i (ex_id e) s1)"
    by (simp add: failRun_eq run_failed_def)
  have cycle: "run_cycle fetch num deps s =
     tx_catch (process_execution fetch num deps e r) (\<lambda>err.
       if is_retryable err then tx_throw err
       else after_error err (tx_then (failRun i (ex_id e)) (tx_return True))) s1"
    using claim run r(1) by (simp add: run_cycle_def tx_simps workflowRuns_findById_def cong: if_cong)
  show ?thesis
  proof (cases "verdict fetch num deps e r s1")
    case (Inl err)
    then have "\<not> (\<exists>d. err = DbError d)" using verdict_not_db by blast
    with Inl fail restore show ?thesis
      by (cases err) (simp_all add: runOnce_def core_withTransaction_def withTransaction_def cycle
          tx_catch_apply process_execution_eq after_error_def tx_simps)
  next
    case (Inr d)
    show ?thesis
    proof (cases d)
      case (DispatchOk out)
      with Inr ok [of out] show ?thesis
        by (auto simp: runOnce_def core_withTransaction_def withTransaction_def cycle
            tx_catch_apply process_execution_eq tx_simps)
    next
      case (DispatchFailed response)
      have "stderr_excerpt response = Inr () \<or> stderr_excerpt response = Inl (HostError ''TypeError'')"
        by (auto simp: stderr_excerpt_def split: option.split json.split)
      with DispatchFailed Inr fail r(1) show ?thesis
        by (auto simp: runOnce_def core_withTransaction_def withTransaction_def cycle
            tx_catch_apply process_execution_eq after_error_def tx_simps)
    qed
  qed
qed

end
