(* ===== verification/Worker_Properties.thy ===== *)
theory Worker_Properties
  imports Worker_Loop
begin

text \<open>
  A worker's cycle is one of the engine's steps or no step at all, whatever the connection and
  the agent do; what it does is decided by the row it claims and by the agent's answer; and
  the loop around it returns when, and only when, it is told to stop.
\<close>

subsection \<open>The sequences and locks that a cycle leaves alone\<close>

definition serials :: "core_db \<Rightarrow> nat \<times> nat \<times> nat \<times> nat \<times> nat list" where
  "serials s = (executions_id_seq s, waits_id_seq s, workflow_runs_id_seq s, session_log_id_seq s,
     locked_executions s)"

interpretation seqs: tx_frame "\<lambda>s t. serials t = serials s"
  by unfold_locales simp_all

lemma seqs_statements:
  "seqs.keeps (executions_markDone i)" "seqs.keeps (executions_markFailed i)"
  "seqs.keeps (executions_failRemainingForRun i)" "seqs.keeps (executions_promoteBlockedToQueued i n)"
  "seqs.keeps (workflowRuns_markDone i)" "seqs.keeps (workflowRuns_markFailed i)"
  "seqs.keeps (executions_claim w lease)" "seqs.keeps (checkpoints_insert eid sid out)"
  "seqs.keeps (runNodeOutputs_record rid nid obj)"
proof -
  show "seqs.keeps (executions_claim w lease)"
    by rule (simp add: executions_claim_def claim_execution_def Let_def serials_def split: option.split)
  show "seqs.keeps (checkpoints_insert eid sid out)"
  proof
    fix s
    obtain r t where c: "checkpoints_insert eid sid out s = (r, t)" by fastforce
    then show "serials (snd (checkpoints_insert eid sid out s)) = serials s"
      by (cases rule: checkpoints_insert_cases [OF c]) (simp_all add: serials_def)
  qed
  show "seqs.keeps (runNodeOutputs_record rid nid obj)"
  proof
    fix s
    obtain r t where c: "runNodeOutputs_record rid nid obj s = (r, t)" by fastforce
    then show "serials (snd (runNodeOutputs_record rid nid obj s)) = serials s"
      by (cases rule: record_cases [OF c]) (simp_all add: serials_def)
  qed
qed (unfold core_defs, (rule seqs.keeps_write, simp add: serials_def set_execution_status_def set_run_status_def)+)

lemma seqs_row_or_throw: "seqs.keeps (row_or_throw e rows)"
  unfolding row_or_throw_def by (cases "first_row rows") (simp_all add: seqs.keeps_rules)

lemma seqs_promote: "seqs.keeps (promoteReadyNodes run ids)"
proof -
  have "seqs.keeps (if step_id st \<in> set ids then tx_return ()
       else if list_all (\<lambda>i. i \<in> set ids) (computeStepDependencies st)
       then executions_promoteBlockedToQueued (run_id run) (step_id st) else tx_return ())" for st
    by (simp add: seqs.keeps_return seqs_statements)
  then show ?thesis
    unfolding promoteReadyNodes_def by (intro seqs.keeps_bind seqs.keeps_lift seqs.keeps_for)
qed

lemma seqs_engine:
  "seqs.keeps (claimExecution w lease)" "seqs.keeps (completeStep run eid nid out)"
  "seqs.keeps (failRun rid eid)" "seqs.keeps (resolveStepReads run node)"
  unfolding claimExecution_def completeStep_def completeExecution_def failRun_def resolveStepReads_def
    workflowRuns_lockForUpdate_def runNodeOutputs_listCompletedNodeIds_def
  by (auto intro!: seqs.keeps_rules seqs_statements seqs_promote seqs_row_or_throw)

lemma seqs_catch:
  assumes "seqs.keeps m" "\<And>e. seqs.keeps (h e)"
  shows "seqs.keeps (tx_catch m h)"
proof
  fix s
  obtain r t where m: "m s = (r, t)" by fastforce
  then have st: "serials t = serials s" using seqs.keepsD [OF assms(1)] by blast
  show "serials (snd (tx_catch m h s)) = serials s"
  proof (cases r)
    case (Inl e)
    obtain r' u where "h e t = (r', u)" by fastforce
    with m st Inl seqs.keepsD [OF assms(2) this] show ?thesis by (simp add: tx_catch_def)
  qed (use m st in \<open>simp add: tx_catch_def\<close>)
qed

lemma seqs_cycle: "seqs.keeps (run_cycle fetch num deps)"
proof -
  have process: "seqs.keeps (process_execution fetch num deps e run)" for e run
    unfolding process_execution_def
    by (auto intro!: seqs.keeps_rules seqs_engine split: dispatch_result.split)
  have handler: "seqs.keeps (if is_retryable err then tx_throw err
      else after_error err (tx_then (failRun i j) (tx_return True)))" for err i j
    by (auto simp: after_error_def intro!: seqs.keeps_rules seqs_engine split: platform_error.split)
  show ?thesis
    unfolding run_cycle_def workflowRuns_findById_def
    by (auto intro!: seqs.keeps_bind seqs_engine seqs.keeps_return seqs.keeps_throw seqs.keeps_read
        seqs_catch process handler split: option.split)
qed

lemma cycle_rollback: "core_rollback s (snd (run_cycle fetch num deps s)) = s"
proof -
  have "serials (snd (run_cycle fetch num deps s)) = serials s"
    using seqs_cycle by (simp add: seqs.keeps_def)
  then show ?thesis by (intro core_rollback_seqs) (simp_all add: serials_def)
qed

text \<open>A cycle whose transaction does not commit leaves the database as it found it.\<close>

lemma runOnce_cases:
  obtains (committed) didWork t where "conn = Healthy" "run_cycle fetch num deps s = (Inr didWork, t)"
      "runOnce fetch num conn deps s = (didWork, t)"
  | (rolled_back) "runOnce fetch num conn deps s = (False, s)"
proof (cases "run_cycle fetch num deps s")
  case (Pair r t)
  then have restore: "core_rollback s t = s" using cycle_rollback [of s fetch num deps] by simp
  show ?thesis
  proof (cases "conn = Healthy \<and> (\<exists>b. r = Inr b)")
    case True
    then obtain b where "conn = Healthy" "r = Inr b" by blast
    with Pair show ?thesis
      by (intro committed [of b t]) (auto simp: runOnce_def core_withTransaction_def withTransaction_def)
  next
    case False
    with Pair restore show ?thesis
      by (intro rolled_back) (cases r; cases conn; auto simp: runOnce_def core_withTransaction_def
          withTransaction_def core_store.rollback_same)
  qed
qed

lemma runOnce_serials: "serials (snd (runOnce fetch num conn deps s)) = serials s"
  by (cases rule: runOnce_cases [of conn fetch num deps s]) (use seqs.keepsD [OF seqs_cycle] in auto)

text \<open>With nothing to claim a cycle does nothing.\<close>

lemma runOnce_idle:
  assumes "engine_reachable s"
    and "claimExecution (wd_workerId deps) (Some (wd_leaseSeconds deps)) s = (Inr None, s1)"
  shows "runOnce fetch num Healthy deps s = (False, s)"
proof -
  have "claim_execution (wd_workerId deps) (wd_leaseSeconds deps) s = (Inr None, s1)"
    using assms(2) by (simp add: claimExecution_def executions_claim_def)
  with engine_inv_core [OF engine_reachable_inv [OF assms(1)]] have "s1 = s"
    by (cases rule: claim_execution_cases) auto
  with assms(2) show ?thesis
    by (simp add: runOnce_def core_withTransaction_def withTransaction_def run_cycle_def tx_simps)
qed

subsection \<open>A worker, an agent, and what they do to a small workflow\<close>

definition sample_deps :: worker_deps where
  "sample_deps = \<lparr>wd_agentBaseUrl = ''http://agent'', wd_workerId = ''w1'', wd_leaseSeconds = 30,
     wd_invokeTimeoutMs = 1000, wd_agentAuthToken = None\<rparr>"

definition answering :: "json option \<Rightarrow> http_fetch" where
  "answering body = (\<lambda>url request. Some \<lparr>rs_status = 200, rs_json = body\<rparr>)"

definition ok_answer :: json where
  "ok_answer = JObj [(''status'', JStr ''ok''), (''output'', JObj [(''y'', JBool True)])]"

definition error_answer :: json where
  "error_answer = JObj [(''status'', JStr ''error''), (''stderr'', JStr ''boom'')]"

definition sample_rq :: invoke_request where
  "sample_rq = \<lparr>rq_executionId = ''1'', rq_stepId = ''a'', rq_function = ''f'', rq_args = [(''in'', ''v'')],
     rq_positionalArgs = None, rq_dataFiles = None, rq_timeoutMs = 1000\<rparr>"

lemma sample_claim:
  "claimExecution (wd_workerId sample_deps) (Some (wd_leaseSeconds sample_deps)) db_submitted
     = (Inr (Some exec_a), db_claimed)"
  "ex_runId exec_a = Some 1" "find_run 1 db_claimed = Some the_run"
  "findRunStepNode the_run (ex_step exec_a) = Inr step_a"
  "resolveStepReads the_run step_a db_claimed = (Inr [(''in'', Some (JStr ''v''))], db_claimed)"
  "buildInvokeRequest (\<lambda>_. ''0'') (dispatch_params sample_deps (ex_id exec_a) step_a [(''in'', Some (JStr ''v''))])
     = Inr sample_rq"
  by code_simp+

lemma sample_verdicts:
  "verdict (answering (Some ok_answer)) (\<lambda>_. ''0'') sample_deps exec_a the_run db_claimed
     = Inr (DispatchOk [(''y'', JBool True)])"
  "verdict (answering (Some error_answer)) (\<lambda>_. ''0'') sample_deps exec_a the_run db_claimed
     = Inr (DispatchFailed error_answer)"
  by code_simp+

text \<open>A database whose oldest execution was enqueued without a run.\<close>

definition db_run_less :: core_db where
  "db_run_less = snd (executions_enqueue ''s'' ''x'' JNull empty_db)"

lemma run_less_reachable: "engine_reachable db_run_less"
proof -
  have "ok_tx (executions_enqueue ''s'' ''x'' JNull) empty_db" by code_simp
  from ok_txD [OF this] have "engine_step empty_db db_run_less"
    by (auto simp: db_run_less_def intro: engine_step.enqueue)
  with sample_reachable(1) show ?thesis by (rule engine_reachable.step)
qed

subsection \<open>The properties of a cycle\<close>

text \<open>C20. What one cycle of a worker does is decided by its connection, by the row it claims and by the
  agent's answer. A connection that fails (at the connect, the \<open>BEGIN\<close> or the \<open>COMMIT\<close>), nothing to
  claim, or a row that belongs to no run: no change. Otherwise an \<open>ok\<close> answer completes the step
  with its output; an error that is transient, which is an agent that cannot be reached or that
  answers with a status that is neither 2xx nor 4xx, leaves the database as it was, the claim
  included; and every other outcome, reported by the agent or thrown by the worker itself, fails the run.\<close>

theorem worker_cycle_outcome:
  assumes "engine_reachable s"
    and "claimExecution (wd_workerId deps) (Some (wd_leaseSeconds deps)) s = (Inr claimed, s1)"
  shows "runOnce fetch num conn deps s =
    (if conn \<noteq> Healthy then (False, s)
     else case claimed of
       None \<Rightarrow> (False, s)
     | Some e \<Rightarrow>
         (case ex_runId e of
            None \<Rightarrow> (False, s)
          | Some i \<Rightarrow>
              (case verdict fetch num deps e (the (find_run i s1)) s1 of
                 Inr (DispatchOk output) \<Rightarrow>
                   (True, snd (completeStep (the (find_run i s1)) (ex_id e) (ex_step e) output s1))
               | Inr (DispatchFailed _) \<Rightarrow> (True, run_failed i (ex_id e) s1)
               | Inl err \<Rightarrow> if is_retryable err then (False, s) else (True, run_failed i (ex_id e) s1))))"
proof (cases "conn = Healthy")
  case False
  then show ?thesis by (cases rule: runOnce_cases [of conn fetch num deps s]) simp_all
next
  case healthy: True
  show ?thesis
  proof (cases claimed)
    case None
    with runOnce_idle [OF assms(1)] assms(2) healthy show ?thesis by simp
  next
    case (Some e)
    note claim = assms(2) [unfolded Some]
    show ?thesis
    proof (cases "ex_runId e")
      case None
      with Some healthy claim claimed_run_execution(3) [OF assms(1) claim] show ?thesis
        by (simp add: runOnce_def core_withTransaction_def withTransaction_def run_cycle_def tx_simps)
    next
      case run: (Some i)
      from claimed_run_execution(4) [OF assms(1) claim run]
      obtain r where r: "find_run i s1 = Some r" by blast
      from runOnce_claimed [OF assms(1) claim run r] show ?thesis
        by (simp only: Some run r healthy option.case option.sel not_True_eq_False if_False refl)
    qed
  qed
qed

lemma worker_cycle_outcome_witness:
  "runOnce (answering (Some ok_answer)) (\<lambda>_. ''0'') Healthy sample_deps db_submitted = (True, db_half)"
proof -
  have "snd (completeStep the_run (ex_id exec_a) (ex_step exec_a) [(''y'', JBool True)] db_claimed) = db_half"
    by (simp add: db_half_def sample_execs)
  then show ?thesis
    unfolding worker_cycle_outcome [OF sample_reachable(2) sample_claim(1)] option.case option.sel sample_claim
      sample_verdicts sum.case dispatch_result.case by simp
qed

lemma worker_cycle_keeps:
  assumes "engine_reachable s"
  shows "engine_reachable (snd (runOnce fetch num conn deps s))"
proof (cases rule: runOnce_cases [of conn fetch num deps s])
  case rolled_back
  with assms show ?thesis by simp
next
  case (committed didWork t)
  obtain x s1 where claim: "claimExecution (wd_workerId deps) (Some (wd_leaseSeconds deps)) s = (x, s1)"
    by fastforce
  with committed(2) obtain c where x: "x = Inr c" by (cases x) (auto simp: run_cycle_def tx_simps)
  have reach: "engine_reachable s1"
    using assms claim x by (auto intro: engine_reachable.step engine_step.claim)
  show ?thesis
  proof (cases "\<exists>e i. c = Some e \<and> ex_runId e = Some i")
    case False
    with claim x committed(2) have "t = s1"
      by (cases c) (auto simp: run_cycle_def tx_simps split: option.splits)
    with reach committed(3) show ?thesis by simp
  next
    case True
    then obtain e i where e: "claimExecution (wd_workerId deps) (Some (wd_leaseSeconds deps)) s = (Inr (Some e), s1)"
      "ex_runId e = Some i" using claim x by blast
    note once = claimed_run_execution(2) [OF assms e(1)]
    from claimed_run_execution(4) [OF assms e] obtain r where
      r: "find_run i s1 = Some r" "run_id r = i" "run_of s1 e r" by blast
    have complete: "engine_reachable (snd (completeStep r (ex_id e) (ex_step e) out s1))" for out
    proof -
      obtain u where "completeStep r (ex_id e) (ex_step e) out s1 = (Inr (), u)"
        using engine_inv_complete(2) [OF engine_reachable_inv [OF reach] once r(3)]
        by (cases "completeStep r (ex_id e) (ex_step e) out s1") auto
      with engine_reachable.step [OF reach engine_step.complete [OF once r(3)]] show ?thesis by simp
    qed
    have failed: "engine_reachable (run_failed i (ex_id e) s1)"
      by (rule engine_reachable.step [OF reach engine_step.fail [OF once r(3)]])
        (simp add: failRun_eq run_failed_def r(2))
    show ?thesis
      using assms complete failed runOnce_claimed [OF assms e r(1), of fetch num] committed(1)
      by (simp split: sum.split dispatch_result.split)
  qed
qed

text \<open>C21. A worker never leaves the state machine: whatever the connection does, whatever the agent
  answers and whichever error is thrown where, after any number of cycles of any workers the
  database is a reachable state of the engine, so every invariant of the engine's states
  survives its workers.\<close>

theorem worker_cycles_keep_reachability:
  assumes "engine_reachable s"
  shows "engine_reachable
    (fold (\<lambda>(fetch, conn, deps) u. snd (runOnce fetch num conn deps u)) cycles s)"
  using assms by (induction cycles arbitrary: s) (auto simp: worker_cycle_keeps)

lemma worker_cycles_keep_reachability_witness:
  "engine_reachable (snd (runOnce (answering None) (\<lambda>_. ''0'') CommitFails sample_deps db_submitted))"
  using worker_cycles_keep_reachability [OF sample_reachable(2),
      of "\<lambda>_. ''0''" "[(answering None, CommitFails, sample_deps)]"] by simp

text \<open>C22. An execution that belongs to no run blocks every queue it is at the head of: no cycle of
  any worker changes anything while it is the oldest row to claim, whatever is queued behind
  it, since each claims it, throws and rolls the claim back.\<close>

theorem run_less_execution_blocks_the_queue:
  assumes "engine_reachable s" "first_row (claim_candidates s) = Some e" "ex_runId e = None"
  shows "runOnce fetch num conn deps s = (False, s)"
proof -
  have "claimExecution (wd_workerId deps) (Some (wd_leaseSeconds deps)) s =
      (Inr (Some (claimed_row (wd_workerId deps) (wd_leaseSeconds deps) (db_now s) e)),
       snd (claimExecution (wd_workerId deps) (Some (wd_leaseSeconds deps)) s))"
    using claim_execution_eq [OF engine_inv_core [OF engine_reachable_inv [OF assms(1)]]] assms(2)
    by (simp add: claimExecution_def executions_claim_def)
  moreover have "run_cycle fetch num deps s = (Inl (RetryableError WORKER_EXECUTION_MISSING_RUN), s1)"
    if "claimExecution (wd_workerId deps) (Some (wd_leaseSeconds deps)) s = (Inr (Some x), s1)" "ex_runId x = None"
    for x s1
    using that by (simp add: run_cycle_def tx_bind_apply tx_throw_apply)
  ultimately have "\<exists>t. run_cycle fetch num deps s = (Inl (RetryableError WORKER_EXECUTION_MISSING_RUN), t)"
    using assms(3) by fastforce
  then show ?thesis by (cases rule: runOnce_cases [of conn fetch num deps s]) auto
qed

lemma run_less_execution_blocks_the_queue_witness:
  "runOnce (answering (Some ok_answer)) (\<lambda>_. ''0'') Healthy sample_deps db_run_less = (False, db_run_less)"
proof (rule run_less_execution_blocks_the_queue [OF run_less_reachable])
  show "first_row (claim_candidates db_run_less) = Some (hd (db_executions db_run_less))" by code_simp
  show "ex_runId (hd (db_executions db_run_less)) = None" by code_simp
qed

text \<open>C23. A failed run is not dispatched again: after a cycle over a connection that holds, in which the
  agent reported a failure or the worker hit an error that is not transient, the run is failed
  and none of its executions is blocked, queued or waiting: only those that other workers were
  already running are left, and only these can be claimed again, when their leases expire. If the
  connection fails at the connect, the \<open>BEGIN\<close> or the \<open>COMMIT\<close>, the cycle changes nothing: the run
  is not failed, and its execution is there to be claimed again.\<close>

theorem failed_run_is_not_dispatched:
  assumes "engine_reachable s"
    and "claimExecution (wd_workerId deps) (Some (wd_leaseSeconds deps)) s = (Inr (Some e), s1)"
    and "ex_runId e = Some i" "find_run i s1 = Some r"
    and "case verdict fetch num deps e r s1 of
        Inl err \<Rightarrow> \<not> is_retryable err | Inr d \<Rightarrow> (\<forall>output. d \<noteq> DispatchOk output)"
    and "runOnce fetch num conn deps s = (didWork, s')"
  shows "(conn = Healthy \<longrightarrow> didWork \<and> map_option run_status (find_run i s') = Some RunFailed
      \<and> (\<forall>x \<in> set (db_executions s'). ex_runId x = Some i \<longrightarrow>
            ex_id x \<noteq> ex_id e \<and> ex_status x = Running \<or> ex_status x \<in> {Done, Failed}))
    \<and> (conn \<noteq> Healthy \<longrightarrow> \<not> didWork \<and> s' = s)"
proof (cases "conn = Healthy")
  case False
  with assms(6) show ?thesis by (cases rule: runOnce_cases [of conn fetch num deps s]) simp_all
next
  case True
  have s': "didWork" "s' = run_failed i (ex_id e) s1"
    using runOnce_claimed [OF assms(1-4), of fetch num] assms(5,6) True
    by (auto split: sum.splits dispatch_result.splits if_splits)
  have "run_id r = i" using assms(4) by (auto simp: find_run_def table_simps dest: first_row_in)
  then have "map_option run_status (find_run i s') = Some RunFailed"
    using assms(4) by (auto simp: s' run_failed_def set_execution_status_def set_run_status_def find_run_def
        first_row_select_update)
  moreover have "ex_id x \<noteq> ex_id e \<and> ex_status x = Running \<or> ex_status x \<in> {Done, Failed}"
    if "x \<in> set (db_executions s')" "ex_runId x = Some i" for x
  proof -
    from that(1) obtain x0 where "x0 \<in> set (db_executions s1)" and
      x: "x = (if fails_with_run i (ex_id e) x0 then x0\<lparr>ex_status := Failed, ex_updatedAt := db_now s1\<rparr> else x0)"
      by (auto simp: s' run_failed_def set_execution_status_def set_run_status_def sql_update_def)
    show ?thesis
      using that(2) x by (cases "ex_status x0") (auto simp: fails_with_run_def split: if_splits)
  qed
  ultimately show ?thesis using s'(1) True by blast
qed

lemma failed_run_is_not_dispatched_witness:
  "map_option run_status (find_run 1 (snd (runOnce (answering (Some error_answer)) (\<lambda>_. ''0'') Healthy
     sample_deps db_submitted))) = Some RunFailed"
  using failed_run_is_not_dispatched [OF sample_reachable(2) sample_claim(1-3) _ surjective_pairing,
      of "answering (Some error_answer)" "\<lambda>_. ''0''" Healthy] by (simp add: sample_verdicts)

text \<open>An answer that is lost on its way fails the run: when the agent has answered with a 2xx
  status and the body cannot be read to its end, because the client-side timeout fires or the
  connection drops meanwhile, the step counts as failed for good, although no failure was
  reported and the same timeout a moment earlier is retried.\<close>

theorem lost_answer_fails_the_run:
  assumes "engine_reachable s"
    and "claimExecution (wd_workerId deps) (Some (wd_leaseSeconds deps)) s = (Inr (Some e), s1)"
    and "ex_runId e = Some i" "find_run i s1 = Some r"
    and "findRunStepNode r (ex_step e) = Inr node" "resolveStepReads r node s1 = (Inr inp, s1)"
    and "buildInvokeRequest num (dispatch_params deps (ex_id e) node inp) = Inr rq"
    and "exchange fetch num (wd_agentBaseUrl deps) rq (wd_agentAuthToken deps) = Some answer"
    and "200 \<le> rs_status answer" "rs_status answer < 300" "rs_json answer = None"
  shows "runOnce fetch num Healthy deps s = (True, run_failed i (ex_id e) s1)"
proof -
  have "agent_invoke fetch num (wd_agentBaseUrl deps) rq (wd_agentAuthToken deps) = Inl (HostError ''SyntaxError'')"
    using assms(8-11) by (simp add: agent_invoke_cases unreachable_def)
  then have "verdict fetch num deps e r s1 = Inl (HostError ''SyntaxError'')"
    using assms(5-7) by (simp add: verdict_def dispatchStep_def)
  then show ?thesis by (simp add: runOnce_claimed [OF assms(1-4)])
qed

lemma lost_answer_fails_the_run_witness:
  "runOnce (answering None) (\<lambda>_. ''0'') Healthy sample_deps db_submitted
     = (True, run_failed 1 (ex_id exec_a) db_claimed)"
  by (rule lost_answer_fails_the_run [OF sample_reachable(2) sample_claim, of _ "\<lparr>rs_status = 200, rs_json = None\<rparr>"])
    (simp_all add: exchange_def answering_def)

subsection \<open>The loop\<close>

declare runWorkerLoop.simps [simp del]

lemma loop_reaches_abort:
  assumes "wo_aborted w (2 * (n + d))"
  shows "\<exists>s' k slept'. runWorkerLoop num deps poll w n slept s = Some (s', k, slept') \<and> n \<le> k \<and> k \<le> n + d
    \<and> length slept' \<le> length slept + (k - n)"
  using assms
proof (induction d arbitrary: n slept s)
  case 0
  then show ?case by (subst runWorkerLoop.simps) simp
next
  case (Suc d)
  show ?case
  proof (cases "wo_aborted w (2 * n)")
    case True
    then show ?thesis by (subst runWorkerLoop.simps) simp
  next
    case False
    obtain b t where c: "loop_cycle num deps w n s = (b, t)" by fastforce
    let ?slept = "if \<not> b \<and> \<not> wo_aborted w (2 * n + 1)
      then slept @ [worker_sleep poll (wo_abortedAfter w n)] else slept"
    from Suc.IH [of "Suc n" ?slept t] Suc.prems obtain s' k slept' where
      "runWorkerLoop num deps poll w (Suc n) ?slept t = Some (s', k, slept')" "Suc n \<le> k" "k \<le> Suc n + d"
      "length slept' \<le> length ?slept + (k - Suc n)" by auto
    moreover have "runWorkerLoop num deps poll w n slept s = runWorkerLoop num deps poll w (Suc n) ?slept t"
      using False c by (subst runWorkerLoop.simps) simp
    ultimately show ?thesis by (auto split: if_splits)
  qed
qed

text \<open>The sleeps that end before the \<open>n\<close>-th cycle.\<close>

definition sleeps_of :: "int \<Rightarrow> world \<Rightarrow> nat \<Rightarrow> int list \<Rightarrow> bool" where
  "sleeps_of poll w n slept \<longleftrightarrow> (\<forall>ms \<in> set slept. \<exists>k < n. ms = worker_sleep poll (wo_abortedAfter w k))"

lemma loop_result:
  assumes "runWorkerLoop num deps poll w n slept s = Some result"
  shows "wo_aborted w (2 * fst (snd result))
    \<and> ((\<forall>k u. engine_reachable u \<longrightarrow> engine_reachable (wo_others w k u)) \<longrightarrow>
         engine_reachable s \<longrightarrow> engine_reachable (fst result))
    \<and> (sleeps_of poll w n slept \<longrightarrow> sleeps_of poll w (fst (snd result)) (snd (snd result)))"
  using assms
proof (induction rule: runWorkerLoop.raw_induct [rotated 1, consumes 1])
  case (1 loop num deps poll w n slept s result)
  show ?case
  proof (cases "wo_aborted w (2 * n)")
    case True
    with 1 show ?thesis by auto
  next
    case False
    obtain b t where c: "loop_cycle num deps w n s = (b, t)" by fastforce
    have "engine_reachable t" if "\<forall>k u. engine_reachable u \<longrightarrow> engine_reachable (wo_others w k u)" "engine_reachable s"
      using that c worker_cycle_keeps [of "wo_others w n s" "wo_fetch w n" num "wo_connection w n" deps]
      by (simp add: loop_cycle_def)
    moreover have "sleeps_of poll w (Suc n) (if \<not> b \<and> \<not> wo_aborted w (2 * n + 1)
        then slept @ [worker_sleep poll (wo_abortedAfter w n)] else slept)" if "sleeps_of poll w n slept"
      using that by (auto simp: sleeps_of_def less_Suc_eq)
    ultimately show ?thesis using 1(1) 1(2) False c by (simp split: prod.splits)
  qed
qed

text \<open>The loop returns exactly when it is told to stop: if the abort signal has fired at its
  \<open>m\<close>-th look it returns after at most half as many cycles, with no more sleeps than cycles,
  and it never returns otherwise. As long as the other clients are engine transactions too,
  the database it leaves is a reachable state.\<close>

theorem worker_loop_stops_on_abort:
  assumes "\<And>k u. engine_reachable u \<Longrightarrow> engine_reachable (wo_others w k u)" "engine_reachable s"
  shows "(wo_aborted w (2 * m) \<longrightarrow>
      (\<exists>s' k slept. runWorkerLoop num deps poll w 0 [] s = Some (s', k, slept) \<and> k \<le> m \<and> length slept \<le> k))
    \<and> (runWorkerLoop num deps poll w 0 [] s = Some (s', k, slept) \<longrightarrow>
        wo_aborted w (2 * k) \<and> engine_reachable s')"
  using loop_reaches_abort [of w 0 m num deps poll "[]" s] loop_result [of num deps poll w 0 "[]" s "(s', k, slept)"] assms
  by auto

definition short_world :: world where
  "short_world = \<lparr>wo_aborted = (\<lambda>k. k \<ge> 3), wo_abortedAfter = (\<lambda>_. None), wo_connection = (\<lambda>_. Healthy),
     wo_fetch = (\<lambda>_. answering (Some ok_answer)), wo_others = (\<lambda>_ u. u)\<rparr>"

lemma worker_loop_stops_on_abort_witness:
  "\<exists>s' k slept. runWorkerLoop (\<lambda>_. ''0'') sample_deps 250 short_world 0 [] db_submitted = Some (s', k, slept)
     \<and> k \<le> 2 \<and> engine_reachable s'"
proof -
  have others: "engine_reachable u \<Longrightarrow> engine_reachable (wo_others short_world k u)" for k u
    by (simp add: short_world_def)
  have "wo_aborted short_world (2 * 2)" by (simp add: short_world_def)
  then obtain s' k slept where
    "runWorkerLoop (\<lambda>_. ''0'') sample_deps 250 short_world 0 [] db_submitted = Some (s', k, slept)" "k \<le> 2"
    using worker_loop_stops_on_abort [OF others sample_reachable(2), of 2 "\<lambda>_. ''0''" sample_deps 250 db_submitted 0 "[]"] by auto
  moreover from this have "engine_reachable s'"
    using worker_loop_stops_on_abort [OF others sample_reachable(2), of 2 "\<lambda>_. ''0''" sample_deps 250 s' k slept]
    by simp
  ultimately show ?thesis by blast
qed

end
