(* ===== verification/Worker_Liveness.thy ===== *)
theory Worker_Liveness
  imports Worker_Properties Run_Properties
begin

text \<open>
  Progress of the worker loop: with a healthy connection and an agent that answers, every
  cycle that finds something queued takes one execution off the work that is left, so after
  as many cycles as there are executions to run no run is running any more.
\<close>

subsection \<open>The work that is left\<close>

definition unfinished :: "execution \<Rightarrow> bool" where
  "unfinished e \<longleftrightarrow> ex_status e \<in> {Blocked, Queued}"

definition pending :: "core_db \<Rightarrow> nat" where
  "pending s = length (sql_select unfinished (db_executions s))"

definition nothing_queued :: "core_db \<Rightarrow> bool" where
  "nothing_queued s \<longleftrightarrow> list_all (\<lambda>e. ex_status e \<noteq> Queued) (db_executions s)"

text \<open>
  A database that one worker has for itself: nobody holds a row, no execution is being run or
  asleep, each belongs to a run, and every run's references can be ranked.
\<close>

definition row_workable :: "execution \<Rightarrow> bool" where
  "row_workable e \<longleftrightarrow> ex_runId e \<noteq> None \<and> ex_status e \<in> {Blocked, Queued, Done, Failed}"

definition spec_workable :: "workflow_spec \<Rightarrow> bool" where
  "spec_workable spec \<longleftrightarrow> (\<exists>steps rank. assertPlainSteps spec = Inr steps \<and> acyclic_refs rank steps)"

definition workable :: "core_db \<Rightarrow> bool" where
  "workable s \<longleftrightarrow> locked_executions s = [] \<and> list_all row_workable (db_executions s)
     \<and> list_all spec_workable (map run_spec (db_workflow_runs s))"

text \<open>An agent that always answers with a 2xx or a 4xx status, with whatever body.\<close>

definition agent_up :: "http_fetch \<Rightarrow> bool" where
  "agent_up fetch \<longleftrightarrow> (\<forall>url rq. \<not> unreachable (fetch url rq))"

lemma filter_map_less:
  assumes "\<And>x. x \<in> set xs \<Longrightarrow> P (g x) \<Longrightarrow> P x" "v \<in> set xs" "P v" "\<not> P (g v)"
  shows "length (filter P (map g xs)) < length (filter P xs)"
  using assms
proof (induction xs)
  case (Cons x xs)
  have le: "length (filter P (map g ys)) \<le> length (filter P ys)" if "set ys \<subseteq> set (x # xs)" for ys
    using that Cons.prems(1) by (induction ys) auto
  show ?case
  proof (cases "x = v")
    case True
    with le [OF set_subset_Cons] Cons.prems show ?thesis by simp
  next
    case False
    with Cons.prems have "length (filter P (map g xs)) < length (filter P xs)" by (intro Cons.IH) auto
    with Cons.prems(1) [of x] show ?thesis by auto
  qed
qed simp

text \<open>What a cycle does to the rows: the claimed one is settled, a blocked one may be queued.\<close>

definition row_advanced :: "nat \<Rightarrow> execution \<Rightarrow> execution \<Rightarrow> bool" where
  "row_advanced eid u u' \<longleftrightarrow> ex_runId u' = ex_runId u \<and>
     (if ex_id u = eid then ex_status u' \<in> {Done, Failed}
      else ex_status u' \<in> {ex_status u, Failed} \<or> ex_status u = Blocked \<and> ex_status u' = Queued)"

lemma workable_advance:
  assumes "workable s" "serials t = serials s"
    and "map run_spec (db_workflow_runs t) = map run_spec (db_workflow_runs s)"
    and "db_executions t = map g (db_executions s)"
    and "\<And>u. u \<in> set (db_executions s) \<Longrightarrow> row_advanced (ex_id v) u (g u)"
    and "v \<in> set (db_executions s)" "ex_status v = Queued"
  shows "workable t" "pending t < pending s"
proof -
  have "row_workable (g u)" if "u \<in> set (db_executions s)" for u
    using assms(1) assms(5) [OF that] that
    by (auto simp: workable_def list_all_iff row_workable_def row_advanced_def split: if_splits)
  then show "workable t"
    using assms(1-4) by (simp add: workable_def serials_def list_all_iff del: set_map map_eq_conv) auto
  have "unfinished u" if "u \<in> set (db_executions s)" "unfinished (g u)" for u
    using assms(5) [OF that(1)] that(2) by (auto simp: unfinished_def row_advanced_def split: if_splits)
  moreover have "unfinished v" "\<not> unfinished (g v)"
    using assms(7) assms(5) [OF assms(6)] by (auto simp: unfinished_def row_advanced_def)
  ultimately show "pending t < pending s"
    using assms(6) unfolding pending_def sql_select_def assms(4) by (intro filter_map_less)
qed

subsection \<open>One cycle\<close>

lemma run_spec_column [simp]:
  "map run_spec (sql_update z (\<lambda>r. r\<lparr>run_status := st, run_updatedAt := t\<rparr>) rs) = map run_spec rs"
  by (rule map_sql_update) simp

lemma completed_advance:
  assumes "engine_reachable s" "claimed_once s e" "find_run i s = Some r" "run_of s e r"
  shows "\<exists>g. db_executions (snd (completeStep r (ex_id e) (ex_step e) out s)) = map g (db_executions s)
      \<and> (\<forall>u. row_advanced (ex_id e) u (g u))"
    and "map run_spec (db_workflow_runs (snd (completeStep r (ex_id e) (ex_step e) out s)))
      = map run_spec (db_workflow_runs s)"
proof -
  note inv = engine_reachable_inv [OF assms(1)]
  have r: "r \<in> set (db_workflow_runs s)" using assms(3) by (simp add: find_run_in)
  have eid: "ex_id e \<in> set (map ex_id (db_executions s))" using assms(2) by (simp add: claimed_once_def)
  obtain steps where steps: "assertPlainSteps (run_spec r) = Inr steps" by (rule engine_inv_run [OF inv r])
  let ?t = "snd (completeStep r (ex_id e) (ex_step e) out s)"
  have t: "db_executions ?t = map (completed_row (run_id r) (ex_id e) (completed ?t (run_id r)) steps (db_now ?t))
        (db_executions s)"
    "map run_spec (db_workflow_runs ?t) = map run_spec (db_workflow_runs s)"
    by (rule completeStep_eq [OF engine_inv_core [OF inv] r eid refl refl steps, of "ex_step e" out];
        simp add: completed_rows)+
  moreover have "row_advanced (ex_id e) u (completed_row (run_id r) (ex_id e) C steps now u)" for u C now
    by (auto simp: row_advanced_def completed_row_def promotable_def)
  ultimately show "\<exists>g. db_executions ?t = map g (db_executions s) \<and> (\<forall>u. row_advanced (ex_id e) u (g u))"
    by blast
  show "map run_spec (db_workflow_runs ?t) = map run_spec (db_workflow_runs s)" by (rule t(2))
qed

lemma failed_advance:
  "\<exists>g. db_executions (run_failed i (ex_id e) s) = map g (db_executions s) \<and> (\<forall>u. row_advanced (ex_id e) u (g u))"
  "map run_spec (db_workflow_runs (run_failed i (ex_id e) s)) = map run_spec (db_workflow_runs s)"
proof -
  let ?g = "\<lambda>u. if fails_with_run i (ex_id e) u then u\<lparr>ex_status := Failed, ex_updatedAt := db_now s\<rparr> else u"
  have "db_executions (run_failed i (ex_id e) s) = map ?g (db_executions s)"
    by (simp add: run_failed_def db_executions_set_status sql_update_def set_run_status_def)
  moreover have "row_advanced (ex_id e) u (?g u)" for u
    by (auto simp: row_advanced_def fails_with_run_def)
  ultimately show "\<exists>g. db_executions (run_failed i (ex_id e) s) = map g (db_executions s)
      \<and> (\<forall>u. row_advanced (ex_id e) u (g u))" by blast
  show "map run_spec (db_workflow_runs (run_failed i (ex_id e) s)) = map run_spec (db_workflow_runs s)"
    by (simp add: run_failed_def db_workflow_runs_set_status)
qed

lemma agent_up_verdict:
  assumes "agent_up fetch" "verdict fetch num deps e r s = Inl err"
  shows "\<not> is_retryable err"
proof
  assume "is_retryable err"
  then obtain x where "err = RetryableError x" by (cases err) auto
  with assms(2) obtain node inp where "dispatchStep fetch num (wd_agentBaseUrl deps)
      (dispatch_params deps (ex_id e) node inp) (wd_agentAuthToken deps) = Inl (RetryableError x)"
    by (elim verdict_Inl) auto
  with assms(1) show False by (auto simp: dispatchStep_retryable agent_up_def exchange_def)
qed

lemma claimed_advance:
  assumes s: "workable s" and v: "v \<in> set (db_executions s)" "ex_status v = Queued"
    and s1: "s1 = s\<lparr>db_waits := ws, db_executions := sql_update (\<lambda>e. ex_id e = ex_id v)
        (claimed_row w lease now) (db_executions s)\<rparr>"
    and t: "\<exists>g. db_executions t = map g (db_executions s1) \<and> (\<forall>u. row_advanced (ex_id v) u (g u))"
      "map run_spec (db_workflow_runs t) = map run_spec (db_workflow_runs s1)" "serials t = serials s"
  shows "workable t \<and> pending t < pending s"
proof -
  obtain g where g: "db_executions t = map g (db_executions s1)" "\<And>u. row_advanced (ex_id v) u (g u)"
    using t(1) by blast
  let ?c = "\<lambda>u. if ex_id u = ex_id v then claimed_row w lease now u else u"
  have "row_advanced (ex_id v) u (g (?c u))" for u
    using g(2) [of "?c u"] by (auto simp: row_advanced_def)
  moreover have "db_executions t = map (\<lambda>u. g (?c u)) (db_executions s)"
    using g(1) by (simp add: s1 sql_update_def)
  moreover have "map run_spec (db_workflow_runs t) = map run_spec (db_workflow_runs s)"
    using t(2) by (simp add: s1)
  ultimately show ?thesis
    using workable_advance [OF s t(3), where g = "\<lambda>u. g (?c u)" and v = v] v by blast
qed

text \<open>
  A healthy cycle with an agent that answers either finds nothing queued and changes nothing,
  or finishes one execution.
\<close>

lemma cycle_progress:
  assumes s: "engine_reachable s" "workable s" and up: "agent_up fetch"
  obtains (rests) "nothing_queued s" "runOnce fetch num Healthy deps s = (False, s)"
  | (worked) t where "\<not> nothing_queued s" "runOnce fetch num Healthy deps s = (True, t)" "workable t" "pending t < pending s"
proof -
  obtain x s1 where claim: "claimExecution (wd_workerId deps) (Some (wd_leaseSeconds deps)) s = (x, s1)"
    by fastforce
  have c: "claim_execution (wd_workerId deps) (wd_leaseSeconds deps) s = (x, s1)"
    using claim by (simp add: claimExecution_def executions_claim_def)
  note core = engine_inv_core [OF engine_reachable_inv [OF s(1)]]
  from core c show thesis
  proof (cases rule: claim_execution_cases)
    case idle
    have "nothing_queued s"
      using idle(3) s(2) by (auto simp: nothing_queued_def list_all_iff claimable_def workable_def)
    with rests runOnce_idle [OF s(1)] claim idle(1) show thesis by simp
  next
    case (claimed v)
    let ?row = "claimed_row (wd_workerId deps) (wd_leaseSeconds deps) (db_now s)"
    have v: "ex_status v = Queued" "ex_runId v \<noteq> None"
      using s(2) claimed(1,2) by (auto simp: workable_def list_all_iff row_workable_def claims_before_def claimable_def)
    then obtain i where i: "ex_runId (?row v) = Some i" by auto
    note cl = claim [unfolded claimed(3)]
    from claimed_run_execution(4) [OF s(1) cl i] obtain r where r: "find_run i s1 = Some r" "run_of s1 (?row v) r"
      by blast
    note s1 = claimed_run_execution(1,2) [OF s(1) cl]
    have out: thesis if "runOnce fetch num Healthy deps s = (True, t)"
        "\<exists>g. db_executions t = map g (db_executions s1) \<and> (\<forall>u. row_advanced (ex_id v) u (g u))"
        "map run_spec (db_workflow_runs t) = map run_spec (db_workflow_runs s1)" for t
    proof (rule worked [OF _ that(1)])
      show "\<not> nothing_queued s" using claimed(1) v(1) by (auto simp: nothing_queued_def list_all_iff)
      have "serials t = serials s" using runOnce_serials [of fetch num Healthy deps s] that(1) by simp
      from claimed_advance [OF s(2) claimed(1) v(1) claimed(4) that(2,3) this]
      show "workable t" "pending t < pending s" by simp_all
    qed
    note run = runOnce_claimed [OF s(1) cl i r(1), of fetch num]
    note settled = out [OF _ completed_advance [OF s1 r, unfolded claimed_row_sel]]
      and failed = out [OF _ failed_advance [of i "?row v" s1, unfolded claimed_row_sel]]
    show thesis
    proof (cases "verdict fetch num deps (?row v) r s1")
      case (Inl err)
      with agent_up_verdict [OF up] run show thesis by (intro failed) simp
    next
      case (Inr d)
      with run show thesis by (cases d) (auto intro: settled failed)
    qed
  qed
qed

subsection \<open>The loop drains the queue\<close>

text \<open>Connections hold, agents answer with a 2xx or a 4xx status, and between the cycles nothing happens but time passing.\<close>

definition quiet_world :: "world \<Rightarrow> bool" where
  "quiet_world w \<longleftrightarrow> (\<forall>k. wo_connection w k = Healthy \<and> agent_up (wo_fetch w k)
     \<and> (\<forall>u. \<exists>now. wo_others w k u = u\<lparr>db_now := now\<rparr>))"

lemma time_passes:
  "pending (s\<lparr>db_now := now\<rparr>) = pending s" "workable (s\<lparr>db_now := now\<rparr>) = workable s"
  "nothing_queued (s\<lparr>db_now := now\<rparr>) = nothing_queued s"
  "engine_reachable s \<Longrightarrow> engine_reachable (s\<lparr>db_now := now\<rparr>)"
proof -
  have "engine_step s (s\<lparr>db_now := now\<rparr>)" by (rule engine_step.elsewhere) (simp add: engine_tables_same_def)
  then show "engine_reachable s \<Longrightarrow> engine_reachable (s\<lparr>db_now := now\<rparr>)" by (rule engine_reachable.step [rotated])
qed (simp_all add: pending_def workable_def nothing_queued_def)

lemma loop_cycle_progress:
  assumes "engine_reachable s" "workable s" "quiet_world w" "loop_cycle num deps w n s = (b, t)"
  shows "engine_reachable t" "workable t" "nothing_queued s \<longrightarrow> nothing_queued t"
    "nothing_queued t \<or> pending t < pending s"
proof -
  obtain now where now: "wo_others w n s = s\<lparr>db_now := now\<rparr>" using assms(3) by (auto simp: quiet_world_def)
  let ?s = "s\<lparr>db_now := now\<rparr>"
  have s: "engine_reachable ?s" "workable ?s" using assms(1,2) by (simp_all add: time_passes)
  have c: "runOnce (wo_fetch w n) num Healthy deps ?s = (b, t)" and up: "agent_up (wo_fetch w n)"
    using assms(3,4) by (simp_all add: loop_cycle_def now quiet_world_def)
  from worker_cycle_keeps [OF s(1), of "wo_fetch w n" num Healthy deps] c
  show "engine_reachable t" by simp
  have "nothing_queued ?s \<and> t = ?s \<or> workable t \<and> pending t < pending ?s \<and> \<not> nothing_queued ?s"
    by (rule cycle_progress [OF s up, of num deps]) (use c in auto)
  with s(2) show "workable t" "nothing_queued s \<longrightarrow> nothing_queued t" "nothing_queued t \<or> pending t < pending s"
    by (auto simp: time_passes)
qed

lemma loop_drains:
  assumes "runWorkerLoop num deps poll w n slept s = Some result" "quiet_world w"
    and "engine_reachable s" "workable s"
    and "nothing_queued s \<or> (\<forall>k. n \<le> k \<and> k < n + pending s \<longrightarrow> \<not> wo_aborted w (2 * k))"
  shows "engine_reachable (fst result) \<and> workable (fst result) \<and> nothing_queued (fst result)"
  using assms
proof (induction rule: runWorkerLoop.raw_induct [rotated 1, consumes 1])
  case (1 loop num deps poll w n slept s result)
  show ?case
  proof (cases "wo_aborted w (2 * n)")
    case True
    have "nothing_queued s \<or> pending s = 0" using True 1(6) by fastforce
    then have "nothing_queued s"
      by (auto simp: pending_def nothing_queued_def unfinished_def list_all_iff sql_select_def filter_empty_conv)
    with True 1 show ?thesis by auto
  next
    case False
    obtain b t where c: "loop_cycle num deps w n s = (b, t)" by fastforce
    note p = loop_cycle_progress [OF 1(4,5,3) c]
    have "nothing_queued t \<or> (\<forall>k. Suc n \<le> k \<and> k < Suc n + pending t \<longrightarrow> \<not> wo_aborted w (2 * k))"
      using p(3,4) 1(6) by auto
    with 1(1) [OF _ 1(3) p(1,2)] 1(2) False c show ?thesis by (auto split: if_splits)
  qed
qed

text \<open>C26. Runs come to an end: while connections hold, the agent answers every request with a
  2xx or a 4xx status (and whatever body), and nobody else works on the database, a worker that is not stopped during its first
  \<open>pending s\<close> cycles, and is stopped some time later, returns with every run done or failed,
  provided no execution was being run, asleep or without a run to begin with and the
  references of every spec can be ranked.\<close>

theorem worker_finishes_every_run:
  assumes "engine_reachable s" "workable s" "quiet_world w"
    and "\<And>k. k < pending s \<Longrightarrow> \<not> wo_aborted w (2 * k)" "wo_aborted w (2 * m)"
  shows "\<exists>s' k slept. runWorkerLoop num deps poll w 0 [] s = Some (s', k, slept) \<and> pending s \<le> k \<and> k \<le> m
    \<and> (\<forall>r \<in> set (db_workflow_runs s'). run_status r \<in> {RunDone, RunFailed})"
proof -
  obtain s' k slept where l: "runWorkerLoop num deps poll w 0 [] s = Some (s', k, slept)" "k \<le> m"
    using loop_reaches_abort [of w 0 m num deps poll "[]" s] assms(5) by auto
  have "wo_aborted w (2 * k)" using loop_result [OF l(1)] by simp
  with assms(4) have k: "pending s \<le> k" by (meson not_le)
  have s': "engine_reachable s'" "workable s'" "nothing_queued s'"
    using loop_drains [OF l(1) assms(3,1,2)] assms(4) by auto
  have "run_status r \<noteq> RunRunning" if r: "r \<in> set (db_workflow_runs s')" for r
  proof
    assume running: "run_status r = RunRunning"
    from s'(2) r obtain steps rank where "assertPlainSteps (run_spec r) = Inr steps" "acyclic_refs rank steps"
      by (auto simp: workable_def list_all_iff spec_workable_def)
    from running_run_is_live [OF s'(1) r running this] s'(2,3) show False
      by (auto simp: workable_def nothing_queued_def list_all_iff row_workable_def)
  qed
  then have "run_status r \<in> {RunDone, RunFailed}" if "r \<in> set (db_workflow_runs s')" for r
    using that by (cases "run_status r") auto
  with l k show ?thesis by blast
qed

lemma db_submitted_workable: "workable db_submitted" "pending db_submitted = 2"
proof -
  have specs: "map run_spec (db_workflow_runs db_submitted) = [two_steps]" by code_simp
  have "assertPlainSteps two_steps = Inr [step_a, step_b]"
    "acyclic_refs (\<lambda>i. if i = ''b'' then 1 else 0) [step_a, step_b]" by code_simp+
  then have "spec_workable two_steps" by (auto simp: spec_workable_def)
  moreover have "locked_executions db_submitted = []" "list_all row_workable (db_executions db_submitted)"
    by code_simp+
  ultimately show "workable db_submitted" by (simp add: workable_def specs)
  show "pending db_submitted = 2" by code_simp
qed

lemma worker_finishes_every_run_witness:
  "\<exists>s' slept. runWorkerLoop (\<lambda>_. ''0'') sample_deps 250 short_world 0 [] db_submitted = Some (s', 2, slept)
     \<and> list_all (\<lambda>r. run_status r \<in> {RunDone, RunFailed}) (db_workflow_runs s')"
proof -
  have "agent_up (answering (Some ok_answer))" by (simp add: agent_up_def answering_def unreachable_def)
  moreover have "\<exists>now. u = u\<lparr>db_now := now\<rparr>" for u :: core_db by (rule exI [of _ "db_now u"]) simp
  ultimately have "quiet_world short_world" by (simp add: quiet_world_def short_world_def)
  moreover have "\<not> wo_aborted short_world (2 * k)" if "k < pending db_submitted" for k
    using that by (simp add: db_submitted_workable(2) short_world_def)
  moreover have "wo_aborted short_world (2 * 2)" by (simp add: short_world_def)
  ultimately obtain s' k slept where "runWorkerLoop (\<lambda>_. ''0'') sample_deps 250 short_world 0 [] db_submitted = Some (s', k, slept)"
    "2 \<le> k" "k \<le> 2" "\<forall>r \<in> set (db_workflow_runs s'). run_status r \<in> {RunDone, RunFailed}"
    using worker_finishes_every_run [OF sample_reachable(2) db_submitted_workable(1), of short_world 2 "\<lambda>_. ''0''" sample_deps 250]
    by (auto simp: db_submitted_workable(2))
  then show ?thesis by (auto simp: list_all_iff)
qed

end
