(* ===== verification/Spec_Schema.thy ===== *)
theory Spec_Schema
  imports Registry_Types
begin

text \<open>
  \<open>workflow-spec/schema/workflow-spec.schema.json\<close>, read as a parser: \<open>read_workflow_spec doc\<close> is
  the typed document when \<open>doc\<close> conforms to the schema and \<open>None\<close> when it does not. Every
  definition of the schema is a function here, with its \<open>required\<close> and \<open>properties\<close> lists as the
  arguments of \<open>has_fields\<close> (\<open>additionalProperties\<close> is false throughout). The alternatives of each
  \<open>oneOf\<close> exclude each other, so at most one matches. \<open>workflow_spec_wf\<close> says what a plan is by itself, without a document;
  the lemmas show that the plans read from some document are the ones it describes.
\<close>

subsection \<open>Patterns\<close>

definition is_alnum :: "char \<Rightarrow> bool" where
  "is_alnum c \<longleftrightarrow> is_alpha c \<or> is_digit c"

definition is_hex :: "char \<Rightarrow> bool" where
  "is_hex c \<longleftrightarrow> is_digit c \<or> c \<in> set ''abcdefABCDEF''"

definition is_space :: "char \<Rightarrow> bool" where
  "is_space c \<longleftrightarrow> of_char c \<in> {9, 10, 11, 12, 13, 32, 160 :: nat}"

definition is_urn_char :: "char \<Rightarrow> bool" where
  "is_urn_char c \<longleftrightarrow> is_alnum c \<or> c \<in> set ''._-''"

text \<open>A non-empty word of a character class: \<open>[...]+\<close>.\<close>

definition word_of :: "(char \<Rightarrow> bool) \<Rightarrow> string \<Rightarrow> bool" where
  "word_of p s \<longleftrightarrow> s \<noteq> [] \<and> list_all p s"

text \<open>The text before the first character \<open>c\<close>, and the text after it if there is one.\<close>

definition cut_at :: "char \<Rightarrow> string \<Rightarrow> string \<times> string option" where
  "cut_at c s =
     (takeWhile (\<lambda>x. x \<noteq> c) s,
      (case dropWhile (\<lambda>x. x \<noteq> c) s of [] \<Rightarrow> None | _ # rest \<Rightarrow> Some rest))"

definition flat_name :: "string \<Rightarrow> bool" where
  "flat_name s \<longleftrightarrow> word_of (\<lambda>c. c \<noteq> CHR ''.'') s"

definition digest_text :: "string \<Rightarrow> bool" where
  "digest_text s \<longleftrightarrow>
     (case cut_at (CHR '':'') s of (alg, Some hex) \<Rightarrow> word_of is_alnum alg \<and> word_of is_hex hex | _ \<Rightarrow> False)"

definition oci_digest_ref :: "string \<Rightarrow> bool" where
  "oci_digest_ref s \<longleftrightarrow>
     (case cut_at (CHR ''@'') s of
        (repo, Some d) \<Rightarrow> word_of (\<lambda>c. \<not> is_space c) repo \<and> digest_text d | _ \<Rightarrow> False)"

fun pointer_escapes :: "string \<Rightarrow> bool" where
  "pointer_escapes [] \<longleftrightarrow> True"
| "pointer_escapes (c # cs) \<longleftrightarrow>
     (if c = CHR ''~'' then (case cs of [] \<Rightarrow> False | d # _ \<Rightarrow> d \<in> set ''01'') else True)
     \<and> pointer_escapes cs"

definition json_pointer :: "string \<Rightarrow> bool" where
  "json_pointer s \<longleftrightarrow> s = [] \<or> (hd s = CHR ''/'' \<and> pointer_escapes s)"

definition urn_segment :: "string \<Rightarrow> bool" where
  "urn_segment s \<longleftrightarrow> word_of is_flag_char s \<and> is_alnum (hd s)"

definition urn_version :: "string \<Rightarrow> bool" where
  "urn_version s \<longleftrightarrow>
     (case s of [] \<Rightarrow> True
      | c # rest \<Rightarrow>
          c = CHR '':'' \<and> word_of is_urn_char rest
          \<or> c = CHR ''@'' \<and> (case cut_at (CHR '':'') rest of
               (alg, Some hex) \<Rightarrow> word_of is_alnum alg \<and> word_of is_alnum hex | _ \<Rightarrow> False))"

definition dataset_urn :: "string \<Rightarrow> bool" where
  "dataset_urn s \<longleftrightarrow>
     (case cut_at (CHR '':'') s of
        (scheme, Some s1) \<Rightarrow> scheme = ''urn'' \<and>
          (case cut_at (CHR '':'') s1 of
             (platform, Some s2) \<Rightarrow> urn_segment platform \<and>
               (case cut_at (CHR '':'') s2 of
                  (resource, Some s3) \<Rightarrow> urn_segment resource \<and>
                    (case cut_at (CHR ''/'') s3 of
                       (namespace, Some s4) \<Rightarrow> word_of is_urn_char namespace
                         \<and> takeWhile is_urn_char s4 \<noteq> [] \<and> urn_version (dropWhile is_urn_char s4)
                     | _ \<Rightarrow> False)
                | _ \<Rightarrow> False)
           | _ \<Rightarrow> False)
      | _ \<Rightarrow> False)"

subsection \<open>Objects\<close>

definition has_fields :: "string list \<Rightarrow> string list \<Rightarrow> js_object \<Rightarrow> bool" where
  "has_fields required optional obj \<longleftrightarrow>
     list_all (\<lambda>k. k \<in> fst ` set obj) required
     \<and> list_all (\<lambda>kv. fst kv \<in> set required \<or> fst kv \<in> set optional) obj"

text \<open>A string that satisfies a pattern; an optional property.\<close>

definition read_string :: "(string \<Rightarrow> bool) \<Rightarrow> json option \<Rightarrow> string option" where
  "read_string p v = (case v of Some (JStr s) \<Rightarrow> if p s then Some s else None | _ \<Rightarrow> None)"

definition read_optional :: "(json \<Rightarrow> 'a option) \<Rightarrow> json option \<Rightarrow> 'a option option" where
  "read_optional f v = (case v of None \<Rightarrow> Some None | Some x \<Rightarrow> map_option Some (f x))"

definition read_array :: "(json \<Rightarrow> 'a option) \<Rightarrow> json \<Rightarrow> 'a list option" where
  "read_array f v = (case v of JArr xs \<Rightarrow> option_list (map f xs) | _ \<Rightarrow> None)"

definition read_map :: "(json \<Rightarrow> 'a option) \<Rightarrow> json \<Rightarrow> (string \<times> 'a) list option" where
  "read_map f v =
     (case v of JObj kvs \<Rightarrow> option_list (map (\<lambda>kv. map_option (Pair (fst kv)) (f (snd kv))) kvs) | _ \<Rightarrow> None)"

lemma option_list_cong [fundef_cong]:
  "xs = ys \<Longrightarrow> (\<And>x. x \<in> set ys \<Longrightarrow> f x = g x) \<Longrightarrow> option_list (map f xs) = option_list (map g ys)"
  by (metis map_cong)

lemma read_array_cong [fundef_cong]:
  "v = w \<Longrightarrow> (\<And>x xs. w = JArr xs \<Longrightarrow> x \<in> set xs \<Longrightarrow> f x = g x) \<Longrightarrow> read_array f v = read_array g w"
  by (auto simp: read_array_def intro: option_list_cong split: json.split)

lemma read_map_cong [fundef_cong]:
  "v = w \<Longrightarrow> (\<And>k x kvs. w = JObj kvs \<Longrightarrow> (k, x) \<in> set kvs \<Longrightarrow> f x = g x) \<Longrightarrow> read_map f v = read_map g w"
  by (auto simp: read_map_def intro!: option_list_cong split: json.split)

lemma read_optional_cong [fundef_cong]:
  "v = w \<Longrightarrow> (\<And>x. w = Some x \<Longrightarrow> f x = g x) \<Longrightarrow> read_optional f v = read_optional g w"
  by (auto simp: read_optional_def split: option.split)

lemma js_get_size [termination_simp]: "js_get obj k = Some v \<Longrightarrow> size v < Suc (size_list (\<lambda>x. Suc (size (snd x))) obj)"
  by (induction obj) (auto split: if_splits)

subsection \<open>Bindings\<close>

abbreviation nonempty :: "string \<Rightarrow> bool" where
  "nonempty s \<equiv> s \<noteq> []"

definition variant :: "js_object \<Rightarrow> string \<Rightarrow> string list \<Rightarrow> bool" where
  "variant obj kind required \<longleftrightarrow> js_get obj ''from'' = Some (JStr kind) \<and> has_fields required [] obj"

lemma js_get_map_size [termination_simp]:
  assumes "js_get obj k = Some (JObj kvs)" "(j, x) \<in> set kvs"
  shows "size x < Suc (size_list (\<lambda>x. Suc (size (snd x))) obj)"
proof -
  have "size x \<le> size_list (size_prod (\<lambda>_. 0) size) kvs"
    using assms(2) by (rule size_list_estimation') simp
  with js_get_size [OF assms(1)] show ?thesis by simp
qed

lemma js_get_array_size [termination_simp]:
  assumes "js_get obj k = Some (JArr xs)" "x \<in> set xs"
  shows "size x < Suc (size_list (\<lambda>x. Suc (size (snd x))) obj)"
proof -
  have "size x \<le> size_list size xs" using assms(2) by (rule size_list_estimation') simp
  with js_get_size [OF assms(1)] show ?thesis by simp
qed

lemmas js_get_sizes_sym [termination_simp] =
  js_get_map_size [OF sym] js_get_array_size [OF sym] js_get_size [OF sym]

fun read_binding :: "json \<Rightarrow> binding option" where
  "read_binding (JObj obj) =
     (if variant obj ''static'' [''from'', ''ref'']
      then map_option StaticBinding (read_string dataset_urn (js_get obj ''ref''))
      else if variant obj ''session'' [''from'', ''key'']
      then map_option SessionBinding (read_string nonempty (js_get obj ''key''))
      else if variant obj ''request'' [''from'', ''param'']
      then map_option RequestBinding (read_string flat_name (js_get obj ''param''))
      else if variant obj ''step'' [''from'', ''id'', ''output'']
      then (case (read_string nonempty (js_get obj ''id''), read_string nonempty (js_get obj ''output'')) of
              (Some i, Some out) \<Rightarrow> Some (StepBinding i out) | _ \<Rightarrow> None)
      else if variant obj ''item'' [''from'']
      then Some ItemBinding
      else if has_fields [''literal''] [] obj
      then map_option LiteralBinding (js_get obj ''literal'')
      else if has_fields [''compute''] [''using''] obj
      then (case js_get obj ''compute'' of
              Some (JObj expr) \<Rightarrow>
                map_option (ComputeBinding (JObj expr))
                  (read_optional (\<lambda>u. read_map (\<lambda>b. read_binding b) u) (js_get obj ''using''))
            | _ \<Rightarrow> None)
      else if variant obj ''itemResource'' [''from'', ''itemId'', ''path'']
      then (case (js_get obj ''itemId'', read_string json_pointer (js_get obj ''path'')) of
              (Some b, Some path) \<Rightarrow> map_option (\<lambda>itemId. ItemResourceBinding itemId path) (read_binding b)
            | _ \<Rightarrow> None)
      else None)"
| "read_binding _ = None"

definition read_bindings :: "json \<Rightarrow> binding_map option" where
  "read_bindings = read_map read_binding"

subsection \<open>Steps and nodes\<close>

definition read_write_target :: "json \<Rightarrow> session_write_target option" where
  "read_write_target v =
     (case v of
        JObj obj \<Rightarrow>
          if has_fields [''to'', ''key''] [] obj \<and> js_get obj ''to'' = Some (JStr ''session'')
          then map_option (\<lambda>k. \<lparr>write_key = k\<rparr>) (read_string nonempty (js_get obj ''key''))
          else None
      | _ \<Rightarrow> None)"

definition read_secret_scope :: "json option \<Rightarrow> secret_scope option" where
  "read_secret_scope v =
     (if v = Some (JStr ''writer'') then Some WriterScope
      else if v = Some (JStr ''user'') then Some UserScope else None)"

definition read_secret_ref :: "json \<Rightarrow> secret_ref option" where
  "read_secret_ref v =
     (case v of
        JObj obj \<Rightarrow>
          if has_fields [''scope'', ''name''] [] obj
          then (case (read_secret_scope (js_get obj ''scope''), read_string nonempty (js_get obj ''name'')) of
                  (Some scope, Some name) \<Rightarrow> Some \<lparr>secret_scope = scope, secret_name = name\<rparr>
                | _ \<Rightarrow> None)
          else None
      | _ \<Rightarrow> None)"

definition read_step :: "js_object \<Rightarrow> step option" where
  "read_step obj =
     (if has_fields [''id'', ''service'', ''function''] [''dependsOn'', ''reads'', ''writes'', ''secrets''] obj
      then (case (read_string nonempty (js_get obj ''id''), read_string oci_digest_ref (js_get obj ''service''),
                  read_string nonempty (js_get obj ''function''),
                  read_optional (read_array (\<lambda>x. read_string nonempty (Some x))) (js_get obj ''dependsOn''),
                  read_optional read_bindings (js_get obj ''reads''),
                  read_optional (read_map read_write_target) (js_get obj ''writes''),
                  read_optional (read_map read_secret_ref) (js_get obj ''secrets'')) of
              (Some i, Some service, Some f, Some deps, Some reads, Some writes, Some secrets) \<Rightarrow>
                Some \<lparr>step_id = i, step_service = service, step_function = f, step_dependsOn = deps,
                      step_reads = reads, step_writes = writes, step_secrets = secrets\<rparr>
            | _ \<Rightarrow> None)
      else None)"

text \<open>\<open>minItems: 1\<close> and \<open>minProperties: 1\<close>.\<close>

definition not_empty :: "'a list option \<Rightarrow> 'a list option" where
  "not_empty xs = (case xs of Some (y # ys) \<Rightarrow> Some (y # ys) | _ \<Rightarrow> None)"

definition kind_is :: "js_object \<Rightarrow> string \<Rightarrow> string list \<Rightarrow> string list \<Rightarrow> bool" where
  "kind_is obj kind required optional \<longleftrightarrow>
     js_get obj ''kind'' = Some (JStr kind) \<and> has_fields required optional obj"

fun read_node :: "json \<Rightarrow> node option"
  and read_case :: "json \<Rightarrow> case_body option"
where
  "read_node (JObj obj) =
     (if js_get obj ''kind'' = None then map_option PlainStep (read_step obj)
      else if kind_is obj ''branch'' [''id'', ''kind'', ''selector'', ''cases''] []
      then (case (read_string nonempty (js_get obj ''id''), js_get obj ''selector'', js_get obj ''cases'') of
              (Some i, Some sel, Some cs) \<Rightarrow>
                (case (read_binding sel, not_empty (read_map (\<lambda>c. read_case c) cs)) of
                   (Some selector, Some cases) \<Rightarrow> Some (BranchNode i selector cases) | _ \<Rightarrow> None)
            | _ \<Rightarrow> None)
      else if kind_is obj ''map'' [''id'', ''kind'', ''source'', ''body''] [''yields'']
      then (case (read_string nonempty (js_get obj ''id''), js_get obj ''source'', js_get obj ''body'') of
              (Some i, Some src, Some ns) \<Rightarrow>
                (case (read_binding src, not_empty (read_array (\<lambda>n. read_node n) ns),
                       read_optional read_bindings (js_get obj ''yields'')) of
                   (Some source, Some body, Some ys) \<Rightarrow> Some (MapNode i source body ys) | _ \<Rightarrow> None)
            | _ \<Rightarrow> None)
      else None)"
| "read_node _ = None"
| "read_case (JObj obj) =
     (if has_fields [''steps''] [''yields''] obj
      then (case js_get obj ''steps'' of
              Some ns \<Rightarrow>
                (case (not_empty (read_array (\<lambda>n. read_node n) ns),
                       read_optional read_bindings (js_get obj ''yields'')) of
                   (Some steps, Some ys) \<Rightarrow> Some (CaseBody steps ys) | _ \<Rightarrow> None)
            | None \<Rightarrow> None)
      else None)"
| "read_case _ = None"

subsection \<open>The document\<close>

definition read_interactivity :: "json option \<Rightarrow> interactivity option" where
  "read_interactivity v =
     (if v = Some (JStr ''interactive'') then Some Interactive
      else if v = Some (JStr ''batch'') then Some Batch else None)"

definition read_session_state :: "json \<Rightarrow> session_state_declaration option" where
  "read_session_state v =
     (case v of
        JObj obj \<Rightarrow>
          if has_fields [''interactivity''] [''fallback''] obj
          then (case (read_interactivity (js_get obj ''interactivity''),
                      read_optional read_binding (js_get obj ''fallback'')) of
                  (Some i, Some b) \<Rightarrow> Some \<lparr>decl_interactivity = i, decl_fallback = b\<rparr> | _ \<Rightarrow> None)
          else None
      | _ \<Rightarrow> None)"

text \<open>\<open>type: integer, minimum: 1\<close>.\<close>

definition read_version :: "json option \<Rightarrow> int option" where
  "read_version v =
     (case v of Some (JNum n) \<Rightarrow> if of_int \<lfloor>n\<rfloor> = n \<and> 1 \<le> n then Some \<lfloor>n\<rfloor> else None | _ \<Rightarrow> None)"

definition read_workflow_spec :: "json \<Rightarrow> workflow_spec option" where
  "read_workflow_spec v =
     (case v of
        JObj obj \<Rightarrow>
          if has_fields [''workflowSpecVersion'', ''name'', ''steps'']
               [''description'', ''inputParameters'', ''sessionState'', ''outputs''] obj
          then (case (read_version (js_get obj ''workflowSpecVersion''),
                      read_string nonempty (js_get obj ''name''),
                      read_optional (\<lambda>x. read_string (\<lambda>_. True) (Some x)) (js_get obj ''description''),
                      read_optional (\<lambda>x. Option.bind (read_array (\<lambda>p. read_string flat_name (Some p)) x)
                          (\<lambda>ps. if distinct ps then Some ps else None)) (js_get obj ''inputParameters''),
                      read_optional (read_map read_session_state) (js_get obj ''sessionState''),
                      Option.bind (js_get obj ''steps'') (read_array read_node),
                      read_optional read_bindings (js_get obj ''outputs'')) of
                  (Some version, Some name, Some description, Some params, Some state, Some steps, Some outs) \<Rightarrow>
                    Some \<lparr>spec_version = version, spec_name = name, spec_description = description,
                          spec_inputParameters = params, spec_sessionState = state, spec_steps = steps,
                          spec_outputs = outs\<rparr>
                | _ \<Rightarrow> None)
          else None
      | _ \<Rightarrow> None)"

subsection \<open>Well-formed plans\<close>

text \<open>
  What the engine may take for granted of a plan, as a predicate on the typed document at every
  depth. The texts are described by their shape: \<open>pinned_ref\<close> is \<open><repository>@<algorithm>:<hex>\<close>,
  \<open>urn_text\<close> is \<open>urn:<platform>:<type>:<namespace>/<name>\<close> with an optional tag or digest.
\<close>

definition pinned_ref :: "string \<Rightarrow> bool" where
  "pinned_ref s \<longleftrightarrow> (\<exists>repo alg hex. s = repo @ ''@'' @ alg @ '':'' @ hex
     \<and> word_of (\<lambda>c. c \<noteq> CHR ''@'' \<and> \<not> is_space c) repo \<and> word_of is_alnum alg \<and> word_of is_hex hex)"

definition urn_suffix :: "string \<Rightarrow> bool" where
  "urn_suffix s \<longleftrightarrow> s = [] \<or> (\<exists>tag. s = '':'' @ tag \<and> word_of is_urn_char tag)
     \<or> (\<exists>alg digest. s = ''@'' @ alg @ '':'' @ digest \<and> word_of is_alnum alg \<and> word_of is_alnum digest)"

definition urn_text :: "string \<Rightarrow> bool" where
  "urn_text s \<longleftrightarrow> (\<exists>platform type namespace name suffix.
     s = ''urn:'' @ platform @ '':'' @ type @ '':'' @ namespace @ ''/'' @ name @ suffix
     \<and> urn_segment platform \<and> urn_segment type \<and> word_of is_urn_char namespace
     \<and> word_of is_urn_char name \<and> urn_suffix suffix)"

fun binding_wf :: "binding \<Rightarrow> bool" where
  "binding_wf (StaticBinding r) \<longleftrightarrow> urn_text r"
| "binding_wf (SessionBinding k) \<longleftrightarrow> k \<noteq> []"
| "binding_wf (RequestBinding p) \<longleftrightarrow> p \<noteq> [] \<and> CHR ''.'' \<notin> set p"
| "binding_wf (StepBinding i out) \<longleftrightarrow> i \<noteq> [] \<and> out \<noteq> []"
| "binding_wf ItemBinding \<longleftrightarrow> True"
| "binding_wf (LiteralBinding v) \<longleftrightarrow> True"
| "binding_wf (ComputeBinding e u) \<longleftrightarrow> (case e of JObj _ \<Rightarrow> True | _ \<Rightarrow> False) \<and> (\<forall>(k, b) \<in> set (nullish u []). binding_wf b)"
| "binding_wf (ItemResourceBinding b p) \<longleftrightarrow> binding_wf b \<and> json_pointer p"

definition bindings_wf :: "binding_map option \<Rightarrow> bool" where
  "bindings_wf m \<longleftrightarrow> (\<forall>(k, b) \<in> set (nullish m []). binding_wf b)"

definition step_wf :: "step \<Rightarrow> bool" where
  "step_wf s \<longleftrightarrow> step_id s \<noteq> [] \<and> pinned_ref (step_service s) \<and> step_function s \<noteq> []
     \<and> (\<forall>d \<in> set (nullish (step_dependsOn s) []). d \<noteq> []) \<and> bindings_wf (step_reads s)
     \<and> (\<forall>(k, t) \<in> set (nullish (step_writes s) []). write_key t \<noteq> [])
     \<and> (\<forall>(k, r) \<in> set (nullish (step_secrets s) []). secret_name r \<noteq> [])"

fun node_wf :: "node \<Rightarrow> bool" and case_wf :: "case_body \<Rightarrow> bool" where
  "node_wf (PlainStep s) \<longleftrightarrow> step_wf s"
| "node_wf (BranchNode i sel cases) \<longleftrightarrow>
     i \<noteq> [] \<and> binding_wf sel \<and> cases \<noteq> [] \<and> (\<forall>(k, c) \<in> set cases. case_wf c)"
| "node_wf (MapNode i src body ys) \<longleftrightarrow>
     i \<noteq> [] \<and> binding_wf src \<and> body \<noteq> [] \<and> (\<forall>n \<in> set body. node_wf n) \<and> bindings_wf ys"
| "case_wf (CaseBody steps ys) \<longleftrightarrow> steps \<noteq> [] \<and> (\<forall>n \<in> set steps. node_wf n) \<and> bindings_wf ys"

definition workflow_spec_wf :: "workflow_spec \<Rightarrow> bool" where
  "workflow_spec_wf w \<longleftrightarrow> 1 \<le> spec_version w \<and> spec_name w \<noteq> []
     \<and> distinct (nullish (spec_inputParameters w) [])
     \<and> (\<forall>p \<in> set (nullish (spec_inputParameters w) []). p \<noteq> [] \<and> CHR ''.'' \<notin> set p)
     \<and> (\<forall>(k, d) \<in> set (nullish (spec_sessionState w) []). \<forall>b \<in> set_option (decl_fallback d). binding_wf b)
     \<and> (\<forall>n \<in> set (spec_steps w). node_wf n) \<and> bindings_wf (spec_outputs w)"

text \<open>The patterns are the shapes.\<close>

lemma cut_at_Some: "cut_at c s = (a, Some b) \<longleftrightarrow> s = a @ c # b \<and> c \<notin> set a"
proof
  assume cut: "cut_at c s = (a, Some b)"
  then obtain d where a: "a = takeWhile (\<lambda>x. x \<noteq> c) s" and d: "dropWhile (\<lambda>x. x \<noteq> c) s = d # b"
    by (simp add: cut_at_def split: list.splits)
  from d hd_dropWhile [of "\<lambda>x. x \<noteq> c" s] have "dropWhile (\<lambda>x. x \<noteq> c) s = c # b" by simp
  with a show "s = a @ c # b \<and> c \<notin> set a"
    by (metis (mono_tags, lifting) set_takeWhileD takeWhile_dropWhile_id)
next
  assume "s = a @ c # b \<and> c \<notin> set a"
  then have s: "s = a @ c # b" and "\<And>x. x \<in> set a \<Longrightarrow> x \<noteq> c" by auto
  then show "cut_at c s = (a, Some b)" by (simp add: cut_at_def)
qed

lemma cut_case:
  "(case cut_at c s of (a, Some b) \<Rightarrow> P a b | _ \<Rightarrow> False) \<longleftrightarrow> (\<exists>a b. s = a @ c # b \<and> c \<notin> set a \<and> P a b)"
  unfolding cut_at_Some [symmetric] conj_assoc [symmetric] by (auto split: prod.splits option.splits)

lemma word_of_notin: "word_of p s \<Longrightarrow> \<not> p c \<Longrightarrow> c \<notin> set s"
  by (auto simp: word_of_def list_all_iff)

lemma flat_name_shape: "flat_name p \<longleftrightarrow> p \<noteq> [] \<and> CHR ''.'' \<notin> set p"
  by (auto simp: flat_name_def word_of_def list_all_iff)

lemma separators_no_word [simp]:
  "\<not> is_alnum (CHR '':'')" "\<not> is_hex (CHR '':'')" "\<not> is_urn_char (CHR '':'')" "\<not> is_urn_char (CHR ''@'')"
  "\<not> is_urn_char (CHR ''/'')" "\<not> is_flag_char (CHR '':'')"
  by code_simp+

lemma oci_digest_ref_shape: "oci_digest_ref s \<longleftrightarrow> pinned_ref s"
proof
  assume "oci_digest_ref s"
  then obtain repo alg hex where "s = repo @ CHR ''@'' # alg @ CHR '':'' # hex" "CHR ''@'' \<notin> set repo"
    "word_of (\<lambda>c. \<not> is_space c) repo" "word_of is_alnum alg" "word_of is_hex hex"
    unfolding oci_digest_ref_def digest_text_def cut_case by blast
  then show "pinned_ref s" unfolding pinned_ref_def
    by (intro exI [of _ repo] exI [of _ alg] exI [of _ hex]) (auto simp: word_of_def list_all_iff)
next
  assume "pinned_ref s"
  then obtain repo alg hex where s: "s = repo @ CHR ''@'' # alg @ CHR '':'' # hex"
    "word_of (\<lambda>c. c \<noteq> CHR ''@'' \<and> \<not> is_space c) repo" "word_of is_alnum alg" "word_of is_hex hex"
    unfolding pinned_ref_def by auto
  from s(2) have "CHR ''@'' \<notin> set repo" "word_of (\<lambda>c. \<not> is_space c) repo"
    by (auto simp: word_of_def list_all_iff)
  with s word_of_notin [OF s(3), of "CHR '':''"] show "oci_digest_ref s"
    unfolding oci_digest_ref_def digest_text_def cut_case by auto
qed

lemma urn_version_shape: "urn_version s \<longleftrightarrow> urn_suffix s"
proof (cases s)
  case (Cons c rest)
  have "CHR '':'' \<notin> set alg" if "word_of is_alnum alg" for alg using word_of_notin [OF that] by simp
  with Cons show ?thesis by (auto simp: urn_version_def urn_suffix_def cut_case)
qed (simp add: urn_version_def urn_suffix_def)

lemma urn_tail:
  "takeWhile is_urn_char s \<noteq> [] \<and> urn_version (dropWhile is_urn_char s)
     \<longleftrightarrow> (\<exists>name suffix. s = name @ suffix \<and> word_of is_urn_char name \<and> urn_suffix suffix)"
proof
  assume s: "takeWhile is_urn_char s \<noteq> [] \<and> urn_version (dropWhile is_urn_char s)"
  have "list_all is_urn_char (takeWhile is_urn_char s)" by (auto simp: list_all_iff dest: set_takeWhileD)
  with s show "\<exists>name suffix. s = name @ suffix \<and> word_of is_urn_char name \<and> urn_suffix suffix"
    by (intro exI [of _ "takeWhile is_urn_char s"] exI [of _ "dropWhile is_urn_char s"])
      (simp add: word_of_def urn_version_shape)
next
  assume "\<exists>name suffix. s = name @ suffix \<and> word_of is_urn_char name \<and> urn_suffix suffix"
  then obtain name suffix where s: "s = name @ suffix" "word_of is_urn_char name" "urn_suffix suffix" by blast
  have "takeWhile is_urn_char suffix = []" "dropWhile is_urn_char suffix = suffix"
    using s(3) by (auto simp: urn_suffix_def)
  with s show "takeWhile is_urn_char s \<noteq> [] \<and> urn_version (dropWhile is_urn_char s)"
    by (auto simp: word_of_def list_all_iff urn_version_shape takeWhile_append2 dropWhile_append2)
qed

lemma dataset_urn_shape: "dataset_urn s \<longleftrightarrow> urn_text s"
proof -
  have colon: "CHR '':'' \<notin> set t" if "urn_segment t" for t
    using that word_of_notin [of is_flag_char t] by (auto simp: urn_segment_def)
  have slash: "CHR ''/'' \<notin> set t" if "word_of is_urn_char t" for t
    using word_of_notin [OF that] by simp
  show ?thesis
  proof
    assume "dataset_urn s"
    then obtain p t ns name suffix where "s = ''urn'' @ CHR '':'' # p @ CHR '':'' # t @ CHR '':'' # ns @ CHR ''/'' # name @ suffix"
      "urn_segment p" "urn_segment t" "word_of is_urn_char ns" "word_of is_urn_char name" "urn_suffix suffix"
      unfolding dataset_urn_def cut_case urn_tail by blast
    then show "urn_text s" unfolding urn_text_def
      by (intro exI [of _ p] exI [of _ t] exI [of _ ns] exI [of _ name] exI [of _ suffix]) simp
  next
    assume "urn_text s"
    then obtain p t ns name suffix where s: "s = ''urn'' @ CHR '':'' # p @ CHR '':'' # t @ CHR '':'' # ns @ CHR ''/'' # name @ suffix"
      and parts: "urn_segment p" "urn_segment t" "word_of is_urn_char ns" "word_of is_urn_char name" "urn_suffix suffix"
      unfolding urn_text_def by auto
    have "cut_at (CHR '':'') s = (''urn'', Some (p @ CHR '':'' # t @ CHR '':'' # ns @ CHR ''/'' # name @ suffix))"
      "cut_at (CHR '':'') (p @ CHR '':'' # t @ CHR '':'' # ns @ CHR ''/'' # name @ suffix)
        = (p, Some (t @ CHR '':'' # ns @ CHR ''/'' # name @ suffix))"
      "cut_at (CHR '':'') (t @ CHR '':'' # ns @ CHR ''/'' # name @ suffix) = (t, Some (ns @ CHR ''/'' # name @ suffix))"
      "cut_at (CHR ''/'') (ns @ CHR ''/'' # name @ suffix) = (ns, Some (name @ suffix))"
      unfolding cut_at_Some s using colon slash parts by simp_all
    moreover from parts have "takeWhile is_urn_char (name @ suffix) \<noteq> [] \<and> urn_version (dropWhile is_urn_char (name @ suffix))"
      unfolding urn_tail by blast
    ultimately show "dataset_urn s" using parts by (simp add: dataset_urn_def)
  qed
qed

subsection \<open>What is read is well formed\<close>

lemma read_string_Some: "read_string p v = Some s \<longleftrightarrow> v = Some (JStr s) \<and> p s"
  by (auto simp: read_string_def split: option.splits json.splits)

lemma read_optional_cases:
  "read_optional f v = Some y \<longleftrightarrow> (v = None \<and> y = None) \<or> (\<exists>x z. v = Some x \<and> f x = Some z \<and> y = Some z)"
  by (auto simp: read_optional_def split: option.splits)

lemma map_Some_range: "map f xs = map Some ys \<Longrightarrow> y \<in> set ys \<Longrightarrow> \<exists>x \<in> set xs. f x = Some y"
  by (induction xs arbitrary: ys) auto

lemma read_array_range:
  "read_array f v = Some ys \<Longrightarrow> y \<in> set ys \<Longrightarrow> \<exists>xs x. v = JArr xs \<and> x \<in> set xs \<and> f x = Some y"
  by (cases v) (auto simp: read_array_def option_list_Some dest: map_Some_range)

lemma read_map_range:
  "read_map f v = Some ys \<Longrightarrow> (k, y) \<in> set ys \<Longrightarrow> \<exists>kvs x. v = JObj kvs \<and> (k, x) \<in> set kvs \<and> f x = Some y"
  by (cases v) (auto simp: read_map_def option_list_Some dest!: map_Some_range)

lemma size_JObj: "size (JObj obj) = Suc (size_list (\<lambda>x. Suc (size (snd x))) obj)"
proof -
  have "size_prod (\<lambda>_ :: string. 0) size = (\<lambda>x :: string \<times> json. Suc (size (snd x)))"
    by (rule ext) (simp add: size_prod_def split: prod.split)
  then show ?thesis by simp
qed

lemma read_binding_cases:
  assumes "read_binding v = Some b"
  obtains (leaf) "binding_wf b" "\<nexists>e u. b = ComputeBinding e u" "\<nexists>i p. b = ItemResourceBinding i p"
  | (compute) obj e u where "v = JObj obj" "b = ComputeBinding (JObj e) u"
      "read_optional (read_map read_binding) (js_get obj ''using'') = Some u"
  | (item) obj w i p where "v = JObj obj" "b = ItemResourceBinding i p" "json_pointer p"
      "js_get obj ''itemId'' = Some w" "read_binding w = Some i"
  using assms
  by (cases v) (auto simp: read_string_Some dataset_urn_shape flat_name_shape
      split: if_split_asm option.split_asm json.split_asm intro: leaf compute item)

lemma read_binding_wf: "read_binding v = Some b \<Longrightarrow> binding_wf b"
proof (induction v arbitrary: b rule: measure_induct_rule [of size])
  case (less v)
  from less.prems show ?case
  proof (cases rule: read_binding_cases)
    case (compute obj e u)
    have "binding_wf c" if c: "(k, c) \<in> set (nullish u [])" for k c
    proof -
      from compute(3) c obtain w ys where w: "js_get obj ''using'' = Some w" "read_map read_binding w = Some ys"
        "(k, c) \<in> set ys" by (auto simp: read_optional_cases)
      then obtain kvs x where x: "w = JObj kvs" "(k, x) \<in> set kvs" "read_binding x = Some c"
        using read_map_range by meson
      with js_get_map_size [OF w(1) [unfolded x(1)] x(2)] compute(1) show ?thesis
        by (intro less.IH [of x]) (simp_all only: size_JObj)
    qed
    with compute show ?thesis by auto
  next
    case (item obj w i p)
    with js_get_size [OF item(4)] less.IH [of w i] show ?thesis by (simp only: size_JObj) simp
  qed
qed

lemma read_bindings_wf: "read_optional read_bindings v = Some m \<Longrightarrow> bindings_wf m"
  by (auto simp: bindings_wf_def read_bindings_def read_optional_cases dest!: read_map_range intro: read_binding_wf)

lemma read_step_wf:
  assumes "read_step obj = Some s"
  shows "step_wf s"
proof -
  have fields: "step_id s \<noteq> []" "oci_digest_ref (step_service s)" "step_function s \<noteq> []"
    "read_optional (read_array (\<lambda>x. read_string nonempty (Some x))) (js_get obj ''dependsOn'') = Some (step_dependsOn s)"
    "read_optional read_bindings (js_get obj ''reads'') = Some (step_reads s)"
    "read_optional (read_map read_write_target) (js_get obj ''writes'') = Some (step_writes s)"
    "read_optional (read_map read_secret_ref) (js_get obj ''secrets'') = Some (step_secrets s)"
    using assms by (auto simp: read_step_def read_string_Some split: if_split_asm option.split_asm)
  have "d \<noteq> []" if "d \<in> set (nullish (step_dependsOn s) [])" for d
    using fields(4) that by (auto simp: read_optional_cases read_string_Some dest!: read_array_range)
  moreover have "write_key t \<noteq> []" if "(k, t) \<in> set (nullish (step_writes s) [])" for k t
    using fields(6) that by (auto simp: read_optional_cases read_string_Some read_write_target_def
        dest!: read_map_range split: json.split_asm if_split_asm)
  moreover have "secret_name r \<noteq> []" if "(k, r) \<in> set (nullish (step_secrets s) [])" for k r
    using fields(7) that by (auto simp: read_optional_cases read_string_Some read_secret_ref_def
        dest!: read_map_range split: json.split_asm if_split_asm option.split_asm)
  ultimately show ?thesis
    using fields(1-3) read_bindings_wf [OF fields(5)] by (auto simp: step_wf_def oci_digest_ref_shape)
qed

lemma not_empty_Some: "not_empty xs = Some ys \<longleftrightarrow> xs = Some ys \<and> ys \<noteq> []"
  by (auto simp: not_empty_def split: option.splits list.splits)

lemma read_node_cases:
  assumes "read_node v = Some n"
  obtains (plain) obj s where "v = JObj obj" "n = PlainStep s" "read_step obj = Some s"
  | (branch) obj i sel cs selector cases where "v = JObj obj" "n = BranchNode i selector cases" "nonempty i"
      "read_binding sel = Some selector" "js_get obj ''cases'' = Some cs"
      "read_map read_case cs = Some cases" "cases \<noteq> []"
  | (map) obj i src ns source body ys where "v = JObj obj" "n = MapNode i source body ys" "nonempty i"
      "read_binding src = Some source" "js_get obj ''body'' = Some ns"
      "read_array read_node ns = Some body" "body \<noteq> []" "read_optional read_bindings (js_get obj ''yields'') = Some ys"
  using assms
  by (cases v) (auto simp: read_string_Some not_empty_Some
      split: if_split_asm option.split_asm intro: plain branch map)

lemma read_case_cases:
  assumes "read_case v = Some c"
  obtains obj ns steps ys where "v = JObj obj" "c = CaseBody steps ys" "js_get obj ''steps'' = Some ns"
    "read_array read_node ns = Some steps" "steps \<noteq> []"
    "read_optional read_bindings (js_get obj ''yields'') = Some ys"
  using assms
  by (cases v) (auto simp: not_empty_Some split: if_split_asm option.split_asm intro: that)

lemma read_node_wf: "(\<forall>n. read_node v = Some n \<longrightarrow> node_wf n) \<and> (\<forall>c. read_case v = Some c \<longrightarrow> case_wf c)"
proof (induction v rule: measure_induct_rule [of size])
  case (less v)
  have nodes: "\<forall>n \<in> set ns. node_wf n"
    if v: "v = JObj obj" and get: "js_get obj k = Some w" "read_array read_node w = Some ns" for obj k w ns
  proof
    fix n assume "n \<in> set ns"
    with get(2) obtain xs x where x: "w = JArr xs" "x \<in> set xs" "read_node x = Some n"
      using read_array_range by meson
    with less.IH [of x] js_get_array_size [OF get(1) [unfolded x(1)] x(2)] show "node_wf n"
      by (simp only: v size_JObj)
  qed
  have "node_wf n" if n: "read_node v = Some n" for n
    using n
  proof (cases rule: read_node_cases)
    case (branch obj i sel cs selector cases)
    have "case_wf c" if "(k, c) \<in> set cases" for k c
    proof -
      from read_map_range [OF branch(6) that] obtain kvs x
        where x: "cs = JObj kvs" "(k, x) \<in> set kvs" "read_case x = Some c" by blast
      with less.IH [of x] js_get_map_size [OF branch(5) [unfolded x(1)] x(2)] show ?thesis
        by (simp only: branch(1) size_JObj)
    qed
    with branch(2,3,7) read_binding_wf [OF branch(4)] show ?thesis by auto
  next
    case (map obj i src ns source body ys)
    with nodes [OF map(1,5,6)] read_bindings_wf [OF map(8)] read_binding_wf [OF map(4)] show ?thesis by simp
  qed (simp add: read_step_wf)
  moreover have "case_wf c" if c: "read_case v = Some c" for c
    using c
  proof (cases rule: read_case_cases)
    case (1 obj ns steps ys)
    with nodes [OF 1(1,3,4)] read_bindings_wf [OF 1(6)] show ?thesis by simp
  qed
  ultimately show ?case by blast
qed

subsection \<open>Every well-formed plan is read from some document\<close>

text \<open>
  No part of the program writes a plan back as JSON (the source document is what is kept); the
  document below is only the example that shows that the schema asks for no more than
  \<open>workflow_spec_wf\<close>.
\<close>

definition json_map :: "('a \<Rightarrow> json) \<Rightarrow> (string \<times> 'a) list \<Rightarrow> json" where
  "json_map g kvs = JObj (map (map_prod id g) kvs)"

primrec binding_json :: "binding \<Rightarrow> json" where
  "binding_json (StaticBinding r) = JObj [(''from'', JStr ''static''), (''ref'', JStr r)]"
| "binding_json (SessionBinding k) = JObj [(''from'', JStr ''session''), (''key'', JStr k)]"
| "binding_json (RequestBinding p) = JObj [(''from'', JStr ''request''), (''param'', JStr p)]"
| "binding_json (StepBinding i out) =
     JObj [(''from'', JStr ''step''), (''id'', JStr i), (''output'', JStr out)]"
| "binding_json ItemBinding = JObj [(''from'', JStr ''item'')]"
| "binding_json (LiteralBinding v) = JObj [(''literal'', v)]"
| "binding_json (ComputeBinding e u) =
     JObj ((''compute'', e) # optional_field ''using'' (map_option JObj (map_option (map (map_prod id binding_json)) u)))"
| "binding_json (ItemResourceBinding b p) =
     JObj [(''from'', JStr ''itemResource''), (''itemId'', binding_json b), (''path'', JStr p)]"

definition step_json :: "step \<Rightarrow> json" where
  "step_json s = JObj
     ([(''id'', JStr (step_id s)), (''service'', JStr (step_service s)), (''function'', JStr (step_function s))]
      @ optional_field ''dependsOn'' (map_option (\<lambda>ds. JArr (map JStr ds)) (step_dependsOn s))
      @ optional_field ''reads'' (map_option (json_map binding_json) (step_reads s))
      @ optional_field ''writes'' (map_option (json_map (\<lambda>t.
          JObj [(''to'', JStr ''session''), (''key'', JStr (write_key t))])) (step_writes s))
      @ optional_field ''secrets'' (map_option (json_map (\<lambda>r.
          JObj [(''scope'', JStr (case secret_scope r of WriterScope \<Rightarrow> ''writer'' | UserScope \<Rightarrow> ''user'')),
                (''name'', JStr (secret_name r))])) (step_secrets s)))"

primrec node_json :: "node \<Rightarrow> json" and case_body_json :: "case_body \<Rightarrow> json" where
  "node_json (PlainStep s) = step_json s"
| "node_json (BranchNode i sel cases) =
     JObj [(''id'', JStr i), (''kind'', JStr ''branch''), (''selector'', binding_json sel),
           (''cases'', JObj (map (map_prod id case_body_json) cases))]"
| "node_json (MapNode i src body ys) =
     JObj ([(''id'', JStr i), (''kind'', JStr ''map''), (''source'', binding_json src),
            (''body'', JArr (map node_json body))]
           @ optional_field ''yields'' (map_option (json_map binding_json) ys))"
| "case_body_json (CaseBody steps ys) =
     JObj ((''steps'', JArr (map node_json steps))
           # optional_field ''yields'' (map_option (json_map binding_json) ys))"

definition session_state_json :: "session_state_declaration \<Rightarrow> json" where
  "session_state_json d = JObj
     ((''interactivity'', JStr (case decl_interactivity d of Interactive \<Rightarrow> ''interactive'' | Batch \<Rightarrow> ''batch''))
      # optional_field ''fallback'' (map_option binding_json (decl_fallback d)))"

definition workflow_spec_json :: "workflow_spec \<Rightarrow> json" where
  "workflow_spec_json w = JObj
     ([(''workflowSpecVersion'', JNum (of_int (spec_version w))), (''name'', JStr (spec_name w))]
      @ optional_field ''description'' (map_option JStr (spec_description w))
      @ optional_field ''inputParameters'' (map_option (\<lambda>ps. JArr (map JStr ps)) (spec_inputParameters w))
      @ optional_field ''sessionState'' (map_option (json_map session_state_json) (spec_sessionState w))
      @ [(''steps'', JArr (map node_json (spec_steps w)))]
      @ optional_field ''outputs'' (map_option (json_map binding_json) (spec_outputs w)))"

lemma optional_field_simps [simp]:
  "optional_field k None = []" "optional_field k (Some v) = [(k, v)]"
  by (simp_all add: optional_field_def)

lemma js_get_append: "js_get (xs @ ys) k = (case js_get xs k of None \<Rightarrow> js_get ys k | Some v \<Rightarrow> Some v)"
  by (induction xs) auto

lemma js_get_optional: "js_get (optional_field k v) x = (if x = k then v else None)"
  by (cases v) simp_all

lemma optional_field_keys: "fst ` set (optional_field k v) = (if v = None then {} else {k})"
  "list_all p (optional_field k v) \<longleftrightarrow> (\<forall>x. v = Some x \<longrightarrow> p (k, x))"
  by (cases v; simp)+

lemma read_string_JStr: "p s \<Longrightarrow> read_string p (Some (JStr s)) = Some s"
  by (simp add: read_string_def)

lemma read_array_written:
  "(\<And>y. y \<in> set ys \<Longrightarrow> f (g y) = Some y) \<Longrightarrow> read_array f (JArr (map g ys)) = Some ys"
  by (simp add: read_array_def option_list_Some)

lemma read_map_written:
  "(\<And>k y. (k, y) \<in> set ys \<Longrightarrow> f (g y) = Some y) \<Longrightarrow> read_map f (JObj (map (map_prod id g) ys)) = Some ys"
  by (force simp: read_map_def option_list_Some)

lemma read_optional_written:
  "(\<And>y. x = Some y \<Longrightarrow> f (g y) = Some y) \<Longrightarrow> read_optional f (map_option g x) = Some x"
  by (cases x) (simp_all add: read_optional_def)

lemma read_binding_written: "binding_wf b \<Longrightarrow> read_binding (binding_json b) = Some b"
proof (induction b)
  case (ComputeBinding e u)
  then obtain expr where e: "e = JObj expr" by (auto split: json.splits)
  have "read_optional (read_map read_binding)
      (map_option JObj (map_option (map (map_prod id binding_json)) u)) = Some u"
  proof (cases u)
    case (Some ys)
    have "read_map read_binding (JObj (map (map_prod id binding_json) ys)) = Some ys"
      by (rule read_map_written) (use ComputeBinding Some in fastforce)
    with Some show ?thesis by (simp add: read_optional_def)
  qed (simp add: read_optional_def)
  with e show ?case by (simp add: variant_def has_fields_def js_get_optional optional_field_keys)
qed (simp_all add: variant_def has_fields_def read_string_def dataset_urn_shape flat_name_shape)

lemma read_bindings_written:
  "bindings_wf m \<Longrightarrow> read_optional read_bindings (map_option (json_map binding_json) m) = Some m"
  unfolding read_bindings_def json_map_def
  by (rule read_optional_written, rule read_map_written) (force simp: bindings_wf_def intro: read_binding_written)

lemma read_step_written:
  assumes "step_wf s"
  obtains obj where "step_json s = JObj obj" "js_get obj ''kind'' = None" "read_step obj = Some s"
proof -
  obtain obj where obj: "step_json s = JObj obj" by (simp add: step_json_def)
  note get = obj [unfolded step_json_def json.inject, symmetric] js_get_append js_get_optional
  let ?writes = "\<lambda>t. JObj [(''to'', JStr ''session''), (''key'', JStr (write_key t))]"
  let ?secret = "\<lambda>r. JObj [(''scope'', JStr (case secret_scope r of WriterScope \<Rightarrow> ''writer'' | UserScope \<Rightarrow> ''user'')),
            (''name'', JStr (secret_name r))]"
  have "js_get obj ''id'' = Some (JStr (step_id s))" "js_get obj ''service'' = Some (JStr (step_service s))"
    "js_get obj ''function'' = Some (JStr (step_function s))" "js_get obj ''kind'' = None"
    by (simp_all add: get)
  moreover have "js_get obj ''dependsOn'' = map_option (\<lambda>ds. JArr (map JStr ds)) (step_dependsOn s)"
    by (cases "step_dependsOn s") (simp_all add: get)
  moreover have "js_get obj ''reads'' = map_option (json_map binding_json) (step_reads s)"
    by (cases "step_reads s") (simp_all add: get)
  moreover have "js_get obj ''writes'' = map_option (json_map ?writes) (step_writes s)"
    by (cases "step_writes s") (simp_all add: get)
  moreover have "js_get obj ''secrets'' = map_option (json_map ?secret) (step_secrets s)"
    by (simp add: get)
  moreover have "has_fields [''id'', ''service'', ''function''] [''dependsOn'', ''reads'', ''writes'', ''secrets''] obj"
    by (simp add: get has_fields_def optional_field_keys)
  moreover have "read_optional (read_array (\<lambda>x. read_string nonempty (Some x)))
      (map_option (\<lambda>ds. JArr (map JStr ds)) (step_dependsOn s)) = Some (step_dependsOn s)"
    by (rule read_optional_written, rule read_array_written) (use assms in \<open>auto simp: step_wf_def read_string_def\<close>)
  moreover have "read_optional (read_map read_write_target) (map_option (json_map ?writes) (step_writes s)) = Some (step_writes s)"
    unfolding json_map_def
    by (rule read_optional_written, rule read_map_written)
      (use assms in \<open>force simp: step_wf_def read_write_target_def has_fields_def read_string_def\<close>)
  moreover have "read_optional (read_map read_secret_ref) (map_option (json_map ?secret) (step_secrets s)) = Some (step_secrets s)"
  proof (unfold json_map_def, rule read_optional_written, rule read_map_written)
    fix rs k r assume "step_secrets s = Some rs" "(k, r) \<in> set rs"
    with assms have "secret_name r \<noteq> []" by (auto simp: step_wf_def)
    then show "read_secret_ref (?secret r) = Some r"
      by (cases "secret_scope r") (simp_all add: read_secret_ref_def has_fields_def read_string_def read_secret_scope_def)
  qed
  moreover have "step_id s \<noteq> []" "oci_digest_ref (step_service s)" "step_function s \<noteq> []" "bindings_wf (step_reads s)"
    using assms by (auto simp: step_wf_def oci_digest_ref_shape)
  ultimately have "read_step obj = Some s" "js_get obj ''kind'' = None"
    unfolding read_step_def by (simp_all add: read_string_JStr read_bindings_written)
  with obj that show ?thesis by blast
qed

lemma not_empty_keeps: "xs \<noteq> [] \<Longrightarrow> not_empty (Some xs) = Some xs"
  by (simp add: not_empty_Some)

lemma read_node_written:
  "node_wf n \<Longrightarrow> read_node (node_json n) = Some n"
  "case_wf c \<Longrightarrow> read_case (case_body_json c) = Some c"
proof (induction n and c)
  case (PlainStep s)
  then obtain obj where "step_json s = JObj obj" "js_get obj ''kind'' = None" "read_step obj = Some s"
    using read_step_written by auto
  then show ?case by simp
next
  case (BranchNode i sel cases)
  have "read_map read_case (JObj (map (map_prod id case_body_json) cases)) = Some cases"
    by (rule read_map_written) (use BranchNode in fastforce)
  with BranchNode.prems read_binding_written [of sel] show ?case
    by (simp add: kind_is_def has_fields_def read_string_def not_empty_keeps)
next
  case (MapNode i src body ys)
  have "read_array read_node (JArr (map node_json body)) = Some body"
    by (rule read_array_written) (use MapNode in auto)
  with MapNode.prems read_binding_written [of src] read_bindings_written [of ys] show ?case
    by (simp add: kind_is_def has_fields_def read_string_def not_empty_keeps optional_field_keys js_get_optional)
next
  case (CaseBody steps ys)
  have "read_array read_node (JArr (map node_json steps)) = Some steps"
    by (rule read_array_written) (use CaseBody in auto)
  with CaseBody.prems read_bindings_written [of ys] show ?case
    by (simp add: has_fields_def not_empty_keeps js_get_optional optional_field_keys)
qed

lemma read_session_state_written:
  "\<forall>b \<in> set_option (decl_fallback d). binding_wf b \<Longrightarrow> read_session_state (session_state_json d) = Some d"
  using read_optional_written [of "decl_fallback d" read_binding binding_json]
  by (cases "decl_interactivity d") (auto simp: read_session_state_def session_state_json_def
      has_fields_def read_interactivity_def js_get_optional optional_field_keys read_binding_written)

lemma read_version_Some: "read_version v = Some n \<longleftrightarrow> v = Some (JNum (of_int n)) \<and> 1 \<le> n"
  by (auto simp: read_version_def split: option.splits json.splits if_splits)

text \<open>The names of the parameters: an array of distinct flat names.\<close>

abbreviation read_parameters :: "json option \<Rightarrow> string list option option" where
  "read_parameters \<equiv> read_optional (\<lambda>x. Option.bind (read_array (\<lambda>p. read_string flat_name (Some p)) x)
     (\<lambda>ps. if distinct ps then Some ps else None))"

lemma read_parameters_wf:
  assumes "read_parameters v = Some ps"
  shows "distinct (nullish ps []) \<and> (\<forall>p \<in> set (nullish ps []). p \<noteq> [] \<and> CHR ''.'' \<notin> set p)"
proof (cases ps)
  case (Some qs)
  with assms obtain x where x: "read_array (\<lambda>p. read_string flat_name (Some p)) x = Some qs" "distinct qs"
    by (auto simp: read_optional_cases bind_eq_Some_conv split: if_split_asm)
  have "flat_name p" if "p \<in> set qs" for p
    using read_array_range [OF x(1) that] by (auto simp: read_string_Some)
  with x(2) Some show ?thesis by (auto simp: flat_name_shape)
qed simp

lemma read_parameters_written:
  assumes "distinct (nullish ps [])" "\<forall>p \<in> set (nullish ps []). p \<noteq> [] \<and> CHR ''.'' \<notin> set p"
  shows "read_parameters (map_option (\<lambda>qs. JArr (map JStr qs)) ps) = Some ps"
proof (rule read_optional_written)
  fix qs assume "ps = Some qs"
  with assms have "distinct qs" "\<And>q. q \<in> set qs \<Longrightarrow> flat_name q" by (auto simp: flat_name_shape)
  then show "Option.bind (read_array (\<lambda>p. read_string flat_name (Some p)) (JArr (map JStr qs)))
      (\<lambda>ps. if distinct ps then Some ps else None) = Some qs"
    by (subst read_array_written) (simp_all add: read_string_JStr)
qed

lemma read_workflow_spec_wf:
  assumes "read_workflow_spec doc = Some w"
  shows "workflow_spec_wf w"
proof -
  obtain obj where doc: "doc = JObj obj" using assms by (cases doc) (auto simp: read_workflow_spec_def)
  have params: "read_parameters (js_get obj ''inputParameters'') = Some (spec_inputParameters w)"
    using assms doc by (auto simp: read_workflow_spec_def split: if_split_asm option.split_asm)
  have fields: "read_version (js_get obj ''workflowSpecVersion'') = Some (spec_version w)"
    "read_string nonempty (js_get obj ''name'') = Some (spec_name w)"
    "read_optional (read_map read_session_state) (js_get obj ''sessionState'') = Some (spec_sessionState w)"
    "Option.bind (js_get obj ''steps'') (read_array read_node) = Some (spec_steps w)"
    "read_optional read_bindings (js_get obj ''outputs'') = Some (spec_outputs w)"
    using assms doc by (auto simp: read_workflow_spec_def split: if_split_asm option.split_asm)
  have "binding_wf b" if "(k, d) \<in> set (nullish (spec_sessionState w) [])" "b \<in> set_option (decl_fallback d)" for k d b
    using fields(3) that by (auto simp: read_optional_cases read_session_state_def dest!: read_map_range
        split: json.split_asm if_split_asm option.split_asm) (metis read_binding_wf)
  moreover have "node_wf n" if "n \<in> set (spec_steps w)" for n
    using fields(4) that by (auto simp: bind_eq_Some_conv read_node_wf dest: read_array_range)
  moreover have "1 \<le> spec_version w" "spec_name w \<noteq> []"
    using fields(1,2) by (auto simp: read_version_Some read_string_Some)
  ultimately show ?thesis
    using read_parameters_wf [OF params] read_bindings_wf [OF fields(5)] unfolding workflow_spec_wf_def by auto
qed

lemma read_workflow_spec_written:
  assumes "workflow_spec_wf w"
  shows "read_workflow_spec (workflow_spec_json w) = Some w"
proof -
  obtain obj where obj: "workflow_spec_json w = JObj obj" by (simp add: workflow_spec_json_def)
  note get = obj [unfolded workflow_spec_json_def json.inject, symmetric] js_get_append js_get_optional
  have "js_get obj ''workflowSpecVersion'' = Some (JNum (of_int (spec_version w)))"
    "js_get obj ''name'' = Some (JStr (spec_name w))"
    "js_get obj ''steps'' = Some (JArr (map node_json (spec_steps w)))" by (simp_all add: get)
  moreover have "js_get obj ''description'' = map_option JStr (spec_description w)"
    by (cases "spec_description w") (simp_all add: get)
  moreover have "js_get obj ''inputParameters'' = map_option (\<lambda>ps. JArr (map JStr ps)) (spec_inputParameters w)"
    by (cases "spec_inputParameters w") (simp_all add: get)
  moreover have "js_get obj ''sessionState'' = map_option (json_map session_state_json) (spec_sessionState w)"
    by (cases "spec_sessionState w") (simp_all add: get)
  moreover have "js_get obj ''outputs'' = map_option (json_map binding_json) (spec_outputs w)"
    by (simp add: get)
  moreover have "has_fields [''workflowSpecVersion'', ''name'', ''steps'']
      [''description'', ''inputParameters'', ''sessionState'', ''outputs''] obj"
    by (simp add: get has_fields_def optional_field_keys)
  moreover have "read_string nonempty (Some (JStr (spec_name w))) = Some (spec_name w)"
    "read_version (Some (JNum (of_int (spec_version w)))) = Some (spec_version w)"
    using assms by (simp_all add: workflow_spec_wf_def read_string_JStr read_version_Some)
  moreover have "read_optional (\<lambda>x. read_string (\<lambda>_. True) (Some x)) (map_option JStr (spec_description w))
      = Some (spec_description w)"
    by (rule read_optional_written) (simp add: read_string_JStr)
  moreover have "read_parameters (map_option (\<lambda>ps. JArr (map JStr ps)) (spec_inputParameters w)) = Some (spec_inputParameters w)"
    by (rule read_parameters_written) (use assms in \<open>auto simp: workflow_spec_wf_def\<close>)
  moreover have "read_optional (read_map read_session_state)
      (map_option (json_map session_state_json) (spec_sessionState w)) = Some (spec_sessionState w)"
    unfolding json_map_def
    by (rule read_optional_written, rule read_map_written, rule read_session_state_written)
      (use assms in \<open>fastforce simp: workflow_spec_wf_def\<close>)
  moreover have "read_array read_node (JArr (map node_json (spec_steps w))) = Some (spec_steps w)"
    by (rule read_array_written) (use assms in \<open>simp add: workflow_spec_wf_def read_node_written\<close>)
  moreover have "read_optional read_bindings (map_option (json_map binding_json) (spec_outputs w)) = Some (spec_outputs w)"
    by (rule read_bindings_written) (use assms in \<open>simp add: workflow_spec_wf_def\<close>)
  ultimately show ?thesis unfolding obj read_workflow_spec_def by simp
qed

text \<open>The plans that the schema accepts are the well-formed ones.\<close>

lemma readable_iff_wf: "(\<exists>doc. read_workflow_spec doc = Some w) \<longleftrightarrow> workflow_spec_wf w"
  using read_workflow_spec_wf read_workflow_spec_written by blast

end
