(* ===== verification/Placement.thy ===== *)
theory Placement
  imports Core_Laws Trust_Tier "HOL-Library.Product_Lexorder" "HOL-Library.Multiset"
begin

text \<open>
  The placement of warm replicas: the repositories of \<open>placement\<close>, \<open>placement_access\<close> and
  \<open>placement_config\<close> (\<open>core/repositories/placement*.repository.ts\<close>) and the admission and
  eviction logic of \<open>scheduler/\<close> (\<open>placement.ts\<close>, \<open>trust.ts\<close>, \<open>constants.ts\<close>). Timings and
  costs are rationals where the code has doubles. \<open>Date.now()\<close> is an argument.
\<close>

subsection \<open>Repositories\<close>

text \<open>\<open>UpsertPlacementAccessInput\<close>: an absent field and a \<open>null\<close> one are the same argument.\<close>

record access_input =
  in_replicaId :: "string option"
  in_sessionId :: "string option"
  in_interactivity :: "interactivity option"
  in_sizeBytes :: "int option"
  in_declaredCostClass :: "cost_class option"
  in_observedRehydrationMs :: "rat option"
  in_at :: "int option"

text \<open>\<open>COALESCE(a, b)\<close> of two nullable columns.\<close>

definition coalesce :: "'a option \<Rightarrow> 'a option \<Rightarrow> 'a option" where
  "coalesce a b = (if a = None then b else a)"

definition find_placement :: "core_db \<Rightarrow> string \<Rightarrow> placement option" where
  "find_placement s h = first_row (sql_select (\<lambda>p. pl_contentHash p = h) (db_placement s))"

definition placement_findByContentHash :: "string \<Rightarrow> placement option core_tx" where
  "placement_findByContentHash h = tx_read (\<lambda>s. find_placement s h)"

definition inserted_placement :: "string \<Rightarrow> access_input \<Rightarrow> int \<Rightarrow> placement" where
  "inserted_placement h i now =
     \<lparr>pl_contentHash = h, pl_replicaId = in_replicaId i, pl_sessionId = in_sessionId i,
      pl_pinned = False, pl_pinnedAt = None, pl_interactivity = nullish (in_interactivity i) Batch,
      pl_accessCount = 1, pl_firstAccessedAt = Some (nullish (in_at i) now),
      pl_lastAccessedAt = Some (nullish (in_at i) now),
      pl_declaredCostClass = in_declaredCostClass i,
      pl_observedRehydrationMs = in_observedRehydrationMs i,
      pl_observedSampleCount = (if in_observedRehydrationMs i = None then 0 else 1),
      pl_sizeBytes = nullish (in_sizeBytes i) 0, pl_createdAt = now, pl_updatedAt = now\<rparr>"

definition rolling_mean :: "rat option \<Rightarrow> nat \<Rightarrow> rat option \<Rightarrow> rat option" where
  "rolling_mean old n sample =
     (case sample of
        None \<Rightarrow> old
      | Some x \<Rightarrow> (case old of None \<Rightarrow> Some x | Some m \<Rightarrow> Some ((m * of_nat n + x) / of_nat (n + 1))))"

definition updated_placement :: "access_input \<Rightarrow> int \<Rightarrow> placement \<Rightarrow> placement" where
  "updated_placement i now p =
     p\<lparr>pl_replicaId := coalesce (in_replicaId i) (pl_replicaId p),
       pl_sessionId := coalesce (in_sessionId i) (pl_sessionId p),
       pl_interactivity := nullish (in_interactivity i) (pl_interactivity p),
       pl_accessCount := pl_accessCount p + 1,
       pl_lastAccessedAt := Some (nullish (in_at i) now),
       pl_declaredCostClass := coalesce (in_declaredCostClass i) (pl_declaredCostClass p),
       pl_sizeBytes := nullish (in_sizeBytes i) (pl_sizeBytes p),
       pl_observedRehydrationMs :=
         rolling_mean (pl_observedRehydrationMs p) (pl_observedSampleCount p) (in_observedRehydrationMs i),
       pl_observedSampleCount :=
         pl_observedSampleCount p + (if in_observedRehydrationMs i = None then 0 else 1),
       pl_updatedAt := now\<rparr>"

definition placement_upsertAccess :: "string \<Rightarrow> access_input \<Rightarrow> placement core_tx" where
  "placement_upsertAccess h i =
     tx_bind (\<lambda>s.
       if find_placement s h = None
       then let row = inserted_placement h i (db_now s)
            in (Inr [row], s\<lparr>db_placement := db_placement s @ [row]\<rparr>)
       else let rows = sql_update (\<lambda>p. pl_contentHash p = h) (updated_placement i (db_now s)) (db_placement s)
            in (Inr (sql_select (\<lambda>p. pl_contentHash p = h) rows), s\<lparr>db_placement := rows\<rparr>))
       (row_or_throw CORE_PLACEMENT_UPSERT_NO_ROW_RETURNED)"

definition pin_row :: "bool \<Rightarrow> int \<Rightarrow> placement \<Rightarrow> placement" where
  "pin_row pin now p =
     p\<lparr>pl_pinned := pin, pl_pinnedAt := (if pin then Some now else None), pl_updatedAt := now\<rparr>"

definition placement_setPinned :: "string \<Rightarrow> bool \<Rightarrow> placement core_tx" where
  "placement_setPinned h pin =
     tx_bind (\<lambda>s.
       let rows = sql_update (\<lambda>p. pl_contentHash p = h) (pin_row pin (db_now s)) (db_placement s)
       in (Inr (sql_select (\<lambda>p. pl_contentHash p = h) rows), s\<lparr>db_placement := rows\<rparr>))
       (row_or_throw CORE_PLACEMENT_SET_PINNED_NOT_FOUND)"

text \<open>\<open>ORDER BY last_accessed_at ASC\<close>, nulls last; rows that tie keep the order of the table.\<close>

definition lru_key :: "placement \<Rightarrow> bool \<times> int" where
  "lru_key p = (pl_lastAccessedAt p = None, nullish (pl_lastAccessedAt p) 0)"

definition pinned_by_lru :: "core_db \<Rightarrow> placement list" where
  "pinned_by_lru s = sort_key lru_key (sql_select pl_pinned (db_placement s))"

definition placement_listPinnedOrderedByLru :: "placement list core_tx" where
  "placement_listPinnedOrderedByLru = tx_read pinned_by_lru"

definition placementAccess_record :: "string \<Rightarrow> int option \<Rightarrow> unit core_tx" where
  "placementAccess_record h time =
     tx_write (\<lambda>s. s\<lparr>db_placement_access :=
       db_placement_access s @ [\<lparr>pa_contentHash = h, pa_accessedAt = nullish time (db_now s)\<rparr>]\<rparr>)"

definition within_window :: "core_db \<Rightarrow> string \<Rightarrow> int \<Rightarrow> placement_access list" where
  "within_window s h windowMs =
     sql_select (\<lambda>a. pa_contentHash a = h \<and> pa_accessedAt a \<ge> db_now s - windowMs) (db_placement_access s)"

definition placementAccess_countWithinWindow :: "string \<Rightarrow> int \<Rightarrow> nat core_tx" where
  "placementAccess_countWithinWindow h windowMs = tx_read (\<lambda>s. length (within_window s h windowMs))"

definition placementAccess_pruneOlderThan :: "string \<Rightarrow> int \<Rightarrow> unit core_tx" where
  "placementAccess_pruneOlderThan h windowMs =
     tx_write (\<lambda>s. s\<lparr>db_placement_access :=
       sql_delete (\<lambda>a. pa_contentHash a = h \<and> pa_accessedAt a < db_now s - windowMs)
         (db_placement_access s)\<rparr>)"

definition placementConfig_load :: "string \<Rightarrow> placement_config option core_tx" where
  "placementConfig_load name = tx_read (\<lambda>s. map_of (db_placement_config s) name)"

subsection \<open>\<open>scheduler/placement.ts\<close>\<close>

definition DEFAULT_PLACEMENT_CONFIG :: placement_config where
  "DEFAULT_PLACEMENT_CONFIG =
     \<lparr>frequencyThreshold = 3, frequencyWindowMs = 420000, rehydrationCostThresholdMs = 250,
      idleThresholdMs = 1200000, pinnedBudgetBytes = 1073741824, observedMinSamples = 5,
      classPriorsMs = \<lparr>prior_trivial = 10, prior_cheap = 50, prior_moderate = 300,
                       prior_expensive = 2000\<rparr>\<rparr>"

datatype resolution_reason = NoPlacement | WarmReplica | ColdFact

record placement_resolution =
  res_found :: bool
  res_warm :: bool
  res_contentHash :: string
  res_reason :: resolution_reason
  res_placement :: "placement option"

definition resolvePlacement :: "string \<Rightarrow> placement_resolution core_tx" where
  "resolvePlacement h =
     tx_bind (placement_findByContentHash h) (\<lambda>placement.
       case placement of
         None \<Rightarrow> tx_return \<lparr>res_found = False, res_warm = False, res_contentHash = h,
                             res_reason = NoPlacement, res_placement = None\<rparr>
       | Some p \<Rightarrow> tx_return \<lparr>res_found = True, res_warm = (pl_replicaId p \<noteq> None), res_contentHash = h,
                       res_reason = (if pl_replicaId p \<noteq> None then WarmReplica else ColdFact),
                       res_placement = Some p\<rparr>)"

definition recordAccess :: "string \<Rightarrow> access_input \<Rightarrow> placement_config option \<Rightarrow> placement core_tx" where
  "recordAccess h i cfg =
    (let config = nullish cfg DEFAULT_PLACEMENT_CONFIG;
         pruneHorizonMs = max (frequencyWindowMs config) (idleThresholdMs config) in
     tx_bind (placement_upsertAccess h i) (\<lambda>placement.
     tx_then (placementAccess_record h (in_at i))
    (tx_then (placementAccess_pruneOlderThan h pruneHorizonMs)
    (tx_return placement))))"

datatype cost_source = Observed | DeclaredPrior | UnknownCost

definition class_prior :: "class_priors \<Rightarrow> cost_class \<Rightarrow> rat" where
  "class_prior ps c =
     (case c of Trivial \<Rightarrow> prior_trivial ps | Cheap \<Rightarrow> prior_cheap ps
      | Moderate \<Rightarrow> prior_moderate ps | Expensive \<Rightarrow> prior_expensive ps)"

definition effectiveRehydrationCostMs :: "placement \<Rightarrow> placement_config \<Rightarrow> rat option \<times> cost_source" where
  "effectiveRehydrationCostMs p config =
     (if pl_observedRehydrationMs p \<noteq> None \<and> int (pl_observedSampleCount p) \<ge> observedMinSamples config
      then (pl_observedRehydrationMs p, Observed)
      else (case pl_declaredCostClass p of
              Some c \<Rightarrow> (Some (class_prior (classPriorsMs config) c), DeclaredPrior)
            | None \<Rightarrow> (None, UnknownCost)))"

datatype promotion_reason =
    PromoteNoPlacement | AlreadyPinned | NotInteractive | CostBelowThreshold
  | FrequencyBelowThreshold | Qualifies

record promotion_detail =
  pd_interactivity :: interactivity
  pd_interactiveOk :: bool
  pd_costMs :: "rat option"
  pd_costSource :: cost_source
  pd_costThresholdMs :: rat
  pd_costOk :: bool
  pd_windowedAccessCount :: nat
  pd_frequencyThreshold :: int
  pd_freqOk :: bool

record promotion_decision =
  pd_promote :: bool
  pd_reason :: promotion_reason
  pd_detail :: "promotion_detail option"

definition evaluatePromotion :: "string \<Rightarrow> placement_config \<Rightarrow> promotion_decision core_tx" where
  "evaluatePromotion h config =
     tx_bind (placement_findByContentHash h) (\<lambda>placement.
       case placement of
         None \<Rightarrow> tx_return \<lparr>pd_promote = False, pd_reason = PromoteNoPlacement, pd_detail = None\<rparr>
       | Some p \<Rightarrow>
           if pl_pinned p
           then tx_return \<lparr>pd_promote = False, pd_reason = AlreadyPinned, pd_detail = None\<rparr>
           else let interactiveOk = (pl_interactivity p = Interactive);
                    (costMs, costSource) = effectiveRehydrationCostMs p config;
                    costOk = (case costMs of None \<Rightarrow> False
                              | Some c \<Rightarrow> c > rehydrationCostThresholdMs config) in
             tx_bind (placementAccess_countWithinWindow h (frequencyWindowMs config)) (\<lambda>n.
               let freqOk = (int n \<ge> frequencyThreshold config);
                   promote = (interactiveOk \<and> costOk \<and> freqOk)
               in tx_return
                    \<lparr>pd_promote = promote,
                     pd_reason =
                       (if promote then Qualifies
                        else if \<not> interactiveOk then NotInteractive
                        else if \<not> costOk then CostBelowThreshold
                        else FrequencyBelowThreshold),
                     pd_detail = Some
                       \<lparr>pd_interactivity = pl_interactivity p, pd_interactiveOk = interactiveOk,
                        pd_costMs = costMs, pd_costSource = costSource,
                        pd_costThresholdMs = rehydrationCostThresholdMs config, pd_costOk = costOk,
                        pd_windowedAccessCount = n, pd_frequencyThreshold = frequencyThreshold config,
                        pd_freqOk = freqOk\<rparr>\<rparr>))"

datatype demotion_reason = DemoteNoPlacement | NotPinned | IdlePastThreshold | StillWithinIdleThreshold

text \<open>\<open>Number.POSITIVE_INFINITY\<close> for an entry that was never accessed.\<close>

datatype idle_time = InfiniteMs | FiniteMs int

fun idle_exceeds :: "idle_time \<Rightarrow> int \<Rightarrow> bool" where
  "idle_exceeds InfiniteMs t = True"
| "idle_exceeds (FiniteMs n) t = (n > t)"

record demotion_decision =
  dd_demote :: bool
  dd_reason :: demotion_reason
  dd_detail :: "(idle_time \<times> int) option"

definition evaluateDemotion :: "int \<Rightarrow> string \<Rightarrow> placement_config \<Rightarrow> demotion_decision core_tx" where
  "evaluateDemotion date_now h config =
     tx_bind (placement_findByContentHash h) (\<lambda>placement.
       case placement of
         None \<Rightarrow> tx_return \<lparr>dd_demote = False, dd_reason = DemoteNoPlacement, dd_detail = None\<rparr>
       | Some p \<Rightarrow>
           if \<not> pl_pinned p
           then tx_return \<lparr>dd_demote = False, dd_reason = NotPinned, dd_detail = None\<rparr>
           else let idleMs = (case pl_lastAccessedAt p of
                       None \<Rightarrow> InfiniteMs
                     | Some t \<Rightarrow> FiniteMs (date_now - t));
                    demote = idle_exceeds idleMs (idleThresholdMs config)
                in tx_return
                     \<lparr>dd_demote = demote,
                      dd_reason = (if demote then IdlePastThreshold else StillWithinIdleThreshold),
                      dd_detail = Some (idleMs, idleThresholdMs config)\<rparr>)"

definition promote :: "string \<Rightarrow> placement core_tx" where
  "promote h = placement_setPinned h True"

definition demote :: "string \<Rightarrow> placement core_tx" where
  "demote h = placement_setPinned h False"

fun evict_loop :: "int \<Rightarrow> placement list \<Rightarrow> int \<Rightarrow> string list \<Rightarrow> string list core_tx" where
  "evict_loop budget [] tot evicted = tx_return evicted"
| "evict_loop budget (p # ps) tot evicted =
     (if tot \<le> budget then tx_return evicted
      else if pl_sizeBytes p \<le> 0 then evict_loop budget ps tot evicted
      else tx_bind (demote (pl_contentHash p)) (\<lambda>_.
             evict_loop budget ps (tot - pl_sizeBytes p) (evicted @ [pl_contentHash p])))"

definition total_size :: "placement list \<Rightarrow> int" where
  "total_size ps = fold (\<lambda>p sum. sum + pl_sizeBytes p) ps 0"

definition evictLRUIfOverCapacity :: "placement_config \<Rightarrow> string list core_tx" where
  "evictLRUIfOverCapacity config =
    (let budget = pinnedBudgetBytes config in
     tx_bind placement_listPinnedOrderedByLru (\<lambda>pinned.
       let tot = total_size pinned in
       if tot \<le> budget then tx_return []
       else evict_loop budget pinned tot []))"

subsection \<open>\<open>trust.ts\<close>\<close>

definition isTrustEligibleForOptimization :: "trust_tier \<Rightarrow> bool" where
  "isTrustEligibleForOptimization tier \<longleftrightarrow> tier = ProductionProven"

subsection \<open>Eviction\<close>

text \<open>What the eviction chooses: the least recently used entries that free space, until it fits.\<close>

fun evict_plan :: "int \<Rightarrow> placement list \<Rightarrow> int \<Rightarrow> placement list" where
  "evict_plan budget [] tot = []"
| "evict_plan budget (p # ps) tot =
     (if tot \<le> budget then []
      else if pl_sizeBytes p \<le> 0 then evict_plan budget ps tot
      else p # evict_plan budget ps (tot - pl_sizeBytes p))"

definition sizes :: "placement list \<Rightarrow> int" where
  "sizes ps = sum_list (map pl_sizeBytes ps)"

lemma sizes_simps [simp]: "sizes [] = 0" "sizes (p # ps) = pl_sizeBytes p + sizes ps"
  by (simp_all add: sizes_def)

lemma total_size_eq: "total_size ps = sizes ps"
proof -
  have "fold (\<lambda>p sum. sum + pl_sizeBytes p) ps a = a + sizes ps" for a
    by (induction ps arbitrary: a) simp_all
  then show ?thesis by (simp add: total_size_def)
qed

abbreviation frees_space :: "placement \<Rightarrow> bool" where
  "frees_space p \<equiv> 0 < pl_sizeBytes p"

lemma evict_plan_take: "\<exists>n. evict_plan budget ps tot = take n (filter frees_space ps)"
proof (induction ps arbitrary: tot)
  case (Cons p ps)
  obtain n where "evict_plan budget ps (tot - pl_sizeBytes p) = take n (filter frees_space ps)"
    using Cons by blast
  moreover obtain m where "evict_plan budget ps tot = take m (filter frees_space ps)" using Cons by blast
  ultimately show ?case
    by (cases "tot \<le> budget"; cases "frees_space p")
      (auto intro: exI [of _ 0] exI [of _ "Suc n"] exI [of _ m])
qed simp

lemma evict_plan_enough:
  "tot - sizes (evict_plan budget ps tot) \<le> budget \<or> evict_plan budget ps tot = filter frees_space ps"
proof (induction ps arbitrary: tot)
  case (Cons p ps)
  show ?case using Cons.IH [of tot] Cons.IH [of "tot - pl_sizeBytes p"] by auto
qed simp

lemma evict_plan_needed:
  "evict_plan budget ps tot \<noteq> [] \<Longrightarrow> tot - sizes (butlast (evict_plan budget ps tot)) > budget"
proof (induction ps arbitrary: tot)
  case (Cons p ps)
  then show ?case
    using Cons.IH [of tot] Cons.IH [of "tot - pl_sizeBytes p"]
    by (cases "evict_plan budget ps (tot - pl_sizeBytes p) = []") (auto simp: algebra_simps split: if_splits)
qed simp

abbreviation unpin_all :: "string set \<Rightarrow> core_db \<Rightarrow> core_db" where
  "unpin_all H s \<equiv> s\<lparr>db_placement :=
     sql_update (\<lambda>p. pl_contentHash p \<in> H) (pin_row False (db_now s)) (db_placement s)\<rparr>"

lemma setPinned_eq:
  assumes "h \<in> set (map pl_contentHash (db_placement s))"
  obtains p where "placement_setPinned h pin s =
    (Inr p, s\<lparr>db_placement := sql_update (\<lambda>p. pl_contentHash p = h) (pin_row pin (db_now s)) (db_placement s)\<rparr>)"
proof -
  let ?rows = "sql_update (\<lambda>p. pl_contentHash p = h) (pin_row pin (db_now s)) (db_placement s)"
  from assms obtain q where "q \<in> set (db_placement s)" "pl_contentHash q = h" by auto
  then have "pin_row pin (db_now s) q \<in> set (sql_select (\<lambda>p. pl_contentHash p = h) ?rows)"
    by (auto simp: table_simps set_sql_update pin_row_def)
  then obtain p ps where "sql_select (\<lambda>p. pl_contentHash p = h) ?rows = p # ps"
    by (cases "sql_select (\<lambda>p. pl_contentHash p = h) ?rows") auto
  then show ?thesis by (intro that [of p]) (simp add: placement_setPinned_def tx_simps Let_def)
qed

lemma pin_row_sel [simp]:
  "pl_contentHash (pin_row pin t p) = pl_contentHash p" "pl_pinned (pin_row pin t p) = pin"
  "pl_sizeBytes (pin_row pin t p) = pl_sizeBytes p" "pin_row pin t (pin_row pin t p) = pin_row pin t p"
  by (simp_all add: pin_row_def)

lemma evict_loop_eq:
  assumes "\<And>p. p \<in> set ps \<Longrightarrow> pl_contentHash p \<in> set (map pl_contentHash (db_placement s))"
  shows "evict_loop budget ps tot evicted s =
    (Inr (evicted @ map pl_contentHash (evict_plan budget ps tot)),
     unpin_all (pl_contentHash ` set (evict_plan budget ps tot)) s)"
  using assms
proof (induction ps arbitrary: tot evicted s)
  case Nil
  have "unpin_all {} s = s" by (simp add: sql_update_def)
  then show ?case by (simp add: tx_simps)
next
  case (Cons p ps)
  consider "tot \<le> budget" | "\<not> tot \<le> budget" "\<not> frees_space p" | "\<not> tot \<le> budget" "frees_space p" by blast
  then show ?case
  proof cases
    case 1
    have "unpin_all {} s = s" by (simp add: sql_update_def)
    with 1 show ?thesis by (simp add: tx_simps)
  next
    case 2
    with Cons show ?thesis by simp
  next
    case 3
    let ?h = "pl_contentHash p"
    let ?s = "s\<lparr>db_placement := sql_update (\<lambda>q. pl_contentHash q = ?h) (pin_row False (db_now s)) (db_placement s)\<rparr>"
    let ?plan = "evict_plan budget ps (tot - pl_sizeBytes p)"
    obtain q where q: "placement_setPinned ?h False s = (Inr q, ?s)"
      using setPinned_eq [of ?h s False] Cons.prems by auto
    have "map pl_contentHash (db_placement ?s) = map pl_contentHash (db_placement s)"
      by (simp add: map_sql_update del: map_eq_conv)
    then have IH: "evict_loop budget ps (tot - pl_sizeBytes p) (evicted @ [?h]) ?s
        = (Inr ((evicted @ [?h]) @ map pl_contentHash ?plan), unpin_all (pl_contentHash ` set ?plan) ?s)"
      using Cons.prems by (intro Cons.IH) (simp del: set_map map_eq_conv)
    have "unpin_all (pl_contentHash ` set ?plan) ?s = unpin_all (insert ?h (pl_contentHash ` set ?plan)) s"
      by (simp add: sql_update_def)
    with 3 q IH show ?thesis by (simp add: demote_def tx_simps)
  qed
qed

definition placement_inv :: "core_db \<Rightarrow> bool" where
  "placement_inv s \<longleftrightarrow> key_unique pl_contentHash (db_placement s)"

definition pinned_rows :: "core_db \<Rightarrow> placement list" where
  "pinned_rows s = sql_select pl_pinned (db_placement s)"

lemma pinned_by_lru_facts:
  "set (pinned_by_lru s) = set (pinned_rows s)" "sorted (map lru_key (pinned_by_lru s))"
  "mset (pinned_by_lru s) = mset (pinned_rows s)" "sizes (pinned_by_lru s) = sizes (pinned_rows s)"
proof -
  show m: "mset (pinned_by_lru s) = mset (pinned_rows s)"
    by (simp add: pinned_by_lru_def pinned_rows_def)
  show "set (pinned_by_lru s) = set (pinned_rows s)" "sorted (map lru_key (pinned_by_lru s))"
    by (simp_all add: pinned_by_lru_def pinned_rows_def)
  show "sizes (pinned_by_lru s) = sizes (pinned_rows s)"
    using m unfolding sizes_def by (metis mset_map sum_mset_sum_list)
qed

lemma sizes_filter: "sizes (filter q ps) + sizes (filter (\<lambda>p. \<not> q p) ps) = sizes ps"
  by (induction ps) auto

lemma sizes_set: "distinct ps \<Longrightarrow> distinct qs \<Longrightarrow> set ps = set qs \<Longrightarrow> sizes ps = sizes qs"
  unfolding sizes_def by (metis set_eq_iff_mset_eq_distinct mset_map sum_mset_sum_list)

lemma select_unpinned:
  "sql_select pl_pinned (sql_update (\<lambda>p. pl_contentHash p \<in> H) (pin_row False n) t) =
     filter (\<lambda>p. pl_contentHash p \<notin> H) (sql_select pl_pinned t)"
  by (induction t) (auto simp: sql_select_def sql_update_def)

lemma pinned_rows_unpinned:
  "pinned_rows (unpin_all H s) = filter (\<lambda>p. pl_contentHash p \<notin> H) (pinned_rows s)"
  by (simp add: pinned_rows_def select_unpinned)

lemma evict_eq:
  "evictLRUIfOverCapacity config s =
     (let plan = evict_plan (pinnedBudgetBytes config) (pinned_by_lru s) (sizes (pinned_rows s))
      in (Inr (map pl_contentHash plan), unpin_all (pl_contentHash ` set plan) s))"
proof -
  have "unpin_all {} s = s" by (simp add: sql_update_def)
  moreover have "evict_plan (pinnedBudgetBytes config) ps tot = []"
    if "tot \<le> pinnedBudgetBytes config" for ps tot using that by (cases ps) auto
  moreover have hashes: "pl_contentHash p \<in> set (map pl_contentHash (db_placement s))"
    if "p \<in> set (pinned_by_lru s)" for p
    using that by (auto simp: pinned_by_lru_facts pinned_rows_def table_simps)
  moreover from hashes have "evict_loop (pinnedBudgetBytes config) (pinned_by_lru s) t [] s =
      (let plan = evict_plan (pinnedBudgetBytes config) (pinned_by_lru s) t
       in (Inr (map pl_contentHash plan), unpin_all (pl_contentHash ` set plan) s))" for t
    by (subst evict_loop_eq) (simp_all add: Let_def)
  ultimately show ?thesis
    by (simp add: evictLRUIfOverCapacity_def placement_listPinnedOrderedByLru_def tx_simps Let_def
        total_size_eq pinned_by_lru_facts)
qed

lemma sorted_take_drop:
  assumes "sorted (map k xs)" "x \<in> set (take n xs)" "y \<in> set (drop n xs)"
  shows "k x \<le> k y"
proof -
  have "sorted (map k (take n xs) @ map k (drop n xs))"
    using assms(1) by (simp flip: map_append)
  with assms(2,3) show ?thesis by (auto simp: sorted_append)
qed

text \<open>The plan takes a prefix of the entries of positive size in LRU order, and exactly its rows are
  unpinned.\<close>

abbreviation eviction_plan :: "placement_config \<Rightarrow> core_db \<Rightarrow> placement list" where
  "eviction_plan config s \<equiv>
     evict_plan (pinnedBudgetBytes config) (pinned_by_lru s) (sizes (pinned_rows s))"

lemma eviction_plan_prefix:
  defines "xs s \<equiv> filter frees_space (pinned_by_lru s)"
  obtains n where "eviction_plan config s = take n (xs s)"
    "set (xs s) = {p \<in> set (pinned_rows s). frees_space p}" "sorted (map lru_key (xs s))"
proof -
  have "set (xs s) = {p \<in> set (pinned_rows s). frees_space p}" "sorted (map lru_key (xs s))"
    by (auto simp: xs_def pinned_by_lru_facts sorted_filter)
  with that evict_plan_take show ?thesis unfolding xs_def by blast
qed

lemma eviction_plan_set: "set (eviction_plan config s) \<subseteq> {p \<in> set (pinned_rows s). frees_space p}"
  by (rule eviction_plan_prefix [of config s]) (metis set_take_subset)

lemma eviction_plan_sorted: "sorted (map lru_key (eviction_plan config s))"
proof (rule eviction_plan_prefix [of config s])
  fix n
  assume plan: "eviction_plan config s = take n (filter frees_space (pinned_by_lru s))"
    and "sorted (map lru_key (filter frees_space (pinned_by_lru s)))"
  then have "sorted (take n (map lru_key (filter frees_space (pinned_by_lru s))))" by (intro sorted_wrt_take)
  then show ?thesis unfolding plan take_map .
qed

lemma eviction_plan_lru:
  assumes "p \<in> set (eviction_plan config s)" "q \<in> set (pinned_rows s)" "q \<notin> set (eviction_plan config s)"
    "frees_space q"
  shows "lru_key p \<le> lru_key q"
proof (rule eviction_plan_prefix [of config s])
  fix n
  let ?xs = "filter frees_space (pinned_by_lru s)"
  assume n: "eviction_plan config s = take n ?xs" "set ?xs = {p \<in> set (pinned_rows s). frees_space p}"
    "sorted (map lru_key ?xs)"
  have "q \<in> set ?xs" "q \<notin> set (take n ?xs)" using assms(2-4) n(1,2) by auto
  then have "q \<in> set (drop n ?xs)" by (metis append_take_drop_id Un_iff set_append)
  with n assms(1) show ?thesis by (intro sorted_take_drop) auto
qed

lemma eviction_leaves:
  fixes config
  assumes "placement_inv s"
  defines "ev \<equiv> eviction_plan config s"
  shows "pinned_rows (unpin_all (pl_contentHash ` set ev) s) = filter (\<lambda>p. p \<notin> set ev) (pinned_rows s)"
    "sizes (filter (\<lambda>p. p \<notin> set ev) (pinned_rows s)) = sizes (pinned_rows s) - sizes ev"
proof -
  have evs: "set ev \<subseteq> set (pinned_rows s)" using eviction_plan_set [of config s] by (auto simp: ev_def)
  have "pl_contentHash p \<in> pl_contentHash ` set ev \<longleftrightarrow> p \<in> set ev" if p: "p \<in> set (pinned_rows s)" for p
  proof
    assume "pl_contentHash p \<in> pl_contentHash ` set ev"
    then obtain q where q: "q \<in> set ev" "pl_contentHash p = pl_contentHash q" by auto
    with evs p have "p \<in> set (db_placement s)" "q \<in> set (db_placement s)"
      by (auto simp: pinned_rows_def table_simps)
    with q(2) assms(1) have "p = q" unfolding placement_inv_def by (blast dest: key_uniqueD)
    with q(1) show "p \<in> set ev" by simp
  qed simp
  then show "pinned_rows (unpin_all (pl_contentHash ` set ev) s) = filter (\<lambda>p. p \<notin> set ev) (pinned_rows s)"
    unfolding pinned_rows_unpinned by (intro filter_cong [OF refl]) blast
  have dist: "distinct (pinned_rows s)"
    using assms(1) by (auto simp: placement_inv_def key_unique_def pinned_rows_def sql_select_def distinct_map)
  then have "distinct (pinned_by_lru s)"
    using pinned_by_lru_facts(3) mset_eq_imp_distinct_iff by blast
  then have "distinct ev" unfolding ev_def by (rule_tac eviction_plan_prefix [of config s]) simp
  with dist evs have "sizes (filter (\<lambda>p. p \<in> set ev) (pinned_rows s)) = sizes ev"
    by (intro sizes_set) auto
  then show "sizes (filter (\<lambda>p. p \<notin> set ev) (pinned_rows s)) = sizes (pinned_rows s) - sizes ev"
    using sizes_filter [of "\<lambda>p. p \<in> set ev" "pinned_rows s"] by simp
qed

text \<open>C13. Eviction reclaims what it must and no more, in LRU order. It unpins entries of positive
  size only, the least recently used first, and deletes or changes nothing else; afterwards
  the pinned entries fit the budget or none of them has a recorded size; up to the last
  eviction they did not fit; and no entry of positive size that it kept was used before one it
  evicted. Pinned entries without a recorded size free nothing: they stay pinned, however long
  ago they were used.\<close>

theorem eviction_is_lru_and_minimal:
  assumes "placement_inv s"
  shows "\<exists>ev. evictLRUIfOverCapacity config s =
      (Inr (map pl_contentHash ev), unpin_all (pl_contentHash ` set ev) s)
    \<and> set ev \<subseteq> set (pinned_rows s) \<and> (\<forall>p \<in> set ev. frees_space p) \<and> sorted (map lru_key ev)
    \<and> (let left = pinned_rows (unpin_all (pl_contentHash ` set ev) s) in
        (sizes left \<le> pinnedBudgetBytes config \<or> \<not> (\<exists>p \<in> set left. frees_space p))
        \<and> (ev \<noteq> [] \<longrightarrow> sizes left + pl_sizeBytes (last ev) > pinnedBudgetBytes config)
        \<and> (\<forall>p \<in> set ev. \<forall>q \<in> set left. frees_space q \<longrightarrow> lru_key p \<le> lru_key q)
        \<and> (\<forall>q \<in> set (pinned_rows s). \<not> frees_space q \<longrightarrow> q \<in> set left))"
proof -
  define ev where "ev = eviction_plan config s"
  define left where "left = filter (\<lambda>p. p \<notin> set ev) (pinned_rows s)"
  have sz: "sizes left = sizes (pinned_rows s) - sizes ev"
    unfolding left_def ev_def by (rule eviction_leaves [OF assms])
  have "sizes left \<le> pinnedBudgetBytes config \<or> \<not> (\<exists>p \<in> set left. frees_space p)"
    using evict_plan_enough [of "sizes (pinned_rows s)" "pinnedBudgetBytes config" "pinned_by_lru s"] sz
    by (auto simp: left_def pinned_by_lru_facts simp flip: ev_def)
  moreover have "sizes left + pl_sizeBytes (last ev) > pinnedBudgetBytes config" if "ev \<noteq> []"
  proof -
    have "sizes ev = sizes (butlast ev) + pl_sizeBytes (last ev)"
      using that by (cases ev rule: rev_cases) (simp_all add: sizes_def)
    with evict_plan_needed [of "pinnedBudgetBytes config" "pinned_by_lru s" "sizes (pinned_rows s)"] that sz
    show ?thesis unfolding ev_def by linarith
  qed
  moreover have "lru_key p \<le> lru_key q" if "p \<in> set ev" "q \<in> set left" "frees_space q" for p q
    using that eviction_plan_lru [of p config s q] by (simp add: left_def ev_def)
  moreover have "q \<in> set left" if "q \<in> set (pinned_rows s)" "\<not> frees_space q" for q
    using that eviction_plan_set [of config s] by (auto simp: left_def ev_def)
  moreover have "pinned_rows (unpin_all (pl_contentHash ` set ev) s) = left"
    unfolding left_def ev_def by (rule eviction_leaves [OF assms])
  ultimately show ?thesis
    using eviction_plan_set [of config s] eviction_plan_sorted [of config s] unfolding Let_def
    by (intro exI [of _ ev]) (auto simp: evict_eq Let_def simp flip: ev_def)
qed

subsection \<open>Recording accesses\<close>

lemma find_placement_append:
  "find_placement (s\<lparr>db_placement := db_placement s @ [p]\<rparr>) h =
     (case find_placement s h of None \<Rightarrow> (if pl_contentHash p = h then Some p else None) | Some q \<Rightarrow> Some q)"
  by (simp add: find_placement_def sql_select_append first_row_append sql_select_def split: option.split)

definition access_result :: "core_db \<Rightarrow> string \<Rightarrow> access_input \<Rightarrow> placement" where
  "access_result s h i =
     (case find_placement s h of None \<Rightarrow> inserted_placement h i (db_now s)
      | Some p \<Rightarrow> updated_placement i (db_now s) p)"

lemma find_placement_in: "find_placement s h = Some p \<Longrightarrow> pl_contentHash p = h"
  unfolding find_placement_def by (drule first_row_in) (simp add: table_simps)

lemma access_result_hash: "pl_contentHash (access_result s h i) = h"
  by (simp add: access_result_def inserted_placement_def updated_placement_def find_placement_in
      split: option.split)

lemma upsertAccess_eq:
  obtains rows where
    "placement_upsertAccess h i s = (Inr (access_result s h i), s\<lparr>db_placement := rows\<rparr>)"
    "\<And>h'. find_placement (s\<lparr>db_placement := rows\<rparr>) h' =
       (if h' = h then Some (access_result s h i) else find_placement s h')"
    "placement_inv s \<Longrightarrow> placement_inv (s\<lparr>db_placement := rows\<rparr>)"
proof (cases "find_placement s h")
  case None
  let ?p = "inserted_placement h i (db_now s)"
  have "pl_contentHash ?p = h" by (simp add: inserted_placement_def)
  moreover have "\<forall>x \<in> set (db_placement s). pl_contentHash x \<noteq> h"
    using None by (auto simp: find_placement_def sql_select_def filter_empty_conv)
  ultimately show ?thesis
    using None by (intro that [of "db_placement s @ [?p]"])
      (auto simp: placement_upsertAccess_def tx_simps Let_def access_result_def find_placement_append
        placement_inv_def key_unique_snoc split: option.split)
next
  case (Some p)
  let ?u = "updated_placement i (db_now s)"
  let ?rows = "sql_update (\<lambda>p. pl_contentHash p = h) ?u (db_placement s)"
  have u: "pl_contentHash (?u q) = pl_contentHash q" for q by (simp add: updated_placement_def)
  have "first_row (sql_select (\<lambda>p. pl_contentHash p = h') ?rows) =
      (if h' = h then Some (?u p) else find_placement s h')" for h'
    using Some by (auto simp: find_placement_def first_row_select_update u dest: find_placement_in
        split: option.splits) (auto simp: map_option_case find_placement_def [symmetric]
        dest: find_placement_in split: option.split)
  then show ?thesis
    using Some by (intro that [of ?rows])
      (auto simp: placement_upsertAccess_def tx_simps Let_def access_result_def row_or_throw_def
        find_placement_def placement_inv_def key_unique_update u)
qed

definition prune_horizon :: "placement_config option \<Rightarrow> int" where
  "prune_horizon cfg =
     (let c = nullish cfg DEFAULT_PLACEMENT_CONFIG in max (frequencyWindowMs c) (idleThresholdMs c))"

lemma recordAccess_eq:
  obtains rows s' where
    "recordAccess h i cfg s = (Inr (access_result s h i), s')"
    "s' = s\<lparr>db_placement := rows, db_placement_access :=
       sql_delete (\<lambda>a. pa_contentHash a = h \<and> pa_accessedAt a < db_now s - prune_horizon cfg)
         (db_placement_access s @ [\<lparr>pa_contentHash = h, pa_accessedAt = nullish (in_at i) (db_now s)\<rparr>])\<rparr>"
    "\<And>h'. find_placement s' h' = (if h' = h then Some (access_result s h i) else find_placement s h')"
    "placement_inv s \<Longrightarrow> placement_inv s'"
proof -
  obtain rows where rows:
    "placement_upsertAccess h i s = (Inr (access_result s h i), s\<lparr>db_placement := rows\<rparr>)"
    "\<And>h'. find_placement (s\<lparr>db_placement := rows\<rparr>) h' =
       (if h' = h then Some (access_result s h i) else find_placement s h')"
    "placement_inv s \<Longrightarrow> placement_inv (s\<lparr>db_placement := rows\<rparr>)" by (rule upsertAccess_eq) blast
  let ?s' = "s\<lparr>db_placement := rows, db_placement_access :=
       sql_delete (\<lambda>a. pa_contentHash a = h \<and> pa_accessedAt a < db_now s - prune_horizon cfg)
         (db_placement_access s @ [\<lparr>pa_contentHash = h, pa_accessedAt = nullish (in_at i) (db_now s)\<rparr>])\<rparr>"
  have "recordAccess h i cfg s = (Inr (access_result s h i), ?s')"
    using rows(1) by (simp add: recordAccess_def tx_simps Let_def placementAccess_record_def
        placementAccess_pruneOlderThan_def prune_horizon_def)
  moreover have "find_placement ?s' h' = find_placement (s\<lparr>db_placement := rows\<rparr>) h'" for h'
    by (simp add: find_placement_def)
  moreover have "placement_inv ?s' = placement_inv (s\<lparr>db_placement := rows\<rparr>)"
    by (simp add: placement_inv_def)
  ultimately show ?thesis using that [of ?s' rows] rows(2,3) by simp
qed

text \<open>The mean of the samples seen so far, as the SQL statement maintains it.\<close>

definition mean_of :: "rat list \<Rightarrow> rat option" where
  "mean_of xs = (if xs = [] then None else Some (sum_list xs / of_nat (length xs)))"

lemma rolling_mean_snoc:
  "rolling_mean (mean_of xs) (length xs) (Some x) = mean_of (xs @ [x])"
  "rolling_mean (mean_of xs) (length xs) None = mean_of xs"
  by (auto simp: rolling_mean_def mean_of_def)

definition observed_samples :: "access_input list \<Rightarrow> rat list" where
  "observed_samples xs = concat (map (\<lambda>i. case in_observedRehydrationMs i of None \<Rightarrow> [] | Some x \<Rightarrow> [x]) xs)"

definition observations :: "access_input list \<Rightarrow> placement \<Rightarrow> bool" where
  "observations xs p \<longleftrightarrow>
     pl_accessCount p = length xs \<and> pl_observedSampleCount p = length (observed_samples xs)
     \<and> pl_observedRehydrationMs p = mean_of (observed_samples xs)"

lemma observations_insert: "observations [i] (inserted_placement h i now)"
  by (cases "in_observedRehydrationMs i")
    (simp_all add: observations_def inserted_placement_def observed_samples_def mean_of_def)

lemma observations_update:
  assumes "observations xs p"
  shows "observations (xs @ [i]) (updated_placement i now p)"
  using assms rolling_mean_snoc [of "observed_samples xs"]
  by (cases "in_observedRehydrationMs i")
    (simp_all add: observations_def updated_placement_def observed_samples_def)

text \<open>A sequence of accesses to one content hash, each in its own transaction at its own time.\<close>

fun record_all :: "string \<Rightarrow> (int \<times> access_input \<times> placement_config option) list \<Rightarrow> core_db \<Rightarrow> core_db" where
  "record_all h [] s = s"
| "record_all h ((now, i, cfg) # cs) s = record_all h cs (snd (recordAccess h i cfg (s\<lparr>db_now := now\<rparr>)))"

lemma recordAccess_observations:
  assumes "case find_placement s h of None \<Rightarrow> xs = [] | Some p \<Rightarrow> observations xs p"
  shows "\<exists>p. find_placement (snd (recordAccess h i cfg (s\<lparr>db_now := now\<rparr>))) h = Some p
    \<and> observations (xs @ [i]) p"
proof -
  have find: "find_placement (s\<lparr>db_now := now\<rparr>) h = find_placement s h" by (simp add: find_placement_def)
  from assms have "observations (xs @ [i]) (access_result (s\<lparr>db_now := now\<rparr>) h i)"
    by (auto simp: access_result_def find observations_update observations_insert split: option.splits)
  then show ?thesis
    by (rule_tac recordAccess_eq [of h i cfg "s\<lparr>db_now := now\<rparr>"]) simp
qed

lemma record_all_observations:
  assumes "case find_placement s h of None \<Rightarrow> xs = [] | Some p \<Rightarrow> observations xs p"
  shows "case find_placement (record_all h cs s) h of
      None \<Rightarrow> xs = [] \<and> cs = [] | Some p \<Rightarrow> observations (xs @ map (\<lambda>(now, i, cfg). i) cs) p"
  using assms
proof (induction cs arbitrary: s xs)
  case (Cons c cs)
  obtain now i cfg where c: "c = (now, i, cfg)" by (cases c)
  obtain p where p: "find_placement (snd (recordAccess h i cfg (s\<lparr>db_now := now\<rparr>))) h = Some p"
    "observations (xs @ [i]) p" using recordAccess_observations [OF Cons.prems] by blast
  from Cons.IH [where s = "snd (recordAccess h i cfg (s\<lparr>db_now := now\<rparr>))" and xs = "xs @ [i]"] p c
  show ?case by (simp split: option.splits)
qed (simp split: option.splits)

text \<open>The observed cost is the true average: after any accesses to a content hash that was
  not tracked before, at any times and under any configurations, the row counts every access
  and every timing sample, and its observed rehydration time is the mean of all samples.\<close>

theorem observed_cost_is_the_mean:
  assumes "find_placement s h = None" "cs \<noteq> []"
  shows "\<exists>p. find_placement (record_all h cs s) h = Some p
    \<and> pl_accessCount p = length cs
    \<and> (let xs = observed_samples (map (\<lambda>(now, i, cfg). i) cs) in
        pl_observedSampleCount p = length xs
        \<and> pl_observedRehydrationMs p = (if xs = [] then None else Some (sum_list xs / of_nat (length xs))))"
  using record_all_observations [where s = s and h = h and xs = "[]" and cs = cs] assms
  by (auto simp: observations_def mean_of_def Let_def split: option.splits)

text \<open>C14. Pruning the access log never changes a decision: recording an access deletes only rows
  older than both of the configuration's windows, so every window count it can be asked for
  under that configuration is the old count plus the new access, and the log of every other
  content hash is untouched.\<close>

theorem pruning_keeps_what_counts:
  assumes "recordAccess h i cfg s = (r, s')" "windowMs \<le> prune_horizon cfg"
  shows "within_window s' h windowMs = within_window s h windowMs
      @ filter (\<lambda>a. pa_accessedAt a \<ge> db_now s - windowMs)
          [\<lparr>pa_contentHash = h, pa_accessedAt = nullish (in_at i) (db_now s)\<rparr>]
    \<and> (\<forall>h' w. h' \<noteq> h \<longrightarrow> within_window s' h' w = within_window s h' w)"
proof -
  obtain rows where s': "s' = s\<lparr>db_placement := rows, db_placement_access :=
       sql_delete (\<lambda>a. pa_contentHash a = h \<and> pa_accessedAt a < db_now s - prune_horizon cfg)
         (db_placement_access s @ [\<lparr>pa_contentHash = h, pa_accessedAt = nullish (in_at i) (db_now s)\<rparr>])\<rparr>"
    by (rule recordAccess_eq [of h i cfg s], rule that) (use assms(1) in simp)
  have "sql_select (\<lambda>a. pa_contentHash a = h' \<and> pa_accessedAt a \<ge> db_now s - w)
        (sql_delete (\<lambda>a. pa_contentHash a = h \<and> pa_accessedAt a < db_now s - prune_horizon cfg) t)
      = sql_select (\<lambda>a. pa_contentHash a = h' \<and> pa_accessedAt a \<ge> db_now s - w) t"
    if "h' = h \<longrightarrow> w = windowMs" for h' w t
    using that assms(2) by (intro sql_select_delete) auto
  then have "within_window s' h' w =
      sql_select (\<lambda>a. pa_contentHash a = h' \<and> pa_accessedAt a \<ge> db_now s - w)
        (db_placement_access s @ [\<lparr>pa_contentHash = h, pa_accessedAt = nullish (in_at i) (db_now s)\<rparr>])"
    if "h' = h \<longrightarrow> w = windowMs" for h' w
    using that unfolding s' within_window_def by simp
  then show ?thesis by (simp add: within_window_def sql_select_def)
qed

text \<open>
  The horizon is that of the configuration the access was recorded under. A decision taken
  under a configuration with a wider window counts what is left.
\<close>

definition no_fields :: "int option \<Rightarrow> access_input" where
  "no_fields t =
     \<lparr>in_replicaId = None, in_sessionId = None, in_interactivity = None, in_sizeBytes = None,
      in_declaredCostClass = None, in_observedRehydrationMs = None, in_at = t\<rparr>"

definition hour_window :: placement_config where
  "hour_window = DEFAULT_PLACEMENT_CONFIG\<lparr>frequencyWindowMs := 3600000\<rparr>"

definition two_accesses :: "placement_config option \<Rightarrow> core_db" where
  "two_accesses cfg = record_all ''h''
     [(0, no_fields None, cfg), (1800000, no_fields None, cfg)] empty_db"

text \<open>Pruning is safe only within one configuration: two accesses half an hour apart, recorded
  with the default configuration, count as one in a window of an hour, and as two when they
  were recorded with the configuration the decision uses.\<close>

theorem pruning_under_another_config_loses_accesses:
  "length (within_window (two_accesses None) ''h'' (frequencyWindowMs hour_window)) = 1
   \<and> length (within_window (two_accesses (Some hour_window)) ''h'' (frequencyWindowMs hour_window)) = 2"
  by code_simp

subsection \<open>Promotion and demotion\<close>

definition exceeds :: "rat option \<Rightarrow> rat \<Rightarrow> bool" where
  "exceeds c t \<longleftrightarrow> (case c of None \<Rightarrow> False | Some x \<Rightarrow> t < x)"

text \<open>D4a's admission rule.\<close>

definition qualifies :: "core_db \<Rightarrow> placement \<Rightarrow> placement_config \<Rightarrow> bool" where
  "qualifies s p config \<longleftrightarrow>
     pl_interactivity p = Interactive
     \<and> exceeds (fst (effectiveRehydrationCostMs p config)) (rehydrationCostThresholdMs config)
     \<and> frequencyThreshold config
         \<le> int (length (within_window s (pl_contentHash p) (frequencyWindowMs config)))"

lemma evaluatePromotion_eq:
  "\<exists>d. evaluatePromotion h config s = (Inr d, s)
    \<and> (pd_promote d \<longleftrightarrow> (\<exists>p. find_placement s h = Some p \<and> \<not> pl_pinned p \<and> qualifies s p config))
    \<and> (pd_promote d \<longleftrightarrow> pd_reason d = Qualifies)"
proof (cases "find_placement s h")
  case None
  then show ?thesis by (simp add: evaluatePromotion_def placement_findByContentHash_def tx_simps)
next
  case (Some p)
  then show ?thesis
    using find_placement_in [OF Some]
    by (auto simp: evaluatePromotion_def placement_findByContentHash_def tx_simps Let_def qualifies_def
        exceeds_def placementAccess_countWithinWindow_def split: prod.split option.splits)
qed

text \<open>The access log and the placement rows agree: every logged access is on a tracked hash, and
  none is later than the row's last access.\<close>

definition access_log_ok :: "core_db \<Rightarrow> bool" where
  "access_log_ok s \<longleftrightarrow>
     list_all (\<lambda>a. case find_placement s (pa_contentHash a) of None \<Rightarrow> False
               | Some p \<Rightarrow> (case pl_lastAccessedAt p of None \<Rightarrow> False | Some t \<Rightarrow> pa_accessedAt a \<le> t))
       (db_placement_access s)"

lemma access_log_ok_recordAccess:
  assumes ok: "access_log_ok s" and r: "recordAccess h i cfg s = (r, s')"
    and later: "\<And>a. a \<in> set (db_placement_access s) \<Longrightarrow> pa_contentHash a = h \<Longrightarrow>
      pa_accessedAt a \<le> nullish (in_at i) (db_now s)"
  shows "access_log_ok s'"
proof -
  let ?new = "\<lparr>pa_contentHash = h, pa_accessedAt = nullish (in_at i) (db_now s)\<rparr>"
  have last: "pl_lastAccessedAt (access_result s h i) = Some (nullish (in_at i) (db_now s))"
    by (simp add: access_result_def inserted_placement_def updated_placement_def split: option.split)
  show ?thesis
  proof (rule recordAccess_eq [of h i cfg s])
    fix rows t
    assume t: "recordAccess h i cfg s = (Inr (access_result s h i), t)"
      "t = s\<lparr>db_placement := rows, db_placement_access :=
         sql_delete (\<lambda>a. pa_contentHash a = h \<and> pa_accessedAt a < db_now s - prune_horizon cfg)
           (db_placement_access s @ [?new])\<rparr>"
      "\<And>h'. find_placement t h' = (if h' = h then Some (access_result s h i) else find_placement s h')"
    have "a \<in> set (db_placement_access s) \<or> a = ?new" if "a \<in> set (db_placement_access t)" for a
      using that by (auto simp: t(2) table_simps)
    then have "case find_placement t (pa_contentHash a) of None \<Rightarrow> False
        | Some p \<Rightarrow> (case pl_lastAccessedAt p of None \<Rightarrow> False | Some u \<Rightarrow> pa_accessedAt a \<le> u)"
      if "a \<in> set (db_placement_access t)" for a
      using that ok later [of a] last by (fastforce simp: access_log_ok_def list_all_iff t(3))
    then have "access_log_ok t" by (simp add: access_log_ok_def list_all_iff)
    with r t(1) show ?thesis by simp
  qed
qed

lemma find_placement_setPinned:
  "find_placement (s\<lparr>db_placement := sql_update (\<lambda>p. pl_contentHash p = h) (pin_row pin n) (db_placement s)\<rparr>) h
    = map_option (pin_row pin n) (find_placement s h)"
  by (cases "find_placement s h")
    (auto simp: find_placement_def first_row_select_update dest: find_placement_in [unfolded find_placement_def])

text \<open>C16. Promote quick, demote slow, never flap. Take a configuration that asks for at least one access
  to promote and whose idle threshold is at least its frequency window plus the time by which
  the clock of the process (\<open>Date.now()\<close>, which a demotion reads) is ahead of the database's
  \<open>now()\<close>, and an access log that agrees with the placement rows: every logged access is on a
  tracked entry and none is later than the entry's last access, as long as no access is
  recorded with a time before one that is logged already. Then an entry that qualifies for
  promotion and is promoted does not qualify for demotion at that moment, and does not for
  promotion again.\<close>

theorem promoted_entry_is_not_demoted:
  assumes "access_log_ok s" "evaluatePromotion h config s = (Inr d, s)" "pd_promote d"
    and "0 < frequencyThreshold config"
    and "frequencyWindowMs config + (date_now - db_now s) \<le> idleThresholdMs config"
  shows "\<exists>p s'. promote h s = (Inr p, s') \<and> (\<exists>e. evaluateDemotion date_now h config s' = (Inr e, s') \<and> \<not> dd_demote e)
    \<and> (\<exists>d'. evaluatePromotion h config s' = (Inr d', s') \<and> pd_reason d' = AlreadyPinned)"
proof -
  obtain p where p: "find_placement s h = Some p" "qualifies s p config"
    using evaluatePromotion_eq [of h config s] assms(2,3) by auto
  have "within_window s h (frequencyWindowMs config) \<noteq> []"
    using p assms(4) find_placement_in [OF p(1)] by (auto simp: qualifies_def)
  then obtain a where "a \<in> set (within_window s h (frequencyWindowMs config))"
    using last_in_set by blast
  then have a: "a \<in> set (db_placement_access s)" "pa_contentHash a = h"
    "db_now s - frequencyWindowMs config \<le> pa_accessedAt a" by (auto simp: within_window_def table_simps)
  then obtain t where t: "pl_lastAccessedAt p = Some t" "pa_accessedAt a \<le> t"
    using assms(1) p(1) by (fastforce simp: access_log_ok_def list_all_iff split: option.splits)
  have "p \<in> set (db_placement s)"
    using p(1) first_row_in by (fastforce simp: find_placement_def table_simps)
  then have "h \<in> set (map pl_contentHash (db_placement s))" using find_placement_in [OF p(1)] by force
  then obtain q where q: "placement_setPinned h True s =
    (Inr q, s\<lparr>db_placement := sql_update (\<lambda>p. pl_contentHash p = h) (pin_row True (db_now s)) (db_placement s)\<rparr>)"
    by (rule setPinned_eq)
  let ?s' = "snd (placement_setPinned h True s)"
  have find: "find_placement ?s' h = Some (pin_row True (db_now s) p)"
    using q p(1) by (simp add: find_placement_setPinned)
  have "date_now - t \<le> idleThresholdMs config" using a(3) t(2) assms(5) by linarith
  then have "\<exists>e. evaluateDemotion date_now h config ?s' = (Inr e, ?s') \<and> \<not> dd_demote e"
    using find t(1) by (simp add: evaluateDemotion_def placement_findByContentHash_def tx_simps Let_def pin_row_def)
  moreover have "\<exists>d'. evaluatePromotion h config ?s' = (Inr d', ?s') \<and> pd_reason d' = AlreadyPinned"
    using find by (simp add: evaluatePromotion_def placement_findByContentHash_def tx_simps)
  ultimately show ?thesis using q unfolding promote_def by (metis snd_conv)
qed

subsection \<open>The properties on a sample placement\<close>

definition hot_fields :: "rat option \<Rightarrow> access_input" where
  "hot_fields ms = (no_fields None)\<lparr>in_interactivity := Some Interactive, in_sizeBytes := Some 700,
     in_declaredCostClass := Some Expensive, in_observedRehydrationMs := ms\<rparr>"

definition db_hot :: core_db where
  "db_hot = record_all ''h''
     [(0, hot_fields (Some 100), None), (1000, hot_fields None, None), (2000, hot_fields (Some 300), None)] empty_db"

definition db_pinned :: core_db where
  "db_pinned = snd (promote ''h'' (snd (promote ''k''
     (record_all ''k'' [(5000, hot_fields None, None)] db_hot))))"

lemma observed_cost_is_the_mean_witness:
  "\<exists>p. find_placement db_hot ''h'' = Some p \<and> pl_accessCount p = 3 \<and> pl_observedRehydrationMs p = Some 200"
proof -
  let ?cs = "[(0::int, hot_fields (Some 100), None), (1000, hot_fields None, None), (2000, hot_fields (Some 300), None)]"
  have "find_placement empty_db ''h'' = None" by code_simp
  moreover have "observed_samples (map (\<lambda>(now, i, cfg). i) ?cs) = [100, 300]"
    by (simp add: observed_samples_def hot_fields_def no_fields_def)
  ultimately show ?thesis
    using observed_cost_is_the_mean [of empty_db "''h''" ?cs] by (auto simp: db_hot_def Let_def)
qed

lemma pruning_keeps_what_counts_witness:
  "\<exists>r s'. recordAccess ''h'' (no_fields None) None db_hot = (r, s')
     \<and> length (within_window s' ''h'' 1500) = Suc (length (within_window db_hot ''h'' 1500))"
proof -
  obtain r s' where r: "recordAccess ''h'' (no_fields None) None db_hot = (r, s')" by fastforce
  have "(1500::int) \<le> prune_horizon None" by code_simp
  from pruning_keeps_what_counts [OF r this] r show ?thesis by (auto simp: no_fields_def)
qed

lemma promoted_entry_is_not_demoted_witness:
  "\<exists>p s' e. promote ''h'' db_hot = (Inr p, s')
     \<and> evaluateDemotion 2500 ''h'' DEFAULT_PLACEMENT_CONFIG s' = (Inr e, s') \<and> \<not> dd_demote e"
proof -
  have p: "access_log_ok db_hot" "0 < frequencyThreshold DEFAULT_PLACEMENT_CONFIG"
    "frequencyWindowMs DEFAULT_PLACEMENT_CONFIG + (2500 - db_now db_hot) \<le> idleThresholdMs DEFAULT_PLACEMENT_CONFIG"
    by code_simp+
  have "\<exists>x. find_placement db_hot ''h'' = Some x \<and> \<not> pl_pinned x \<and> qualifies db_hot x DEFAULT_PLACEMENT_CONFIG"
  proof (intro exI conjI)
    show "find_placement db_hot ''h'' = Some (hd (db_placement db_hot))"
      "\<not> pl_pinned (hd (db_placement db_hot))"
      "qualifies db_hot (hd (db_placement db_hot)) DEFAULT_PLACEMENT_CONFIG" by code_simp+
  qed
  then obtain d where d: "evaluatePromotion ''h'' DEFAULT_PLACEMENT_CONFIG db_hot = (Inr d, db_hot)" "pd_promote d"
    using evaluatePromotion_eq [of "''h''" DEFAULT_PLACEMENT_CONFIG db_hot] by auto
  from promoted_entry_is_not_demoted [OF p(1) d p(2,3)] show ?thesis by blast
qed

lemma eviction_is_lru_and_minimal_witness:
  "\<exists>ev :: placement list. evictLRUIfOverCapacity (DEFAULT_PLACEMENT_CONFIG\<lparr>pinnedBudgetBytes := 1000\<rparr>) db_pinned =
     (Inr (map pl_contentHash ev), unpin_all (pl_contentHash ` set ev) db_pinned)
     \<and> sizes (pinned_rows db_pinned) = 1400
     \<and> sizes (pinned_rows (unpin_all (pl_contentHash ` set ev) db_pinned)) \<le> 1000"
proof -
  let ?c = "DEFAULT_PLACEMENT_CONFIG\<lparr>pinnedBudgetBytes := 1000\<rparr>"
  have inv: "placement_inv db_pinned" unfolding placement_inv_def key_unique_def by code_simp
  have facts: "sizes (pinned_rows db_pinned) = 1400" "list_all frees_space (pinned_rows db_pinned)" by code_simp+
  from eviction_is_lru_and_minimal [OF inv, of ?c, unfolded Let_def] show ?thesis
  proof (elim exE conjE)
    fix ev :: "placement list"
    let ?left = "pinned_rows (unpin_all (pl_contentHash ` set ev) db_pinned)"
    assume ev: "evictLRUIfOverCapacity ?c db_pinned =
        (Inr (map pl_contentHash ev), unpin_all (pl_contentHash ` set ev) db_pinned)"
      and fits: "sizes ?left \<le> pinnedBudgetBytes ?c \<or> \<not> (\<exists>p \<in> set ?left. frees_space p)"
    have "sizes ?left = 0" if "\<not> (\<exists>p \<in> set ?left. frees_space p)"
    proof -
      have "?left = []"
        using that facts(2) by (auto simp: pinned_rows_unpinned list_all_iff filter_empty_conv)
      then show ?thesis by simp
    qed
    with fits have small: "sizes ?left \<le> 1000" by auto
    show ?thesis by (rule exI [of _ ev], rule conjI [OF ev conjI [OF facts(1) small]])
  qed
qed

end
