(* ===== verification/Registry_Store.thy ===== *)
theory Registry_Store
  imports Registry_Validate Transactions Placement "HOL-Library.AList" "HOL-Library.List_Lexorder"
    "HOL-Library.Char_ord"
begin

text \<open>
  \<open>registry/\<close>: the two tables of the service registry, their repositories, the two write paths
  (\<open>admin.ts\<close>, \<open>conformance.ts\<close>) and the two read paths (\<open>get-entry.ts\<close>, \<open>get-placement-facts.ts\<close>).
  A capability reaches \<open>replaceForDigest\<close> as the JSON that \<open>validateRegistration\<close> has looked at;
  a value that a column cannot hold is refused by the database. \<open>ORDER BY function_name\<close> is the
  order of the characters' codes.
\<close>

subsection \<open>The repositories\<close>

record registry_db =
  rg_service_images :: "service_image list"
  rg_function_capabilities :: "function_capability list"
  rg_now :: int

type_synonym 'a registry_tx = "(registry_db, platform_error, 'a) tx"

definition find_image :: "registry_db \<Rightarrow> string \<Rightarrow> service_image option" where
  "find_image s d = first_row (sql_select (\<lambda>r. si_digest r = d) (rg_service_images s))"

definition serviceImages_findByDigest :: "string \<Rightarrow> service_image option registry_tx" where
  "serviceImages_findByDigest d = tx_read (\<lambda>s. find_image s d)"

text \<open>The upsert leaves \<open>trust_tier\<close> to its default on insert and to its value on conflict.\<close>

definition upserted_image ::
  "string \<Rightarrow> string \<Rightarrow> json \<Rightarrow> js_object \<Rightarrow> int \<Rightarrow> service_image option \<Rightarrow> service_image" where
  "upserted_image d ref spec hw now old =
     (case old of
        None \<Rightarrow> \<lparr>si_digest = d, si_ociRef = ref, si_openapiSpec = spec, si_hardwareRequirements = hw,
                 si_trustTier = Unverified, si_registeredAt = now, si_updatedAt = now\<rparr>
      | Some r \<Rightarrow> r\<lparr>si_ociRef := ref, si_openapiSpec := spec, si_hardwareRequirements := hw,
                   si_updatedAt := now\<rparr>)"

definition upsert_service_image ::
  "string \<Rightarrow> string \<Rightarrow> json \<Rightarrow> js_object \<Rightarrow> service_image list registry_tx" where
  "upsert_service_image d ref spec hw =
     (\<lambda>s. let row = upserted_image d ref spec hw (rg_now s) (find_image s d)
          in (Inr [row],
              s\<lparr>rg_service_images :=
                  (if find_image s d = None then rg_service_images s @ [row]
                   else sql_update (\<lambda>r. si_digest r = d) (\<lambda>_. row) (rg_service_images s))\<rparr>))"

definition serviceImages_upsert ::
  "string \<Rightarrow> string \<Rightarrow> json \<Rightarrow> js_object \<Rightarrow> service_image registry_tx" where
  "serviceImages_upsert d ref spec hw =
     tx_bind (upsert_service_image d ref spec hw)
       (row_or_throw REGISTRY_SERVICE_IMAGE_UPSERT_NO_ROW_RETURNED)"

definition serviceImages_updateTrustTier :: "string \<Rightarrow> trust_tier \<Rightarrow> service_image option registry_tx" where
  "serviceImages_updateTrustTier d tier =
     tx_then (tx_write (\<lambda>s. s\<lparr>rg_service_images :=
                sql_update (\<lambda>r. si_digest r = d) (\<lambda>r. r\<lparr>si_trustTier := tier, si_updatedAt := rg_now s\<rparr>)
                  (rg_service_images s)\<rparr>))
             (tx_read (\<lambda>s. find_image s d))"

definition find_capability :: "registry_db \<Rightarrow> string \<Rightarrow> string \<Rightarrow> function_capability option" where
  "find_capability s d f =
     first_row (sql_select (\<lambda>c. fc_digest c = d \<and> fc_functionName c = f) (rg_function_capabilities s))"

definition capability_row :: "string \<Rightarrow> string \<Rightarrow> function_capability_input \<Rightarrow> function_capability" where
  "capability_row d f c = function_capability_input.extend c \<lparr>fc_digest = d, fc_functionName = f\<rparr>"

definition insert_function_capability ::
  "string \<Rightarrow> string \<Rightarrow> json \<Rightarrow> function_capability registry_tx" where
  "insert_function_capability d f cap =
     (\<lambda>s. case decode_capability cap of
        None \<Rightarrow> (Inl (DbError CheckViolation), s)
      | Some c \<Rightarrow>
          if find_capability s d f \<noteq> None then (Inl (DbError UniqueViolation), s)
          else if find_image s d = None then (Inl (DbError ForeignKeyViolation), s)
          else (Inr (capability_row d f c),
                s\<lparr>rg_function_capabilities := rg_function_capabilities s @ [capability_row d f c]\<rparr>))"

text \<open>The loop over \<open>Object.entries(capabilityMetadata)\<close>, collecting the inserted rows.\<close>

fun insert_capabilities :: "string \<Rightarrow> js_object \<Rightarrow> function_capability list registry_tx" where
  "insert_capabilities d [] = tx_return []"
| "insert_capabilities d ((f, cap) # rest) =
     tx_bind (insert_function_capability d f cap) (\<lambda>row.
     tx_bind (insert_capabilities d rest) (\<lambda>rows. tx_return (row # rows)))"

definition functionCapabilities_replaceForDigest ::
  "string \<Rightarrow> js_object \<Rightarrow> function_capability list registry_tx" where
  "functionCapabilities_replaceForDigest d metadata =
     tx_then (tx_write (\<lambda>s. s\<lparr>rg_function_capabilities :=
                sql_delete (\<lambda>c. fc_digest c = d) (rg_function_capabilities s)\<rparr>))
             (insert_capabilities d metadata)"

definition functionCapabilities_listByDigest :: "string \<Rightarrow> function_capability list registry_tx" where
  "functionCapabilities_listByDigest d =
     tx_read (\<lambda>s. sort_key fc_functionName
                (sql_select (\<lambda>c. fc_digest c = d) (rg_function_capabilities s)))"

subsection \<open>The write paths\<close>

definition registry_rollback :: "registry_db \<Rightarrow> registry_db \<Rightarrow> registry_db" where
  "registry_rollback s t = s"

interpretation registry_store: atomic_store registry_rollback "\<lambda>s. s"
  by unfold_locales (simp_all add: registry_rollback_def)

definition withRegistryTransaction :: "connection \<Rightarrow> 'a registry_tx \<Rightarrow> 'a registry_tx" where
  "withRegistryTransaction = withTransaction registry_rollback"

text \<open>\<open>v ?? {}\<close>.\<close>

fun or_empty_object :: "json option \<Rightarrow> json" where
  "or_empty_object None = JObj []"
| "or_empty_object (Some JNull) = JObj []"
| "or_empty_object (Some v) = v"

definition with_defaults :: "registration_input \<Rightarrow> registration_input" where
  "with_defaults inp =
     inp\<lparr>in_capabilityMetadata := Some (or_empty_object (in_capabilityMetadata inp)),
         in_hardwareRequirements := Some (or_empty_object (in_hardwareRequirements inp))\<rparr>"

fun as_object :: "json option \<Rightarrow> js_object" where
  "as_object (Some (JObj obj)) = obj"
| "as_object _ = []"

text \<open>After validation, \<open>digest\<close> and \<open>ociRef\<close> are strings and the two maps are objects.\<close>

definition registerImage :: "connection \<Rightarrow> registration_input \<Rightarrow> (string \<times> trust_tier) registry_tx" where
  "registerImage conn inp =
     (let full = with_defaults inp in
      if validateRegistration full \<noteq> [] then tx_throw (FatalError REGISTRY_VALIDATION_FAILED)
      else
        let digest = the (as_string (in_digest full)); metadata = as_object (in_capabilityMetadata full) in
        withRegistryTransaction conn
          (tx_bind (serviceImages_upsert digest (the (as_string (in_ociRef full)))
                      (the (in_openapiSpec full)) (as_object (in_hardwareRequirements full))) (\<lambda>image.
           tx_then (functionCapabilities_replaceForDigest digest metadata)
                   (tx_return (si_digest image, si_trustTier image)))))"

definition recordTrustTier :: "string \<Rightarrow> json option \<Rightarrow> (string \<times> trust_tier) registry_tx" where
  "recordTrustTier digest tier =
     (if validateTrustTier tier \<noteq> [] then tx_throw (FatalError REGISTRY_TRUST_TIER_INVALID)
      else tx_bind (serviceImages_updateTrustTier digest
                      (the (named_by trust_tier_name TRUST_TIERS tier))) (\<lambda>image.
             case image of
               None \<Rightarrow> tx_throw (FatalError REGISTRY_TRUST_TIER_UNKNOWN_DIGEST)
             | Some i \<Rightarrow> tx_return (si_digest i, si_trustTier i)))"

subsection \<open>The read paths\<close>

record registry_entry = service_image +
  re_functions :: "(string \<times> function_capability_input) list"

definition getEntry :: "string \<Rightarrow> registry_entry option registry_tx" where
  "getEntry digest =
     tx_bind (serviceImages_findByDigest digest) (\<lambda>image.
       case image of
         None \<Rightarrow> tx_return None
       | Some i \<Rightarrow>
           tx_bind (functionCapabilities_listByDigest digest) (\<lambda>capabilities.
             tx_return (Some (service_image.extend i
               \<lparr>re_functions = fold (\<lambda>c. AList.update (fc_functionName c) (function_capability_input.truncate c))
                                 capabilities []\<rparr>))))"

record placement_facts =
  pf_digest :: string
  pf_function :: string
  pf_capability :: function_capability_input
  pf_trustTier :: trust_tier
  pf_hardwareRequirements :: js_object

text \<open>\<open>service_images JOIN function_capabilities ON digest\<close>, one row at most per digest and function.\<close>

definition joined_facts :: "registry_db \<Rightarrow> string \<Rightarrow> string \<Rightarrow> (service_image \<times> function_capability) list" where
  "joined_facts s d f =
     concat (map (\<lambda>i. map (Pair i)
       (sql_select (\<lambda>c. fc_digest c = si_digest i \<and> fc_functionName c = f) (rg_function_capabilities s)))
       (sql_select (\<lambda>i. si_digest i = d) (rg_service_images s)))"

definition getPlacementFacts :: "string \<Rightarrow> string \<Rightarrow> placement_facts option registry_tx" where
  "getPlacementFacts digest functionName =
     tx_read (\<lambda>s. map_option (\<lambda>(image, capability).
         \<lparr>pf_digest = fc_digest capability, pf_function = fc_functionName capability,
          pf_capability = function_capability_input.truncate capability,
          pf_trustTier = si_trustTier image,
          pf_hardwareRequirements = si_hardwareRequirements image\<rparr>)
       (first_row (joined_facts s digest functionName)))"

end
