(* ===== verification/Registry_Properties.thy ===== *)
theory Registry_Properties
  imports Registry_Store
begin

text \<open>
  What the service registry promises: a registration is accepted exactly when its payload is
  well typed, is stored whole or not at all and is read back as it was given; trust is earned
  through \<open>recordTrustTier\<close> and in no other way; and the joined read of the scheduler agrees
  with the entry the authors see.
\<close>

subsection \<open>What every write keeps\<close>

definition capability_key :: "function_capability \<Rightarrow> string \<times> string" where
  "capability_key c = (fc_digest c, fc_functionName c)"

definition registry_inv :: "registry_db \<Rightarrow> bool" where
  "registry_inv s \<longleftrightarrow>
     key_unique si_digest (rg_service_images s)
     \<and> key_unique capability_key (rg_function_capabilities s)
     \<and> (\<forall>c \<in> set (rg_function_capabilities s).
          find_image s (fc_digest c) \<noteq> None \<and> capability_wf (function_capability_input.truncate c))"

lemma find_image_digest: "find_image s d = Some i \<Longrightarrow> si_digest i = d \<and> i \<in> set (rg_service_images s)"
  unfolding find_image_def by (drule first_row_in) (simp add: table_simps)

lemma find_image_None: "find_image s d = None \<longleftrightarrow> (\<forall>i \<in> set (rg_service_images s). si_digest i \<noteq> d)"
  by (auto simp: find_image_def sql_select_def filter_empty_conv)

lemma find_capability_None:
  "find_capability s d f = None \<longleftrightarrow> (\<forall>c \<in> set (rg_function_capabilities s). capability_key c \<noteq> (d, f))"
  by (auto simp: find_capability_def capability_key_def sql_select_def filter_empty_conv)

lemma capability_row_sel [simp]:
  "fc_digest (capability_row d f c) = d" "fc_functionName (capability_row d f c) = f"
  "function_capability_input.truncate (capability_row d f c) = c"
  by (simp_all add: capability_row_def function_capability_input.defs)

lemma image_rows [simp]:
  "find_image (s\<lparr>rg_function_capabilities := cs\<rparr>) d = find_image s d"
  by (simp add: find_image_def)

lemma find_image_upsert:
  "find_image (snd (upsert_service_image d ref spec hw s)) d' =
     (if d' = d then Some (upserted_image d ref spec hw (rg_now s) (find_image s d)) else find_image s d')"
proof (cases "find_image s d")
  case None
  have "find_image (s\<lparr>rg_service_images := rg_service_images s @ [r]\<rparr>) d' =
      (case find_image s d' of None \<Rightarrow> if si_digest r = d' then Some r else None | Some i \<Rightarrow> Some i)" for r
    by (simp add: find_image_def sql_select_append first_row_append)
      (simp add: sql_select_def split: option.split)
  with None show ?thesis
    by (auto simp: upsert_service_image_def Let_def upserted_image_def split: option.split)
next
  case (Some i)
  define row where "row = upserted_image d ref spec hw (rg_now s) (Some i)"
  have row: "si_digest row = d" using find_image_digest [OF Some] by (simp add: row_def upserted_image_def)
  have "first_row (sql_select (\<lambda>r. si_digest r = d') (sql_update (\<lambda>r. si_digest r = d) (\<lambda>_. row) t)) =
      map_option (\<lambda>r. if d' = d then row else r) (first_row (sql_select (\<lambda>r. si_digest r = d') t))" for t
    using row by (induction t) (auto simp: sql_select_def sql_update_def)
  with Some show ?thesis
    by (auto simp: upsert_service_image_def Let_def find_image_def row_def option.map_ident)
qed

lemma upsert_sel [simp]:
  "rg_function_capabilities (snd (upsert_service_image d ref spec hw s)) = rg_function_capabilities s"
  "rg_now (snd (upsert_service_image d ref spec hw s)) = rg_now s"
  "fst (upsert_service_image d ref spec hw s) =
     Inr [upserted_image d ref spec hw (rg_now s) (find_image s d)]"
  by (simp_all add: upsert_service_image_def Let_def)

lemma key_unique_upsert:
  assumes "key_unique si_digest (rg_service_images s)"
  shows "key_unique si_digest (rg_service_images (snd (upsert_service_image d ref spec hw s)))"
proof (cases "find_image s d")
  case None
  moreover from this have "\<forall>i \<in> set (rg_service_images s). si_digest i \<noteq> d" by (simp only: find_image_None)
  ultimately show ?thesis using assms
    by (simp add: upsert_service_image_def Let_def key_unique_snoc upserted_image_def)
next
  case (Some i)
  define row where "row = upserted_image d ref spec hw (rg_now s) (Some i)"
  have "si_digest row = d" using find_image_digest [OF Some] by (simp add: row_def upserted_image_def)
  then have "map si_digest (sql_update (\<lambda>r. si_digest r = d) (\<lambda>_. row) t) = map si_digest t" for t
    by (induction t) (auto simp: sql_update_def)
  with assms Some show ?thesis
    by (simp add: upsert_service_image_def Let_def key_unique_def flip: row_def)
qed

text \<open>The rows that a payload stands for.\<close>

definition capability_rows :: "string \<Rightarrow> js_object \<Rightarrow> function_capability list" where
  "capability_rows d metadata = map (\<lambda>(f, cap). capability_row d f (the (decode_capability cap))) metadata"

lemma insert_capabilities_ok:
  assumes "find_image s d \<noteq> None" "distinct (map fst metadata)"
    "\<forall>(f, cap) \<in> set metadata. decode_capability cap \<noteq> None \<and> find_capability s d f = None"
  shows "insert_capabilities d metadata s =
     (Inr (capability_rows d metadata),
      s\<lparr>rg_function_capabilities := rg_function_capabilities s @ capability_rows d metadata\<rparr>)"
  using assms
proof (induction metadata arbitrary: s)
  case (Cons x rest)
  obtain f cap c where x: "x = (f, cap)" "decode_capability cap = Some c"
    using Cons.prems(3) by (cases x) auto
  define t where "t = s\<lparr>rg_function_capabilities := rg_function_capabilities s @ [capability_row d f c]\<rparr>"
  have first: "insert_function_capability d f cap s = (Inr (capability_row d f c), t)"
    using Cons.prems x by (auto simp: insert_function_capability_def t_def)
  have "find_capability t d g = None" if "(g, cap') \<in> set rest" for g cap'
  proof -
    have "g \<noteq> f" using that Cons.prems(2) x by force
    moreover have "find_capability s d g = None" using that Cons.prems(3) by auto
    ultimately show ?thesis by (auto simp: find_capability_None t_def capability_key_def)
  qed
  then have "insert_capabilities d rest t = (Inr (capability_rows d rest),
      t\<lparr>rg_function_capabilities := rg_function_capabilities t @ capability_rows d rest\<rparr>)"
    using Cons.prems by (intro Cons.IH) (auto simp: t_def)
  with x first show ?case by (simp add: tx_simps capability_rows_def t_def)
qed (simp add: capability_rows_def tx_simps)

text \<open>The state after a registration, and the payload it comes from.\<close>

definition registered ::
  "string \<Rightarrow> string \<Rightarrow> json \<Rightarrow> js_object \<Rightarrow> js_object \<Rightarrow> registry_db \<Rightarrow> registry_db" where
  "registered d ref spec hw metadata s =
     (let t = snd (upsert_service_image d ref spec hw s) in
      t\<lparr>rg_function_capabilities :=
         sql_delete (\<lambda>c. fc_digest c = d) (rg_function_capabilities s) @ capability_rows d metadata\<rparr>)"

definition payload ::
  "registration_input \<Rightarrow> string \<Rightarrow> string \<Rightarrow> json \<Rightarrow> js_object \<Rightarrow> js_object \<Rightarrow> bool" where
  "payload inp d ref spec hw metadata \<longleftrightarrow>
     in_digest inp = Some (JStr d) \<and> in_ociRef inp = Some (JStr ref) \<and> in_openapiSpec inp = Some spec
     \<and> or_empty_object (in_hardwareRequirements inp) = JObj hw
     \<and> or_empty_object (in_capabilityMetadata inp) = JObj metadata"

lemma registration_ok_payload:
  assumes "registration_ok (with_defaults inp)"
  obtains d ref spec hw metadata where "payload inp d ref spec hw metadata"
    "\<forall>(f, cap) \<in> set metadata. \<exists>c. decode_capability cap = Some c \<and> capability_wf c"
  using assms by (fastforce simp: registration_ok_def with_defaults_def payload_def nonempty_string_def
      split: option.splits json.splits)

lemma registerImage_valid:
  assumes p: "payload inp d ref spec hw metadata" and valid: "validateRegistration (with_defaults inp) = []"
    and "distinct (map fst metadata)"
    and "\<forall>(f, cap) \<in> set metadata. \<exists>c. decode_capability cap = Some c \<and> capability_wf c"
  shows "registerImage Healthy inp s =
     (Inr (d, (case find_image s d of None \<Rightarrow> Unverified | Some i \<Rightarrow> si_trustTier i)),
      registered d ref spec hw metadata s)"
proof -
  define t where "t = snd (upsert_service_image d ref spec hw s)"
  define row where "row = upserted_image d ref spec hw (rg_now s) (find_image s d)"
  define u where "u = t\<lparr>rg_function_capabilities :=
    sql_delete (\<lambda>c. fc_digest c = d) (rg_function_capabilities s)\<rparr>"
  have t: "upsert_service_image d ref spec hw s = (Inr [row], t)"
    by (metis t_def row_def upsert_sel(3) prod.collapse)
  have row: "si_digest row = d"
    "si_trustTier row = (case find_image s d of None \<Rightarrow> Unverified | Some i \<Rightarrow> si_trustTier i)"
    by (auto simp: row_def upserted_image_def find_image_digest split: option.split)
  have "find_image u d \<noteq> None" by (simp add: u_def t_def find_image_upsert)
  moreover have "find_capability u d f = None" for f
    by (auto simp: find_capability_None u_def table_simps capability_key_def)
  ultimately have "insert_capabilities d metadata u = (Inr (capability_rows d metadata),
      u\<lparr>rg_function_capabilities := rg_function_capabilities u @ capability_rows d metadata\<rparr>)"
    using assms(3,4) by (intro insert_capabilities_ok) auto
  with t row valid p show ?thesis
    by (simp add: registerImage_def Let_def with_defaults_def payload_def withRegistryTransaction_def
        withTransaction_def serviceImages_upsert_def functionCapabilities_replaceForDigest_def
        tx_simps registered_def u_def flip: t_def) (simp add: t_def tx_simps)
qed

lemma registered_sel:
  "find_image (registered d ref spec hw metadata s) d' =
     (if d' = d then Some (upserted_image d ref spec hw (rg_now s) (find_image s d)) else find_image s d')"
  "rg_function_capabilities (registered d ref spec hw metadata s) =
     sql_delete (\<lambda>c. fc_digest c = d) (rg_function_capabilities s) @ capability_rows d metadata"
  "rg_now (registered d ref spec hw metadata s) = rg_now s"
  by (simp_all add: registered_def Let_def find_image_upsert)

lemma capability_rows_in:
  "c \<in> set (capability_rows d metadata) \<longleftrightarrow>
     (\<exists>(f, cap) \<in> set metadata. c = capability_row d f (the (decode_capability cap)))"
  by (auto simp: capability_rows_def)

lemma insert_capabilities_fresh:
  assumes "insert_capabilities d metadata u = (Inr rows, t)"
  shows "distinct (map fst metadata) \<and> (\<forall>f \<in> fst ` set metadata. find_capability u d f = None)"
  using assms
proof (induction metadata arbitrary: u rows)
  case (Cons x rest)
  obtain f cap where x: "x = (f, cap)" by force
  obtain row v rows' where first: "insert_function_capability d f cap u = (Inr row, v)"
    and rest: "insert_capabilities d rest v = (Inr rows', t)"
    using Cons.prems x by (auto simp: tx_simps split: prod.splits sum.splits)
  from first have fresh: "find_capability u d f = None"
    and v: "rg_function_capabilities v = rg_function_capabilities u @ [row]" "capability_key row = (d, f)"
    by (auto simp: insert_function_capability_def capability_key_def split: option.splits if_splits)
  have "g \<noteq> f \<and> find_capability u d g = None" if "g \<in> fst ` set rest" for g
    using Cons.IH [OF rest] that v by (auto simp: find_capability_None)
  with fresh x Cons.IH [OF rest] show ?case by auto
qed simp

lemma registry_throws:
  "fst (withTransaction registry_rollback conn fn s) = Inl err \<Longrightarrow>
     snd (withTransaction registry_rollback conn fn s) = s"
  by (cases "withTransaction registry_rollback conn fn s") (auto dest: registry_store.throws_leave_tables)

text \<open>
  A registration throws or stores its payload. It throws for an invalid payload, for a
  connection that fails, and for a metadata object with a repeated name, which JavaScript
  does not have.
\<close>

lemma registerImage_cases:
  obtains (thrown) err where "registerImage conn inp s = (Inl err, s)"
  | (stored) d ref spec hw metadata tier where
      "registerImage conn inp s = (Inr (d, tier), registered d ref spec hw metadata s)" "conn = Healthy"
      "payload inp d ref spec hw metadata" "distinct (map fst metadata)"
      "\<forall>(f, cap) \<in> set metadata. \<exists>c. decode_capability cap = Some c \<and> capability_wf c"
      "tier = (case find_image s d of None \<Rightarrow> Unverified | Some i \<Rightarrow> si_trustTier i)"
proof (cases "fst (registerImage conn inp s)")
  case (Inl err)
  have "snd (registerImage conn inp s) = s"
    using Inl by (auto simp: registerImage_def Let_def withRegistryTransaction_def tx_throw_apply
        split: if_splits dest: registry_throws)
  with Inl thrown show ?thesis by (cases "registerImage conn inp s") auto
next
  case (Inr out)
  have valid: "validateRegistration (with_defaults inp) = []"
    by (rule ccontr) (use Inr in \<open>simp add: registerImage_def Let_def tx_simps\<close>)
  then have "registration_ok (with_defaults inp)" by (simp add: validateRegistration_Nil)
  then obtain d ref spec hw metadata where p: "payload inp d ref spec hw metadata"
    and typed: "\<forall>(f, cap) \<in> set metadata. \<exists>c. decode_capability cap = Some c \<and> capability_wf c"
    by (rule registration_ok_payload)
  obtain t where run: "registerImage conn inp s = (Inr out, t)"
    using Inr by (cases "registerImage conn inp s") simp
  have body: "conn = Healthy \<and> (\<exists>rows u. insert_capabilities d metadata u = (Inr rows, t))"
    using run valid p
    by (auto simp: registerImage_def Let_def with_defaults_def payload_def withRegistryTransaction_def
        registry_store.returns_commit functionCapabilities_replaceForDigest_def tx_simps
        split: prod.splits sum.splits)
  then have "conn = Healthy" "distinct (map fst metadata)" by (blast dest: insert_capabilities_fresh)+
  with registerImage_valid [OF p valid _ typed, of s] p typed show ?thesis by (intro stored) auto
qed

lemma registry_inv_registered:
  assumes "registry_inv s" "distinct (map fst metadata)"
    "\<forall>(f, cap) \<in> set metadata. \<exists>c. decode_capability cap = Some c \<and> capability_wf c"
  shows "registry_inv (registered d ref spec hw metadata s)"
proof -
  have "map capability_key (capability_rows d metadata) = map (\<lambda>(f, _). (d, f)) metadata"
    by (simp add: capability_rows_def capability_key_def case_prod_beta)
  then have "distinct (map capability_key (capability_rows d metadata))"
    using assms(2) by (simp add: distinct_map inj_on_def case_prod_beta)
  moreover have "capability_key x \<noteq> capability_key c"
    if "x \<in> set (sql_delete (\<lambda>c. fc_digest c = d) cs)" "c \<in> set (capability_rows d metadata)" for x c cs
    using that by (auto simp: table_simps capability_rows_in capability_key_def)
  moreover have "distinct (map capability_key (sql_delete (\<lambda>c. fc_digest c = d) (rg_function_capabilities s)))"
    using assms(1) key_unique_delete unfolding registry_inv_def key_unique_def by blast
  ultimately have "key_unique capability_key (rg_function_capabilities (registered d ref spec hw metadata s))"
    unfolding registered_sel key_unique_def map_append distinct_append by fastforce
  moreover have "key_unique si_digest (rg_service_images (registered d ref spec hw metadata s))"
    using assms(1) by (simp add: registered_def Let_def registry_inv_def key_unique_upsert)
  moreover have "find_image (registered d ref spec hw metadata s) (fc_digest c) \<noteq> None
      \<and> capability_wf (function_capability_input.truncate c)"
    if c: "c \<in> set (rg_function_capabilities (registered d ref spec hw metadata s))" for c
  proof (cases "c \<in> set (capability_rows d metadata)")
    case True
    then obtain f cap where "(f, cap) \<in> set metadata" "c = capability_row d f (the (decode_capability cap))"
      by (auto simp: capability_rows_in)
    with assms(3) show ?thesis by (auto simp: registered_sel)
  next
    case False
    with c assms(1) show ?thesis by (auto simp: registered_sel table_simps registry_inv_def)
  qed
  ultimately show ?thesis by (simp add: registry_inv_def)
qed

text \<open>\<open>recordTrustTier\<close>: an unknown tier and an unknown digest are refused.\<close>

definition with_tier :: "string \<Rightarrow> trust_tier \<Rightarrow> registry_db \<Rightarrow> registry_db" where
  "with_tier d tier s = s\<lparr>rg_service_images := sql_update (\<lambda>r. si_digest r = d)
     (\<lambda>r. r\<lparr>si_trustTier := tier, si_updatedAt := rg_now s\<rparr>) (rg_service_images s)\<rparr>"

lemma with_tier_sel:
  "find_image (with_tier d tier s) d' =
     map_option (\<lambda>r. if d' = d then r\<lparr>si_trustTier := tier, si_updatedAt := rg_now s\<rparr> else r) (find_image s d')"
  "rg_function_capabilities (with_tier d tier s) = rg_function_capabilities s"
proof -
  show "rg_function_capabilities (with_tier d tier s) = rg_function_capabilities s"
    by (simp add: with_tier_def)
  have "find_image (with_tier d tier s) d' = map_option
      (\<lambda>r. if si_digest r = d then r\<lparr>si_trustTier := tier, si_updatedAt := rg_now s\<rparr> else r) (find_image s d')"
    by (simp add: with_tier_def find_image_def first_row_select_update)
  also have "\<dots> = map_option (\<lambda>r. if d' = d then r\<lparr>si_trustTier := tier, si_updatedAt := rg_now s\<rparr> else r)
      (find_image s d')"
    by (cases "find_image s d'") (simp_all add: find_image_digest)
  finally show "find_image (with_tier d tier s) d' = \<dots>" .
qed

lemma with_tier_unknown: "find_image s d = None \<Longrightarrow> with_tier d tier s = s"
  by (simp add: with_tier_def find_image_None sql_update_none)

lemma recordTrustTier_cases:
  obtains (invalid) "recordTrustTier d tier s = (Inl (FatalError REGISTRY_TRUST_TIER_INVALID), s)"
      "\<nexists>t. tier = Some (JStr (trust_tier_name t))"
  | (unknown) "recordTrustTier d tier s = (Inl (FatalError REGISTRY_TRUST_TIER_UNKNOWN_DIGEST), s)"
      "find_image s d = None"
  | (recorded) t where "recordTrustTier d tier s = (Inr (d, t), with_tier d t s)"
      "tier = Some (JStr (trust_tier_name t))" "find_image s d \<noteq> None"
proof (cases "validateTrustTier tier = []")
  case False
  then show ?thesis using invalid by (auto simp: recordTrustTier_def tx_simps validateTrustTier_Nil)
next
  case True
  then obtain t where t: "tier = Some (JStr (trust_tier_name t))" by (auto simp: validateTrustTier_Nil)
  then have name: "named_by trust_tier_name TRUST_TIERS tier = Some t"
    by (simp add: named_by_Some TRUST_TIERS_sorted)
  have run: "recordTrustTier d tier s =
      (case find_image (with_tier d t s) d of
         None \<Rightarrow> (Inl (FatalError REGISTRY_TRUST_TIER_UNKNOWN_DIGEST), with_tier d t s)
       | Some i \<Rightarrow> (Inr (si_digest i, si_trustTier i), with_tier d t s))"
    using True name by (simp add: recordTrustTier_def serviceImages_updateTrustTier_def tx_simps
        split: option.split) (simp add: with_tier_def)
  show ?thesis
  proof (cases "find_image s d")
    case None
    with run unknown show ?thesis by (simp add: with_tier_sel with_tier_unknown)
  next
    case (Some i)
    with run t recorded find_image_digest [OF Some] show ?thesis by (simp add: with_tier_sel)
  qed
qed

lemma registry_inv_with_tier:
  assumes "registry_inv s"
  shows "registry_inv (with_tier d tier s)"
proof -
  have "key_unique si_digest (rg_service_images (with_tier d tier s))"
    using assms by (simp add: with_tier_def key_unique_update registry_inv_def)
  with assms show ?thesis by (auto simp: registry_inv_def with_tier_sel)
qed

subsection \<open>Histories of the registry\<close>

datatype registry_command =
    Register connection registration_input
  | Record_tier string "json option"
  | Clock int

fun exec_command :: "registry_command \<Rightarrow> registry_db \<Rightarrow> registry_db" where
  "exec_command (Register conn inp) s = snd (registerImage conn inp s)"
| "exec_command (Record_tier d tier) s = snd (recordTrustTier d tier s)"
| "exec_command (Clock t) s = s\<lparr>rg_now := t\<rparr>"

definition registry_after :: "registry_command list \<Rightarrow> registry_db" where
  "registry_after cmds =
     fold exec_command cmds \<lparr>rg_service_images = [], rg_function_capabilities = [], rg_now = 0\<rparr>"

lemma registry_after_snoc [simp]: "registry_after (cmds @ [c]) = exec_command c (registry_after cmds)"
  by (simp add: registry_after_def)

lemma registry_after_inv: "registry_inv (registry_after cmds)"
proof (induction cmds rule: rev_induct)
  case Nil
  show ?case by (simp add: registry_after_def registry_inv_def)
next
  case (snoc c cmds)
  show ?case
  proof (cases c)
    case (Register conn inp)
    with snoc show ?thesis
      by (cases rule: registerImage_cases [of conn inp "registry_after cmds"])
        (auto intro: registry_inv_registered)
  next
    case (Record_tier d tier)
    with snoc show ?thesis
      by (cases rule: recordTrustTier_cases [of d tier "registry_after cmds"])
        (auto intro: registry_inv_with_tier)
  next
    case (Clock t)
    with snoc show ?thesis by (auto simp: registry_inv_def find_image_def)
  qed
qed

text \<open>Reading an entry.\<close>

definition functions_of :: "registry_db \<Rightarrow> string \<Rightarrow> (string \<times> function_capability_input) list" where
  "functions_of s d = map (\<lambda>c. (fc_functionName c, function_capability_input.truncate c))
     (sort_key fc_functionName (sql_select (\<lambda>c. fc_digest c = d) (rg_function_capabilities s)))"

lemma digest_function_names:
  assumes "registry_inv s"
  shows "distinct (map fc_functionName (sql_select (\<lambda>c. fc_digest c = d) (rg_function_capabilities s)))"
proof -
  have "inj_on fc_functionName (set (sql_select (\<lambda>c. fc_digest c = d) (rg_function_capabilities s)))"
    using assms by (auto simp: registry_inv_def table_simps capability_key_def
        intro!: inj_onI dest: key_uniqueD)
  moreover have "distinct (sql_select (\<lambda>c. fc_digest c = d) (rg_function_capabilities s))"
    using assms by (simp add: registry_inv_def key_unique_def sql_select_def distinct_map)
  ultimately show ?thesis by (simp add: distinct_map)
qed

lemma getEntry_eq:
  assumes "registry_inv s"
  shows "getEntry d s =
    (Inr (map_option (\<lambda>i. service_image.extend i \<lparr>re_functions = functions_of s d\<rparr>) (find_image s d)), s)"
proof -
  let ?cs = "sort_key fc_functionName (sql_select (\<lambda>c. fc_digest c = d) (rg_function_capabilities s))"
  have "distinct (map fc_functionName ?cs)"
    using digest_function_names [OF assms] by (simp add: distinct_map)
  from fold_update_fresh [OF this, of "[]" function_capability_input.truncate]
  show ?thesis
    by (cases "find_image s d")
      (simp_all add: getEntry_def serviceImages_findByDigest_def functionCapabilities_listByDigest_def
        tx_simps functions_of_def)
qed

lemma map_of_functions:
  assumes "registry_inv s"
  shows "map_of (functions_of s d) f = map_option function_capability_input.truncate (find_capability s d f)"
proof -
  have "map_of (map (\<lambda>c. (fc_functionName c, function_capability_input.truncate c)) cs) f =
      map_option function_capability_input.truncate (first_row (sql_select (\<lambda>c. fc_functionName c = f) cs))" for cs
    by (induction cs) (auto simp: sql_select_def)
  note found = this
  define cs where "cs = sql_select (\<lambda>c. fc_digest c = d) (rg_function_capabilities s)"
  have "sql_select (\<lambda>c. fc_functionName c = f) (sort_key fc_functionName cs)
      = sql_select (\<lambda>c. fc_functionName c = f) cs"
    unfolding sql_select_def by (simp add: sort_key_stable)
  moreover have "sql_select (\<lambda>c. fc_functionName c = f) cs
      = sql_select (\<lambda>c. fc_digest c = d \<and> fc_functionName c = f) (rg_function_capabilities s)"
    by (simp add: cs_def sql_select_def conj_commute)
  ultimately show ?thesis
    by (simp add: functions_of_def found find_capability_def flip: cs_def)
qed

lemma select_by_key:
  "key_unique k t \<Longrightarrow> sql_select (\<lambda>r. k r = i) t =
     (case first_row (sql_select (\<lambda>r. k r = i) t) of None \<Rightarrow> [] | Some r \<Rightarrow> [r])"
proof (induction t)
  case (Cons x t)
  have "sql_select (\<lambda>r. k r = k x) t = []"
    using Cons.prems by (auto simp: sql_select_def key_unique_def filter_empty_conv) (metis image_eqI)
  with Cons show ?case by (auto simp: sql_select_def key_unique_def)
qed (simp add: sql_select_def)

lemma joined_facts_eq:
  assumes "registry_inv s"
  shows "first_row (joined_facts s d f) =
    (case find_image s d of None \<Rightarrow> None | Some i \<Rightarrow> map_option (Pair i) (find_capability s d f))"
proof -
  have "sql_select (\<lambda>i. si_digest i = d) (rg_service_images s)
      = (case find_image s d of None \<Rightarrow> [] | Some i \<Rightarrow> [i])"
    unfolding find_image_def by (rule select_by_key) (use assms in \<open>simp add: registry_inv_def\<close>)
  then show ?thesis
    by (cases "find_image s d")
      (simp_all add: joined_facts_def find_capability_def first_row_map find_image_digest)
qed

text \<open>What a registration leaves for the digest it is about, and for the others.\<close>

lemma find_capability_registered:
  "find_capability (registered d ref spec hw metadata s) d f =
     map_option (\<lambda>cap. capability_row d f (the (decode_capability cap))) (js_get metadata f)"
proof -
  have "sql_select (\<lambda>c. fc_digest c = d \<and> fc_functionName c = f)
      (sql_delete (\<lambda>c. fc_digest c = d) (rg_function_capabilities s)) = []"
    by (auto simp: sql_select_def sql_delete_def filter_empty_conv)
  moreover have "first_row (sql_select (\<lambda>c. fc_digest c = d \<and> fc_functionName c = f)
      (capability_rows d metadata)) =
      map_option (\<lambda>cap. capability_row d f (the (decode_capability cap))) (map_of metadata f)"
    by (induction metadata) (auto simp: capability_rows_def sql_select_def)
  ultimately show ?thesis
    by (simp add: find_capability_def registered_sel sql_select_append js_get_def)
qed

lemma getEntry_registered_other:
  assumes "registry_inv s" "registry_inv (registered d ref spec hw metadata s)" "d' \<noteq> d"
  shows "fst (getEntry d' (registered d ref spec hw metadata s)) = fst (getEntry d' s)"
proof -
  have "sql_select (\<lambda>c. fc_digest c = d') (capability_rows d metadata) = []"
    using assms(3) by (auto simp: sql_select_def capability_rows_def filter_empty_conv)
  moreover have "sql_select (\<lambda>c. fc_digest c = d') (sql_delete (\<lambda>c. fc_digest c = d) cs)
      = sql_select (\<lambda>c. fc_digest c = d') cs" for cs :: "function_capability list"
    using assms(3) by (intro sql_select_delete) auto
  ultimately show ?thesis
    unfolding getEntry_eq [OF assms(1)] getEntry_eq [OF assms(2)]
    using assms(3) by (simp add: functions_of_def registered_sel sql_select_append)
qed

text \<open>How one command can come to leave an image above the lowest tier.\<close>

lemma tier_after_command:
  assumes "find_image (exec_command c s) d = Some i" "si_trustTier i \<noteq> Unverified"
  obtains (kept) j where "find_image s d = Some j" "si_trustTier j = si_trustTier i"
      "\<forall>t. c \<noteq> Record_tier d (Some (JStr (trust_tier_name t)))"
  | (recorded) "c = Record_tier d (Some (JStr (trust_tier_name (si_trustTier i))))" "find_image s d \<noteq> None"
proof (cases c)
  case (Register conn inp)
  then show ?thesis using assms kept
    by (cases rule: registerImage_cases [of conn inp s])
      (auto simp: registered_sel upserted_image_def split: if_splits option.splits)
next
  case (Clock t)
  with assms kept show ?thesis by (auto simp: find_image_def)
next
  case (Record_tier d' tier)
  show ?thesis
  proof (cases rule: recordTrustTier_cases [of d' tier s])
    case (recorded t)
    show ?thesis
    proof (cases "d' = d")
      case True
      with recorded Record_tier assms(1) have "si_trustTier i = t" by (auto simp: with_tier_sel)
      with True recorded Record_tier that(2) show ?thesis by simp
    next
      case False
      with recorded Record_tier assms(1) that(1) show ?thesis by (auto simp: with_tier_sel)
    qed
  next
    case unknown
    with Record_tier assms(1) have "find_image s d = Some i" "d' \<noteq> d" by auto
    with Record_tier that(1) show ?thesis by blast
  next
    case invalid
    with Record_tier assms(1) that(1) [of i] show ?thesis by auto
  qed
qed

subsection \<open>A registered image\<close>

definition sample_capability :: json where
  "sample_capability = JObj
     [(''mutates'', JBool False), (''materializationCostClass'', JStr ''heavy''), (''cowSupport'', JBool True),
      (''changeDetectionSupport'', JBool False), (''nestingDeclaration'', JNull),
      (''invocationDescriptor'', JArr
        [JObj [(''param'', JStr ''data''), (''style'', JStr ''flag''), (''flagName'', JStr ''--in'')]]),
      (''stateReuse'', JStr ''stateIdKeyed''), (''additiveWarmUpdate'', JBool True)]"

definition sample_openapi :: json where
  "sample_openapi = JObj [(''paths'', JObj [(''/f'', JObj [(''post'', JObj [(''operationId'', JStr ''f'')])])])]"

definition sample_registration :: registration_input where
  "sample_registration = \<lparr>in_digest = Some (JStr ''sha256:1''), in_ociRef = Some (JStr ''reg/svc''),
     in_openapiSpec = Some sample_openapi,
     in_capabilityMetadata = Some (JObj [(''f'', sample_capability)]), in_hardwareRequirements = None\<rparr>"

definition sample_commands :: "registry_command list" where
  "sample_commands = [Register Healthy sample_registration,
     Record_tier ''sha256:1'' (Some (JStr ''production-proven''))]"

lemma sample_registry:
  "validateRegistration (with_defaults sample_registration) = []"
  "fst (registerImage Healthy sample_registration (registry_after [])) = Inr (''sha256:1'', Unverified)"
  "map_option si_trustTier (find_image (registry_after sample_commands) ''sha256:1'') = Some ProductionProven"
  by code_simp+

subsection \<open>The properties\<close>

text \<open>C31. A registration is accepted exactly when its payload is well typed: the digest and the
  reference are non-empty strings, the specification is an object or an array, the hardware
  requirements are an object (an absent map counts as an empty one), and every function has a
  non-empty name that the specification declares and metadata that decodes to a capability whose
  fields agree with each other. Any other payload is refused with
  the registry's validation error, and whatever is thrown leaves the registry as it was.\<close>

theorem registration_accepted_iff_well_typed:
  assumes "json_wf (or_empty_object (in_capabilityMetadata inp))"
  shows "((\<exists>out s'. registerImage Healthy inp s = (Inr out, s')) \<longleftrightarrow> registration_ok (with_defaults inp))
    \<and> (registration_ok (with_defaults inp)
       \<or> registerImage conn inp s = (Inl (FatalError REGISTRY_VALIDATION_FAILED), s))
    \<and> (fst (registerImage conn inp s) = Inl err \<longrightarrow> snd (registerImage conn inp s) = s)"
proof (cases "registration_ok (with_defaults inp)")
  case True
  then obtain d ref spec hw metadata where p: "payload inp d ref spec hw metadata"
    and typed: "\<forall>(f, cap) \<in> set metadata. \<exists>c. decode_capability cap = Some c \<and> capability_wf c"
    by (rule registration_ok_payload)
  have "distinct (map fst metadata)" using assms p by (simp add: payload_def)
  with True p typed have "\<exists>out s'. registerImage Healthy inp s = (Inr out, s')"
    using registerImage_valid [of inp d ref spec hw metadata s] by (simp add: validateRegistration_Nil)
  with True show ?thesis
    by (cases rule: registerImage_cases [of conn inp s]) auto
next
  case False
  then have "validateRegistration (with_defaults inp) \<noteq> []" by (simp add: validateRegistration_Nil)
  then have "registerImage c inp s = (Inl (FatalError REGISTRY_VALIDATION_FAILED), s)" for c
    by (simp add: registerImage_def tx_simps)
  with False show ?thesis by simp
qed

lemma registration_accepted_iff_well_typed_witness:
  "(\<exists>out s'. registerImage Healthy sample_registration (registry_after []) = (Inr out, s'))
     \<and> registration_ok (with_defaults sample_registration)"
proof -
  have "json_wf (or_empty_object (in_capabilityMetadata sample_registration))"
    by (simp add: sample_registration_def sample_capability_def)
  from registration_accepted_iff_well_typed [OF this, of "registry_after []"] sample_registry(2)
  show ?thesis by (metis prod.collapse)
qed

text \<open>C32. A registered image reads back as it was registered: after any history, the entry of the
  digest holds the reference, the specification and the hardware requirements of the payload,
  the tier that the registration answered, and by name exactly the functions of the payload,
  decoded; entries of other digests read as before.\<close>

theorem registered_image_is_read_back:
  assumes "registerImage conn inp (registry_after cmds) = (Inr (d, tier), s')"
  shows "\<exists>ref spec hw metadata e. payload inp d ref spec hw metadata
    \<and> getEntry d s' = (Inr (Some e), s') \<and> si_ociRef e = ref \<and> si_openapiSpec e = spec
    \<and> si_hardwareRequirements e = hw \<and> si_trustTier e = tier \<and> sorted (map fst (re_functions e))
    \<and> (\<forall>f. map_of (re_functions e) f = Option.bind (js_get metadata f) decode_capability)
    \<and> (\<forall>d'. d' \<noteq> d \<longrightarrow> fst (getEntry d' s') = fst (getEntry d' (registry_after cmds)))"
proof -
  define s where "s = registry_after cmds"
  have inv: "registry_inv s" by (simp add: s_def registry_after_inv)
  from assms obtain ref spec hw metadata where s': "s' = registered d ref spec hw metadata s"
    and p: "payload inp d ref spec hw metadata" and names: "distinct (map fst metadata)"
    and typed: "\<forall>(f, cap) \<in> set metadata. \<exists>c. decode_capability cap = Some c \<and> capability_wf c"
    and tier: "tier = (case find_image s d of None \<Rightarrow> Unverified | Some i \<Rightarrow> si_trustTier i)"
    by (cases rule: registerImage_cases [of conn inp s]) (auto simp: s_def)
  have inv': "registry_inv s'" using registry_inv_registered [OF inv names typed] s' by simp
  define i where "i = upserted_image d ref spec hw (rg_now s) (find_image s d)"
  have image: "find_image s' d = Some i" by (simp add: s' registered_sel i_def)
  have caps: "find_capability s' d f = map_option (\<lambda>cap. capability_row d f (the (decode_capability cap)))
      (js_get metadata f)" for f
    by (simp add: s' find_capability_registered)
  have decoded: "\<exists>c. decode_capability cap = Some c" if "js_get metadata f = Some cap" for f cap
    using that typed by (auto simp: js_get_def dest!: map_of_SomeD)
  have fns: "map_of (functions_of s' d) f = Option.bind (js_get metadata f) decode_capability" for f
    by (cases "js_get metadata f") (fastforce simp: map_of_functions [OF inv'] caps dest: decoded)+
  have other: "fst (getEntry d' s') = fst (getEntry d' s)" if "d' \<noteq> d" for d'
    using getEntry_registered_other [OF inv] inv' that by (simp add: s')
  show ?thesis
  proof (intro exI conjI allI impI)
    show "getEntry d s' = (Inr (Some (service_image.extend i \<lparr>re_functions = functions_of s' d\<rparr>)), s')"
      by (simp add: getEntry_eq [OF inv'] image)
  qed (use p tier fns other in \<open>auto simp: service_image.defs i_def upserted_image_def
        functions_of_def comp_def s_def split: option.split\<close>)
qed

lemma registered_image_is_read_back_witness:
  "\<exists>e s'. getEntry ''sha256:1'' s' = (Inr (Some e), s') \<and> si_ociRef e = ''reg/svc''
     \<and> map_of (re_functions e) ''f'' = decode_capability sample_capability
     \<and> map_of (re_functions e) ''g'' = None"
proof -
  obtain s' where run: "registerImage Healthy sample_registration (registry_after []) = (Inr (''sha256:1'', Unverified), s')"
    using sample_registry(2) by (metis prod.collapse)
  from registered_image_is_read_back [OF this] obtain ref spec hw metadata e where
    e: "payload sample_registration ''sha256:1'' ref spec hw metadata" "getEntry ''sha256:1'' s' = (Inr (Some e), s')"
      "si_ociRef e = ref" "\<forall>f. map_of (re_functions e) f = Option.bind (js_get metadata f) decode_capability"
    by (elim exE conjE) (rule that; assumption)
  have "ref = ''reg/svc''" "metadata = [(''f'', sample_capability)]"
    using e(1) by (simp_all add: payload_def sample_registration_def)
  with e(2-4) show ?thesis by (intro exI [of _ e] exI [of _ s']) (simp add: js_get_def)
qed

lemma tier_after_registration:
  "case find_image (exec_command (Register conn inp) s) d of
     None \<Rightarrow> find_image s d = None
   | Some j \<Rightarrow> si_trustTier j = (case find_image s d of None \<Rightarrow> Unverified | Some i \<Rightarrow> si_trustTier i)"
  by (cases rule: registerImage_cases [of conn inp s])
    (auto simp: registered_sel upserted_image_def split: if_splits option.splits)

lemma earned_tier:
  assumes "find_image (registry_after cmds) d = Some i" "si_trustTier i \<noteq> Unverified"
  shows "\<exists>before later.
    cmds = before @ Record_tier d (Some (JStr (trust_tier_name (si_trustTier i)))) # later
    \<and> find_image (registry_after before) d \<noteq> None
    \<and> (\<forall>t. Record_tier d (Some (JStr (trust_tier_name t))) \<notin> set later)"
  using assms
proof (induction cmds arbitrary: i rule: rev_induct)
  case Nil
  then show ?case by (simp add: registry_after_def find_image_def sql_select_def)
next
  case (snoc c cmds)
  from snoc.prems have "find_image (exec_command c (registry_after cmds)) d = Some i" by simp
  then show ?case using snoc.prems(2)
  proof (cases rule: tier_after_command)
    case (kept j)
    with snoc.IH [OF kept(1)] snoc.prems(2) obtain before later where
      "cmds = before @ Record_tier d (Some (JStr (trust_tier_name (si_trustTier i)))) # later"
      "find_image (registry_after before) d \<noteq> None"
      "\<forall>t. Record_tier d (Some (JStr (trust_tier_name t))) \<notin> set later" by auto
    with kept(3) show ?thesis by (intro exI [of _ before] exI [of _ "later @ [c]"]) auto
  next
    case recorded
    then show ?thesis by (intro exI [of _ cmds] exI [of _ "[]"]) auto
  qed
qed

text \<open>C33. Trust is earned through \<open>recordTrustTier\<close> only. After any history of registrations and
  tier records, a registration that follows, successful or not, leaves every registered image
  registered with the tier it had, and an image that it adds is unverified. And an image above
  the lowest tier was given that tier by a record for its digest that came when the image was
  registered, and no later record named a tier for it.\<close>

theorem trust_is_earned:
  "(case find_image (registry_after (cmds @ [Register conn inp])) d of
      None \<Rightarrow> find_image (registry_after cmds) d = None
    | Some j \<Rightarrow> si_trustTier j =
        (case find_image (registry_after cmds) d of None \<Rightarrow> Unverified | Some i \<Rightarrow> si_trustTier i))
   \<and> (find_image (registry_after cmds) d = Some i \<and> si_trustTier i \<noteq> Unverified \<longrightarrow>
      (\<exists>before later.
        cmds = before @ Record_tier d (Some (JStr (trust_tier_name (si_trustTier i)))) # later
        \<and> find_image (registry_after before) d \<noteq> None
        \<and> (\<forall>t. Record_tier d (Some (JStr (trust_tier_name t))) \<notin> set later)))"
  using tier_after_registration [where s = "registry_after cmds" and conn = conn and inp = inp and d = d] earned_tier [of cmds d i] by simp

lemma trust_is_earned_witness:
  "(\<exists>before later. sample_commands
      = before @ Record_tier ''sha256:1'' (Some (JStr ''production-proven'')) # later
    \<and> find_image (registry_after before) ''sha256:1'' \<noteq> None)
   \<and> (\<exists>j. find_image (registry_after (sample_commands @ [hd sample_commands])) ''sha256:1'' = Some j
       \<and> si_trustTier j = ProductionProven)"
proof -
  obtain i where i: "find_image (registry_after sample_commands) ''sha256:1'' = Some i"
    "si_trustTier i = ProductionProven" using sample_registry(3) by auto
  obtain conn inp where first: "hd sample_commands = Register conn inp" by (simp add: sample_commands_def)
  note trust_is_earned [where cmds = sample_commands and conn = conn and inp = inp and d = "''sha256:1''" and i = i]
  with i first show ?thesis by (auto split: option.splits)
qed

text \<open>The scheduler's joined read agrees with the entry that authors see: after any history,
  the placement facts of a function are its capability as the digest's entry lists it, with the
  tier and the hardware requirements of that entry, and there are none exactly when the digest
  is not registered or its entry does not list the function.\<close>

theorem placement_facts_agree_with_entry:
  "getPlacementFacts d f (registry_after cmds) =
     (Inr (case fst (getEntry d (registry_after cmds)) of
             Inr (Some e) \<Rightarrow> map_option (\<lambda>c.
               \<lparr>pf_digest = d, pf_function = f, pf_capability = c, pf_trustTier = si_trustTier e,
                pf_hardwareRequirements = si_hardwareRequirements e\<rparr>) (map_of (re_functions e) f)
           | _ \<Rightarrow> None), registry_after cmds)"
proof -
  have found: "fc_digest c = d \<and> fc_functionName c = f"
    if "find_capability (registry_after cmds) d f = Some c" for c
    using first_row_in [OF that [unfolded find_capability_def]] by (simp add: table_simps)
  note inv = registry_after_inv [of cmds]
  show ?thesis
    by (cases "find_image (registry_after cmds) d"; cases "find_capability (registry_after cmds) d f")
      (auto simp: getPlacementFacts_def joined_facts_eq [OF inv] getEntry_eq [OF inv]
        map_of_functions [OF inv] tx_simps service_image.defs found)
qed

end
