(* ===== verification/Compile.thy ===== *)
theory Compile
  imports Spec_Schema Semantic_Validation Registry_Properties
begin

text \<open>
  \<open>dsl-compiler/\<close>: from authoring input to an execution plan, in four stages (the restricted-YAML
  profile, the JSON schema, the reference rules, the registry), each of which stops the compiler
  with its errors. Two libraries are parameters: \<open>yaml\<close> gives, for a source text, its parse
  errors, the nodes that \<open>visit\<close> reaches and the plain value of \<open>toJS\<close>; \<open>ajv\<close> is the outcome of the
  compiled schema on a value. The registry is the store of the registry theories.
\<close>

subsection \<open>The restricted YAML profile (\<open>restricted-yaml.ts\<close>)\<close>

text \<open>
  A visited node: its anchor, source (of an alias) and tag, and the keys of its pairs when it is a
  map (the value of a scalar key). \<open>None\<close> in the list of nodes is a null node.
\<close>

record yaml_node =
  yn_anchor :: "string option"
  yn_alias :: "string option"
  yn_tag :: "string option"
  yn_keys :: "json option list"

record yaml_document =
  yd_errors :: "string list"
  yd_nodes :: "yaml_node option list"
  yd_toJS :: json

definition YAML_MERGE_KEY :: string where
  "YAML_MERGE_KEY = ''<<''"

definition WHOLE_DOCUMENT_ERROR_PATH :: string where
  "WHOLE_DOCUMENT_ERROR_PATH = ''''"

definition restrictedYamlError :: "string \<Rightarrow> compile_error" where
  "restrictedYamlError message =
     \<lparr>err_code = restricted_yaml_violation, err_path = WHOLE_DOCUMENT_ERROR_PATH, err_message = message\<rparr>"

definition violation :: "string \<Rightarrow> string \<Rightarrow> compile_error" where
  "violation what name = restrictedYamlError
     (''Restricted-YAML profile violation: '' @ what @ '' '' @ quoted name @ '' is not allowed (D8a).'')"

text \<open>A property that is present and truthy.\<close>

definition truthy :: "string option \<Rightarrow> string list" where
  "truthy v = (case v of Some (c # cs) \<Rightarrow> [c # cs] | _ \<Rightarrow> [])"

definition node_violations :: "yaml_node \<Rightarrow> compile_error list" where
  "node_violations n =
     map (\<lambda>a. violation ''anchor'' (''&'' @ a)) (truthy (yn_anchor n))
     @ (case yn_alias n of None \<Rightarrow> [] | Some a \<Rightarrow> [violation ''alias'' (''*'' @ a)])
     @ map (violation ''custom tag'') (truthy (yn_tag n))
     @ map (\<lambda>_. violation ''merge key'' YAML_MERGE_KEY) (filter (\<lambda>k. k = Some (JStr YAML_MERGE_KEY)) (yn_keys n))"

definition findRestrictedProfileViolations :: "yaml_document \<Rightarrow> compile_error list" where
  "findRestrictedProfileViolations doc =
     concat (map (\<lambda>n. case n of None \<Rightarrow> [] | Some n \<Rightarrow> node_violations n) (yd_nodes doc))"

definition parseRestrictedYaml :: "(string \<Rightarrow> yaml_document) \<Rightarrow> string \<Rightarrow> compile_error list + json" where
  "parseRestrictedYaml yaml source =
     (let doc = yaml source in
      if length (yd_errors doc) > 0
      then Inl (map (\<lambda>m. restrictedYamlError (''YAML parse error: '' @ m)) (yd_errors doc))
      else let violations = findRestrictedProfileViolations doc in
           if length violations > 0 then Inl violations else Inr (yd_toJS doc))"

subsection \<open>The schema (\<open>workflow-spec/validate.ts\<close>)\<close>

datatype ajv_outcome =
    AjvValid
  | AjvInvalid "(string \<times> string option) list option"
  | AjvRangeError
  | AjvThrows string

record validation_error =
  ve_path :: string
  ve_message :: string

definition toValidationError :: "string \<times> string option \<Rightarrow> validation_error" where
  "toValidationError e =
     \<lparr>ve_path = fst e, ve_message = nullish (snd e) ''Schema validation failed with no message.''\<rparr>"

text \<open>\<open>{ valid, errors }\<close> is the pair; an exception that is no \<open>RangeError\<close> is thrown on.\<close>

definition validate_spec :: "(json \<Rightarrow> ajv_outcome) \<Rightarrow> json \<Rightarrow> (bool \<times> validation_error list) result" where
  "validate_spec ajv doc =
     (case ajv doc of
        AjvRangeError \<Rightarrow> Inr (False, [\<lparr>ve_path = '''',
          ve_message = ''workflow-spec.validate.max_nesting_depth_exceeded: document exceeds the maximum supported binding-nesting depth''\<rparr>])
      | AjvThrows e \<Rightarrow> Inl (HostError e)
      | AjvValid \<Rightarrow> Inr (True, [])
      | AjvInvalid errors \<Rightarrow> Inr (False, map toValidationError (nullish errors [])))"

subsection \<open>The registry check (\<open>registry-validation.ts\<close>)\<close>

text \<open>\<open>service.slice(service.indexOf("@") + 1)\<close>: the whole text when there is no \<open>@\<close>.\<close>

definition digestFromServiceRef :: "string \<Rightarrow> string" where
  "digestFromServiceRef service =
     (case cut_at (CHR ''@'') service of (_, Some d) \<Rightarrow> d | (_, None) \<Rightarrow> service)"

definition collectAllSteps :: "workflow_spec \<Rightarrow> step list" where
  "collectAllSteps spec =
     walkNodes (spec_steps spec) [] (empty_visitor\<lparr>onStep := (\<lambda>s _ steps. steps @ [s])\<rparr>) []"

type_synonym entry_cache = "(string \<times> registry_entry option) list"

definition getEntryCached :: "string \<Rightarrow> entry_cache \<Rightarrow> (registry_entry option \<times> entry_cache) registry_tx" where
  "getEntryCached digest cache =
     (case map_of cache digest of
        Some entry \<Rightarrow> tx_return (entry, cache)
      | None \<Rightarrow> tx_bind (getEntry digest) (\<lambda>entry. tx_return (entry, cache @ [(digest, entry)])))"

definition service_errors :: "step \<Rightarrow> registry_entry option \<Rightarrow> compile_error list" where
  "service_errors s entry =
     (let digest = digestFromServiceRef (step_service s) in
      case entry of
        None \<Rightarrow> [\<lparr>err_code = unknown_service_digest, err_path = step_id s,
          err_message = ''Step '' @ quoted (step_id s) @ '' references service digest '' @ quoted digest
            @ '', which is not registered in the service registry.''\<rparr>]
      | Some e \<Rightarrow>
          if step_function s \<notin> fst ` set (re_functions e)
          then [\<lparr>err_code = unknown_service_function, err_path = step_id s,
            err_message = ''Step '' @ quoted (step_id s) @ '' references function '' @ quoted (step_function s)
              @ '' on digest '' @ quoted digest @ '', which declares no such function.''\<rparr>]
          else [])"

fun validate_services :: "step list \<Rightarrow> entry_cache \<Rightarrow> compile_error list registry_tx" where
  "validate_services [] cache = tx_return []"
| "validate_services (s # steps) cache =
     tx_bind (getEntryCached (digestFromServiceRef (step_service s)) cache) (\<lambda>(entry, cache').
     tx_bind (validate_services steps cache') (\<lambda>errors.
       tx_return (service_errors s entry @ errors)))"

definition validateServiceReferences :: "workflow_spec \<Rightarrow> compile_error list registry_tx" where
  "validateServiceReferences spec = validate_services (collectAllSteps spec) []"

subsection \<open>The compiler (\<open>compile.ts\<close>)\<close>

datatype compile_result = Compiled workflow_spec | Rejected "compile_error list"

definition schema_error :: "validation_error \<Rightarrow> compile_error" where
  "schema_error e = \<lparr>err_code = schema_invalid, err_path = ve_path e, err_message = ve_message e\<rparr>"

text \<open>
  The stages after the input has become a value. \<open>doc as WorkflowSpec\<close> is the typed view of the
  value, which exists when \<open>ajv\<close> follows the schema.
\<close>

definition compile_document :: "(json \<Rightarrow> ajv_outcome) \<Rightarrow> json \<Rightarrow> compile_result registry_tx" where
  "compile_document ajv doc =
     tx_bind (tx_lift (validate_spec ajv doc)) (\<lambda>(valid, errors).
       if \<not> valid then tx_return (Rejected (map schema_error errors))
       else let spec = the (read_workflow_spec doc); semanticErrors = validateStepReferences spec in
            if length semanticErrors > 0 then tx_return (Rejected semanticErrors)
            else tx_bind (validateServiceReferences spec) (\<lambda>registryErrors.
                   if length registryErrors > 0 then tx_return (Rejected registryErrors)
                   else tx_return (Compiled spec)))"

definition compile ::
  "(string \<Rightarrow> yaml_document) \<Rightarrow> (json \<Rightarrow> ajv_outcome) \<Rightarrow> json \<Rightarrow> compile_result registry_tx" where
  "compile yaml ajv input =
     (case input of
        JStr source \<Rightarrow>
          (case parseRestrictedYaml yaml source of
             Inl errors \<Rightarrow> tx_return (Rejected errors)
           | Inr doc \<Rightarrow> compile_document ajv doc)
      | doc \<Rightarrow> compile_document ajv doc)"

end
