(* ===== verification/Compile_Properties.thy ===== *)
theory Compile_Properties
  imports Compile
begin

text \<open>
  What the compiler accepts: the four stages as one condition on the document and the registry,
  what a compiled workflow can rely on when it runs, and the lookups that the cache saves.
\<close>

subsection \<open>The steps of a document\<close>

lemma collectAllSteps_visits: "collectAllSteps spec = concat (map visit_step (node_visits (spec_steps spec) []))"
proof -
  have "fold (run_visit (empty_visitor\<lparr>onStep := (\<lambda>s _ steps. steps @ [s])\<rparr>)) vs acc = acc @ concat (map visit_step vs)"
    for vs acc
  proof (induction vs arbitrary: acc)
    case (Cons v vs)
    then show ?case by (cases v) (simp_all add: empty_visitor_def)
  qed simp
  then show ?thesis by (simp add: collectAllSteps_def walk_fold)
qed

lemma set_collectAllSteps: "st \<in> set (collectAllSteps spec) \<longleftrightarrow> occurs_in st (spec_steps spec)"
proof -
  have "st \<in> set (collectAllSteps spec) \<longleftrightarrow> (\<exists>sc. VStep st sc \<in> set (node_visits (spec_steps spec) []))"
  proof -
    have "st \<in> set (visit_step v) \<longleftrightarrow> (\<exists>sc. v = VStep st sc)" for v by (cases v) auto
    then show ?thesis by (auto simp: collectAllSteps_visits)
  qed
  then show ?thesis using occurs_visited visited_occurs(1) by blast
qed

subsection \<open>The registry check without its cache\<close>

definition entry_at :: "registry_db \<Rightarrow> string \<Rightarrow> registry_entry option" where
  "entry_at s d = map_option (\<lambda>i. service_image.extend i \<lparr>re_functions = functions_of s d\<rparr>) (find_image s d)"

lemma validate_services_eq:
  assumes "registry_inv s" "\<forall>(d, e) \<in> set cache. e = entry_at s d"
  shows "validate_services steps cache s =
     (Inr (concat (map (\<lambda>st. service_errors st (entry_at s (digestFromServiceRef (step_service st)))) steps)), s)"
  using assms(2)
proof (induction steps arbitrary: cache)
  case (Cons st steps)
  let ?d = "digestFromServiceRef (step_service st)"
  obtain cache' where "getEntryCached ?d cache s = (Inr (entry_at s ?d, cache'), s)"
    "\<forall>(d, e) \<in> set cache'. e = entry_at s d"
  proof (cases "map_of cache ?d")
    case None
    with Cons.prems that show ?thesis
      by (simp add: getEntryCached_def tx_simps getEntry_eq [OF assms(1)] entry_at_def)
  next
    case (Some e)
    with Cons.prems have "e = entry_at s ?d" by (auto dest: map_of_SomeD)
    with Some Cons.prems that show ?thesis by (simp add: getEntryCached_def tx_simps)
  qed
  with Cons.IH show ?case by (simp add: tx_simps)
qed (simp add: tx_simps)

lemma validateServiceReferences_eq:
  "registry_inv s \<Longrightarrow> validateServiceReferences spec s =
     (Inr (concat (map (\<lambda>st. service_errors st (entry_at s (digestFromServiceRef (step_service st))))
        (collectAllSteps spec))), s)"
  by (simp add: validateServiceReferences_def validate_services_eq)

text \<open>The function of a step is registered under the digest of its service.\<close>

definition step_registered :: "registry_db \<Rightarrow> step \<Rightarrow> bool" where
  "step_registered s st \<longleftrightarrow>
     find_image s (digestFromServiceRef (step_service st)) \<noteq> None
     \<and> find_capability s (digestFromServiceRef (step_service st)) (step_function st) \<noteq> None"

lemma service_errors_Nil:
  assumes "registry_inv s"
  shows "service_errors st (entry_at s (digestFromServiceRef (step_service st))) = [] \<longleftrightarrow> step_registered s st"
proof -
  have "f \<in> fst ` set (functions_of s d) \<longleftrightarrow> find_capability s d f \<noteq> None" for f d
  proof -
    have "f \<in> fst ` set (functions_of s d) \<longleftrightarrow> map_of (functions_of s d) f \<noteq> None"
      by (simp add: map_of_eq_None_iff)
    then show ?thesis by (simp add: map_of_functions [OF assms])
  qed
  then show ?thesis
    by (cases "find_image s (digestFromServiceRef (step_service st))")
      (simp_all add: service_errors_def entry_at_def step_registered_def service_image.defs)
qed

lemma validateServiceReferences_Nil:
  assumes "registry_inv s"
  shows "validateServiceReferences spec s = (Inr [], s)
    \<longleftrightarrow> (\<forall>st. occurs_in st (spec_steps spec) \<longrightarrow> step_registered s st)"
  by (auto simp: validateServiceReferences_eq [OF assms] service_errors_Nil [OF assms]
      simp flip: set_collectAllSteps)

subsection \<open>The stages\<close>

text \<open>A source text that the restricted profile allows.\<close>

definition plain_yaml :: "yaml_document \<Rightarrow> bool" where
  "plain_yaml doc \<longleftrightarrow> yd_errors doc = []
     \<and> (\<forall>n. Some n \<in> set (yd_nodes doc) \<longrightarrow>
          truthy (yn_anchor n) = [] \<and> yn_alias n = None \<and> truthy (yn_tag n) = []
          \<and> Some (JStr ''<<'') \<notin> set (yn_keys n))"

lemma node_violations_Nil:
  "node_violations n = [] \<longleftrightarrow> truthy (yn_anchor n) = [] \<and> yn_alias n = None \<and> truthy (yn_tag n) = []
     \<and> Some (JStr ''<<'') \<notin> set (yn_keys n)"
  by (auto simp: node_violations_def YAML_MERGE_KEY_def filter_empty_conv split: option.splits)

lemma parseRestrictedYaml_Inr:
  "parseRestrictedYaml yaml source = Inr doc \<longleftrightarrow> plain_yaml (yaml source) \<and> doc = yd_toJS (yaml source)"
proof -
  have "findRestrictedProfileViolations d = [] \<longleftrightarrow>
      (\<forall>n. Some n \<in> set (yd_nodes d) \<longrightarrow> node_violations n = [])" for d
    by (force simp: findRestrictedProfileViolations_def split: option.splits)
  then show ?thesis
    by (auto simp: parseRestrictedYaml_def Let_def plain_yaml_def node_violations_Nil)
qed

text \<open>The value that the later stages see.\<close>

definition source_value :: "(string \<Rightarrow> yaml_document) \<Rightarrow> json \<Rightarrow> json option" where
  "source_value yaml input =
     (case input of
        JStr source \<Rightarrow> if plain_yaml (yaml source) then Some (yd_toJS (yaml source)) else None
      | doc \<Rightarrow> Some doc)"

text \<open>\<open>ajv\<close> accepts the documents that conform to the schema.\<close>

definition follows_schema :: "(json \<Rightarrow> ajv_outcome) \<Rightarrow> bool" where
  "follows_schema ajv \<longleftrightarrow> (\<forall>doc. ajv doc = AjvValid \<longleftrightarrow> read_workflow_spec doc \<noteq> None)"

lemma compile_source:
  "compile yaml ajv input s = (Inr (Compiled w), t) \<longleftrightarrow>
     (\<exists>doc. source_value yaml input = Some doc \<and> compile_document ajv doc s = (Inr (Compiled w), t))"
proof (cases "\<exists>source. input = JStr source")
  case True
  then obtain source where [simp]: "input = JStr source" by blast
  show ?thesis
  proof (cases "parseRestrictedYaml yaml source")
    case (Inl errors)
    then have "\<not> plain_yaml (yaml source)"
      using parseRestrictedYaml_Inr [of yaml source "yd_toJS (yaml source)"] by simp
    with Inl show ?thesis by (simp add: compile_def source_value_def tx_simps)
  next
    case (Inr doc)
    with parseRestrictedYaml_Inr [of yaml source doc] show ?thesis
      by (simp add: compile_def source_value_def)
  qed
qed (auto simp: compile_def source_value_def split: json.split)

lemma compile_document_Compiled:
  assumes "registry_inv s" "follows_schema ajv"
  shows "compile_document ajv doc s = (Inr (Compiled w), t) \<longleftrightarrow>
     t = s \<and> read_workflow_spec doc = Some w \<and> validateStepReferences w = []
     \<and> (\<forall>st. occurs_in st (spec_steps w) \<longrightarrow> step_registered s st)"
proof (cases "ajv doc = AjvValid")
  case True
  then obtain v where v: "read_workflow_spec doc = Some v"
    using assms(2) by (auto simp: follows_schema_def)
  obtain errors where errors: "validateServiceReferences v s = (Inr errors, s)"
    by (simp add: validateServiceReferences_eq [OF assms(1)])
  with validateServiceReferences_Nil [OF assms(1), of v] True v show ?thesis
    by (auto simp: compile_document_def validate_spec_def tx_simps Let_def)
next
  case False
  then have "read_workflow_spec doc = None" using assms(2) by (auto simp: follows_schema_def)
  with False show ?thesis
    by (auto simp: compile_document_def validate_spec_def tx_simps split: ajv_outcome.split)
qed

subsection \<open>A document that compiles\<close>

definition sample_doc :: json where
  "sample_doc = JObj
     [(''workflowSpecVersion'', JNum 1), (''name'', JStr ''w''),
      (''steps'', JArr [JObj [(''id'', JStr ''a''), (''service'', JStr ''svc@sha256:1''), (''function'', JStr ''f''),
         (''reads'', JObj [(''x'', JObj [(''literal'', JNum 1)])])]]),
      (''outputs'', JObj [(''o'', JObj [(''from'', JStr ''step''), (''id'', JStr ''a''), (''output'', JStr ''r'')])])]"

definition sample_spec :: workflow_spec where
  "sample_spec = \<lparr>spec_version = 1, spec_name = ''w'', spec_description = None, spec_inputParameters = None,
     spec_sessionState = None,
     spec_steps = [PlainStep \<lparr>step_id = ''a'', step_service = ''svc@sha256:1'', step_function = ''f'',
       step_dependsOn = None, step_reads = Some [(''x'', LiteralBinding (JNum 1))], step_writes = None,
       step_secrets = None\<rparr>],
     spec_outputs = Some [(''o'', StepBinding ''a'' ''r'')]\<rparr>"

text \<open>A schema validator that follows the schema, and a parser of one source.\<close>

definition schema_ajv :: "json \<Rightarrow> ajv_outcome" where
  "schema_ajv doc = (if read_workflow_spec doc \<noteq> None then AjvValid else AjvInvalid None)"

definition sample_yaml :: "string \<Rightarrow> yaml_document" where
  "sample_yaml source = \<lparr>yd_errors = [], yd_nodes = [None, Some \<lparr>yn_anchor = None, yn_alias = None,
     yn_tag = None, yn_keys = [Some (JStr ''name'')]\<rparr>], yd_toJS = sample_doc\<rparr>"

lemma schema_ajv_follows: "follows_schema schema_ajv"
  by (simp add: follows_schema_def schema_ajv_def)

lemma sample_doc_reads: "read_workflow_spec sample_doc = Some sample_spec"
  by code_simp

lemma sample_compiles:
  "fst (compile sample_yaml schema_ajv (JStr ''source'') (registry_after sample_commands)) = Inr (Compiled sample_spec)"
  by code_simp

lemma sample_occurs: "occurs_in st (spec_steps sample_spec) \<Longrightarrow> step_service st = ''svc@sha256:1'' \<and> step_function st = ''f''"
  unfolding set_collectAllSteps [symmetric] by (simp add: collectAllSteps_visits sample_spec_def)

subsection \<open>The properties\<close>

text \<open>C27. What compiles: with a schema validator that follows the schema, compiling an input against
  the registry yields a plan exactly when the source is plain YAML (no parse error, anchor, alias,
  tag or merge key) or a value, the value conforms to the schema and reads as the plan, the
  reference rules hold, and every step at any depth names a registered function of a registered
  digest. The registry is only read.\<close>

theorem compiles_iff_every_stage_passes:
  assumes "follows_schema ajv"
  shows "compile yaml ajv input (registry_after cmds) = (Inr (Compiled w), t) \<longleftrightarrow>
    t = registry_after cmds
    \<and> (\<exists>doc. source_value yaml input = Some doc \<and> read_workflow_spec doc = Some w)
    \<and> distinct (map fst (spec_defs w)) \<and> (\<forall>r \<in> set (spec_refs w). resolves w r)
    \<and> (\<forall>st. occurs_in st (spec_steps w) \<longrightarrow> step_registered (registry_after cmds) st)"
  unfolding compile_source compile_document_Compiled [OF registry_after_inv assms] validate_Nil by blast

lemma compiles_iff_every_stage_passes_witness:
  "source_value sample_yaml (JStr ''source'') = Some sample_doc
   \<and> list_all (resolves sample_spec) (spec_refs sample_spec)
   \<and> list_all (step_registered (registry_after sample_commands)) (collectAllSteps sample_spec)"
proof -
  obtain t where "compile sample_yaml schema_ajv (JStr ''source'') (registry_after sample_commands)
      = (Inr (Compiled sample_spec), t)" using sample_compiles by (metis prod.collapse)
  note passes = this [unfolded compiles_iff_every_stage_passes [OF schema_ajv_follows]]
  then have "source_value sample_yaml (JStr ''source'') = Some sample_doc"
    by (auto simp: source_value_def sample_yaml_def split: if_splits)
  with passes show ?thesis by (simp add: list_all_iff set_collectAllSteps)
qed

text \<open>C28. A compiled workflow is deployable: every step of a plan that the compiler returned, at any
  depth, pins its service to the digest after the \<open>@\<close> of its reference, and the scheduler's read
  of that digest and function finds placement facts, with a capability that passed registration.\<close>

theorem compiled_steps_have_placement_facts:
  assumes "follows_schema ajv"
    and "fst (compile yaml ajv input (registry_after cmds)) = Inr (Compiled w)"
    and "occurs_in st (spec_steps w)"
  shows "\<exists>facts. getPlacementFacts (digestFromServiceRef (step_service st)) (step_function st) (registry_after cmds)
      = (Inr (Some facts), registry_after cmds)
    \<and> pf_digest facts = digestFromServiceRef (step_service st) \<and> pf_function facts = step_function st
    \<and> capability_wf (pf_capability facts)"
proof -
  let ?s = "registry_after cmds"
  let ?d = "digestFromServiceRef (step_service st)"
  note inv = registry_after_inv [of cmds]
  obtain t where "compile yaml ajv input ?s = (Inr (Compiled w), t)"
    using assms(2) by (metis prod.collapse)
  then have "step_registered ?s st"
    using assms(3) by (auto simp: compile_source compile_document_Compiled [OF inv assms(1)])
  then obtain i c where i: "find_image ?s ?d = Some i" and c: "find_capability ?s ?d (step_function st) = Some c"
    by (auto simp: step_registered_def)
  have "c \<in> set (rg_function_capabilities ?s)" "fc_digest c = ?d" "fc_functionName c = step_function st"
    using first_row_in [OF c [unfolded find_capability_def]] by (simp_all add: table_simps)
  with inv i c show ?thesis
    by (simp add: getPlacementFacts_def tx_simps joined_facts_eq [OF inv] registry_inv_def)
qed

lemma compiled_steps_have_placement_facts_witness:
  "\<exists>facts. getPlacementFacts ''sha256:1'' ''f'' (registry_after sample_commands)
     = (Inr (Some facts), registry_after sample_commands) \<and> capability_wf (pf_capability facts)"
proof -
  obtain st where st: "occurs_in st (spec_steps sample_spec)"
    unfolding set_collectAllSteps [symmetric] by (simp add: collectAllSteps_visits sample_spec_def)
  have "digestFromServiceRef ''svc@sha256:1'' = ''sha256:1''" by code_simp
  with compiled_steps_have_placement_facts [OF schema_ajv_follows sample_compiles st] sample_occurs [OF st]
  show ?thesis by auto
qed

text \<open>The cache of registry entries is invisible: checking the services of a document gives, step
  by step in document order, the errors of the step against the entry that a lookup of its own
  would have returned, however many steps share a digest.\<close>

theorem cached_lookups_are_transparent:
  "validateServiceReferences spec (registry_after cmds) =
     (Inr (concat (map (\<lambda>st. service_errors st
         (case fst (getEntry (digestFromServiceRef (step_service st)) (registry_after cmds)) of
            Inr entry \<Rightarrow> entry | Inl _ \<Rightarrow> None))
        (collectAllSteps spec))), registry_after cmds)"
  by (simp add: validateServiceReferences_eq [OF registry_after_inv] getEntry_eq [OF registry_after_inv]
      entry_at_def)

text \<open>C29. The schema lets through exactly the well-formed plans: with a schema validator that follows
  the schema, a typed plan is read from some valid document if and only if it is well formed at
  every depth. Its version is positive, names and ids are not empty, parameter names are distinct
  and have no dot, every step pins its service to \<open><repository>@<algorithm>:<hex>\<close>, every static
  binding is a dataset URN, every compute binding an object, every path a JSON pointer, wherever
  the binding is nested, and no branch, case or map is empty. In particular this holds of every
  plan that the compiler returns. (An object is a list of fields here, so that the keys of a
  plan's maps are distinct is a fact about the parser that made the document, not one of these.)\<close>

theorem accepted_plans_are_the_well_formed_ones:
  assumes "follows_schema ajv"
  shows "((\<exists>doc. validate_spec ajv doc = Inr (True, []) \<and> read_workflow_spec doc = Some w) \<longleftrightarrow> workflow_spec_wf w)
    \<and> (fst (compile yaml ajv input (registry_after cmds)) = Inr (Compiled w) \<longrightarrow> workflow_spec_wf w)"
proof (intro conjI impI)
  have "validate_spec ajv doc = Inr (True, []) \<longleftrightarrow> ajv doc = AjvValid" for doc
    by (simp add: validate_spec_def split: ajv_outcome.split)
  with assms show "(\<exists>doc. validate_spec ajv doc = Inr (True, []) \<and> read_workflow_spec doc = Some w) \<longleftrightarrow> workflow_spec_wf w"
    by (auto simp: readable_iff_wf [symmetric] follows_schema_def)
  assume "fst (compile yaml ajv input (registry_after cmds)) = Inr (Compiled w)"
  then obtain t where "compile yaml ajv input (registry_after cmds) = (Inr (Compiled w), t)"
    by (metis prod.collapse)
  then show "workflow_spec_wf w"
    using readable_iff_wf by (auto simp: compile_source compile_document_Compiled [OF registry_after_inv assms])
qed

lemma accepted_plans_are_the_well_formed_ones_witness:
  "workflow_spec_wf sample_spec \<and> (\<nexists>doc. read_workflow_spec doc = Some (sample_spec\<lparr>spec_name := []\<rparr>))"
proof -
  note claim = accepted_plans_are_the_well_formed_ones [OF schema_ajv_follows]
  have "workflow_spec_wf sample_spec" using claim sample_compiles by blast
  moreover have "\<not> workflow_spec_wf (sample_spec\<lparr>spec_name := []\<rparr>)" by (simp add: workflow_spec_wf_def)
  moreover have "read_workflow_spec doc \<noteq> None \<longrightarrow> validate_spec schema_ajv doc = Inr (True, [])" for doc
    by (simp add: validate_spec_def schema_ajv_def)
  ultimately show ?thesis using claim by (metis option.distinct(1))
qed

end
