(* ===== verification/Dispatch_Properties.thy ===== *)
theory Dispatch_Properties
  imports Dispatch
begin

text \<open>
  What the worker sends and how it classifies what comes back: every binding of a step reaches
  the agent once and in the form the function declares, no value can be taken for a flag, and
  exactly the transport failures are retryable.
\<close>

subsection \<open>Light bindings\<close>

definition light_args ::
  "(rat \<Rightarrow> string) \<Rightarrow> invocation_descriptor_entry list \<Rightarrow> resolved_input \<Rightarrow> (string \<times> string) list" where
  "light_args num ds inp =
     concat (map (\<lambda>(k, v). case v of None \<Rightarrow> []
                  | Some x \<Rightarrow> if k \<in> ie_param ` set ds then [] else [(k, stringifyArgValue num x)]) inp)"

definition arg_ok :: "string \<times> string \<Rightarrow> bool" where
  "arg_ok kv \<longleftrightarrow> AGENT_ARG_FLAG_NAME_PATTERN (fst kv) \<and> \<not> starts_with ''-'' (snd kv)"

lemma light_args_Cons:
  "light_args num ds ((k, v) # inp) =
     (case v of None \<Rightarrow> [] | Some x \<Rightarrow> if k \<in> ie_param ` set ds then [] else [(k, stringifyArgValue num x)])
     @ light_args num ds inp"
  by (simp add: light_args_def)

lemma translate_entries_ok:
  assumes "distinct (map fst inp)" "set (map fst inp) \<inter> fst ` set args = {}"
    and "list_all arg_ok (light_args num ds inp)"
  shows "translate_entries num (js_dedup (map ie_param ds)) inp args = Inr (args @ light_args num ds inp)"
  using assms
proof (induction inp arbitrary: args)
  case Nil
  then show ?case by (simp add: light_args_def)
next
  case (Cons kv inp)
  obtain k v where kv: "kv = (k, v)" by fastforce
  with Cons show ?case
    by (cases v) (auto simp: light_args_Cons update_fresh arg_ok_def Let_def res_bind_Inr
        assertSafeArgValue_def assertValidArgFlagName_def)
qed

lemma translate_entries_err:
  "\<not> list_all arg_ok (light_args num ds inp) \<Longrightarrow>
     \<exists>x. translate_entries num (js_dedup (map ie_param ds)) inp args = Inl (FatalError x)"
proof (induction inp arbitrary: args)
  case (Cons kv inp)
  obtain k v where kv: "kv = (k, v)" by fastforce
  with Cons show ?case
    by (cases v) (auto simp: light_args_Cons arg_ok_def Let_def
        assertSafeArgValue_def assertValidArgFlagName_def split: if_splits)
qed (simp add: light_args_def)

lemma update_list_all: "list_all P al \<Longrightarrow> P (k, v) \<Longrightarrow> list_all P (AList.update k v al)"
  by (induction al) auto

lemma translate_entries_safe:
  "translate_entries num heavy inp args = Inr args' \<Longrightarrow> list_all arg_ok args \<Longrightarrow> list_all arg_ok args'"
proof (induction inp arbitrary: args)
  case (Cons kv inp)
  obtain k v where kv: "kv = (k, v)" by fastforce
  show ?case
  proof (cases "v = None \<or> k \<in> set heavy")
    case True
    with Cons kv show ?thesis by (cases v) auto
  next
    case False
    then obtain x where x: "v = Some x" "k \<notin> set heavy" by auto
    with Cons.prems(1) kv have ok: "arg_ok (k, stringifyArgValue num x)"
      and rest: "translate_entries num heavy inp (AList.update k (stringifyArgValue num x) args) = Inr args'"
      by (auto simp: arg_ok_def res_bind_Inr Let_def)
    from rest update_list_all [OF Cons.prems(2) ok] show ?thesis by (rule Cons.IH)
  qed
qed simp

definition rendered_safe :: "agent_data_file list \<Rightarrow> (rat \<times> string) list \<Rightarrow> bool" where
  "rendered_safe fs ps \<longleftrightarrow> list_all (\<lambda>f. safe_path (df_path f)) fs \<and> list_all (\<lambda>p. safe_path (snd p)) ps"

lemma render_entries_safe:
  "render_entries inp stateId ds files positional = Inr (files', positional') \<Longrightarrow>
     rendered_safe files positional \<Longrightarrow> rendered_safe files' positional'"
proof (induction ds arbitrary: files positional)
  case (Cons e es)
  show ?case
  proof (cases "resolved inp (ie_param e)")
    case None
    with Cons show ?thesis by simp
  next
    case (Some v)
    with Cons.prems(1) obtain p where p: "assertHeavyBindingIsPath v = Inr p"
      by (auto simp: res_bind_Inr)
    then have path: "safe_path p" by (simp add: assertHeavyBindingIsPath_Inr)
    obtain fs ps where "render_entries inp stateId es fs ps = Inr (files', positional')" "rendered_safe fs ps"
      using Cons.prems Some p path
      by (cases "ie_style e") (auto simp: Let_def rendered_safe_def split: if_splits)
    then show ?thesis by (rule Cons.IH)
  qed
qed simp

subsection \<open>A function with one binding of each style\<close>

definition sample_descriptor :: json where
  "sample_descriptor = JArr
     [JObj [(''param'', JStr ''data''), (''style'', JStr ''flag''), (''flagName'', JStr ''--in'')],
      JObj [(''param'', JStr ''img''), (''style'', JStr ''positional''), (''positionIndex'', JNum 1)],
      JObj [(''param'', JStr ''mask''), (''style'', JStr ''positional''), (''positionIndex'', JNum 0)],
      JObj [(''param'', JStr ''log''), (''style'', JStr ''stdin'')]]"

definition sample_entries :: "invocation_descriptor_entry list" where
  "sample_entries = the (decode_descriptor (Some sample_descriptor))"

definition sample_step :: step where
  "sample_step = \<lparr>step_id = ''a'', step_service = ''svc@sha256:1'', step_function = ''f'',
     step_dependsOn = None, step_reads = None, step_writes = None, step_secrets = None\<rparr>"

definition sample_params :: build_invoke_request_params where
  "sample_params = \<lparr>bp_executionId = 7, bp_step = sample_step,
     bp_resolvedInput = [(''verbose'', Some (JBool True)), (''img'', Some (JStr ''/m/img'')), (''gone'', None),
       (''data'', Some (JStr ''/m/data'')), (''mask'', Some (JStr ''/m/mask'')), (''log'', Some (JStr ''/m/log''))],
     bp_timeoutMs = 1000,
     bp_capability = Some \<lparr>dc_invocationDescriptor = sample_entries, dc_stateReuse = NoStateReuse\<rparr>,
     bp_contentHash = None\<rparr>"

definition sample_request :: invoke_request where
  "sample_request = \<lparr>rq_executionId = ''7'', rq_stepId = ''a'', rq_function = ''f'',
     rq_args = [(''verbose'', ''true'')], rq_positionalArgs = Some [''/m/mask'', ''/m/img''],
     rq_dataFiles = Some
       [\<lparr>df_flag = Some ''--in'', df_path = ''/m/data'', df_stateId = None, df_stdinFromPath = None\<rparr>,
        \<lparr>df_flag = None, df_path = ''/m/log'', df_stateId = None, df_stdinFromPath = Some True\<rparr>],
     rq_timeoutMs = 1000\<rparr>"

lemma sample_request_built: "buildInvokeRequest (\<lambda>_. ''0'') sample_params = Inr sample_request"
  by code_simp

lemma sample_descriptor_valid:
  "validateInvocationDescriptor (Some sample_descriptor) ''f'' = []"
  "decode_descriptor (Some sample_descriptor) = Some sample_entries"
  by code_simp+

subsection \<open>The properties\<close>

text \<open>C17. No argument injection: whatever a step's inputs resolve to and whatever its function
  declares, a request that is built has no argument, positional argument or file path that the
  invoked program could take for a flag. Argument names are flag names of letters, digits and
  hyphens, and paths are not empty and have no \<open>..\<close> segment.\<close>

theorem no_argument_injection:
  assumes "buildInvokeRequest num params = Inr rq"
  shows "(\<forall>kv \<in> set (rq_args rq). AGENT_ARG_FLAG_NAME_PATTERN (fst kv) \<and> \<not> starts_with ''-'' (snd kv))
    \<and> (\<forall>p \<in> set (nullish (rq_positionalArgs rq) []). safe_path p)
    \<and> (\<forall>f \<in> set (nullish (rq_dataFiles rq) []). safe_path (df_path f))"
proof -
  define cap where "cap = nullish (bp_capability params) NO_HEAVY_BINDINGS_CAPABILITY"
  from assms obtain heavy args where
    heavy: "renderHeavyBindings (bp_resolvedInput params) cap (bp_contentHash params) = Inr heavy"
    and args: "translateArgsToInvokeArgs num (bp_resolvedInput params) (dc_invocationDescriptor cap) = Inr args"
    unfolding buildInvokeRequest_def cap_def Let_def res_bind_Inr by blast
  with assms have rq: "rq_args rq = args" "nullish (rq_positionalArgs rq) [] = rh_positionalArgs heavy"
      "nullish (rq_dataFiles rq) [] = rh_dataFiles heavy"
    by (auto simp: buildInvokeRequest_def Let_def simp flip: cap_def)
  have "list_all arg_ok args"
    using translate_entries_safe [OF args [unfolded translateArgsToInvokeArgs_def]] by simp
  moreover obtain fs ps where
    "render_entries (bp_resolvedInput params) (heavy_state_id (dc_stateReuse cap) (bp_contentHash params))
       (dc_invocationDescriptor cap) [] [] = Inr (fs, ps)"
    "rh_dataFiles heavy = fs" "rh_positionalArgs heavy = map snd (sort_key fst ps)"
    using heavy by (auto simp: renderHeavyBindings_def res_bind_Inr)
  moreover from this(1) have "rendered_safe fs ps"
    by (rule render_entries_safe) (simp add: rendered_safe_def)
  ultimately show ?thesis using rq by (auto simp: arg_ok_def rendered_safe_def list_all_iff)
qed

lemma no_argument_injection_witness:
  "list_all (\<lambda>kv. \<not> starts_with ''-'' (snd kv)) [(''verbose'', ''true'')]
   \<and> list_all safe_path [''/m/mask'', ''/m/img'']"
  using no_argument_injection [OF sample_request_built] by (simp add: sample_request_def)

text \<open>C18. Every binding reaches the agent exactly once: for a function whose descriptor passed
  registration, a request is built exactly when the light bindings have flag names and safe
  values and the heavy ones are safe paths, otherwise the error is fatal. The arguments are then
  the light bindings, in order; the positional arguments are the paths of the positional
  bindings by their declared index; the data files are the others, in declaration order, with
  their declared flag or on standard input, and with the state id that the function reuses.\<close>

theorem request_delivers_every_binding:
  assumes "validateInvocationDescriptor (Some d) fnName = []" "decode_descriptor (Some d) = Some ds"
    and "bp_capability params = Some \<lparr>dc_invocationDescriptor = ds, dc_stateReuse = reuse\<rparr>"
    and "distinct (map fst (bp_resolvedInput params))"
  shows "case buildInvokeRequest num params of
      Inr rq \<Rightarrow> list_all (heavy_ok (bp_resolvedInput params)) ds
        \<and> list_all arg_ok (light_args num ds (bp_resolvedInput params))
        \<and> rq_args rq = light_args num ds (bp_resolvedInput params)
        \<and> nullish (rq_positionalArgs rq) [] = map (path_of (bp_resolvedInput params))
            (sort_key position_of (filter positional_entry (supplied (bp_resolvedInput params) ds)))
        \<and> nullish (rq_dataFiles rq) [] = map
            (heavy_file (bp_resolvedInput params) (heavy_state_id reuse (bp_contentHash params)))
            (filter (\<lambda>e. \<not> positional_entry e) (supplied (bp_resolvedInput params) ds))
    | Inl e \<Rightarrow> \<not> (list_all (heavy_ok (bp_resolvedInput params)) ds
                  \<and> list_all arg_ok (light_args num ds (bp_resolvedInput params)))
        \<and> (\<exists>x. e = FatalError x)"
proof -
  let ?cap = "\<lparr>dc_invocationDescriptor = ds, dc_stateReuse = reuse\<rparr>"
  let ?inp = "bp_resolvedInput params"
  have wf: "descriptor_wf (dc_invocationDescriptor ?cap)"
    using assms(1,2) by (auto simp: validateInvocationDescriptor_Nil)
  note render = renderHeavyBindings_eq [OF wf refl, of ?inp "bp_contentHash params", simplified]
  show ?thesis
  proof (cases "list_all (heavy_ok ?inp) ds")
    case False
    with render(2) obtain x where "renderHeavyBindings ?inp ?cap (bp_contentHash params) = Inl (FatalError x)"
      by blast
    with False show ?thesis by (simp add: buildInvokeRequest_def assms(3))
  next
    case heavy: True
    show ?thesis
    proof (cases "list_all arg_ok (light_args num ds ?inp)")
      case False
      with translate_entries_err [OF this, of "[]"] heavy show ?thesis
        by (auto simp: buildInvokeRequest_def assms(3) render(1) translateArgsToInvokeArgs_def)
    next
      case True
      with heavy translate_entries_ok [OF assms(4) _ True, of "[]"] show ?thesis
        by (simp add: buildInvokeRequest_def assms(3) render(1) translateArgsToInvokeArgs_def)
    qed
  qed
qed

lemma request_delivers_every_binding_witness:
  "list_all (heavy_ok (bp_resolvedInput sample_params)) sample_entries
   \<and> [(''verbose'', ''true'')] = light_args (\<lambda>_. ''0'') sample_entries (bp_resolvedInput sample_params)
   \<and> [''/m/mask'', ''/m/img''] = map (path_of (bp_resolvedInput sample_params))
       (sort_key position_of (filter positional_entry (supplied (bp_resolvedInput sample_params) sample_entries)))"
proof -
  have "bp_capability sample_params
      = Some \<lparr>dc_invocationDescriptor = sample_entries, dc_stateReuse = NoStateReuse\<rparr>"
    "distinct (map fst (bp_resolvedInput sample_params))"
    by (simp add: sample_params_def, code_simp)
  from request_delivers_every_binding [OF sample_descriptor_valid this, of "\<lambda>_. ''0''",
      unfolded sample_request_built sum.case]
  show ?thesis by (simp add: sample_request_def)
qed

text \<open>C19. Exactly the transport failures are retryable: dispatching a step throws a
  \<open>RetryableError\<close> when its request could be built and the agent was not reached or answered
  with a status that is neither 2xx nor 4xx, and in no other case.\<close>

theorem only_transport_failures_are_retried:
  "dispatchStep fetch num url params token = Inl (RetryableError x) \<longleftrightarrow>
     x = WORKER_AGENT_UNREACHABLE
     \<and> (\<exists>rq. buildInvokeRequest num params = Inr rq \<and> unreachable (exchange fetch num url rq token))"
  by (rule dispatchStep_retryable)

end
