(* ===== verification/Row_Mapping.thy ===== *)
theory Row_Mapping
  imports Core_Laws Registry_Types
begin

text \<open>
  \<open>core/domain/rows.ts\<close>, \<open>core/domain/mappers.ts\<close> and their registry counterparts: the rows as the
  driver returns them, and the mapping to the records that the rest of the program works with. A
  \<open>BIGINT\<close> column comes back as decimal text and goes through \<open>Number\<close>, which rounds to a double:
  the lemmas say for which ids the mapping loses nothing, and how much it can lose at all. JSONB
  values and timestamps pass through unchanged.
\<close>

subsection \<open>\<open>Number(text)\<close> on the text of a \<open>BIGINT\<close>\<close>

definition bigint_text :: "int \<Rightarrow> string" where
  "bigint_text n = (if n < 0 then CHR ''-'' # string_of_nat (nat (- n)) else string_of_nat (nat n))"

definition digit_value :: "char \<Rightarrow> nat" where
  "digit_value c = of_char c - 48"

definition nat_of_digits :: "string \<Rightarrow> nat" where
  "nat_of_digits ds = foldl (\<lambda>n c. 10 * n + digit_value c) 0 ds"

text \<open>The number of bits that a 53-bit significand cannot hold.\<close>

fun excess_bits :: "nat \<Rightarrow> nat" where
  "excess_bits n = (if n < 2 ^ 53 then 0 else Suc (excess_bits (n div 2)))"

declare excess_bits.simps [simp del]

text \<open>Round to the nearest multiple of \<open>2 ^ e\<close>, a tie to the even one.\<close>

definition round_half_even :: "nat \<Rightarrow> nat \<Rightarrow> nat" where
  "round_half_even n e =
     (let q = n div 2 ^ e; r = n mod 2 ^ e in
      (if 2 ^ e < 2 * r \<or> (2 * r = 2 ^ e \<and> odd q) then q + 1 else q) * 2 ^ e)"

definition nearest_double :: "nat \<Rightarrow> nat" where
  "nearest_double n = round_half_even n (excess_bits n)"

definition js_Number :: "string \<Rightarrow> int" where
  "js_Number s =
     (case s of
        c # ds \<Rightarrow> if c = CHR ''-'' then - int (nearest_double (nat_of_digits ds))
                  else int (nearest_double (nat_of_digits s))
      | [] \<Rightarrow> 0)"

text \<open>An id column: the text of a \<open>BIGSERIAL\<close>.\<close>

definition id_of :: "string \<Rightarrow> nat" where
  "id_of s = nat (js_Number s)"

subsection \<open>The rows and their mapping\<close>

record execution_row =
  er_id :: string
  er_session_id :: string
  er_step :: string
  er_input :: json
  er_status :: execution_status
  er_worker_id :: "string option"
  er_lease_until :: "int option"
  er_attempts :: nat
  er_created_at :: int
  er_updated_at :: int
  er_run_id :: "string option"

definition mapExecutionRow :: "execution_row \<Rightarrow> execution" where
  "mapExecutionRow row =
     \<lparr>ex_id = id_of (er_id row), ex_sessionId = er_session_id row, ex_step = er_step row,
      ex_input = er_input row, ex_status = er_status row, ex_workerId = er_worker_id row,
      ex_leaseUntil = er_lease_until row, ex_attempts = er_attempts row,
      ex_createdAt = er_created_at row, ex_updatedAt = er_updated_at row,
      ex_runId = (case er_run_id row of None \<Rightarrow> None | Some i \<Rightarrow> Some (id_of i))\<rparr>"

record checkpoint_row =
  cr_execution_id :: string
  cr_step_id :: string
  cr_output :: json
  cr_committed_at :: int

definition mapCheckpointRow :: "checkpoint_row \<Rightarrow> checkpoint" where
  "mapCheckpointRow row =
     \<lparr>cp_executionId = id_of (cr_execution_id row), cp_stepId = cr_step_id row,
      cp_output = cr_output row, cp_committedAt = cr_committed_at row\<rparr>"

record wait_row =
  wr_id :: string
  wr_execution_id :: string
  wr_wait_key :: "string option"
  wr_wake_at :: "int option"
  wr_satisfied_at :: "int option"
  wr_created_at :: int

definition mapWaitRow :: "wait_row \<Rightarrow> wait" where
  "mapWaitRow row =
     \<lparr>wt_id = id_of (wr_id row), wt_executionId = id_of (wr_execution_id row),
      wt_waitKey = wr_wait_key row, wt_wakeAt = wr_wake_at row,
      wt_satisfiedAt = wr_satisfied_at row, wt_createdAt = wr_created_at row\<rparr>"

record session_log_entry_row =
  lr_id :: string
  lr_session_id :: string
  lr_sequence :: string
  lr_input :: json
  lr_created_at :: int

definition mapSessionLogEntryRow :: "session_log_entry_row \<Rightarrow> session_log_entry" where
  "mapSessionLogEntryRow row =
     \<lparr>sl_id = id_of (lr_id row), sl_sessionId = lr_session_id row,
      sl_sequence = js_Number (lr_sequence row), sl_input = lr_input row, sl_createdAt = lr_created_at row\<rparr>"

record session_pointer_row =
  pr_session_id :: string
  pr_current_sequence :: string
  pr_updated_at :: int

definition mapSessionPointerRow :: "session_pointer_row \<Rightarrow> session_pointer" where
  "mapSessionPointerRow row =
     \<lparr>sp_sessionId = pr_session_id row, sp_currentSequence = js_Number (pr_current_sequence row),
      sp_updatedAt = pr_updated_at row\<rparr>"

record placement_row =
  plr_content_hash :: string
  plr_replica_id :: "string option"
  plr_session_id :: "string option"
  plr_pinned :: bool
  plr_pinned_at :: "int option"
  plr_interactivity :: interactivity
  plr_access_count :: string
  plr_first_accessed_at :: "int option"
  plr_last_accessed_at :: "int option"
  plr_declared_cost_class :: "cost_class option"
  plr_observed_rehydration_ms :: "rat option"
  plr_observed_sample_count :: nat
  plr_size_bytes :: string
  plr_created_at :: int
  plr_updated_at :: int

definition mapPlacementRow :: "placement_row \<Rightarrow> placement" where
  "mapPlacementRow row =
     \<lparr>pl_contentHash = plr_content_hash row, pl_replicaId = plr_replica_id row,
      pl_sessionId = plr_session_id row, pl_pinned = plr_pinned row, pl_pinnedAt = plr_pinned_at row,
      pl_interactivity = plr_interactivity row, pl_accessCount = id_of (plr_access_count row),
      pl_firstAccessedAt = plr_first_accessed_at row, pl_lastAccessedAt = plr_last_accessed_at row,
      pl_declaredCostClass = plr_declared_cost_class row,
      pl_observedRehydrationMs = plr_observed_rehydration_ms row,
      pl_observedSampleCount = plr_observed_sample_count row,
      pl_sizeBytes = js_Number (plr_size_bytes row), pl_createdAt = plr_created_at row,
      pl_updatedAt = plr_updated_at row\<rparr>"

record placement_config_row =
  pcr_name :: string
  pcr_config :: placement_config
  pcr_updated_at :: int

definition mapPlacementConfigRow :: "placement_config_row \<Rightarrow> placement_config" where
  "mapPlacementConfigRow row = pcr_config row"

record workflow_run_row =
  rr_id :: string
  rr_session_id :: "string option"
  rr_spec :: workflow_spec
  rr_input :: js_object
  rr_status :: workflow_run_status
  rr_created_at :: int
  rr_updated_at :: int

definition mapWorkflowRunRow :: "workflow_run_row \<Rightarrow> workflow_run" where
  "mapWorkflowRunRow row =
     \<lparr>run_id = id_of (rr_id row), run_sessionId = rr_session_id row, run_spec = rr_spec row,
      run_input = rr_input row, run_status = rr_status row, run_createdAt = rr_created_at row,
      run_updatedAt = rr_updated_at row\<rparr>"

record run_node_output_row =
  nr_run_id :: string
  nr_node_id :: string
  nr_output :: js_object
  nr_completed_at :: int

definition mapRunNodeOutputRow :: "run_node_output_row \<Rightarrow> run_node_output" where
  "mapRunNodeOutputRow row =
     \<lparr>no_runId = id_of (nr_run_id row), no_nodeId = nr_node_id row, no_output = nr_output row,
      no_completedAt = nr_completed_at row\<rparr>"

record service_image_row =
  sr_digest :: string
  sr_oci_ref :: string
  sr_openapi_spec :: json
  sr_hardware_requirements :: js_object
  sr_trust_tier :: trust_tier
  sr_registered_at :: int
  sr_updated_at :: int

definition mapServiceImageRow :: "service_image_row \<Rightarrow> service_image" where
  "mapServiceImageRow row =
     \<lparr>si_digest = sr_digest row, si_ociRef = sr_oci_ref row, si_openapiSpec = sr_openapi_spec row,
      si_hardwareRequirements = sr_hardware_requirements row, si_trustTier = sr_trust_tier row,
      si_registeredAt = sr_registered_at row, si_updatedAt = sr_updated_at row\<rparr>"

record function_capability_row =
  cap_digest :: string
  cap_function_name :: string
  cap_mutates :: bool
  cap_materialization_cost_class :: materialization_cost_class
  cap_cow_support :: bool
  cap_change_detection_support :: bool
  cap_nesting_declaration :: "nesting_declaration option"
  cap_invocation_descriptor :: "invocation_descriptor_entry list"
  cap_state_reuse :: state_reuse
  cap_additive_warm_update :: bool

definition mapFunctionCapabilityRow :: "function_capability_row \<Rightarrow> function_capability" where
  "mapFunctionCapabilityRow row =
     \<lparr>fc_mutates = cap_mutates row,
      fc_materializationCostClass = cap_materialization_cost_class row,
      fc_cowSupport = cap_cow_support row, fc_changeDetectionSupport = cap_change_detection_support row,
      fc_nestingDeclaration = cap_nesting_declaration row,
      fc_invocationDescriptor = cap_invocation_descriptor row, fc_stateReuse = cap_state_reuse row,
      fc_additiveWarmUpdate = cap_additive_warm_update row,
      fc_digest = cap_digest row, fc_functionName = cap_function_name row\<rparr>"

subsection \<open>What \<open>Number\<close> does to an id\<close>

lemma digit_value_char: "digit_value (digit_char d) = d mod 10"
proof -
  have "\<forall>k \<in> {..<10}. digit_value (''0123456789'' ! k) = k"
    by (simp add: lessThan_nat_numeral digit_value_def)
  moreover have "d mod 10 \<in> {..<10}" by simp
  ultimately show ?thesis unfolding digit_char_def by blast
qed

lemma nat_of_digits_text: "nat_of_digits (string_of_nat n) = n"
proof (induction n rule: string_of_nat.induct)
  case (1 n)
  show ?case
  proof (cases "n < 10")
    case True
    then show ?thesis by (subst string_of_nat.simps) (simp add: nat_of_digits_def digit_value_char)
  next
    case False
    with 1 have "nat_of_digits (string_of_nat (n div 10)) = n div 10" by simp
    with False show ?thesis
      by (subst string_of_nat.simps) (simp add: nat_of_digits_def digit_value_char)
  qed
qed

lemma string_of_nat_not_minus: "string_of_nat n = c # ds \<Longrightarrow> c \<noteq> CHR ''-''"
  using string_of_nat_digits [of n] by (auto simp: is_digit_def)

lemma nearest_double_exact:
  assumes "n \<le> 2 ^ 53"
  shows "nearest_double n = n"
proof (cases "n = 2 ^ 53")
  case True
  have "excess_bits (2 ^ 52) = 0" by (subst excess_bits.simps) simp
  with True have "excess_bits n = 1" by (subst excess_bits.simps) simp
  with True show ?thesis by (simp add: nearest_double_def round_half_even_def)
next
  case False
  with assms have "excess_bits n = 0" by (subst excess_bits.simps) simp
  then show ?thesis by (simp add: nearest_double_def round_half_even_def)
qed

lemma js_Number_text:
  "js_Number (bigint_text n) = sgn n * int (nearest_double (nat \<bar>n\<bar>))"
proof (cases "n < 0")
  case True
  then show ?thesis by (simp add: js_Number_def bigint_text_def nat_of_digits_text)
next
  case False
  obtain c cs where ds: "string_of_nat (nat n) = c # cs" by (cases "string_of_nat (nat n)") auto
  have "nat_of_digits (c # cs) = nat n" using nat_of_digits_text [of "nat n"] ds by simp
  moreover have "nearest_double 0 = 0" by (simp add: nearest_double_exact)
  ultimately show ?thesis using False string_of_nat_not_minus [OF ds] ds
    by (cases "n = 0") (simp_all add: js_Number_def bigint_text_def)
qed

lemma excess_bits_bounds: "2 ^ 53 \<le> n \<Longrightarrow> 2 ^ (52 + excess_bits n) \<le> n \<and> n < 2 ^ (53 + excess_bits n)"
proof (induction n rule: excess_bits.induct)
  case (1 n)
  have e: "excess_bits n = Suc (excess_bits (n div 2))" using 1(2) by (subst excess_bits.simps) simp
  show ?case
  proof (cases "2 ^ 53 \<le> n div 2")
    case True
    with 1 have "2 ^ (52 + excess_bits (n div 2)) \<le> n div 2" "n div 2 < 2 ^ (53 + excess_bits (n div 2))"
      by simp_all
    then have "2 * 2 ^ (52 + excess_bits (n div 2)) \<le> n" "n < 2 * 2 ^ (53 + excess_bits (n div 2))"
      by linarith+
    then show ?thesis unfolding e by (simp only: add_Suc_right power_Suc)
  next
    case False
    then have "excess_bits (n div 2) = 0" by (subst excess_bits.simps) simp
    moreover have "n < 2 ^ 54" using False by simp
    ultimately show ?thesis using 1(2) unfolding e by simp
  qed
qed

lemma round_half_even_error: "2 * \<bar>int (round_half_even n e) - int n\<bar> \<le> 2 ^ e"
proof -
  define q r where "q = n div 2 ^ e" and "r = n mod 2 ^ e"
  have "n = q * 2 ^ e + r" "r < 2 ^ e" unfolding q_def r_def by (simp_all only: div_mult_mod_eq) simp
  then have "int n = int (q * 2 ^ e + r)" "int r < int (2 ^ e)" by (simp_all only: of_nat_less_iff)
  then have n: "int n = int q * 2 ^ e + int r" and r: "int r < 2 ^ e" by simp_all
  show ?thesis
  proof (cases "2 ^ e < 2 * r \<or> (2 * r = 2 ^ e \<and> odd q)")
    case True
    then have "2 ^ e \<le> 2 * r" by auto
    then have "int (2 ^ e) \<le> int (2 * r)" by (simp only: of_nat_le_iff)
    then have "(2 :: int) ^ e \<le> 2 * int r" by simp
    moreover have "int (round_half_even n e) = int q * 2 ^ e + 2 ^ e"
      using True by (simp add: round_half_even_def Let_def q_def r_def algebra_simps)
    ultimately show ?thesis using n r by simp
  next
    case False
    then have "2 * r \<le> 2 ^ e" by auto
    then have "int (2 * r) \<le> int (2 ^ e)" by (simp only: of_nat_le_iff)
    then have "2 * int r \<le> 2 ^ e" by simp
    moreover have "int (round_half_even n e) = int q * 2 ^ e"
      using False by (simp add: round_half_even_def Let_def q_def r_def)
    ultimately show ?thesis using n by simp
  qed
qed

text \<open>The error is at most half a unit in the last of 53 places.\<close>

lemma nearest_double_error: "\<bar>int (nearest_double n) - int n\<bar> * 2 ^ 53 \<le> int n"
proof (cases "2 ^ 53 \<le> n")
  case True
  have "int (2 ^ (52 + excess_bits n)) \<le> int n"
    using excess_bits_bounds [OF True] by (simp only: of_nat_le_iff)
  then have "(2 :: int) ^ excess_bits n * 2 ^ 52 \<le> int n" by (simp add: power_add mult.commute)
  moreover have "2 * \<bar>int (nearest_double n) - int n\<bar> * 2 ^ 52 \<le> 2 ^ excess_bits n * 2 ^ 52"
    using round_half_even_error [of n "excess_bits n"] unfolding nearest_double_def by (intro mult_right_mono) simp_all
  ultimately show ?thesis by simp
next
  case False
  then show ?thesis by (simp add: nearest_double_exact)
qed

lemma js_Number_exact: "\<bar>n\<bar> \<le> 2 ^ 53 \<Longrightarrow> js_Number (bigint_text n) = n"
  by (simp add: js_Number_text nearest_double_exact nat_le_iff sgn_mult_abs)

subsection \<open>What the driver returns for a stored row\<close>

definition id_text :: "nat \<Rightarrow> string" where
  "id_text n = bigint_text (int n)"

lemma id_of_text: "n \<le> 2 ^ 53 \<Longrightarrow> id_of (id_text n) = n"
  by (simp add: id_of_def id_text_def js_Number_exact)

definition execution_row_of :: "execution \<Rightarrow> execution_row" where
  "execution_row_of e =
     \<lparr>er_id = id_text (ex_id e), er_session_id = ex_sessionId e, er_step = ex_step e,
      er_input = ex_input e, er_status = ex_status e, er_worker_id = ex_workerId e,
      er_lease_until = ex_leaseUntil e, er_attempts = ex_attempts e, er_created_at = ex_createdAt e,
      er_updated_at = ex_updatedAt e, er_run_id = map_option id_text (ex_runId e)\<rparr>"

definition checkpoint_row_of :: "checkpoint \<Rightarrow> checkpoint_row" where
  "checkpoint_row_of c =
     \<lparr>cr_execution_id = id_text (cp_executionId c), cr_step_id = cp_stepId c, cr_output = cp_output c,
      cr_committed_at = cp_committedAt c\<rparr>"

definition wait_row_of :: "wait \<Rightarrow> wait_row" where
  "wait_row_of w =
     \<lparr>wr_id = id_text (wt_id w), wr_execution_id = id_text (wt_executionId w), wr_wait_key = wt_waitKey w,
      wr_wake_at = wt_wakeAt w, wr_satisfied_at = wt_satisfiedAt w, wr_created_at = wt_createdAt w\<rparr>"

definition session_log_entry_row_of :: "session_log_entry \<Rightarrow> session_log_entry_row" where
  "session_log_entry_row_of e =
     \<lparr>lr_id = id_text (sl_id e), lr_session_id = sl_sessionId e, lr_sequence = bigint_text (sl_sequence e),
      lr_input = sl_input e, lr_created_at = sl_createdAt e\<rparr>"

definition session_pointer_row_of :: "session_pointer \<Rightarrow> session_pointer_row" where
  "session_pointer_row_of p =
     \<lparr>pr_session_id = sp_sessionId p, pr_current_sequence = bigint_text (sp_currentSequence p),
      pr_updated_at = sp_updatedAt p\<rparr>"

definition placement_row_of :: "placement \<Rightarrow> placement_row" where
  "placement_row_of p =
     \<lparr>plr_content_hash = pl_contentHash p, plr_replica_id = pl_replicaId p, plr_session_id = pl_sessionId p,
      plr_pinned = pl_pinned p, plr_pinned_at = pl_pinnedAt p, plr_interactivity = pl_interactivity p,
      plr_access_count = id_text (pl_accessCount p), plr_first_accessed_at = pl_firstAccessedAt p,
      plr_last_accessed_at = pl_lastAccessedAt p, plr_declared_cost_class = pl_declaredCostClass p,
      plr_observed_rehydration_ms = pl_observedRehydrationMs p,
      plr_observed_sample_count = pl_observedSampleCount p, plr_size_bytes = bigint_text (pl_sizeBytes p),
      plr_created_at = pl_createdAt p, plr_updated_at = pl_updatedAt p\<rparr>"

definition workflow_run_row_of :: "workflow_run \<Rightarrow> workflow_run_row" where
  "workflow_run_row_of r =
     \<lparr>rr_id = id_text (run_id r), rr_session_id = run_sessionId r, rr_spec = run_spec r,
      rr_input = run_input r, rr_status = run_status r, rr_created_at = run_createdAt r,
      rr_updated_at = run_updatedAt r\<rparr>"

definition run_node_output_row_of :: "run_node_output \<Rightarrow> run_node_output_row" where
  "run_node_output_row_of n =
     \<lparr>nr_run_id = id_text (no_runId n), nr_node_id = no_nodeId n, nr_output = no_output n,
      nr_completed_at = no_completedAt n\<rparr>"

text \<open>Every integer column of a row holds a number that a double represents exactly.\<close>

definition exact_rows :: "core_db \<Rightarrow> bool" where
  "exact_rows s \<longleftrightarrow>
     list_all (\<lambda>e. ex_id e \<le> 2 ^ 53 \<and> pred_option (\<lambda>i. i \<le> 2 ^ 53) (ex_runId e)) (db_executions s)
     \<and> list_all (\<lambda>c. cp_executionId c \<le> 2 ^ 53) (db_checkpoints s)
     \<and> list_all (\<lambda>w. wt_id w \<le> 2 ^ 53 \<and> wt_executionId w \<le> 2 ^ 53) (db_waits s)
     \<and> list_all (\<lambda>r. run_id r \<le> 2 ^ 53) (db_workflow_runs s)
     \<and> list_all (\<lambda>n. no_runId n \<le> 2 ^ 53) (db_run_node_outputs s)
     \<and> list_all (\<lambda>e. sl_id e \<le> 2 ^ 53 \<and> \<bar>sl_sequence e\<bar> \<le> 2 ^ 53) (db_session_log s)
     \<and> list_all (\<lambda>p. \<bar>sp_currentSequence p\<bar> \<le> 2 ^ 53) (db_session_pointer s)
     \<and> list_all (\<lambda>p. pl_accessCount p \<le> 2 ^ 53 \<and> \<bar>pl_sizeBytes p\<bar> \<le> 2 ^ 53) (db_placement s)"

lemma map_idI: "list_all (\<lambda>x. f x = x) xs \<Longrightarrow> map f xs = xs"
  by (induction xs) simp_all

lemma rows_map_back:
  "ex_id e \<le> 2 ^ 53 \<Longrightarrow> pred_option (\<lambda>i. i \<le> 2 ^ 53) (ex_runId e) \<Longrightarrow> mapExecutionRow (execution_row_of e) = e"
  "cp_executionId c \<le> 2 ^ 53 \<Longrightarrow> mapCheckpointRow (checkpoint_row_of c) = c"
  "wt_id w \<le> 2 ^ 53 \<Longrightarrow> wt_executionId w \<le> 2 ^ 53 \<Longrightarrow> mapWaitRow (wait_row_of w) = w"
  "run_id r \<le> 2 ^ 53 \<Longrightarrow> mapWorkflowRunRow (workflow_run_row_of r) = r"
  "no_runId n \<le> 2 ^ 53 \<Longrightarrow> mapRunNodeOutputRow (run_node_output_row_of n) = n"
  "sl_id l \<le> 2 ^ 53 \<Longrightarrow> \<bar>sl_sequence l\<bar> \<le> 2 ^ 53 \<Longrightarrow> mapSessionLogEntryRow (session_log_entry_row_of l) = l"
  "\<bar>sp_currentSequence q\<bar> \<le> 2 ^ 53 \<Longrightarrow> mapSessionPointerRow (session_pointer_row_of q) = q"
  "pl_accessCount p \<le> 2 ^ 53 \<Longrightarrow> \<bar>pl_sizeBytes p\<bar> \<le> 2 ^ 53 \<Longrightarrow> mapPlacementRow (placement_row_of p) = p"
  by (cases "ex_runId e"; simp add: mapExecutionRow_def execution_row_of_def id_of_text)
    (simp_all add: mapCheckpointRow_def checkpoint_row_of_def mapWaitRow_def wait_row_of_def
      mapWorkflowRunRow_def workflow_run_row_of_def mapRunNodeOutputRow_def run_node_output_row_of_def
      mapSessionLogEntryRow_def session_log_entry_row_of_def mapSessionPointerRow_def
      session_pointer_row_of_def mapPlacementRow_def placement_row_of_def id_of_text js_Number_exact)

subsection \<open>The properties\<close>

text \<open>C39. Reading rows loses nothing while the integers are small: in a database whose ids, sequence
  numbers, counts and sizes are at most \<open>2 ^ 53\<close> in absolute value, mapping the row that the driver
  returns for a stored record gives the record, in each of the eight tables whose mapper converts
  an integer column (the mapper of \<open>placement_config\<close> returns its one JSONB column as it is).\<close>

theorem stored_rows_map_back:
  assumes "exact_rows s"
  shows "map (mapExecutionRow \<circ> execution_row_of) (db_executions s) = db_executions s
    \<and> map (mapCheckpointRow \<circ> checkpoint_row_of) (db_checkpoints s) = db_checkpoints s
    \<and> map (mapWaitRow \<circ> wait_row_of) (db_waits s) = db_waits s
    \<and> map (mapWorkflowRunRow \<circ> workflow_run_row_of) (db_workflow_runs s) = db_workflow_runs s
    \<and> map (mapRunNodeOutputRow \<circ> run_node_output_row_of) (db_run_node_outputs s) = db_run_node_outputs s
    \<and> map (mapSessionLogEntryRow \<circ> session_log_entry_row_of) (db_session_log s) = db_session_log s
    \<and> map (mapSessionPointerRow \<circ> session_pointer_row_of) (db_session_pointer s) = db_session_pointer s
    \<and> map (mapPlacementRow \<circ> placement_row_of) (db_placement s) = db_placement s"
  using assms unfolding exact_rows_def
  by (intro conjI map_idI) (auto simp: list_all_iff intro: rows_map_back)

definition db_large_id :: core_db where
  "db_large_id = empty_db\<lparr>db_executions := [\<lparr>ex_id = 2 ^ 53, ex_sessionId = ''s'', ex_step = ''a'',
     ex_input = JNull, ex_status = Queued, ex_workerId = None, ex_leaseUntil = None, ex_attempts = 0,
     ex_createdAt = 0, ex_updatedAt = 0, ex_runId = Some 12\<rparr>],
   db_session_pointer := [\<lparr>sp_sessionId = ''s'', sp_currentSequence = 7, sp_updatedAt = 0\<rparr>]\<rparr>"

lemma stored_rows_map_back_witness:
  "map (mapExecutionRow \<circ> execution_row_of) (db_executions db_large_id) = db_executions db_large_id
   \<and> map ex_id (db_executions db_large_id) = [9007199254740992]"
proof -
  have "exact_rows db_large_id" by (simp add: exact_rows_def db_large_id_def empty_db_def)
  from stored_rows_map_back [OF this] show ?thesis by (simp add: db_large_id_def)
qed

text \<open>A 64-bit column, and a number that a double can stand for it.\<close>

definition bigint :: "int \<Rightarrow> bool" where
  "bigint n \<longleftrightarrow> - (2 ^ 63) \<le> n \<and> n < 2 ^ 63"

definition near :: "int \<Rightarrow> int \<Rightarrow> bool" where
  "near x n \<longleftrightarrow> \<bar>x - n\<bar> * 2 ^ 53 \<le> \<bar>n\<bar> \<and> \<bar>x - n\<bar> \<le> 1024"

abbreviation near_id :: "nat \<Rightarrow> nat \<Rightarrow> bool" where
  "near_id x n \<equiv> near (int x) (int n)"

lemma js_Number_near: "bigint n \<Longrightarrow> near (js_Number (bigint_text n)) n"
proof -
  assume "bigint n"
  then have small: "\<bar>n\<bar> \<le> 2 ^ 63" unfolding bigint_def by linarith
  have "\<bar>js_Number (bigint_text n) - n\<bar> = \<bar>int (nearest_double (nat \<bar>n\<bar>)) - int (nat \<bar>n\<bar>)\<bar>"
    by (cases n "0 :: int" rule: linorder_cases) (simp_all add: js_Number_text nearest_double_exact)
  then have error: "\<bar>js_Number (bigint_text n) - n\<bar> * 2 ^ 53 \<le> \<bar>n\<bar>"
    using nearest_double_error [of "nat \<bar>n\<bar>"] by simp
  with small have "\<bar>js_Number (bigint_text n) - n\<bar> \<le> 1024" by simp
  with error show "near (js_Number (bigint_text n)) n" by (simp add: near_def)
qed

lemma id_of_near: "bigint (int n) \<Longrightarrow> near_id (id_of (id_text n)) n"
  using js_Number_near [of "int n"] by (simp add: id_of_def id_text_def js_Number_text sgn_if)

lemma neighbours: "id_of (id_text (2 ^ 53 + 1)) = id_of (id_text (2 ^ 53))"
proof -
  have "excess_bits (2 ^ 52) = 0" by (subst excess_bits.simps) simp
  then have "excess_bits (2 ^ 53 + 1) = 1" by (subst excess_bits.simps) simp
  then have "nearest_double (2 ^ 53 + 1) = 2 ^ 53" by (simp add: nearest_double_def round_half_even_def)
  then show ?thesis by (simp add: id_of_def id_text_def js_Number_text nearest_double_exact)
qed

text \<open>Every integer column of a row is a 64-bit number.\<close>

definition bigint_rows :: "core_db \<Rightarrow> bool" where
  "bigint_rows s \<longleftrightarrow>
     list_all (\<lambda>e. bigint (ex_id e) \<and> pred_option (\<lambda>i. bigint (int i)) (ex_runId e)) (db_executions s)
     \<and> list_all (\<lambda>c. bigint (cp_executionId c)) (db_checkpoints s)
     \<and> list_all (\<lambda>w. bigint (wt_id w) \<and> bigint (wt_executionId w)) (db_waits s)
     \<and> list_all (\<lambda>r. bigint (run_id r)) (db_workflow_runs s)
     \<and> list_all (\<lambda>n. bigint (no_runId n)) (db_run_node_outputs s)
     \<and> list_all (\<lambda>e. bigint (sl_id e) \<and> bigint (sl_sequence e)) (db_session_log s)
     \<and> list_all (\<lambda>p. bigint (sp_currentSequence p)) (db_session_pointer s)
     \<and> list_all (\<lambda>p. bigint (pl_accessCount p) \<and> bigint (pl_sizeBytes p)) (db_placement s)"

lemma rows_map_near:
  "bigint (ex_id e) \<Longrightarrow> pred_option (\<lambda>i. bigint (int i)) (ex_runId e) \<Longrightarrow>
     near_id (ex_id (mapExecutionRow (execution_row_of e))) (ex_id e)
     \<and> rel_option near_id (ex_runId (mapExecutionRow (execution_row_of e))) (ex_runId e)
     \<and> (mapExecutionRow (execution_row_of e))\<lparr>ex_id := ex_id e, ex_runId := ex_runId e\<rparr> = e"
  "bigint (cp_executionId c) \<Longrightarrow>
     near_id (cp_executionId (mapCheckpointRow (checkpoint_row_of c))) (cp_executionId c)
     \<and> (mapCheckpointRow (checkpoint_row_of c))\<lparr>cp_executionId := cp_executionId c\<rparr> = c"
  "bigint (wt_id w) \<Longrightarrow> bigint (wt_executionId w) \<Longrightarrow>
     near_id (wt_id (mapWaitRow (wait_row_of w))) (wt_id w)
     \<and> near_id (wt_executionId (mapWaitRow (wait_row_of w))) (wt_executionId w)
     \<and> (mapWaitRow (wait_row_of w))\<lparr>wt_id := wt_id w, wt_executionId := wt_executionId w\<rparr> = w"
  "bigint (run_id r) \<Longrightarrow>
     near_id (run_id (mapWorkflowRunRow (workflow_run_row_of r))) (run_id r)
     \<and> (mapWorkflowRunRow (workflow_run_row_of r))\<lparr>run_id := run_id r\<rparr> = r"
  "bigint (no_runId n) \<Longrightarrow>
     near_id (no_runId (mapRunNodeOutputRow (run_node_output_row_of n))) (no_runId n)
     \<and> (mapRunNodeOutputRow (run_node_output_row_of n))\<lparr>no_runId := no_runId n\<rparr> = n"
  "bigint (sl_id l) \<Longrightarrow> bigint (sl_sequence l) \<Longrightarrow>
     near_id (sl_id (mapSessionLogEntryRow (session_log_entry_row_of l))) (sl_id l)
     \<and> near (sl_sequence (mapSessionLogEntryRow (session_log_entry_row_of l))) (sl_sequence l)
     \<and> (mapSessionLogEntryRow (session_log_entry_row_of l))\<lparr>sl_id := sl_id l, sl_sequence := sl_sequence l\<rparr> = l"
  "bigint (sp_currentSequence q) \<Longrightarrow>
     near (sp_currentSequence (mapSessionPointerRow (session_pointer_row_of q))) (sp_currentSequence q)
     \<and> (mapSessionPointerRow (session_pointer_row_of q))\<lparr>sp_currentSequence := sp_currentSequence q\<rparr> = q"
  "bigint (pl_accessCount p) \<Longrightarrow> bigint (pl_sizeBytes p) \<Longrightarrow>
     near_id (pl_accessCount (mapPlacementRow (placement_row_of p))) (pl_accessCount p)
     \<and> near (pl_sizeBytes (mapPlacementRow (placement_row_of p))) (pl_sizeBytes p)
     \<and> (mapPlacementRow (placement_row_of p))\<lparr>pl_accessCount := pl_accessCount p, pl_sizeBytes := pl_sizeBytes p\<rparr> = p"
  by (cases "ex_runId e"; simp add: mapExecutionRow_def execution_row_of_def id_of_near)
    (simp_all add: mapCheckpointRow_def checkpoint_row_of_def mapWaitRow_def wait_row_of_def
      mapWorkflowRunRow_def workflow_run_row_of_def mapRunNodeOutputRow_def run_node_output_row_of_def
      mapSessionLogEntryRow_def session_log_entry_row_of_def mapSessionPointerRow_def
      session_pointer_row_of_def mapPlacementRow_def placement_row_of_def id_of_near js_Number_near)

text \<open>C40. How far a mapped record can be off when ids, sequence numbers, counts and sizes are any 64-bit
  integers: in each of the eight tables, mapping the row that the driver returns for a stored
  record gives a record whose integer columns each differ from the stored one by at most one part
  in \<open>2 ^ 53\<close>, so by at most 1024, and whose other fields are the stored ones. The bound is not idle:
  the executions with the ids \<open>2 ^ 53\<close> and \<open>2 ^ 53 + 1\<close> become the same record.\<close>

theorem bigint_columns_are_nearly_exact:
  assumes "bigint_rows s"
  shows "list_all (\<lambda>e. let m = mapExecutionRow (execution_row_of e) in
      near_id (ex_id m) (ex_id e) \<and> rel_option near_id (ex_runId m) (ex_runId e)
      \<and> m\<lparr>ex_id := ex_id e, ex_runId := ex_runId e\<rparr> = e) (db_executions s)
    \<and> list_all (\<lambda>c. let m = mapCheckpointRow (checkpoint_row_of c) in
      near_id (cp_executionId m) (cp_executionId c) \<and> m\<lparr>cp_executionId := cp_executionId c\<rparr> = c) (db_checkpoints s)
    \<and> list_all (\<lambda>w. let m = mapWaitRow (wait_row_of w) in
      near_id (wt_id m) (wt_id w) \<and> near_id (wt_executionId m) (wt_executionId w)
      \<and> m\<lparr>wt_id := wt_id w, wt_executionId := wt_executionId w\<rparr> = w) (db_waits s)
    \<and> list_all (\<lambda>r. let m = mapWorkflowRunRow (workflow_run_row_of r) in
      near_id (run_id m) (run_id r) \<and> m\<lparr>run_id := run_id r\<rparr> = r) (db_workflow_runs s)
    \<and> list_all (\<lambda>n. let m = mapRunNodeOutputRow (run_node_output_row_of n) in
      near_id (no_runId m) (no_runId n) \<and> m\<lparr>no_runId := no_runId n\<rparr> = n) (db_run_node_outputs s)
    \<and> list_all (\<lambda>l. let m = mapSessionLogEntryRow (session_log_entry_row_of l) in
      near_id (sl_id m) (sl_id l) \<and> near (sl_sequence m) (sl_sequence l)
      \<and> m\<lparr>sl_id := sl_id l, sl_sequence := sl_sequence l\<rparr> = l) (db_session_log s)
    \<and> list_all (\<lambda>q. let m = mapSessionPointerRow (session_pointer_row_of q) in
      near (sp_currentSequence m) (sp_currentSequence q)
      \<and> m\<lparr>sp_currentSequence := sp_currentSequence q\<rparr> = q) (db_session_pointer s)
    \<and> list_all (\<lambda>p. let m = mapPlacementRow (placement_row_of p) in
      near_id (pl_accessCount m) (pl_accessCount p) \<and> near (pl_sizeBytes m) (pl_sizeBytes p)
      \<and> m\<lparr>pl_accessCount := pl_accessCount p, pl_sizeBytes := pl_sizeBytes p\<rparr> = p) (db_placement s)
    \<and> mapExecutionRow (execution_row_of (e\<lparr>ex_id := 2 ^ 53 + 1\<rparr>)) = mapExecutionRow (execution_row_of (e\<lparr>ex_id := 2 ^ 53\<rparr>))"
  unfolding list_all_iff Let_def
proof (intro conjI ballI)
  note rows = assms [unfolded bigint_rows_def list_all_iff]
  show "mapExecutionRow (execution_row_of (e\<lparr>ex_id := 2 ^ 53 + 1\<rparr>)) = mapExecutionRow (execution_row_of (e\<lparr>ex_id := 2 ^ 53\<rparr>))"
    unfolding mapExecutionRow_def execution_row_of_def using neighbours by simp
qed (use assms rows_map_near in \<open>auto simp: bigint_rows_def list_all_iff\<close>)

text \<open>The largest id of a 64-bit column is rounded up by one.\<close>

lemma bigint_columns_are_nearly_exact_witness:
  "near_id (ex_id (mapExecutionRow (execution_row_of (hd (db_executions db_large_id)\<lparr>ex_id := 2 ^ 63 - 1\<rparr>)))) (2 ^ 63 - 1)"
proof -
  let ?e = "hd (db_executions db_large_id)\<lparr>ex_id := 2 ^ 63 - 1\<rparr>"
  have "bigint_rows (db_large_id\<lparr>db_executions := [?e]\<rparr>)"
    by (simp add: bigint_rows_def db_large_id_def empty_db_def bigint_def)
  from bigint_columns_are_nearly_exact [OF this] show ?thesis by (simp add: Let_def)
qed

end
