(* ===== verification/Archived_Resolver.thy ===== *)
theory Archived_Resolver
  imports Placement
begin

text \<open>
  \<open>archive/placement-resolver/src/resolver.js\<close>, the prototype that \<open>scheduler/placement.ts\<close>
  replaced, over the same columns, and how far the two take the same decisions. The prototype
  talks SQL itself: its upsert is the statement of the placement repository, it prunes the access log
  by the promotion window alone, and its eviction takes rows never accessed first and rows of
  any size. A missing group of the configuration object is a \<open>TypeError\<close> where it is read
  without a default.
\<close>

subsection \<open>Configuration\<close>

record promotion_params =
  pp_frequencyThreshold :: int
  pp_frequencyWindowMs :: int
  pp_rehydrationCostThresholdMs :: rat

record cost_params =
  cq_observedMinSamples :: int
  cq_classPriorsMs :: "cost_class \<Rightarrow> rat option"

record resolver_config =
  rc_promotion :: "promotion_params option"
  rc_demotion_idleThresholdMs :: "int option"
  rc_capacity_pinnedBudgetBytes :: "int option"
  rc_cost :: "cost_params option"

definition DEFAULT_COST :: cost_params where
  "DEFAULT_COST =
     \<lparr>cq_observedMinSamples = 5,
      cq_classPriorsMs = (\<lambda>c. case c of Trivial \<Rightarrow> Some 10 | Cheap \<Rightarrow> Some 50 | Moderate \<Rightarrow> Some 300
                                      | Expensive \<Rightarrow> Some 2000)\<rparr>"

definition DEFAULT_PROMOTION :: promotion_params where
  "DEFAULT_PROMOTION =
     \<lparr>pp_frequencyThreshold = 3, pp_frequencyWindowMs = 7 * 60 * 1000, pp_rehydrationCostThresholdMs = 250\<rparr>"

definition DEFAULT_CONFIG :: resolver_config where
  "DEFAULT_CONFIG =
     \<lparr>rc_promotion = Some DEFAULT_PROMOTION, rc_demotion_idleThresholdMs = Some (20 * 60 * 1000),
      rc_capacity_pinnedBudgetBytes = Some (1024 * 1024 * 1024), rc_cost = Some DEFAULT_COST\<rparr>"

text \<open>The object that a complete row of \<open>placement_config\<close> holds.\<close>

definition config_of :: "placement_config \<Rightarrow> resolver_config" where
  "config_of c =
     \<lparr>rc_promotion = Some \<lparr>pp_frequencyThreshold = frequencyThreshold c,
        pp_frequencyWindowMs = frequencyWindowMs c,
        pp_rehydrationCostThresholdMs = rehydrationCostThresholdMs c\<rparr>,
      rc_demotion_idleThresholdMs = Some (idleThresholdMs c),
      rc_capacity_pinnedBudgetBytes = Some (pinnedBudgetBytes c),
      rc_cost = Some \<lparr>cq_observedMinSamples = observedMinSamples c,
        cq_classPriorsMs = (\<lambda>k. Some (class_prior (classPriorsMs c) k))\<rparr>\<rparr>"

definition resolver_loadConfig :: "string \<Rightarrow> resolver_config core_tx" where
  "resolver_loadConfig name =
     tx_read (\<lambda>s. case map_of (db_placement_config s) name of None \<Rightarrow> DEFAULT_CONFIG | Some c \<Rightarrow> config_of c)"

definition group_of :: "'a option \<Rightarrow> 'a result" where
  "group_of v = (case v of None \<Rightarrow> Inl (HostError ''TypeError'') | Some x \<Rightarrow> Inr x)"

definition resolver_effectiveRehydrationCostMs :: "placement \<Rightarrow> resolver_config \<Rightarrow> rat option \<times> cost_source" where
  "resolver_effectiveRehydrationCostMs p config =
    (let cost = nullish (rc_cost config) DEFAULT_COST in
     if pl_observedRehydrationMs p \<noteq> None \<and> int (pl_observedSampleCount p) \<ge> cq_observedMinSamples cost
     then (pl_observedRehydrationMs p, Observed)
     else (case Option.bind (pl_declaredCostClass p) (cq_classPriorsMs cost) of
             Some ms \<Rightarrow> (Some ms, DeclaredPrior)
           | None \<Rightarrow> (None, UnknownCost)))"

subsection \<open>Reading\<close>

record resolver_columns =
  rf_sessionId :: "string option"
  rf_pinned :: bool
  rf_interactivity :: interactivity
  rf_accessCount :: nat
  rf_lastAccessedAt :: "int option"
  rf_sizeBytes :: int
  rf_declaredCostClass :: "cost_class option"
  rf_observedRehydrationMs :: "rat option"
  rf_observedSampleCount :: nat

record resolver_fact =
  rf_found :: bool
  rf_warm :: bool
  rf_contentHash :: string
  rf_replicaId :: "string option"
  rf_reason :: resolution_reason
  rf_columns :: "resolver_columns option"

definition resolver_resolvePlacement :: "string \<Rightarrow> resolver_fact core_tx" where
  "resolver_resolvePlacement h =
     tx_read (\<lambda>s. case find_placement s h of
        None \<Rightarrow> \<lparr>rf_found = False, rf_warm = False, rf_contentHash = h, rf_replicaId = None,
                 rf_reason = NoPlacement, rf_columns = None\<rparr>
      | Some r \<Rightarrow>
          \<lparr>rf_found = True, rf_warm = (pl_replicaId r \<noteq> None), rf_contentHash = pl_contentHash r,
           rf_replicaId = pl_replicaId r,
           rf_reason = (if pl_replicaId r \<noteq> None then WarmReplica else ColdFact),
           rf_columns = Some
             \<lparr>rf_sessionId = pl_sessionId r, rf_pinned = pl_pinned r, rf_interactivity = pl_interactivity r,
              rf_accessCount = pl_accessCount r, rf_lastAccessedAt = pl_lastAccessedAt r,
              rf_sizeBytes = pl_sizeBytes r, rf_declaredCostClass = pl_declaredCostClass r,
              rf_observedRehydrationMs = pl_observedRehydrationMs r,
              rf_observedSampleCount = pl_observedSampleCount r\<rparr>\<rparr>)"

subsection \<open>Recording\<close>

text \<open>The horizon of the pruning: \<open>config?.promotion?.frequencyWindowMs ?? DEFAULT_CONFIG...\<close>.\<close>

definition resolver_window :: "resolver_config \<Rightarrow> int" where
  "resolver_window config = pp_frequencyWindowMs (nullish (rc_promotion config) DEFAULT_PROMOTION)"

definition resolver_recordAccess :: "string \<Rightarrow> access_input \<Rightarrow> resolver_config \<Rightarrow> unit core_tx" where
  "resolver_recordAccess h i config =
     tx_then (tx_write (\<lambda>s. s\<lparr>db_placement :=
        (if find_placement s h = None then db_placement s @ [inserted_placement h i (db_now s)]
         else sql_update (\<lambda>p. pl_contentHash p = h) (updated_placement i (db_now s)) (db_placement s))\<rparr>))
    (tx_then (tx_write (\<lambda>s. s\<lparr>db_placement_access :=
        db_placement_access s @ [\<lparr>pa_contentHash = h, pa_accessedAt = nullish (in_at i) (db_now s)\<rparr>]\<rparr>))
             (tx_write (\<lambda>s. s\<lparr>db_placement_access :=
        sql_delete (\<lambda>a. pa_contentHash a = h \<and> pa_accessedAt a < db_now s - resolver_window config)
          (db_placement_access s)\<rparr>)))"

definition resolver_windowedAccessCount :: "string \<Rightarrow> resolver_config \<Rightarrow> nat core_tx" where
  "resolver_windowedAccessCount h config =
     tx_bind (tx_lift (group_of (rc_promotion config))) (\<lambda>promotion.
       tx_read (\<lambda>s. length (within_window s h (pp_frequencyWindowMs promotion))))"

subsection \<open>Decisions\<close>

definition resolver_evaluatePromotion :: "string \<Rightarrow> resolver_config \<Rightarrow> promotion_decision core_tx" where
  "resolver_evaluatePromotion h config =
     tx_bind (tx_read (\<lambda>s. find_placement s h)) (\<lambda>found.
       case found of
         None \<Rightarrow> tx_return \<lparr>pd_promote = False, pd_reason = PromoteNoPlacement, pd_detail = None\<rparr>
       | Some row \<Rightarrow>
           if pl_pinned row
           then tx_return \<lparr>pd_promote = False, pd_reason = AlreadyPinned, pd_detail = None\<rparr>
           else let interactiveOk = (pl_interactivity row = Interactive);
                    (costMs, costSource) = resolver_effectiveRehydrationCostMs row config in
             tx_bind (tx_lift (group_of (rc_promotion config))) (\<lambda>promotion.
             let costOk = (case costMs of None \<Rightarrow> False
                           | Some c \<Rightarrow> c > pp_rehydrationCostThresholdMs promotion) in
             tx_bind (resolver_windowedAccessCount h config) (\<lambda>freq.
               let freqOk = (int freq \<ge> pp_frequencyThreshold promotion);
                   promote = (interactiveOk \<and> costOk \<and> freqOk)
               in tx_return
                    \<lparr>pd_promote = promote,
                     pd_reason =
                       (if promote then Qualifies
                        else if \<not> interactiveOk then NotInteractive
                        else if \<not> costOk then CostBelowThreshold
                        else FrequencyBelowThreshold),
                     pd_detail = Some
                       \<lparr>pd_interactivity = pl_interactivity row, pd_interactiveOk = interactiveOk,
                        pd_costMs = costMs, pd_costSource = costSource,
                        pd_costThresholdMs = pp_rehydrationCostThresholdMs promotion, pd_costOk = costOk,
                        pd_windowedAccessCount = freq,
                        pd_frequencyThreshold = pp_frequencyThreshold promotion, pd_freqOk = freqOk\<rparr>\<rparr>)))"

text \<open>The idle time is that of the database's clock.\<close>

definition resolver_evaluateDemotion :: "string \<Rightarrow> resolver_config \<Rightarrow> demotion_decision core_tx" where
  "resolver_evaluateDemotion h config =
     tx_bind (tx_read (\<lambda>s. map_option (\<lambda>p. (p, map_option (\<lambda>t. db_now s - t) (pl_lastAccessedAt p)))
                           (find_placement s h))) (\<lambda>found.
       case found of
         None \<Rightarrow> tx_return \<lparr>dd_demote = False, dd_reason = DemoteNoPlacement, dd_detail = None\<rparr>
       | Some (row, idle_ms) \<Rightarrow>
           if \<not> pl_pinned row
           then tx_return \<lparr>dd_demote = False, dd_reason = NotPinned, dd_detail = None\<rparr>
           else let idleMs = (case idle_ms of None \<Rightarrow> InfiniteMs | Some ms \<Rightarrow> FiniteMs ms) in
             tx_bind (tx_lift (group_of (rc_demotion_idleThresholdMs config))) (\<lambda>threshold.
               let demote = idle_exceeds idleMs threshold
               in tx_return
                    \<lparr>dd_demote = demote,
                     dd_reason = (if demote then IdlePastThreshold else StillWithinIdleThreshold),
                     dd_detail = Some (idleMs, threshold)\<rparr>))"

subsection \<open>Actions\<close>

definition resolver_promote :: "string \<Rightarrow> unit core_tx" where
  "resolver_promote h = tx_write (\<lambda>s. s\<lparr>db_placement :=
     sql_update (\<lambda>p. pl_contentHash p = h) (pin_row True (db_now s)) (db_placement s)\<rparr>)"

definition resolver_demote :: "string \<Rightarrow> unit core_tx" where
  "resolver_demote h = tx_write (\<lambda>s. s\<lparr>db_placement :=
     sql_update (\<lambda>p. pl_contentHash p = h) (pin_row False (db_now s)) (db_placement s)\<rparr>)"

fun resolver_evict_loop :: "int \<Rightarrow> placement list \<Rightarrow> int \<Rightarrow> string list \<Rightarrow> string list core_tx" where
  "resolver_evict_loop budget [] tot evicted = tx_return evicted"
| "resolver_evict_loop budget (r # rows) tot evicted =
     (if tot \<le> budget then tx_return evicted
      else tx_then (resolver_demote (pl_contentHash r))
             (resolver_evict_loop budget rows (tot - pl_sizeBytes r) (evicted @ [pl_contentHash r])))"

text \<open>\<open>ORDER BY last_accessed_at ASC NULLS FIRST\<close>.\<close>

definition nulls_first_key :: "placement \<Rightarrow> bool \<times> int" where
  "nulls_first_key p = (pl_lastAccessedAt p \<noteq> None, nullish (pl_lastAccessedAt p) 0)"

definition resolver_evictLRUIfOverCapacity :: "resolver_config \<Rightarrow> string list core_tx" where
  "resolver_evictLRUIfOverCapacity config =
     tx_bind (tx_lift (group_of (rc_capacity_pinnedBudgetBytes config))) (\<lambda>budget.
     tx_bind (tx_read (\<lambda>s. sort_key nulls_first_key (sql_select pl_pinned (db_placement s)))) (\<lambda>rows.
       let tot = fold (\<lambda>r sum. sum + pl_sizeBytes r) rows 0 in
       if tot \<le> budget then tx_return []
       else resolver_evict_loop budget rows tot []))"

subsection \<open>The two agree\<close>

lemma config_of_default: "config_of DEFAULT_PLACEMENT_CONFIG = DEFAULT_CONFIG"
  by (simp add: config_of_def DEFAULT_PLACEMENT_CONFIG_def DEFAULT_CONFIG_def DEFAULT_PROMOTION_def
      DEFAULT_COST_def class_prior_def fun_eq_iff split: cost_class.split)

lemma config_of_sel [simp]:
  "rc_promotion (config_of c) = Some \<lparr>pp_frequencyThreshold = frequencyThreshold c,
     pp_frequencyWindowMs = frequencyWindowMs c, pp_rehydrationCostThresholdMs = rehydrationCostThresholdMs c\<rparr>"
  "rc_demotion_idleThresholdMs (config_of c) = Some (idleThresholdMs c)"
  "rc_capacity_pinnedBudgetBytes (config_of c) = Some (pinnedBudgetBytes c)"
  "resolver_window (config_of c) = frequencyWindowMs c"
  by (simp_all add: config_of_def resolver_window_def)

lemma group_of_Some [simp]: "group_of (Some x) = Inr x"
  by (simp add: group_of_def)

lemma resolver_cost: "resolver_effectiveRehydrationCostMs p (config_of c) = effectiveRehydrationCostMs p c"
  by (simp add: resolver_effectiveRehydrationCostMs_def effectiveRehydrationCostMs_def config_of_def
      split: option.split)

lemma resolver_promotion: "resolver_evaluatePromotion h (config_of c) s = evaluatePromotion h c s"
proof (cases "find_placement s h")
  case (Some p)
  obtain ms src where "effectiveRehydrationCostMs p c = (ms, src)" by fastforce
  with Some show ?thesis
    by (cases ms)
      (simp_all add: resolver_evaluatePromotion_def evaluatePromotion_def placement_findByContentHash_def
        resolver_windowedAccessCount_def placementAccess_countWithinWindow_def resolver_cost tx_simps Let_def
        cong: if_cong)
qed (simp add: resolver_evaluatePromotion_def evaluatePromotion_def placement_findByContentHash_def tx_simps)

lemma resolver_demotion: "resolver_evaluateDemotion h (config_of c) s = evaluateDemotion (db_now s) h c s"
proof (cases "find_placement s h")
  case (Some p)
  then show ?thesis
    by (cases "pl_lastAccessedAt p")
      (simp_all add: resolver_evaluateDemotion_def evaluateDemotion_def placement_findByContentHash_def tx_simps Let_def)
qed (simp add: resolver_evaluateDemotion_def evaluateDemotion_def placement_findByContentHash_def tx_simps)

text \<open>A history of accesses: how much time passes before each, and what is accessed.\<close>

type_synonym access_history = "(nat \<times> string \<times> access_input) list"

definition pass_time :: "nat \<Rightarrow> core_db \<Rightarrow> core_db" where
  "pass_time d s = s\<lparr>db_now := db_now s + int d\<rparr>"

definition scheduler_accesses :: "placement_config \<Rightarrow> access_history \<Rightarrow> core_db \<Rightarrow> core_db" where
  "scheduler_accesses c = fold (\<lambda>(d, h, i) s. snd (recordAccess h i (Some c) (pass_time d s)))"

definition resolver_accesses :: "placement_config \<Rightarrow> access_history \<Rightarrow> core_db \<Rightarrow> core_db" where
  "resolver_accesses c = fold (\<lambda>(d, h, i) s. snd (resolver_recordAccess h i (config_of c) (pass_time d s)))"

definition accessed_rows :: "string \<Rightarrow> access_input \<Rightarrow> core_db \<Rightarrow> placement list" where
  "accessed_rows h i s =
     (if find_placement s h = None then db_placement s @ [inserted_placement h i (db_now s)]
      else sql_update (\<lambda>p. pl_contentHash p = h) (updated_placement i (db_now s)) (db_placement s))"

definition accessed_log :: "string \<Rightarrow> access_input \<Rightarrow> int \<Rightarrow> core_db \<Rightarrow> placement_access list" where
  "accessed_log h i horizon s =
     sql_delete (\<lambda>a. pa_contentHash a = h \<and> pa_accessedAt a < db_now s - horizon)
       (db_placement_access s @ [\<lparr>pa_contentHash = h, pa_accessedAt = nullish (in_at i) (db_now s)\<rparr>])"

lemma recordAccess_state:
  "snd (recordAccess h i cfg s) = s\<lparr>db_placement := accessed_rows h i s,
     db_placement_access := accessed_log h i (prune_horizon cfg) s\<rparr>"
proof -
  obtain rows where up: "placement_upsertAccess h i s = (Inr (access_result s h i), s\<lparr>db_placement := rows\<rparr>)"
    by (rule upsertAccess_eq) blast
  have "snd (placement_upsertAccess h i s) = s\<lparr>db_placement := accessed_rows h i s\<rparr>"
    by (auto simp: placement_upsertAccess_def accessed_rows_def row_or_throw_def tx_simps Let_def split: option.split)
  with up have "s\<lparr>db_placement := rows\<rparr> = s\<lparr>db_placement := accessed_rows h i s\<rparr>" by simp
  with up show ?thesis
    by (simp add: recordAccess_def tx_simps Let_def placementAccess_record_def
        placementAccess_pruneOlderThan_def prune_horizon_def accessed_log_def)
qed

lemma resolver_recordAccess_state:
  "snd (resolver_recordAccess h i cfg s) = s\<lparr>db_placement := accessed_rows h i s,
     db_placement_access := accessed_log h i (resolver_window cfg) s\<rparr>"
  by (simp add: resolver_recordAccess_def tx_simps accessed_rows_def accessed_log_def)

text \<open>Two databases between which no decision under \<open>c\<close> can tell.\<close>

definition alike :: "placement_config \<Rightarrow> core_db \<Rightarrow> core_db \<Rightarrow> bool" where
  "alike c s t \<longleftrightarrow> db_now t = db_now s \<and> db_placement t = db_placement s
     \<and> (\<forall>h. within_window t h (frequencyWindowMs c) = within_window s h (frequencyWindowMs c))"

lemma accessed_log_window:
  assumes "w \<le> horizon"
  shows "sql_select (\<lambda>a. pa_contentHash a = h' \<and> pa_accessedAt a \<ge> db_now s - w) (accessed_log h i horizon s)
    = within_window s h' w @ sql_select (\<lambda>a. pa_contentHash a = h' \<and> pa_accessedAt a \<ge> db_now s - w)
        [\<lparr>pa_contentHash = h, pa_accessedAt = nullish (in_at i) (db_now s)\<rparr>]"
  unfolding accessed_log_def
  by (subst sql_select_delete) (use assms in \<open>auto simp: within_window_def sql_select_def\<close>)

lemma alike_pass_time: "alike c s t \<Longrightarrow> alike c (pass_time d s) (pass_time d t)"
proof -
  assume a: "alike c s t"
  have "within_window (pass_time d u) h w = filter (\<lambda>a. pa_accessedAt a \<ge> db_now u + int d - w) (within_window u h w)"
    for u h w
    by (auto simp: within_window_def pass_time_def sql_select_def intro!: filter_cong)
  with a show ?thesis by (simp add: alike_def) (simp add: pass_time_def)
qed

lemma alike_access:
  assumes "alike c s t"
  shows "alike c (snd (recordAccess h i (Some c) s)) (snd (resolver_recordAccess h i (config_of c) t))"
proof -
  let ?w = "frequencyWindowMs c"
  have rows: "accessed_rows h i t = accessed_rows h i s"
    using assms by (simp add: alike_def accessed_rows_def find_placement_def)
  have a: "db_now t = db_now s" "db_placement t = db_placement s" "\<And>h. within_window t h ?w = within_window s h ?w"
    using assms by (simp_all add: alike_def)
  have "?w \<le> prune_horizon (Some c)" by (simp add: prune_horizon_def)
  then show ?thesis
    using a rows accessed_log_window [of ?w ?w _ t h i] accessed_log_window [of ?w "prune_horizon (Some c)" _ s h i]
    by (simp add: alike_def recordAccess_state resolver_recordAccess_state within_window_def)
qed

lemma alike_accesses: "alike c s t \<Longrightarrow> alike c (scheduler_accesses c hs s) (resolver_accesses c hs t)"
  by (induction hs arbitrary: s t)
    (auto simp: scheduler_accesses_def resolver_accesses_def intro: alike_access alike_pass_time)

lemma resolver_evict_loop_eq:
  assumes "\<And>p. p \<in> set ps \<Longrightarrow> pl_contentHash p \<in> set (map pl_contentHash (db_placement s))"
    and "\<And>p. p \<in> set ps \<Longrightarrow> 0 < pl_sizeBytes p"
  shows "resolver_evict_loop budget ps tot evicted s = evict_loop budget ps tot evicted s"
  using assms
proof (induction ps arbitrary: tot evicted s)
  case (Cons p ps)
  let ?s = "s\<lparr>db_placement := sql_update (\<lambda>q. pl_contentHash q = pl_contentHash p)
      (pin_row False (db_now s)) (db_placement s)\<rparr>"
  obtain q where q: "placement_setPinned (pl_contentHash p) False s = (Inr q, ?s)"
    using setPinned_eq [of "pl_contentHash p" s False] Cons.prems(1) by auto
  have "map pl_contentHash (db_placement ?s) = map pl_contentHash (db_placement s)"
    by (simp add: map_sql_update del: map_eq_conv)
  then have "resolver_evict_loop budget ps b e ?s = evict_loop budget ps b e ?s" for b e
    using Cons.prems by (intro Cons.IH) (simp_all del: set_map map_eq_conv)
  with q Cons.prems(2) [of p] show ?case by (simp add: demote_def resolver_demote_def tx_simps)
qed simp

lemma sort_key_same_order:
  assumes "\<And>x y. x \<in> set xs \<Longrightarrow> y \<in> set xs \<Longrightarrow> f x \<le> f y \<longleftrightarrow> g x \<le> g y"
  shows "sort_key f xs = sort_key g xs"
proof -
  have insort: "insort_key f x ys = insort_key g x ys" if "\<And>y. y \<in> set ys \<Longrightarrow> f x \<le> f y \<longleftrightarrow> g x \<le> g y" for x ys
    using that by (induction ys) auto
  show ?thesis
    using assms
  proof (induction xs)
    case (Cons x xs)
    then have "sort_key f xs = sort_key g xs" by simp
    with Cons.prems insort [of "sort_key g xs" x] show ?case by simp
  qed simp
qed

text \<open>Every pinned entry has been accessed and takes space.\<close>

definition pinned_measured :: "core_db \<Rightarrow> bool" where
  "pinned_measured s \<longleftrightarrow> (\<forall>p \<in> set (pinned_rows s). pl_lastAccessedAt p \<noteq> None \<and> 0 < pl_sizeBytes p)"

lemma resolver_eviction:
  assumes "pinned_measured s"
  shows "resolver_evictLRUIfOverCapacity (config_of c) s = evictLRUIfOverCapacity c s"
proof -
  have "nulls_first_key p \<le> nulls_first_key q \<longleftrightarrow> lru_key p \<le> lru_key q"
    if "p \<in> set (pinned_rows s)" "q \<in> set (pinned_rows s)" for p q
    using assms that by (auto simp: pinned_measured_def nulls_first_key_def lru_key_def)
  then have order: "sort_key nulls_first_key (sql_select pl_pinned (db_placement s)) = pinned_by_lru s"
    unfolding pinned_by_lru_def pinned_rows_def by (rule sort_key_same_order)
  have "resolver_evict_loop b (pinned_by_lru s) tot [] s = evict_loop b (pinned_by_lru s) tot [] s" for b tot
    using assms by (intro resolver_evict_loop_eq)
      (auto simp: pinned_by_lru_facts pinned_measured_def pinned_rows_def table_simps)
  then show ?thesis
    by (simp add: resolver_evictLRUIfOverCapacity_def evictLRUIfOverCapacity_def order
        placement_listPinnedOrderedByLru_def total_size_def tx_simps Let_def)
qed

text \<open>The idle time and threshold of a demotion's detail, on a clock that is ahead by \<open>k\<close>.\<close>

fun idle_ahead :: "int \<Rightarrow> idle_time \<times> int \<Rightarrow> idle_time \<times> int" where
  "idle_ahead k (InfiniteMs, threshold) = (InfiniteMs, threshold)"
| "idle_ahead k (FiniteMs ms, threshold) = (FiniteMs (ms + k), threshold)"

lemma idle_ahead_0 [simp]: "idle_ahead 0 x = x"
  by (cases x; cases "fst x") simp_all

lemma demotion_clocks:
  "\<exists>x y. fst (evaluateDemotion (db_now s) h c s) = Inr x \<and> fst (evaluateDemotion date_now h c s) = Inr y
    \<and> dd_detail y = map_option (idle_ahead (date_now - db_now s)) (dd_detail x)
    \<and> ((\<forall>ms threshold. dd_detail x = Some (FiniteMs ms, threshold) \<longrightarrow>
          (threshold < ms \<longleftrightarrow> threshold < ms + (date_now - db_now s))) \<longrightarrow>
        dd_demote y = dd_demote x \<and> dd_reason y = dd_reason x)"
proof (cases "find_placement s h")
  case (Some p)
  then show ?thesis
    by (cases "pl_lastAccessedAt p")
      (auto simp: evaluateDemotion_def placement_findByContentHash_def tx_simps Let_def algebra_simps, presburger+)
qed (simp add: evaluateDemotion_def placement_findByContentHash_def tx_simps)

text \<open>C15. The scheduler decides as the prototype it replaced: from the same database, after any history
  of accesses recorded under one configuration, the two hold the same placement rows, resolve a
  hash to the same fact, and take the same promotion decisions with the same reasons and
  details, although they prune the access log differently. A demotion is measured by the clock of
  the process (\<open>Date.now()\<close>) in the scheduler and by the database's in the prototype: when the
  process is ahead by \<open>k\<close> (or behind, by a negative \<open>k\<close>), the idle time in the scheduler's
  detail is greater by \<open>k\<close>, and decision and reason are the same unless the threshold lies
  between the two idle times. So with clocks that agree they are the same in everything.
  Evictions agree where every pinned entry has been accessed and has a size.\<close>

theorem scheduler_decides_as_the_resolver:
  "let s = scheduler_accesses c hs u; t = resolver_accesses c hs u in
    db_placement t = db_placement s
    \<and> (\<exists>fact. resolver_resolvePlacement h t = (Inr fact, t)
        \<and> (\<exists>r. resolvePlacement h s = (Inr r, s) \<and> rf_found fact = res_found r \<and> rf_warm fact = res_warm r
              \<and> rf_contentHash fact = res_contentHash r \<and> rf_reason fact = res_reason r
              \<and> rf_replicaId fact = Option.bind (res_placement r) pl_replicaId))
    \<and> fst (resolver_evaluatePromotion h (config_of c) t) = fst (evaluatePromotion h c s)
    \<and> (\<exists>x y. fst (resolver_evaluateDemotion h (config_of c) t) = Inr x \<and> fst (evaluateDemotion date_now h c s) = Inr y
        \<and> dd_detail y = map_option (idle_ahead (date_now - db_now s)) (dd_detail x)
        \<and> ((\<forall>ms threshold. dd_detail x = Some (FiniteMs ms, threshold) \<longrightarrow>
              (threshold < ms \<longleftrightarrow> threshold < ms + (date_now - db_now s))) \<longrightarrow>
            dd_demote y = dd_demote x \<and> dd_reason y = dd_reason x))
    \<and> (date_now = db_now s \<longrightarrow>
        fst (resolver_evaluateDemotion h (config_of c) t) = fst (evaluateDemotion date_now h c s))
    \<and> (pinned_measured s \<longrightarrow>
        fst (resolver_evictLRUIfOverCapacity (config_of c) t) = fst (evictLRUIfOverCapacity c s)
        \<and> db_placement (snd (resolver_evictLRUIfOverCapacity (config_of c) t))
            = db_placement (snd (evictLRUIfOverCapacity c s)))"
proof -
  define s where "s = scheduler_accesses c hs u"
  define t where "t = resolver_accesses c hs u"
  have "alike c s t" unfolding s_def t_def by (rule alike_accesses) (simp add: alike_def)
  then have a: "db_now t = db_now s" "db_placement t = db_placement s"
    "\<And>h. within_window t h (frequencyWindowMs c) = within_window s h (frequencyWindowMs c)"
    by (simp_all add: alike_def)
  then have find: "find_placement t h = find_placement s h" by (simp add: find_placement_def)
  have "fst (evaluatePromotion h c t) = fst (evaluatePromotion h c s)"
    by (simp add: evaluatePromotion_def placement_findByContentHash_def placementAccess_countWithinWindow_def
        tx_simps Let_def a find split: option.split prod.split)
  moreover have "fst (evaluateDemotion d h c t) = fst (evaluateDemotion d h c s)" for d
    by (simp add: evaluateDemotion_def placement_findByContentHash_def tx_simps Let_def a find split: option.split)
  moreover have "fst (evictLRUIfOverCapacity c t) = fst (evictLRUIfOverCapacity c s)"
    "db_placement (snd (evictLRUIfOverCapacity c t)) = db_placement (snd (evictLRUIfOverCapacity c s))"
    by (simp_all add: evict_eq Let_def pinned_by_lru_def pinned_rows_def a)
  moreover have "pinned_measured t = pinned_measured s" by (simp add: pinned_measured_def pinned_rows_def a)
  ultimately show ?thesis
    using find_placement_in [of s h] demotion_clocks [of s h c date_now] unfolding Let_def s_def [symmetric] t_def [symmetric]
    by (auto simp: resolver_promotion resolver_demotion resolver_eviction a find resolver_resolvePlacement_def
        resolvePlacement_def placement_findByContentHash_def tx_simps split: option.splits)
qed

text \<open>Two accesses in a second, then an eviction from a set that holds a measured entry.\<close>

lemma scheduler_decides_as_the_resolver_witness:
  "fst (resolver_evictLRUIfOverCapacity (config_of DEFAULT_PLACEMENT_CONFIG)
      (resolver_accesses DEFAULT_PLACEMENT_CONFIG [(500, ''h'', hot_fields None), (500, ''h'', hot_fields None)] db_pinned))
   = fst (evictLRUIfOverCapacity DEFAULT_PLACEMENT_CONFIG
      (scheduler_accesses DEFAULT_PLACEMENT_CONFIG [(500, ''h'', hot_fields None), (500, ''h'', hot_fields None)] db_pinned))"
proof -
  let ?hs = "[(500, ''h'', hot_fields None), (500, ''h'', hot_fields None)]"
  have "pinned_measured (scheduler_accesses DEFAULT_PLACEMENT_CONFIG ?hs db_pinned)" by code_simp
  then show ?thesis
    using scheduler_decides_as_the_resolver [of DEFAULT_PLACEMENT_CONFIG ?hs db_pinned "''h''"] by (simp add: Let_def)
qed

end
