(* ===== verification/Ir_Bindings.thy ===== *)
theory Ir_Bindings
  imports Platform_Errors
begin

text \<open>
  \<open>archive/spikes/1.5-ir-interpreter/src/compute.js\<close> and \<open>bindings.js\<close>: the expression evaluator
  and the resolution of bindings of the prototype interpreter. Bindings and expressions are the
  JSON values of the document. An \<open>Error\<close> is a \<open>HostError\<close> with the fixed part of its message.
  The text of a number, the number a text denotes (\<open>None\<close> for \<open>NaN\<close>) and the identity of two
  arrays or objects belong to the host and are parameters.
\<close>

record js_host =
  num_text :: "rat \<Rightarrow> string"
  text_num :: "string \<Rightarrow> rat option"
  same_object :: "json \<Rightarrow> json \<Rightarrow> bool"

subsection \<open>Conversions of the language\<close>

text \<open>\<open>String(v)\<close>. An array joins its elements, with nothing for \<open>null\<close>.\<close>

fun js_string :: "js_host \<Rightarrow> json \<Rightarrow> string" where
  "js_string H JNull = ''null''"
| "js_string H (JBool b) = (if b then ''true'' else ''false'')"
| "js_string H (JNum n) = num_text H n"
| "js_string H (JStr s) = s"
| "js_string H (JArr xs) = join_with '','' (map (\<lambda>x. if x = JNull then [] else js_string H x) xs)"
| "js_string H (JObj _) = ''[object Object]''"

text \<open>A value used as a property key.\<close>

definition js_key :: "js_host \<Rightarrow> json option \<Rightarrow> string" where
  "js_key H v = (case v of None \<Rightarrow> ''undefined'' | Some x \<Rightarrow> js_string H x)"

text \<open>The primitive that a comparison sees, and its number.\<close>

definition js_primitive :: "js_host \<Rightarrow> json \<Rightarrow> json" where
  "js_primitive H v = (case v of JArr _ \<Rightarrow> JStr (js_string H v) | JObj _ \<Rightarrow> JStr (js_string H v) | _ \<Rightarrow> v)"

fun js_number :: "js_host \<Rightarrow> json \<Rightarrow> rat option" where
  "js_number H JNull = Some 0"
| "js_number H (JBool b) = Some (if b then 1 else 0)"
| "js_number H (JNum n) = Some n"
| "js_number H (JStr s) = text_num H s"
| "js_number H _ = None"

fun text_less :: "string \<Rightarrow> string \<Rightarrow> bool" where
  "text_less _ [] = False"
| "text_less [] (d # ds) = True"
| "text_less (c # cs) (d # ds) = (of_char c < (of_char d :: nat) \<or> c = d \<and> text_less cs ds)"

text \<open>
  \<open>a < b\<close> and \<open>a <= b\<close>: two texts are compared by their characters, anything else as numbers,
  and a comparison with \<open>undefined\<close> or \<open>NaN\<close> is false.
\<close>

definition js_compare ::
  "(string \<Rightarrow> string \<Rightarrow> bool) \<Rightarrow> (rat \<Rightarrow> rat \<Rightarrow> bool) \<Rightarrow> js_host \<Rightarrow> json option \<Rightarrow> json option \<Rightarrow> bool" where
  "js_compare ts ns H a b =
     (case (map_option (js_primitive H) a, map_option (js_primitive H) b) of
        (Some (JStr x), Some (JStr y)) \<Rightarrow> ts x y
      | (Some x, Some y) \<Rightarrow>
          (case (js_number H x, js_number H y) of (Some m, Some n) \<Rightarrow> ns m n | _ \<Rightarrow> False)
      | _ \<Rightarrow> False)"

definition js_less :: "js_host \<Rightarrow> json option \<Rightarrow> json option \<Rightarrow> bool" where
  "js_less = js_compare text_less (<)"

definition js_less_equal :: "js_host \<Rightarrow> json option \<Rightarrow> json option \<Rightarrow> bool" where
  "js_less_equal = js_compare (\<lambda>x y. \<not> text_less y x) (\<le>)"

fun js_strict_equal :: "js_host \<Rightarrow> json option \<Rightarrow> json option \<Rightarrow> bool" where
  "js_strict_equal H (Some (JArr xs)) (Some (JArr ys)) = same_object H (JArr xs) (JArr ys)"
| "js_strict_equal H (Some (JObj xs)) (Some (JObj ys)) = same_object H (JObj xs) (JObj ys)"
| "js_strict_equal H a b = (a = b)"

fun js_truthy :: "json option \<Rightarrow> bool" where
  "js_truthy None = False"
| "js_truthy (Some JNull) = False"
| "js_truthy (Some (JBool b)) = b"
| "js_truthy (Some (JNum n)) = (n \<noteq> 0)"
| "js_truthy (Some (JStr s)) = (s \<noteq> [])"
| "js_truthy (Some _) = True"

subsection \<open>\<open>compute.js\<close>\<close>

definition arg_at :: "nat \<Rightarrow> json list \<Rightarrow> json option" where
  "arg_at i args = (if i < length args then Some (args ! i) else None)"

text \<open>\<open>OPS\<close>: the operators and what they do; \<open>None\<close> for a name that is none of them.\<close>

definition apply_op :: "js_host \<Rightarrow> string \<Rightarrow> json list \<Rightarrow> json option" where
  "apply_op H oper args =
    (let a = arg_at 0 args; b = arg_at 1 args in
     if oper = ''>'' then Some (JBool (js_less H b a))
     else if oper = ''>='' then Some (JBool (js_less_equal H b a))
     else if oper = ''<'' then Some (JBool (js_less H a b))
     else if oper = ''<='' then Some (JBool (js_less_equal H a b))
     else if oper = ''=='' then Some (JBool (js_strict_equal H a b))
     else if oper = ''!='' then Some (JBool (\<not> js_strict_equal H a b))
     else if oper = ''and'' then Some (JBool (list_all (\<lambda>x. js_truthy (Some x)) args))
     else if oper = ''or'' then Some (JBool (list_ex (\<lambda>x. js_truthy (Some x)) args))
     else if oper = ''not'' then Some (JBool (\<not> js_truthy a))
     else None)"

definition op_names :: "string list" where
  "op_names = [''>'', ''>='', ''<'', ''<='', ''=='', ''!='', ''and'', ''or'', ''not'']"

fun evaluateCompute :: "js_host \<Rightarrow> json \<Rightarrow> js_object \<Rightarrow> json result" where
  "evaluateCompute H (JArr es) context = res_bind (res_map (\<lambda>e. evaluateCompute H e context) es) (\<lambda>vs. Inr (JArr vs))"
| "evaluateCompute H (JObj expr) context =
     (case js_get expr ''var'' of
        Some v \<Rightarrow>
          (case js_get context (js_string H v) of
             None \<Rightarrow> Inl (HostError ''compute: unbound variable'')
           | Some x \<Rightarrow> Inr x)
      | None \<Rightarrow>
          (case expr of
             [(oper, JArr rawArgs)] \<Rightarrow>
               if oper \<notin> set op_names then Inl (HostError ''compute: unsupported operator'')
               else res_bind (res_map (\<lambda>a. evaluateCompute H a context) rawArgs)
                      (\<lambda>args. Inr (the (apply_op H oper args)))
           | [(oper, rawArg)] \<Rightarrow>
               if oper \<notin> set op_names then Inl (HostError ''compute: unsupported operator'')
               else res_bind (evaluateCompute H rawArg context) (\<lambda>arg. Inr (the (apply_op H oper [arg])))
           | _ \<Rightarrow> Inl (HostError ''compute: expected exactly one operator key'')))"
| "evaluateCompute H expr context = Inr expr"

text \<open>Every operator the evaluator lets through is one that \<open>OPS\<close> has.\<close>

lemma apply_op_defined: "apply_op H oper args \<noteq> None \<longleftrightarrow> oper \<in> set op_names"
  by (simp add: apply_op_def op_names_def Let_def)

subsection \<open>\<open>bindings.js\<close>\<close>

text \<open>
  The context: the request's parameters, the outputs of the nodes that are done, and, for the
  step of a map body only, the item.
\<close>

record ir_context =
  cx_requestParams :: js_object
  cx_nodeOutputs :: "(string \<times> js_object) list"
  cx_item :: "json option"

text \<open>\<open>Object.entries(binding.using || {})\<close>; the characters of a text are no bindings.\<close>

definition using_entries :: "json option \<Rightarrow> js_object result" where
  "using_entries u =
     (case u of
        Some (JObj kvs) \<Rightarrow> Inr kvs
      | Some (JArr xs) \<Rightarrow> Inr (map (\<lambda>i. (string_of_nat i, xs ! i)) [0..<length xs])
      | Some (JStr s) \<Rightarrow> if s = [] then Inr [] else Inl (HostError ''resolveBinding: not a binding object'')
      | _ \<Rightarrow> Inr [])"

lemma js_get_smaller: "js_get obj k = Some v \<Longrightarrow> size v < Suc (size_list (\<lambda>x. Suc (size (snd x))) obj)"
  by (induction obj) (auto split: if_splits)

lemma using_entries_smaller [termination_simp]:
  assumes "using_entries (js_get obj k) = Inr es" "(n, b) \<in> set es"
  shows "size b < Suc (size_list (\<lambda>x. Suc (size (snd x))) obj)"
proof -
  have "\<exists>v. js_get obj k = Some v \<and> size b < size v"
    using assms
    by (auto simp: using_entries_def split: option.splits json.splits if_splits)
      (auto simp: size_list_estimation' less_Suc_eq_le dest!: nth_mem intro!: size_list_estimation')
  then show ?thesis using js_get_smaller by fastforce
qed

text \<open>The value of \<open>binding.from\<close> when it is a text.\<close>

definition binding_from :: "js_object \<Rightarrow> string option" where
  "binding_from obj = (case js_get obj ''from'' of Some (JStr f) \<Rightarrow> Some f | _ \<Rightarrow> None)"

definition resolve_request :: "js_host \<Rightarrow> js_object \<Rightarrow> ir_context \<Rightarrow> json result" where
  "resolve_request H obj ctx =
     (case js_get (cx_requestParams ctx) (js_key H (js_get obj ''param'')) of
        None \<Rightarrow> Inl (HostError ''resolveBinding: request param not supplied'')
      | Some v \<Rightarrow> Inr v)"

definition resolve_step :: "js_host \<Rightarrow> js_object \<Rightarrow> ir_context \<Rightarrow> json result" where
  "resolve_step H obj ctx =
     (case Option.bind (case js_get obj ''id'' of Some (JStr i) \<Rightarrow> Some i | _ \<Rightarrow> None)
             (map_of (cx_nodeOutputs ctx)) of
        None \<Rightarrow> Inl (HostError ''resolveBinding: node has not produced output yet'')
      | Some out \<Rightarrow>
          (case js_get out (js_key H (js_get obj ''output'')) of
             None \<Rightarrow> Inl (HostError ''resolveBinding: node has no such output'')
           | Some v \<Rightarrow> Inr v))"

fun ir_resolveBinding :: "js_host \<Rightarrow> json \<Rightarrow> ir_context \<Rightarrow> json result" where
  "ir_resolveBinding H (JObj obj) ctx =
     (case js_get obj ''literal'' of
        Some v \<Rightarrow> Inr v
      | None \<Rightarrow>
          if binding_from obj = Some ''request'' then resolve_request H obj ctx
          else if binding_from obj = Some ''step'' then resolve_step H obj ctx
          else if binding_from obj = Some ''item'' then
            (case cx_item ctx of
               None \<Rightarrow> Inl (HostError ''resolveBinding: item used outside a map body'')
             | Some v \<Rightarrow> Inr v)
          else
            (case js_get obj ''compute'' of
               Some expr \<Rightarrow>
                 (case using_entries (js_get obj ''using'') of
                    Inl e \<Rightarrow> Inl e
                  | Inr entries \<Rightarrow>
                      res_bind (res_map (\<lambda>(n, inner).
                          res_bind (ir_resolveBinding H inner ctx) (\<lambda>v. Inr (n, v))) entries)
                        (evaluateCompute H expr))
             | None \<Rightarrow>
                 if binding_from obj = Some ''session''
                 then Inl (HostError ''resolveBinding: session is not supported'')
                 else if binding_from obj = Some ''static''
                 then Inl (HostError ''resolveBinding: static is not supported'')
                 else Inl (HostError ''resolveBinding: unrecognized binding shape'')))"
| "ir_resolveBinding H (JArr _) ctx = Inl (HostError ''resolveBinding: unrecognized binding shape'')"
| "ir_resolveBinding H _ ctx = Inl (HostError ''resolveBinding: not a binding object'')"

text \<open>\<open>resolveReads\<close>; an absent map of bindings is an empty one.\<close>

definition ir_resolveReads :: "js_host \<Rightarrow> js_object option \<Rightarrow> ir_context \<Rightarrow> js_object result" where
  "ir_resolveReads H reads ctx =
     res_map (\<lambda>(n, b). res_bind (ir_resolveBinding H b ctx) (\<lambda>v. Inr (n, v))) (nullish reads [])"

subsection \<open>More outputs never change a value\<close>

text \<open>A binding that resolves keeps its value when further nodes have recorded their outputs.\<close>

definition context_grows :: "ir_context \<Rightarrow> ir_context \<Rightarrow> bool" where
  "context_grows ctx ctx' \<longleftrightarrow> cx_requestParams ctx' = cx_requestParams ctx \<and> cx_item ctx' = cx_item ctx
     \<and> map_of (cx_nodeOutputs ctx) \<subseteq>\<^sub>m map_of (cx_nodeOutputs ctx')"

lemma resolve_step_grows:
  "context_grows ctx ctx' \<Longrightarrow> resolve_step H obj ctx = Inr v \<Longrightarrow> resolve_step H obj ctx' = Inr v"
  by (auto simp: resolve_step_def context_grows_def map_le_def dom_def split: option.splits bind_splits)

lemma res_map_grows:
  assumes "\<And>x y. x \<in> set xs \<Longrightarrow> f x = Inr y \<Longrightarrow> g x = Inr y" "res_map f xs = Inr ys"
  shows "res_map g xs = Inr ys"
  using assms by (induction xs arbitrary: ys) (auto simp: res_bind_Inr)

lemma resolve_compute:
  assumes "js_get obj ''literal'' = None" "binding_from obj \<notin> {Some ''request'', Some ''step'', Some ''item''}"
    and "js_get obj ''compute'' = Some expr"
  shows "ir_resolveBinding H (JObj obj) ctx =
    (case using_entries (js_get obj ''using'') of
       Inl e \<Rightarrow> Inl e
     | Inr entries \<Rightarrow>
         res_bind (res_map (\<lambda>(n, inner). res_bind (ir_resolveBinding H inner ctx) (\<lambda>v. Inr (n, v))) entries)
           (evaluateCompute H expr))"
  using assms by simp

lemma ir_resolveBinding_grows:
  assumes "context_grows ctx ctx'" "ir_resolveBinding H b ctx = Inr v"
  shows "ir_resolveBinding H b ctx' = Inr v"
  using assms
proof (induction H b ctx arbitrary: v rule: ir_resolveBinding.induct)
  case (1 H obj ctx)
  have req: "resolve_request H obj ctx' = resolve_request H obj ctx"
    and item: "cx_item ctx' = cx_item ctx"
    using "1.prems"(1) by (simp_all add: resolve_request_def context_grows_def)
  show ?case
  proof (cases "js_get obj ''literal'' = None \<and> binding_from obj \<notin> {Some ''request'', Some ''step'', Some ''item''}")
    case False
    with "1.prems" show ?thesis by (auto simp: req item resolve_step_grows split: option.splits if_splits)
  next
    case True
    show ?thesis
    proof (cases "js_get obj ''compute''")
      case None
      with True "1.prems"(2) show ?thesis by (auto split: if_splits)
    next
      case expr: (Some expr)
      note eq = resolve_compute [OF conjunct1 [OF True] conjunct2 [OF True] expr]
      from "1.prems"(2) [unfolded eq] obtain entries vs where c:
        "using_entries (js_get obj ''using'') = Inr entries"
        "res_map (\<lambda>(n, inner). res_bind (ir_resolveBinding H inner ctx) (\<lambda>v. Inr (n, v))) entries = Inr vs"
        "evaluateCompute H expr vs = Inr v"
        by (auto simp: res_bind_Inr split: sum.splits)
      have IH: "ir_resolveBinding H b ctx' = Inr w"
        if "(n, b) \<in> set entries" "ir_resolveBinding H b ctx = Inr w" for n b w
        using "1.IH" [OF _ _ _ _ expr c(1) that(1) refl _ that(2)] True "1.prems"(1) by simp
      have "res_map (\<lambda>(n, inner). res_bind (ir_resolveBinding H inner ctx') (\<lambda>v. Inr (n, v))) entries = Inr vs"
        by (rule res_map_grows [OF _ c(2)]) (auto simp: res_bind_Inr IH)
      with c show ?thesis unfolding eq by simp
    qed
  qed
qed simp_all

declare ir_resolveBinding.simps [simp del]

lemma ir_resolveReads_grows:
  assumes "context_grows ctx ctx'" "ir_resolveReads H reads ctx = Inr vs"
  shows "ir_resolveReads H reads ctx' = Inr vs"
  unfolding ir_resolveReads_def
proof (rule res_map_grows [OF _ assms(2) [unfolded ir_resolveReads_def]])
  fix x y
  assume "(case x of (n, b) \<Rightarrow> res_bind (ir_resolveBinding H b ctx) (\<lambda>v. Inr (n, v))) = Inr y"
  then obtain n b v where "x = (n, b)" "ir_resolveBinding H b ctx = Inr v" "y = (n, v)"
    by (cases x) (auto simp: res_bind_Inr)
  with ir_resolveBinding_grows [OF assms(1)]
  show "(case x of (n, b) \<Rightarrow> res_bind (ir_resolveBinding H b ctx') (\<lambda>v. Inr (n, v))) = Inr y"
    by simp
qed

end
