(* ===== verification/Ir_Interpreter.thy ===== *)
theory Ir_Interpreter
  imports Ir_Bindings Transactions
begin

text \<open>
  \<open>archive/spikes/1.5-ir-interpreter/src/interpreter.js\<close> over the tables of its \<open>schema.sql\<close>: the
  prototype that runs steps, branches and maps by fanning children out as executions and
  joining them when the last one is done. Documents have the shape of
  \<open>ir/example-workflow.json\<close>; their bindings stay JSON. The function registry \<open>functions.js\<close>, a
  stand-in for services, is the parameter \<open>call\<close>. The column \<open>kind\<close> is the constructor of
  \<open>node_def\<close>, and a child's \<open>__item\<close> is the column \<open>xe_item\<close>. Foreign keys name the claimed row
  or a row inserted in the same transaction, so they are not checked again.
\<close>

subsection \<open>Documents\<close>

record ir_step =
  is_id :: string
  is_function :: string
  is_reads :: "js_object option"

record ir_case =
  ic_steps :: "ir_step list"
  ic_yields :: "js_object option"

datatype ir_node =
    IrStep ir_step
  | IrBranch string json "(string \<times> ir_case) list"
  | IrMap string json "ir_step list" "js_object option"

record ir_spec =
  iw_name :: string
  iw_nodes :: "ir_node list"
  iw_outputs :: "js_object option"

fun ir_id :: "ir_node \<Rightarrow> string" where
  "ir_id (IrStep st) = is_id st"
| "ir_id (IrBranch i _ _) = i"
| "ir_id (IrMap i _ _ _) = i"

definition ir_step_json :: "ir_step \<Rightarrow> json" where
  "ir_step_json st = JObj ([(''id'', JStr (is_id st)), (''function'', JStr (is_function st))]
     @ optional_field ''reads'' (map_option JObj (is_reads st)))"

definition ir_case_json :: "ir_case \<Rightarrow> json" where
  "ir_case_json c = JObj ([(''steps'', JArr (map ir_step_json (ic_steps c)))]
     @ optional_field ''yields'' (map_option JObj (ic_yields c)))"

fun ir_node_json :: "ir_node \<Rightarrow> json" where
  "ir_node_json (IrStep st) = ir_step_json st"
| "ir_node_json (IrBranch i selector cases) =
     JObj [(''id'', JStr i), (''kind'', JStr ''branch''), (''selector'', selector),
           (''cases'', JObj (map (map_prod id ir_case_json) cases))]"
| "ir_node_json (IrMap i source body yields) =
     JObj ([(''id'', JStr i), (''kind'', JStr ''map''), (''source'', source),
            (''body'', JArr (map ir_step_json body))]
       @ optional_field ''yields'' (map_option JObj yields))"

subsection \<open>Dependencies\<close>

definition step_ref :: "js_object \<Rightarrow> string list" where
  "step_ref obj =
     (if binding_from obj = Some ''step''
      then (case js_get obj ''id'' of Some (JStr i) \<Rightarrow> [i] | _ \<Rightarrow> [])
      else [])"

fun collectStepRefs :: "json \<Rightarrow> string list" where
  "collectStepRefs (JArr xs) = concat (map collectStepRefs xs)"
| "collectStepRefs (JObj obj) = step_ref obj @ concat (map (\<lambda>kv. collectStepRefs (snd kv)) obj)"
| "collectStepRefs _ = []"

fun internalStepIdsOf :: "ir_node \<Rightarrow> string list" where
  "internalStepIdsOf (IrStep _) = []"
| "internalStepIdsOf (IrBranch _ _ cases) = concat (map (\<lambda>kc. map is_id (ic_steps (snd kc))) cases)"
| "internalStepIdsOf (IrMap _ _ body _) = map is_id body"

definition externalDepsOf :: "ir_node \<Rightarrow> string list" where
  "externalDepsOf nd =
     filter (\<lambda>i. i \<notin> set (internalStepIdsOf nd) \<and> i \<noteq> ir_id nd) (js_dedup (collectStepRefs (ir_node_json nd)))"

subsection \<open>Tables\<close>

datatype ir_run_status = IrRunning | IrDone | IrFailed

record ir_run =
  ir_run_id :: nat
  ir_run_name :: string
  ir_run_params :: js_object
  ir_run_status :: ir_run_status
  ir_run_outputs :: "js_object option"

datatype ir_status = XBlocked | XQueued | XRunning | XAwaiting | XDone | XFailed

record ir_execution =
  xe_id :: nat
  xe_run :: nat
  xe_node :: string
  xe_parent :: "nat option"
  xe_index :: "nat option"
  xe_def :: ir_node
  xe_item :: "json option"
  xe_status :: ir_status
  xe_worker :: "string option"
  xe_lease :: "int option"
  xe_attempts :: nat

record ir_checkpoint =
  ck_execution :: nat
  ck_step :: string
  ck_output :: js_object

record ir_map_row =
  mn_execution :: nat
  mn_total :: nat
  mn_completed :: nat
  mn_source :: "json list"

record ir_branch_row =
  bn_execution :: nat
  bn_case :: string
  bn_total :: nat
  bn_completed :: nat

record ir_output =
  ro_run :: nat
  ro_node :: string
  ro_output :: js_object
  ro_done :: bool

record ir_db =
  ir_runs :: "ir_run list"
  ir_outputs :: "ir_output list"
  ir_executions :: "ir_execution list"
  ir_checkpoints :: "ir_checkpoint list"
  ir_map_rows :: "ir_map_row list"
  ir_branch_rows :: "ir_branch_row list"
  ir_runs_seq :: nat
  ir_executions_seq :: nat
  ir_locked :: "nat list"
  ir_now :: int

type_synonym 'a ir_tx = "(ir_db, platform_error, 'a) tx"

text \<open>\<open>rows[0].column\<close>: a \<open>TypeError\<close> when there is no row.\<close>

definition ir_first :: "'r list \<Rightarrow> 'r result" where
  "ir_first rows = (case first_row rows of None \<Rightarrow> Inl (HostError ''TypeError'') | Some r \<Rightarrow> Inr r)"

subsection \<open>Claiming and submission\<close>

definition ir_claimable :: "ir_db \<Rightarrow> ir_execution \<Rightarrow> bool" where
  "ir_claimable s e \<longleftrightarrow>
     (xe_status e = XQueued
      \<or> xe_status e = XRunning \<and> (case xe_lease e of None \<Rightarrow> False | Some t \<Rightarrow> t < ir_now s))
     \<and> xe_id e \<notin> set (ir_locked s)"

definition ir_claimed :: "string \<Rightarrow> int \<Rightarrow> int \<Rightarrow> ir_execution \<Rightarrow> ir_execution" where
  "ir_claimed worker lease now e =
     e\<lparr>xe_status := XRunning, xe_worker := Some worker, xe_lease := Some (now + lease * 1000),
       xe_attempts := xe_attempts e + 1\<rparr>"

definition ir_claim_execution :: "string \<Rightarrow> int \<Rightarrow> ir_execution option ir_tx" where
  "ir_claim_execution worker lease =
     (\<lambda>s. case first_row (sort_key xe_id (sql_select (ir_claimable s) (ir_executions s))) of
        None \<Rightarrow> (Inr None, s)
      | Some v \<Rightarrow>
          (Inr (Some (ir_claimed worker lease (ir_now s) v)),
           s\<lparr>ir_executions := sql_update (\<lambda>e. xe_id e = xe_id v) (ir_claimed worker lease (ir_now s))
               (ir_executions s)\<rparr>))"

definition ir_insert_execution ::
  "nat \<Rightarrow> string \<Rightarrow> nat option \<Rightarrow> nat option \<Rightarrow> ir_node \<Rightarrow> json option \<Rightarrow> ir_status \<Rightarrow> unit ir_tx" where
  "ir_insert_execution rid nid parent index nd item st =
     tx_write (\<lambda>s. s\<lparr>ir_executions := ir_executions s @
         [\<lparr>xe_id = Suc (ir_executions_seq s), xe_run = rid, xe_node = nid, xe_parent = parent, xe_index = index,
           xe_def = nd, xe_item = item, xe_status = st, xe_worker = None, xe_lease = None, xe_attempts = 0\<rparr>],
       ir_executions_seq := Suc (ir_executions_seq s)\<rparr>)"

definition ir_rollback :: "ir_db \<Rightarrow> ir_db \<Rightarrow> ir_db" where
  "ir_rollback s t = s\<lparr>ir_runs_seq := ir_runs_seq t, ir_executions_seq := ir_executions_seq t\<rparr>"

definition ir_submit_body :: "ir_spec \<Rightarrow> js_object \<Rightarrow> nat ir_tx" where
  "ir_submit_body spec params =
     tx_bind (\<lambda>s. let rid = Suc (ir_runs_seq s) in
         (Inr rid, s\<lparr>ir_runs := ir_runs s @
            [\<lparr>ir_run_id = rid, ir_run_name = iw_name spec, ir_run_params = params,
              ir_run_status = IrRunning, ir_run_outputs = None\<rparr>], ir_runs_seq := rid\<rparr>)) (\<lambda>runId.
     tx_then (tx_for (iw_nodes spec) (\<lambda>node.
         ir_insert_execution runId (ir_id node) None None node None
           (if length (externalDepsOf node) = 0 then XQueued else XBlocked)))
       (tx_return runId))"

definition ir_submitRun :: "connection \<Rightarrow> ir_spec \<Rightarrow> js_object \<Rightarrow> nat ir_tx" where
  "ir_submitRun conn spec params = withTransaction ir_rollback conn (ir_submit_body spec params)"

subsection \<open>Context, promotion, completion of the run\<close>

definition run_outputs :: "ir_db \<Rightarrow> nat \<Rightarrow> (string \<times> js_object) list" where
  "run_outputs s rid =
     map (\<lambda>o'. (ro_node o', ro_output o')) (sql_select (\<lambda>o'. ro_run o' = rid \<and> ro_done o') (ir_outputs s))"

definition ir_run_row :: "nat \<Rightarrow> ir_run ir_tx" where
  "ir_run_row rid =
     tx_bind (tx_read (\<lambda>s. sql_select (\<lambda>r. ir_run_id r = rid) (ir_runs s))) (\<lambda>rows. tx_lift (ir_first rows))"

definition loadRunContext :: "nat \<Rightarrow> ir_context ir_tx" where
  "loadRunContext rid =
     tx_bind (ir_run_row rid) (\<lambda>run.
     tx_bind (tx_read (\<lambda>s. run_outputs s rid)) (\<lambda>outs.
       tx_return \<lparr>cx_requestParams = ir_run_params run, cx_nodeOutputs = outs, cx_item = None\<rparr>))"

definition ir_set_status :: "nat \<Rightarrow> ir_status \<Rightarrow> unit ir_tx" where
  "ir_set_status eid st = tx_write (\<lambda>s. s\<lparr>ir_executions :=
     sql_update (\<lambda>e. xe_id e = eid) (\<lambda>e. e\<lparr>xe_status := st\<rparr>) (ir_executions s)\<rparr>)"

definition ir_promoteReadyNodes :: "nat \<Rightarrow> unit ir_tx" where
  "ir_promoteReadyNodes rid =
     tx_bind (tx_read (\<lambda>s. sql_select (\<lambda>e. xe_run e = rid \<and> xe_status e = XBlocked) (ir_executions s)))
       (\<lambda>blocked.
     if blocked = [] then tx_return ()
     else tx_bind (tx_read (\<lambda>s. map fst (run_outputs s rid))) (\<lambda>doneSet.
       tx_for blocked (\<lambda>row.
         if list_all (\<lambda>d. d \<in> set doneSet) (externalDepsOf (xe_def row))
         then ir_set_status (xe_id row) XQueued else tx_return ())))"

definition maybeCompleteRun :: "js_host \<Rightarrow> nat \<Rightarrow> ir_spec \<Rightarrow> bool ir_tx" where
  "maybeCompleteRun H rid spec =
     tx_bind (tx_read (\<lambda>s. run_outputs s rid)) (\<lambda>nodeOutputs.
     let required = js_dedup (case iw_outputs spec of None \<Rightarrow> [] | Some os \<Rightarrow> collectStepRefs (JObj os)) in
     if \<not> list_all (\<lambda>i. i \<in> fst ` set nodeOutputs) required then tx_return False
     else
       tx_bind (ir_run_row rid) (\<lambda>run.
       tx_bind (tx_lift (ir_resolveReads H (iw_outputs spec)
           \<lparr>cx_requestParams = ir_run_params run, cx_nodeOutputs = nodeOutputs, cx_item = None\<rparr>)) (\<lambda>outputs.
       tx_then (tx_write (\<lambda>s. s\<lparr>ir_runs := sql_update (\<lambda>r. ir_run_id r = rid)
           (\<lambda>r. r\<lparr>ir_run_status := IrDone, ir_run_outputs := Some outputs\<rparr>) (ir_runs s)\<rparr>))
         (tx_return True))))"

text \<open>\<open>INSERT ... ON CONFLICT (run_id, node_id) DO UPDATE\<close>.\<close>

definition ir_upsert_output :: "nat \<Rightarrow> string \<Rightarrow> js_object \<Rightarrow> unit ir_tx" where
  "ir_upsert_output rid nid out =
     tx_write (\<lambda>s. s\<lparr>ir_outputs :=
       (if list_ex (\<lambda>o'. ro_run o' = rid \<and> ro_node o' = nid) (ir_outputs s)
        then sql_update (\<lambda>o'. ro_run o' = rid \<and> ro_node o' = nid)
               (\<lambda>o'. o'\<lparr>ro_output := out, ro_done := True\<rparr>) (ir_outputs s)
        else ir_outputs s @ [\<lparr>ro_run = rid, ro_node = nid, ro_output = out, ro_done = True\<rparr>])\<rparr>)"

definition finishTopLevelNode :: "js_host \<Rightarrow> nat \<Rightarrow> string \<Rightarrow> js_object \<Rightarrow> ir_spec \<Rightarrow> unit ir_tx" where
  "finishTopLevelNode H rid nid out spec =
     tx_then (ir_upsert_output rid nid out)
    (tx_then (ir_promoteReadyNodes rid)
    (tx_then (maybeCompleteRun H rid spec) (tx_return ())))"

subsection \<open>Steps\<close>

type_synonym ir_functions = "string \<Rightarrow> js_object \<Rightarrow> js_object result"

text \<open>\<open>row.node_def.function\<close> and \<open>row.node_def.reads\<close>; a definition that is no step has no function.\<close>

fun step_def :: "ir_node \<Rightarrow> ir_step result" where
  "step_def (IrStep st) = Inr st"
| "step_def _ = Inl (HostError ''unknown function'')"

definition call_step :: "js_host \<Rightarrow> ir_functions \<Rightarrow> ir_step \<Rightarrow> ir_context \<Rightarrow> js_object result" where
  "call_step H call st ctx = res_bind (ir_resolveReads H (is_reads st) ctx) (call (is_function st))"

definition ir_insert_checkpoint :: "nat \<Rightarrow> string \<Rightarrow> js_object \<Rightarrow> unit ir_tx" where
  "ir_insert_checkpoint eid sid out =
     (\<lambda>s. if list_ex (\<lambda>c. ck_execution c = eid \<and> ck_step c = sid) (ir_checkpoints s)
          then (Inl (DbError UniqueViolation), s)
          else (Inr (), s\<lparr>ir_checkpoints := ir_checkpoints s @
                 [\<lparr>ck_execution = eid, ck_step = sid, ck_output = out\<rparr>]\<rparr>))"

text \<open>The part that the three kinds of step share: resolve, call, checkpoint, done.\<close>

definition run_step_of :: "js_host \<Rightarrow> ir_functions \<Rightarrow> ir_execution \<Rightarrow> ir_context \<Rightarrow> js_object ir_tx" where
  "run_step_of H call row ctx =
     tx_bind (tx_lift (res_bind (step_def (xe_def row)) (\<lambda>st. call_step H call st ctx))) (\<lambda>out.
     tx_then (ir_insert_checkpoint (xe_id row) (xe_node row) out)
    (tx_then (ir_set_status (xe_id row) XDone)
             (tx_return out)))"

definition runPlainStep :: "js_host \<Rightarrow> ir_functions \<Rightarrow> ir_execution \<Rightarrow> ir_spec \<Rightarrow> unit ir_tx" where
  "runPlainStep H call row spec =
     tx_bind (loadRunContext (xe_run row)) (\<lambda>ctx.
     tx_bind (run_step_of H call row ctx) (\<lambda>out.
       finishTopLevelNode H (xe_run row) (xe_node row) out spec))"

definition runMapChildStep :: "js_host \<Rightarrow> ir_functions \<Rightarrow> ir_execution \<Rightarrow> nat \<Rightarrow> unit ir_tx" where
  "runMapChildStep H call row parent =
     tx_bind (run_step_of H call row \<lparr>cx_requestParams = [], cx_nodeOutputs = [], cx_item = xe_item row\<rparr>) (\<lambda>_.
     tx_bind (tx_read (\<lambda>s. sql_select (\<lambda>m. mn_execution m = parent) (ir_map_rows s))) (\<lambda>rows.
     tx_bind (tx_lift (ir_first rows)) (\<lambda>mn.
     let completed = mn_completed mn + 1 in
     tx_then (tx_write (\<lambda>s. s\<lparr>ir_map_rows := sql_update (\<lambda>m. mn_execution m = parent)
         (\<lambda>m. m\<lparr>mn_completed := completed\<rparr>) (ir_map_rows s)\<rparr>))
      (if completed = mn_total mn then ir_set_status parent XQueued else tx_return ()))))"

definition runBranchCaseStep :: "js_host \<Rightarrow> ir_functions \<Rightarrow> ir_execution \<Rightarrow> nat \<Rightarrow> unit ir_tx" where
  "runBranchCaseStep H call row parent =
     tx_bind (loadRunContext (xe_run row)) (\<lambda>ctx.
     tx_bind (run_step_of H call row ctx) (\<lambda>_.
     tx_bind (tx_read (\<lambda>s. sql_select (\<lambda>b. bn_execution b = parent) (ir_branch_rows s))) (\<lambda>rows.
     tx_bind (tx_lift (ir_first rows)) (\<lambda>bn.
     let completed = bn_completed bn + 1 in
     tx_then (tx_write (\<lambda>s. s\<lparr>ir_branch_rows := sql_update (\<lambda>b. bn_execution b = parent)
         (\<lambda>b. b\<lparr>bn_completed := completed\<rparr>) (ir_branch_rows s)\<rparr>))
      (if completed = bn_total bn then ir_set_status parent XQueued else tx_return ())))))"

subsection \<open>Branches\<close>

datatype ir_result =
    ChildStep
  | StepRun
  | BranchFanout string
  | BranchJoin string js_object
  | MapFanout nat
  | MapJoin nat

text \<open>\<open>status = 'awaiting_children', worker_id = NULL, lease_until = NULL\<close>.\<close>

definition ir_await :: "nat \<Rightarrow> unit ir_tx" where
  "ir_await eid = tx_write (\<lambda>s. s\<lparr>ir_executions := sql_update (\<lambda>e. xe_id e = eid)
     (\<lambda>e. e\<lparr>xe_status := XAwaiting, xe_worker := None, xe_lease := None\<rparr>) (ir_executions s)\<rparr>)"

definition case_key :: "js_host \<Rightarrow> json \<Rightarrow> (string \<times> ir_case) list \<Rightarrow> string" where
  "case_key H v cases = (if js_string H v \<in> fst ` set cases then js_string H v else ''default'')"

definition chosen_step :: "(string \<times> ir_case) list \<Rightarrow> string \<Rightarrow> ir_step result" where
  "chosen_step cases key =
     (case map_of cases key of
        None \<Rightarrow> Inl (HostError ''no case matches and no default'')
      | Some c \<Rightarrow>
          (case ic_steps c of
             [st] \<Rightarrow> Inr st
           | _ \<Rightarrow> Inl (HostError ''this spike only supports exactly one step per case'')))"

definition branch_fanout ::
  "js_host \<Rightarrow> ir_execution \<Rightarrow> json \<Rightarrow> (string \<times> ir_case) list \<Rightarrow> ir_result ir_tx" where
  "branch_fanout H row selector cases =
     tx_bind (loadRunContext (xe_run row)) (\<lambda>ctx.
     tx_bind (tx_lift (ir_resolveBinding H selector ctx)) (\<lambda>v.
     let key = case_key H v cases in
     tx_bind (tx_lift (chosen_step cases key)) (\<lambda>st.
     tx_then (ir_insert_execution (xe_run row) (is_id st) (Some (xe_id row)) None (IrStep st) None XQueued)
    (tx_then (tx_write (\<lambda>s. s\<lparr>ir_branch_rows := ir_branch_rows s @
         [\<lparr>bn_execution = xe_id row, bn_case = key, bn_total = 1, bn_completed = 0\<rparr>]\<rparr>))
    (tx_then (ir_await (xe_id row))
             (tx_return (BranchFanout key)))))))"

text \<open>The checkpoints of the children of an execution at a step, with the children's \<open>map_index\<close>.\<close>

definition child_checkpoints :: "ir_db \<Rightarrow> nat \<Rightarrow> (ir_execution \<Rightarrow> ir_checkpoint \<Rightarrow> bool) \<Rightarrow> (nat \<times> js_object) list" where
  "child_checkpoints s parent q =
     concat (map (\<lambda>e. map (\<lambda>c. (nullish (xe_index e) 0, ck_output c))
         (sql_select (\<lambda>c. ck_execution c = xe_id e \<and> q e c) (ir_checkpoints s)))
       (sql_select (\<lambda>e. xe_parent e = Some parent) (ir_executions s)))"

definition branch_join ::
  "js_host \<Rightarrow> ir_execution \<Rightarrow> (string \<times> ir_case) list \<Rightarrow> ir_branch_row \<Rightarrow> ir_spec \<Rightarrow> ir_result ir_tx" where
  "branch_join H row cases bn spec =
     tx_bind (tx_lift (case map_of cases (bn_case bn) of None \<Rightarrow> Inl (HostError ''TypeError'') | Some c \<Rightarrow>
         res_bind (ir_first (ic_steps c)) (\<lambda>st. Inr (c, is_id st)))) (\<lambda>(c, stepId).
     tx_bind (tx_read (\<lambda>s. child_checkpoints s (xe_id row) (\<lambda>e _. xe_node e = stepId))) (\<lambda>ckRows.
     tx_bind (tx_lift (ir_first ckRows)) (\<lambda>ck.
     tx_bind (tx_lift (ir_resolveReads H (ic_yields c)
         \<lparr>cx_requestParams = [], cx_nodeOutputs = [(stepId, snd ck)], cx_item = None\<rparr>)) (\<lambda>yields.
     tx_then (ir_set_status (xe_id row) XDone)
    (tx_then (finishTopLevelNode H (xe_run row) (xe_node row) yields spec)
             (tx_return (BranchJoin (bn_case bn) yields)))))))"

definition runBranchNode ::
  "js_host \<Rightarrow> ir_execution \<Rightarrow> json \<Rightarrow> (string \<times> ir_case) list \<Rightarrow> ir_spec \<Rightarrow> ir_result ir_tx" where
  "runBranchNode H row selector cases spec =
     tx_bind (tx_read (\<lambda>s. sql_select (\<lambda>b. bn_execution b = xe_id row) (ir_branch_rows s))) (\<lambda>existing.
       case first_row existing of
         None \<Rightarrow> branch_fanout H row selector cases
       | Some bn \<Rightarrow> branch_join H row cases bn spec)"

subsection \<open>Maps\<close>

definition one_step :: "ir_step list \<Rightarrow> ir_step result" where
  "one_step body =
     (case body of [st] \<Rightarrow> Inr st
      | _ \<Rightarrow> Inl (HostError ''this spike only supports exactly one step per map body''))"

definition map_items :: "json \<Rightarrow> json list result" where
  "map_items v = (case v of JArr items \<Rightarrow> Inr items | _ \<Rightarrow> Inl (HostError ''source did not resolve to an array''))"

definition map_fanout :: "js_host \<Rightarrow> ir_execution \<Rightarrow> json \<Rightarrow> ir_step list \<Rightarrow> ir_result ir_tx" where
  "map_fanout H row source body =
     tx_bind (loadRunContext (xe_run row)) (\<lambda>ctx.
     tx_bind (tx_lift (ir_resolveBinding H source ctx)) (\<lambda>v.
     tx_bind (tx_lift (map_items v)) (\<lambda>items.
     tx_bind (tx_lift (one_step body)) (\<lambda>bodyStep.
     tx_then (tx_for (enumerate 0 items) (\<lambda>(i, item).
         ir_insert_execution (xe_run row) (is_id bodyStep) (Some (xe_id row)) (Some i) (IrStep bodyStep)
           (Some item) XQueued))
    (tx_then (tx_write (\<lambda>s. s\<lparr>ir_map_rows := ir_map_rows s @
         [\<lparr>mn_execution = xe_id row, mn_total = length items, mn_completed = 0, mn_source = items\<rparr>]\<rparr>))
    (tx_then (ir_await (xe_id row))
             (tx_return (MapFanout (length items)))))))))"

text \<open>\<open>c.output[binding.output]\<close>: a key of \<open>null\<close> throws, and an output that is not there becomes \<open>null\<close>.\<close>

definition yield_value :: "js_host \<Rightarrow> json \<Rightarrow> js_object \<Rightarrow> json result" where
  "yield_value H b out =
     (if b = JNull then Inl (HostError ''TypeError'')
      else Inr (nullish (js_get out (js_key H (js_member b ''output''))) JNull))"

definition map_yields :: "js_host \<Rightarrow> js_object option \<Rightarrow> js_object list \<Rightarrow> js_object result" where
  "map_yields H yields outs =
     (case yields of
        None \<Rightarrow> Inl (HostError ''TypeError'')
      | Some ys \<Rightarrow> res_map (\<lambda>(n, b). res_bind (res_map (yield_value H b) outs) (\<lambda>vs. Inr (n, JArr vs))) ys)"

definition map_join ::
  "js_host \<Rightarrow> ir_execution \<Rightarrow> ir_step list \<Rightarrow> js_object option \<Rightarrow> ir_spec \<Rightarrow> ir_result ir_tx" where
  "map_join H row body yields spec =
     tx_bind (tx_lift (ir_first body)) (\<lambda>bodyStep.
     tx_bind (tx_read (\<lambda>s. sort_key fst
         (child_checkpoints s (xe_id row) (\<lambda>_ c. ck_step c = is_id bodyStep)))) (\<lambda>childRows.
     tx_bind (tx_lift (map_yields H yields (map snd childRows))) (\<lambda>out.
     tx_then (ir_set_status (xe_id row) XDone)
    (tx_then (finishTopLevelNode H (xe_run row) (xe_node row) out spec)
             (tx_return (MapJoin (length childRows)))))))"

definition runMapNode ::
  "js_host \<Rightarrow> ir_execution \<Rightarrow> json \<Rightarrow> ir_step list \<Rightarrow> js_object option \<Rightarrow> ir_spec \<Rightarrow> ir_result ir_tx" where
  "runMapNode H row source body yields spec =
     tx_bind (tx_read (\<lambda>s. sql_select (\<lambda>m. mn_execution m = xe_id row) (ir_map_rows s))) (\<lambda>existing.
       if existing = [] then map_fanout H row source body
       else map_join H row body yields spec)"

subsection \<open>The claim-and-dispatch loop\<close>

fun is_map :: "ir_node \<Rightarrow> bool" where
  "is_map (IrMap _ _ _ _) = True"
| "is_map _ = False"

definition ir_dispatch :: "js_host \<Rightarrow> ir_functions \<Rightarrow> ir_execution \<Rightarrow> ir_spec \<Rightarrow> ir_result ir_tx" where
  "ir_dispatch H call row spec =
     (case xe_parent row of
        Some parent \<Rightarrow>
          tx_bind (tx_read (\<lambda>s. sql_select (\<lambda>e. xe_id e = parent) (ir_executions s))) (\<lambda>parentRows.
          tx_bind (tx_lift (ir_first parentRows)) (\<lambda>p.
          tx_then (if is_map (xe_def p) then runMapChildStep H call row parent
                   else runBranchCaseStep H call row parent)
            (tx_return ChildStep)))
      | None \<Rightarrow>
          (case xe_def row of
             IrStep _ \<Rightarrow> tx_then (runPlainStep H call row spec) (tx_return StepRun)
           | IrBranch _ selector cases \<Rightarrow> runBranchNode H row selector cases spec
           | IrMap _ source body yields \<Rightarrow> runMapNode H row source body yields spec))"

text \<open>A \<open>ROLLBACK\<close> after an empty claim rolls back nothing.\<close>

definition process_body ::
  "js_host \<Rightarrow> ir_functions \<Rightarrow> string \<Rightarrow> ir_spec \<Rightarrow> (ir_execution \<times> ir_result) option ir_tx" where
  "process_body H call worker spec =
     tx_bind (ir_claim_execution worker 30) (\<lambda>claimed.
       case claimed of
         None \<Rightarrow> tx_return None
       | Some row \<Rightarrow> tx_bind (ir_dispatch H call row spec) (\<lambda>result. tx_return (Some (row, result))))"

definition ir_processOne ::
  "js_host \<Rightarrow> ir_functions \<Rightarrow> connection \<Rightarrow> string \<Rightarrow> ir_spec \<Rightarrow> (ir_execution \<times> ir_result) option ir_tx" where
  "ir_processOne H call conn worker spec = withTransaction ir_rollback conn (process_body H call worker spec)"

text \<open>
  \<open>workerLoop\<close>: \<open>around n\<close> gives the connection of the \<open>n\<close>-th poll and what happens to the database
  before it. A throw ends the loop. \<open>None\<close> means that the loop never ends.
\<close>

partial_function (option) ir_workerLoop ::
  "js_host \<Rightarrow> ir_functions \<Rightarrow> (nat \<Rightarrow> connection \<times> (ir_db \<Rightarrow> ir_db)) \<Rightarrow> string \<Rightarrow> ir_spec \<Rightarrow> nat \<Rightarrow> nat \<Rightarrow> nat \<Rightarrow> nat \<Rightarrow>
     ir_db \<Rightarrow> ((platform_error + nat) \<times> ir_db) option"
where
  "ir_workerLoop H call around worker spec maxIdlePolls n idle processed s =
     (if idle < maxIdlePolls
      then case ir_processOne H call (fst (around n)) worker spec (snd (around n) s) of
             (Inl err, t) \<Rightarrow> Some (Inl err, t)
           | (Inr (Some _), t) \<Rightarrow> ir_workerLoop H call around worker spec maxIdlePolls (Suc n) 0 (Suc processed) t
           | (Inr None, t) \<Rightarrow> ir_workerLoop H call around worker spec maxIdlePolls (Suc n) (Suc idle) processed t
      else Some (Inr processed, s))"

definition ir_getRun :: "nat \<Rightarrow> ir_run option ir_tx" where
  "ir_getRun rid = tx_read (\<lambda>s. first_row (sql_select (\<lambda>r. ir_run_id r = rid) (ir_runs s)))"

definition ir_tables :: "ir_db \<Rightarrow> ir_db" where
  "ir_tables s = s\<lparr>ir_runs_seq := 0, ir_executions_seq := 0\<rparr>"

interpretation ir_store: atomic_store ir_rollback ir_tables
  by unfold_locales (simp_all add: ir_rollback_def ir_tables_def)

end
