(* ===== verification/Ir_Invariant.thy ===== *)
theory Ir_Invariant
  imports Ir_Interpreter
begin

text \<open>
  What a transaction of the prototype interpreter does to the tables when it commits, and the
  invariant of the databases that submissions and polls of any workers can reach: every node's
  children, counters, checkpoints and output fit one evaluation of the node by a reference
  interpreter that knows no tables, no workers and no order.
\<close>

subsection \<open>The reference interpreter\<close>

definition node_context :: "js_object \<Rightarrow> (string \<times> js_object) list \<Rightarrow> ir_context" where
  "node_context params outs = \<lparr>cx_requestParams = params, cx_nodeOutputs = outs, cx_item = None\<rparr>"

definition item_context :: "json \<Rightarrow> ir_context" where
  "item_context item = \<lparr>cx_requestParams = [], cx_nodeOutputs = [], cx_item = Some item\<rparr>"

definition case_yields :: "(string \<times> ir_case) list \<Rightarrow> string \<Rightarrow> js_object option" where
  "case_yields cases key = Option.bind (map_of cases key) ic_yields"

definition yields_context :: "string \<Rightarrow> js_object \<Rightarrow> ir_context" where
  "yields_context i out = \<lparr>cx_requestParams = [], cx_nodeOutputs = [(i, out)], cx_item = None\<rparr>"

fun ir_reference ::
  "js_host \<Rightarrow> ir_functions \<Rightarrow> js_object \<Rightarrow> (string \<times> js_object) list \<Rightarrow> ir_node \<Rightarrow> js_object result"
where
  "ir_reference H call params outs (IrStep st) = call_step H call st (node_context params outs)"
| "ir_reference H call params outs (IrBranch _ selector cases) =
     res_bind (ir_resolveBinding H selector (node_context params outs)) (\<lambda>v.
     res_bind (chosen_step cases (case_key H v cases)) (\<lambda>st.
     res_bind (call_step H call st (node_context params outs)) (\<lambda>out.
       ir_resolveReads H (case_yields cases (case_key H v cases)) (yields_context (is_id st) out))))"
| "ir_reference H call params outs (IrMap _ source body yields) =
     res_bind (ir_resolveBinding H source (node_context params outs)) (\<lambda>v.
     res_bind (map_items v) (\<lambda>items.
     res_bind (one_step body) (\<lambda>st.
     res_bind (res_map (\<lambda>item. call_step H call st (item_context item)) items) (\<lambda>results.
       map_yields H yields results))))"

lemma node_context_grows:
  "map_of outs \<subseteq>\<^sub>m map_of outs' \<Longrightarrow> context_grows (node_context params outs) (node_context params outs')"
  by (simp add: context_grows_def node_context_def)

lemma call_step_grows:
  "context_grows ctx ctx' \<Longrightarrow> call_step H call st ctx = Inr out \<Longrightarrow> call_step H call st ctx' = Inr out"
  by (auto simp: call_step_def res_bind_Inr dest: ir_resolveReads_grows)

lemma ir_reference_grows:
  assumes "map_of outs \<subseteq>\<^sub>m map_of outs'" "ir_reference H call params outs nd = Inr out"
  shows "ir_reference H call params outs' nd = Inr out"
proof -
  note g = node_context_grows [OF assms(1), of params]
  note grow = call_step_grows [OF g] ir_resolveBinding_grows [OF g]
  show ?thesis
  proof (cases nd)
    case (IrStep st)
    with assms(2) grow(1) show ?thesis by simp
  next
    case (IrBranch i selector cases)
    with assms(2) obtain v st o' where "ir_resolveBinding H selector (node_context params outs) = Inr v"
      "chosen_step cases (case_key H v cases) = Inr st" "call_step H call st (node_context params outs) = Inr o'"
      "ir_resolveReads H (case_yields cases (case_key H v cases)) (yields_context (is_id st) o') = Inr out"
      by (auto simp: res_bind_Inr)
    with IrBranch grow show ?thesis by simp
  next
    case (IrMap i source body yields)
    with assms(2) obtain v where "ir_resolveBinding H source (node_context params outs) = Inr v"
      by (auto simp: res_bind_Inr)
    with IrMap grow(2) [OF this] assms(2) show ?thesis by simp
  qed
qed

subsection \<open>Committed effects\<close>

lemma tx_bind_Inr: "tx_bind m f s = (Inr b, t) \<longleftrightarrow> (\<exists>a u. m s = (Inr a, u) \<and> f a u = (Inr b, t))"
  by (auto simp: tx_bind_apply split: prod.splits sum.splits)

lemma tx_then_Inr: "tx_then m n s = (Inr b, t) \<longleftrightarrow> (\<exists>a u. m s = (Inr a, u) \<and> n u = (Inr b, t))"
  by (simp add: tx_then_def tx_bind_Inr)

lemmas tx_Inr = tx_bind_Inr tx_then_Inr tx_return_apply tx_throw_apply tx_read_apply tx_write_apply tx_lift_apply

lemma ir_first_Inr: "ir_first rows = Inr r \<longleftrightarrow> first_row rows = Some r"
  by (auto simp: ir_first_def split: option.split)

lemma run_step_of_Inr:
  "run_step_of H call row ctx s = (Inr out, t) \<longleftrightarrow>
     (\<exists>st. xe_def row = IrStep st \<and> call_step H call st ctx = Inr out
        \<and> \<not> list_ex (\<lambda>c. ck_execution c = xe_id row \<and> ck_step c = xe_node row) (ir_checkpoints s)
        \<and> t = s\<lparr>ir_checkpoints := ir_checkpoints s @
                 [\<lparr>ck_execution = xe_id row, ck_step = xe_node row, ck_output = out\<rparr>],
               ir_executions := sql_update (\<lambda>e. xe_id e = xe_id row) (\<lambda>e. e\<lparr>xe_status := XDone\<rparr>)
                 (ir_executions s)\<rparr>)"
  by (cases "xe_def row")
    (auto simp: run_step_of_def ir_insert_checkpoint_def ir_set_status_def tx_Inr split: if_splits)

text \<open>The context that a handler loads: the parameters of the run and the outputs recorded so far.\<close>

definition ir_params :: "ir_db \<Rightarrow> nat \<Rightarrow> js_object option" where
  "ir_params s rid = map_option ir_run_params (first_row (sql_select (\<lambda>r. ir_run_id r = rid) (ir_runs s)))"

lemma loadRunContext_Inr:
  "loadRunContext rid s = (Inr ctx, t) \<longleftrightarrow>
     (\<exists>params. ir_params s rid = Some params \<and> t = s \<and> ctx = node_context params (run_outputs s rid))"
  by (auto simp: loadRunContext_def ir_run_row_def ir_params_def node_context_def tx_Inr ir_first_Inr)

definition promotes :: "ir_db \<Rightarrow> nat \<Rightarrow> ir_execution \<Rightarrow> bool" where
  "promotes s rid e \<longleftrightarrow> xe_run e = rid \<and> xe_status e = XBlocked
     \<and> list_all (\<lambda>d. d \<in> fst ` set (run_outputs s rid)) (externalDepsOf (xe_def e))"

lemma sql_update_twice:
  assumes "\<And>x. f (f x) = f x" "\<And>x. q (f x) = q x"
  shows "sql_update q f (sql_update p f t) = sql_update (\<lambda>x. p x \<or> q x) f t"
  by (induction t) (simp_all add: sql_update_def assms)

lemma promote_rows:
  "tx_for rows (\<lambda>row. if P row then ir_set_status (xe_id row) XQueued else tx_return ()) s =
     (Inr (), s\<lparr>ir_executions := sql_update (\<lambda>e. \<exists>row \<in> set rows. P row \<and> xe_id e = xe_id row)
        (\<lambda>e. e\<lparr>xe_status := XQueued\<rparr>) (ir_executions s)\<rparr>)"
proof (induction rows arbitrary: s)
  case (Cons row rows)
  from Cons show ?case
    by (cases "P row") (simp_all add: tx_simps ir_set_status_def sql_update_twice)
qed (simp add: tx_simps sql_update_def)

lemma ir_promoteReadyNodes_eq:
  assumes "key_unique xe_id (ir_executions s)"
  shows "ir_promoteReadyNodes rid s =
    (Inr (), s\<lparr>ir_executions := sql_update (promotes s rid) (\<lambda>e. e\<lparr>xe_status := XQueued\<rparr>) (ir_executions s)\<rparr>)"
proof -
  let ?blocked = "sql_select (\<lambda>e. xe_run e = rid \<and> xe_status e = XBlocked) (ir_executions s)"
  let ?sat = "\<lambda>row. list_all (\<lambda>d. d \<in> set (map fst (run_outputs s rid))) (externalDepsOf (xe_def row))"
  have "(\<exists>row \<in> set ?blocked. ?sat row \<and> xe_id e = xe_id row) \<longleftrightarrow> promotes s rid e" if "e \<in> set (ir_executions s)" for e
    using that key_uniqueD [OF assms] by (fastforce simp: table_simps promotes_def)
  then have "sql_update (\<lambda>e. \<exists>row \<in> set ?blocked. ?sat row \<and> xe_id e = xe_id row) f (ir_executions s)
      = sql_update (promotes s rid) f (ir_executions s)" for f
    by (simp add: sql_update_def)
  moreover have "ir_promoteReadyNodes rid s = (Inr (), s\<lparr>ir_executions :=
      sql_update (\<lambda>e. \<exists>row \<in> set ?blocked. ?sat row \<and> xe_id e = xe_id row) (\<lambda>e. e\<lparr>xe_status := XQueued\<rparr>) (ir_executions s)\<rparr>)"
    by (cases "?blocked = []") (simp_all add: ir_promoteReadyNodes_def tx_simps promote_rows sql_update_def)
  ultimately show ?thesis by simp
qed

text \<open>The columns of a run that nothing changes.\<close>

definition run_key :: "ir_run \<Rightarrow> nat \<times> js_object" where
  "run_key r = (ir_run_id r, ir_run_params r)"

lemma maybeCompleteRun_Inr:
  assumes "maybeCompleteRun H rid spec s = (Inr b, t)"
  shows "\<exists>rs. t = s\<lparr>ir_runs := rs\<rparr> \<and> map run_key rs = map run_key (ir_runs s)"
proof -
  have key: "map run_key (sql_update (\<lambda>r. ir_run_id r = rid)
      (\<lambda>r. r\<lparr>ir_run_status := IrDone, ir_run_outputs := v\<rparr>) rs) = map run_key rs" for v rs
    by (rule map_sql_update) (simp add: run_key_def)
  have "t = s \<or> (\<exists>v. t = s\<lparr>ir_runs := sql_update (\<lambda>r. ir_run_id r = rid)
      (\<lambda>r. r\<lparr>ir_run_status := IrDone, ir_run_outputs := v\<rparr>) (ir_runs s)\<rparr>)"
    using assms by (auto simp: maybeCompleteRun_def ir_run_row_def tx_Inr Let_def split: if_splits)
  then show ?thesis
  proof (elim disjE exE)
    assume "t = s"
    then show ?thesis by (intro exI [of _ "ir_runs s"]) simp
  next
    fix v
    assume "t = s\<lparr>ir_runs := sql_update (\<lambda>r. ir_run_id r = rid)
      (\<lambda>r. r\<lparr>ir_run_status := IrDone, ir_run_outputs := v\<rparr>) (ir_runs s)\<rparr>"
    with key show ?thesis by blast
  qed
qed

lemma ir_params_cong: "map run_key (ir_runs t) = map run_key (ir_runs s) \<Longrightarrow> ir_params t = ir_params s"
proof
  fix rid
  have "map_option ir_run_params (first_row (sql_select (\<lambda>r. ir_run_id r = rid) rs)) =
      map_option snd (first_row (sql_select (\<lambda>k. fst k = rid) (map run_key rs)))" for rs
    by (induction rs) (auto simp: sql_select_def run_key_def)
  then show "map run_key (ir_runs t) = map run_key (ir_runs s) \<Longrightarrow> ir_params t rid = ir_params s rid"
    by (simp add: ir_params_def)
qed

text \<open>
  A node's output is recorded, blocked nodes may be queued, and the run may be completed.
\<close>

lemma finish_Inr:
  assumes "finishTopLevelNode H rid nid out spec s = (Inr (), t)" "key_unique xe_id (ir_executions s)"
    and "\<not> list_ex (\<lambda>o'. ro_run o' = rid \<and> ro_node o' = nid) (ir_outputs s)"
  shows "\<exists>q rs. map run_key rs = map run_key (ir_runs s)
    \<and> t = s\<lparr>ir_outputs := ir_outputs s @ [\<lparr>ro_run = rid, ro_node = nid, ro_output = out, ro_done = True\<rparr>],
           ir_executions := sql_update (\<lambda>e. xe_status e = XBlocked \<and> q e) (\<lambda>e. e\<lparr>xe_status := XQueued\<rparr>) (ir_executions s),
           ir_runs := rs\<rparr>"
proof -
  let ?u = "s\<lparr>ir_outputs := ir_outputs s @ [\<lparr>ro_run = rid, ro_node = nid, ro_output = out, ro_done = True\<rparr>]\<rparr>"
  let ?v = "?u\<lparr>ir_executions := sql_update (promotes ?u rid) (\<lambda>e. e\<lparr>xe_status := XQueued\<rparr>) (ir_executions s)\<rparr>"
  have "ir_upsert_output rid nid out s = (Inr (), ?u)" using assms(3) by (simp add: ir_upsert_output_def tx_simps)
  moreover have "ir_promoteReadyNodes rid ?u = (Inr (), ?v)" using assms(2) by (simp add: ir_promoteReadyNodes_eq)
  ultimately obtain b where "maybeCompleteRun H rid spec ?v = (Inr b, t)"
    using assms(1) by (auto simp: finishTopLevelNode_def tx_Inr)
  from maybeCompleteRun_Inr [OF this] obtain rs where "t = ?v\<lparr>ir_runs := rs\<rparr>" "map run_key rs = map run_key (ir_runs s)"
    by auto
  moreover have "promotes ?u rid = (\<lambda>e. xe_status e = XBlocked \<and> promotes ?u rid e)" by (auto simp: promotes_def fun_eq_iff)
  ultimately show ?thesis
    by (intro exI [of _ "promotes ?u rid"] exI [of _ rs]) simp
qed

subsection \<open>The invariant\<close>

definition ir_children :: "ir_db \<Rightarrow> nat \<Rightarrow> ir_execution list" where
  "ir_children s p = sql_select (\<lambda>e. xe_parent e = Some p) (ir_executions s)"

definition ir_ckpts :: "ir_db \<Rightarrow> nat \<Rightarrow> ir_checkpoint list" where
  "ir_ckpts s i = sql_select (\<lambda>c. ck_execution c = i) (ir_checkpoints s)"

definition ir_map_of :: "ir_db \<Rightarrow> nat \<Rightarrow> ir_map_row list" where
  "ir_map_of s i = sql_select (\<lambda>m. mn_execution m = i) (ir_map_rows s)"

definition ir_branch_of :: "ir_db \<Rightarrow> nat \<Rightarrow> ir_branch_row list" where
  "ir_branch_of s i = sql_select (\<lambda>b. bn_execution b = i) (ir_branch_rows s)"

definition ir_tops :: "ir_db \<Rightarrow> ir_execution list" where
  "ir_tops s = sql_select (\<lambda>e. xe_parent e = None) (ir_executions s)"

text \<open>
  A child of a fanned-out node is queued without a checkpoint, or done with one whose output
  the step's function gave on the child's inputs.
\<close>

definition child_ok ::
  "(js_object \<Rightarrow> bool) \<Rightarrow> ir_step \<Rightarrow> (nat \<Rightarrow> ir_checkpoint list) \<Rightarrow> ir_execution \<Rightarrow> bool" where
  "child_ok P st cks c \<longleftrightarrow> xe_def c = IrStep st \<and> xe_node c = is_id st
     \<and> (xe_status c = XQueued \<and> cks (xe_id c) = []
        \<or> xe_status c = XDone \<and> (\<exists>out. P out
            \<and> cks (xe_id c) = [\<lparr>ck_execution = xe_id c, ck_step = is_id st, ck_output = out\<rparr>]))"

definition done_count :: "ir_execution list \<Rightarrow> nat" where
  "done_count chs = length (filter (\<lambda>c. xe_status c = XDone) chs)"

definition branch_family ::
  "js_host \<Rightarrow> ir_functions \<Rightarrow> ir_context \<Rightarrow> ir_execution \<Rightarrow> json \<Rightarrow> (string \<times> ir_case) list \<Rightarrow> ir_execution list \<Rightarrow>
     (nat \<Rightarrow> ir_checkpoint list) \<Rightarrow> ir_branch_row list \<Rightarrow> bool" where
  "branch_family H call ctx e selector cases chs cks brows \<longleftrightarrow>
     (\<exists>v st c bn. brows = [bn] \<and> ir_resolveBinding H selector ctx = Inr v \<and> bn_case bn = case_key H v cases
        \<and> chosen_step cases (bn_case bn) = Inr st \<and> bn_total bn = 1 \<and> chs = [c]
        \<and> child_ok (\<lambda>out. call_step H call st ctx = Inr out) st cks c
        \<and> bn_completed bn = done_count chs
        \<and> xe_status e \<in> (if xe_status c = XDone then {XQueued, XDone} else {XAwaiting}))"

lemma branch_familyE:
  assumes "branch_family H call ctx e selector cases chs cks brows"
  obtains v st c bn where "brows = [bn]" "ir_resolveBinding H selector ctx = Inr v" "bn_case bn = case_key H v cases"
    "chosen_step cases (bn_case bn) = Inr st" "bn_total bn = 1" "chs = [c]"
    "child_ok (\<lambda>out. call_step H call st ctx = Inr out) st cks c" "bn_completed bn = done_count chs"
    "xe_status e \<in> (if xe_status c = XDone then {XQueued, XDone} else {XAwaiting})"
  using assms unfolding branch_family_def by (elim exE conjE) (rule that; assumption)

lemma branch_familyI:
  assumes "brows = [bn]" "ir_resolveBinding H selector ctx = Inr v" "bn_case bn = case_key H v cases"
    "chosen_step cases (bn_case bn) = Inr st" "bn_total bn = 1" "chs = [c]"
    "child_ok (\<lambda>out. call_step H call st ctx = Inr out) st cks c" "bn_completed bn = done_count chs"
    "xe_status e \<in> (if xe_status c = XDone then {XQueued, XDone} else {XAwaiting})"
  shows "branch_family H call ctx e selector cases chs cks brows"
  unfolding branch_family_def by (intro exI conjI) (rule assms)+

definition map_child_ok ::
  "js_host \<Rightarrow> ir_functions \<Rightarrow> ir_step \<Rightarrow> (nat \<Rightarrow> ir_checkpoint list) \<Rightarrow> ir_execution \<Rightarrow> bool" where
  "map_child_ok H call st cks c \<longleftrightarrow>
     child_ok (\<lambda>out. \<exists>item. xe_item c = Some item \<and> call_step H call st (item_context item) = Inr out) st cks c"

definition map_family ::
  "js_host \<Rightarrow> ir_functions \<Rightarrow> ir_context \<Rightarrow> ir_execution \<Rightarrow> json \<Rightarrow> ir_step list \<Rightarrow> ir_execution list \<Rightarrow>
     (nat \<Rightarrow> ir_checkpoint list) \<Rightarrow> ir_map_row list \<Rightarrow> bool" where
  "map_family H call ctx e source body chs cks mrows \<longleftrightarrow>
     (\<exists>items st mn. mrows = [mn] \<and> ir_resolveBinding H source ctx = Inr (JArr items) \<and> one_step body = Inr st
        \<and> mn_total mn = length items
        \<and> map (\<lambda>c. (xe_index c, xe_item c)) chs = map (\<lambda>(i, x). (Some i, Some x)) (enumerate 0 items)
        \<and> (\<forall>c \<in> set chs. map_child_ok H call st cks c)
        \<and> mn_completed mn = done_count chs
        \<and> xe_status e \<in> (if items \<noteq> [] \<and> done_count chs = length items then {XQueued, XDone} else {XAwaiting}))"

lemma map_familyE:
  assumes "map_family H call ctx e source body chs cks mrows"
  obtains items st mn where "mrows = [mn]" "ir_resolveBinding H source ctx = Inr (JArr items)" "one_step body = Inr st"
    "mn_total mn = length items"
    "map (\<lambda>c. (xe_index c, xe_item c)) chs = map (\<lambda>(i, x). (Some i, Some x)) (enumerate 0 items)"
    "\<And>c. c \<in> set chs \<Longrightarrow> map_child_ok H call st cks c" "mn_completed mn = done_count chs"
    "xe_status e \<in> (if items \<noteq> [] \<and> done_count chs = length items then {XQueued, XDone} else {XAwaiting})"
  using assms unfolding map_family_def by (elim exE conjE) (rule that; (assumption | erule (1) bspec))

lemma map_familyI:
  assumes "mrows = [mn]" "ir_resolveBinding H source ctx = Inr (JArr items)" "one_step body = Inr st"
    "mn_total mn = length items"
    "map (\<lambda>c. (xe_index c, xe_item c)) chs = map (\<lambda>(i, x). (Some i, Some x)) (enumerate 0 items)"
    "\<And>c. c \<in> set chs \<Longrightarrow> map_child_ok H call st cks c" "mn_completed mn = done_count chs"
    "xe_status e \<in> (if items \<noteq> [] \<and> done_count chs = length items then {XQueued, XDone} else {XAwaiting})"
  shows "map_family H call ctx e source body chs cks mrows"
  unfolding map_family_def by (intro exI conjI ballI) (rule assms | assumption)+

definition fresh_node :: "ir_execution \<Rightarrow> ir_execution list \<Rightarrow> ir_map_row list \<Rightarrow> ir_branch_row list \<Rightarrow> bool" where
  "fresh_node e chs mrows brows \<longleftrightarrow>
     chs = [] \<and> mrows = [] \<and> brows = [] \<and> xe_status e \<in> {XBlocked, XQueued}"

definition family ::
  "js_host \<Rightarrow> ir_functions \<Rightarrow> ir_context \<Rightarrow> ir_execution \<Rightarrow> ir_execution list \<Rightarrow> (nat \<Rightarrow> ir_checkpoint list) \<Rightarrow>
     ir_map_row list \<Rightarrow> ir_branch_row list \<Rightarrow> bool" where
  "family H call ctx e chs cks mrows brows \<longleftrightarrow>
     (case xe_def e of
        IrStep _ \<Rightarrow> chs = [] \<and> mrows = [] \<and> brows = [] \<and> xe_status e \<in> {XBlocked, XQueued, XDone}
      | IrBranch _ selector cases \<Rightarrow>
          fresh_node e chs mrows brows \<or> mrows = [] \<and> branch_family H call ctx e selector cases chs cks brows
      | IrMap _ source body _ \<Rightarrow>
          fresh_node e chs mrows brows \<or> brows = [] \<and> map_family H call ctx e source body chs cks mrows)"

definition family_ok :: "js_host \<Rightarrow> ir_functions \<Rightarrow> ir_db \<Rightarrow> ir_execution \<Rightarrow> bool" where
  "family_ok H call s e \<longleftrightarrow>
     (\<exists>params. ir_params s (xe_run e) = Some params
        \<and> family H call (node_context params (run_outputs s (xe_run e))) e
            (ir_children s (xe_id e)) (ir_ckpts s) (ir_map_of s (xe_id e)) (ir_branch_of s (xe_id e)))"

text \<open>Ids given out by the sequences, and references to them.\<close>

definition ir_ids :: "ir_db \<Rightarrow> bool" where
  "ir_ids s \<longleftrightarrow> key_unique xe_id (ir_executions s) \<and> key_unique ir_run_id (ir_runs s)
     \<and> (\<forall>e \<in> set (ir_executions s). xe_id e \<le> ir_executions_seq s \<and> xe_run e \<le> ir_runs_seq s)
     \<and> (\<forall>c \<in> set (ir_checkpoints s). ck_execution c \<le> ir_executions_seq s)
     \<and> (\<forall>m \<in> set (ir_map_rows s). mn_execution m \<le> ir_executions_seq s)
     \<and> (\<forall>b \<in> set (ir_branch_rows s). bn_execution b \<le> ir_executions_seq s)
     \<and> (\<forall>r \<in> set (ir_runs s). ir_run_id r \<le> ir_runs_seq s)
     \<and> (\<forall>o' \<in> set (ir_outputs s). ro_run o' \<le> ir_runs_seq s)"

definition children_rooted :: "ir_db \<Rightarrow> bool" where
  "children_rooted s \<longleftrightarrow> (\<forall>c \<in> set (ir_executions s). \<forall>p. xe_parent c = Some p \<longrightarrow>
     (\<exists>e \<in> set (ir_tops s). xe_id e = p \<and> xe_run e = xe_run c))"

definition node_key :: "ir_execution \<Rightarrow> nat \<times> string" where
  "node_key e = (xe_run e, xe_node e)"

text \<open>A recorded output is the reference interpreter's, on the outputs recorded so far.\<close>

definition output_ok :: "js_host \<Rightarrow> ir_functions \<Rightarrow> ir_db \<Rightarrow> ir_output \<Rightarrow> bool" where
  "output_ok H call s o' \<longleftrightarrow> ro_done o'
     \<and> (\<exists>e \<in> set (ir_tops s). node_key e = (ro_run o', ro_node o') \<and> xe_status e = XDone
          \<and> (\<exists>params. ir_params s (ro_run o') = Some params
               \<and> ir_reference H call params (run_outputs s (ro_run o')) (xe_def e) = Inr (ro_output o')))"

definition ir_inv :: "js_host \<Rightarrow> ir_functions \<Rightarrow> ir_db \<Rightarrow> bool" where
  "ir_inv H call s \<longleftrightarrow> ir_ids s \<and> children_rooted s \<and> key_unique node_key (ir_tops s)
     \<and> (\<forall>e \<in> set (ir_tops s). family_ok H call s e \<and> xe_node e = ir_id (xe_def e))
     \<and> key_unique (\<lambda>o'. (ro_run o', ro_node o')) (ir_outputs s)
     \<and> (\<forall>o' \<in> set (ir_outputs s). output_ok H call s o')"

subsection \<open>A transaction of one family\<close>

lemma child_ok_mono: "child_ok P st cks c \<Longrightarrow> (\<And>out. P out \<Longrightarrow> Q out) \<Longrightarrow> child_ok Q st cks c"
  by (auto simp: child_ok_def)

lemma family_mono:
  assumes "family H call ctx e chs cks mrows brows"
    and "\<And>sel v. ir_resolveBinding H sel ctx = Inr v \<Longrightarrow> ir_resolveBinding H sel ctx' = Inr v"
    and "\<And>st out. call_step H call st ctx = Inr out \<Longrightarrow> call_step H call st ctx' = Inr out"
    and "\<And>P st c. c \<in> set chs \<Longrightarrow> child_ok P st cks c \<Longrightarrow> child_ok P st cks' c"
  shows "family H call ctx' e chs cks' mrows brows"
proof -
  have br: "branch_family H call ctx' e sel cases chs cks' brows"
    if "branch_family H call ctx e sel cases chs cks brows" for sel cases
  proof (rule branch_familyE [OF that])
    fix v st c bn
    assume "brows = [bn]" "ir_resolveBinding H sel ctx = Inr v" "bn_case bn = case_key H v cases"
      "chosen_step cases (bn_case bn) = Inr st" "bn_total bn = 1" "chs = [c]"
      "child_ok (\<lambda>out. call_step H call st ctx = Inr out) st cks c" "bn_completed bn = done_count chs"
      "xe_status e \<in> (if xe_status c = XDone then {XQueued, XDone} else {XAwaiting})"
    moreover from this have "child_ok (\<lambda>out. call_step H call st ctx' = Inr out) st cks' c"
      by (intro assms(4) child_ok_mono [OF _ assms(3)]) simp_all
    ultimately show ?thesis by (intro branch_familyI [OF _ assms(2)]) simp_all
  qed
  have mc: "map_child_ok H call st cks c \<Longrightarrow> map_child_ok H call st cks' c" if "c \<in> set chs" for st c
    unfolding map_child_ok_def by (rule assms(4) [OF that])
  have "map_family H call ctx' e src body chs cks' mrows"
    if "map_family H call ctx e src body chs cks mrows" for src body
  proof (rule map_familyE [OF that])
    fix items st mn
    assume "mrows = [mn]" "ir_resolveBinding H src ctx = Inr (JArr items)" "one_step body = Inr st"
      "mn_total mn = length items"
      "map (\<lambda>c. (xe_index c, xe_item c)) chs = map (\<lambda>(i, x). (Some i, Some x)) (enumerate 0 items)"
      "\<And>c. c \<in> set chs \<Longrightarrow> map_child_ok H call st cks c" "mn_completed mn = done_count chs"
      "xe_status e \<in> (if items \<noteq> [] \<and> done_count chs = length items then {XQueued, XDone} else {XAwaiting})"
    then show ?thesis
      by (intro map_familyI [OF _ assms(2)]) (simp_all, blast intro: mc)
  qed
  with br show ?thesis using assms(1) by (simp add: family_def split: ir_node.splits) blast+
qed

lemma family_grows:
  assumes "context_grows ctx ctx'" "family H call ctx e chs cks mrows brows"
  shows "family H call ctx' e chs cks mrows brows"
  by (rule family_mono [OF assms(2) ir_resolveBinding_grows [OF assms(1)] call_step_grows [OF assms(1)]])

text \<open>A family depends on the checkpoints of its children only, and a blocked node may be queued.\<close>

lemma family_cong:
  assumes "family H call ctx e chs cks mrows brows" "\<And>c. c \<in> set chs \<Longrightarrow> cks' (xe_id c) = cks (xe_id c)"
  shows "family H call ctx e chs cks' mrows brows"
  by (rule family_mono [OF assms(1)]) (simp_all add: child_ok_def assms(2))

lemma family_unblock:
  assumes "family H call ctx e chs cks mrows brows" "xe_status e = XBlocked"
  shows "family H call ctx (e\<lparr>xe_status := XQueued\<rparr>) chs cks mrows brows"
proof -
  have "\<not> branch_family H call ctx e sel cases chs cks brows" "\<not> map_family H call ctx e src body chs cks mrows"
    for sel cases src body
    using assms(2) by (auto elim!: branch_familyE map_familyE split: if_splits)
  with assms show ?thesis by (auto simp: family_def fresh_node_def split: ir_node.splits)
qed

lemma family_children_live:
  assumes "family H call ctx e chs cks mrows brows" "c \<in> set chs"
  shows "xe_status c \<in> {XQueued, XDone}" "\<exists>st. xe_def c = IrStep st"
  using assms
  by (auto simp: family_def fresh_node_def map_child_ok_def child_ok_def elim!: branch_familyE map_familyE
      split: ir_node.splits)

text \<open>The columns of an execution that nothing changes.\<close>

definition xe_static :: "ir_execution \<Rightarrow> nat \<times> nat \<times> string \<times> nat option \<times> nat option \<times> ir_node \<times> json option" where
  "xe_static e = (xe_id e, xe_run e, xe_node e, xe_parent e, xe_index e, xe_def e, xe_item e)"

lemma xe_staticD:
  assumes "xe_static e' = xe_static e"
  shows "xe_id e' = xe_id e" "xe_run e' = xe_run e" "xe_node e' = xe_node e" "xe_parent e' = xe_parent e"
    "xe_index e' = xe_index e" "xe_def e' = xe_def e" "xe_item e' = xe_item e" "node_key e' = node_key e"
  using assms by (simp_all add: xe_static_def node_key_def)

lemma ir_invD:
  assumes "ir_inv H call s"
  shows "ir_ids s" "children_rooted s" "key_unique node_key (ir_tops s)"
    "\<And>e. e \<in> set (ir_tops s) \<Longrightarrow> family_ok H call s e"
    "\<And>e. e \<in> set (ir_tops s) \<Longrightarrow> xe_node e = ir_id (xe_def e)"
    "key_unique (\<lambda>o'. (ro_run o', ro_node o')) (ir_outputs s)"
    "\<And>o'. o' \<in> set (ir_outputs s) \<Longrightarrow> output_ok H call s o'"
  using assms by (simp_all add: ir_inv_def)

lemma ir_idsD:
  assumes "ir_ids s"
  shows "key_unique xe_id (ir_executions s)" "key_unique ir_run_id (ir_runs s)"
    "\<And>e. e \<in> set (ir_executions s) \<Longrightarrow> xe_id e \<le> ir_executions_seq s \<and> xe_run e \<le> ir_runs_seq s"
    "\<And>c. c \<in> set (ir_checkpoints s) \<Longrightarrow> ck_execution c \<le> ir_executions_seq s"
    "\<And>m. m \<in> set (ir_map_rows s) \<Longrightarrow> mn_execution m \<le> ir_executions_seq s"
    "\<And>b. b \<in> set (ir_branch_rows s) \<Longrightarrow> bn_execution b \<le> ir_executions_seq s"
    "\<And>r. r \<in> set (ir_runs s) \<Longrightarrow> ir_run_id r \<le> ir_runs_seq s"
    "\<And>o'. o' \<in> set (ir_outputs s) \<Longrightarrow> ro_run o' \<le> ir_runs_seq s"
  using assms by (simp_all add: ir_ids_def)

text \<open>Rows mapped in place and rows appended, as they are seen through a selection.\<close>

lemma sql_select_map_append:
  assumes "\<And>e. e \<in> set es \<Longrightarrow> p (f e) = p e"
  shows "sql_select p (map f es @ news) = map f (sql_select p es) @ sql_select p news"
  using assms by (induction es) (auto simp: sql_select_def)

lemma ir_tops_in: "e \<in> set (ir_tops s) \<longleftrightarrow> e \<in> set (ir_executions s) \<and> xe_parent e = None"
  by (simp add: ir_tops_def table_simps)

lemma ir_children_in: "c \<in> set (ir_children s p) \<longleftrightarrow> c \<in> set (ir_executions s) \<and> xe_parent c = Some p"
  by (simp add: ir_children_def table_simps)

lemma tops_eq:
  "ir_inv H call s \<Longrightarrow> e \<in> set (ir_tops s) \<Longrightarrow> h \<in> set (ir_tops s) \<Longrightarrow> xe_id e = xe_id h \<Longrightarrow> e = h"
  by (auto simp: ir_tops_in intro: key_uniqueD [OF ir_idsD(1)] dest!: ir_invD(1))

text \<open>
  What a handler does before it finishes a node: it changes the rows of one top-level node and
  its children, appends children, checkpoints and counter rows of that family, and nothing else.
\<close>

definition family_rows ::
  "ir_execution \<Rightarrow> ir_db \<Rightarrow> ir_db \<Rightarrow> (ir_execution \<Rightarrow> ir_execution) \<Rightarrow> ir_execution list \<Rightarrow> bool" where
  "family_rows h s t f news \<longleftrightarrow> ir_executions t = map f (ir_executions s) @ news
     \<and> (\<forall>e \<in> set (ir_executions s). xe_static (f e) = xe_static e)
     \<and> (\<forall>e \<in> set (ir_executions s). xe_id e \<noteq> xe_id h \<and> xe_parent e \<noteq> Some (xe_id h) \<longrightarrow> f e = e)
     \<and> map xe_id news = [Suc (ir_executions_seq s)..<Suc (ir_executions_seq t)]
     \<and> (\<forall>c \<in> set news. xe_parent c = Some (xe_id h) \<and> xe_run c = xe_run h)
     \<and> ir_executions_seq s \<le> ir_executions_seq t"

definition family_tables :: "ir_execution \<Rightarrow> ir_db \<Rightarrow> ir_db \<Rightarrow> bool" where
  "family_tables h s t \<longleftrightarrow> map run_key (ir_runs t) = map run_key (ir_runs s) \<and> ir_runs_seq t = ir_runs_seq s
     \<and> ir_outputs t = ir_outputs s
     \<and> (\<forall>c \<in> set (ir_checkpoints t). ck_execution c \<le> ir_executions_seq s)
     \<and> (\<forall>m \<in> set (ir_map_rows t). mn_execution m \<le> ir_executions_seq s)
     \<and> (\<forall>b \<in> set (ir_branch_rows t). bn_execution b \<le> ir_executions_seq s)
     \<and> (\<forall>i. i \<noteq> xe_id h \<longrightarrow> ir_map_of t i = ir_map_of s i \<and> ir_branch_of t i = ir_branch_of s i)
     \<and> (\<forall>c \<in> set (ir_executions s). xe_id c \<noteq> xe_id h \<and> xe_parent c \<noteq> Some (xe_id h) \<longrightarrow>
          ir_ckpts t (xe_id c) = ir_ckpts s (xe_id c))"

lemma family_rowsD:
  assumes "family_rows h s t f news"
  shows "ir_executions t = map f (ir_executions s) @ news"
    "\<And>e. e \<in> set (ir_executions s) \<Longrightarrow> xe_static (f e) = xe_static e"
    "\<And>e. e \<in> set (ir_executions s) \<Longrightarrow> xe_id e \<noteq> xe_id h \<Longrightarrow> xe_parent e \<noteq> Some (xe_id h) \<Longrightarrow> f e = e"
    "map xe_id news = [Suc (ir_executions_seq s)..<Suc (ir_executions_seq t)]"
    "\<And>c. c \<in> set news \<Longrightarrow> xe_parent c = Some (xe_id h) \<and> xe_run c = xe_run h"
    "ir_executions_seq s \<le> ir_executions_seq t"
  using assms unfolding family_rows_def by simp_all

lemma family_tablesD:
  assumes "family_tables h s t"
  shows "map run_key (ir_runs t) = map run_key (ir_runs s)"
    "ir_runs_seq t = ir_runs_seq s" "ir_outputs t = ir_outputs s"
    "\<And>c. c \<in> set (ir_checkpoints t) \<Longrightarrow> ck_execution c \<le> ir_executions_seq s"
    "\<And>m. m \<in> set (ir_map_rows t) \<Longrightarrow> mn_execution m \<le> ir_executions_seq s"
    "\<And>b. b \<in> set (ir_branch_rows t) \<Longrightarrow> bn_execution b \<le> ir_executions_seq s"
    "\<And>i. i \<noteq> xe_id h \<Longrightarrow> ir_map_of t i = ir_map_of s i \<and> ir_branch_of t i = ir_branch_of s i"
    "\<And>c. c \<in> set (ir_executions s) \<Longrightarrow> xe_id c \<noteq> xe_id h \<Longrightarrow> xe_parent c \<noteq> Some (xe_id h) \<Longrightarrow>
       ir_ckpts t (xe_id c) = ir_ckpts s (xe_id c)"
  using assms unfolding family_tables_def by simp_all

lemma ir_ids_family_step:
  assumes "ir_ids s" "h \<in> set (ir_executions s)" and R: "family_rows h s t f news" and T: "family_tables h s t"
  shows "ir_ids t"
proof -
  note D = ir_idsD [OF assms(1)] and T = family_tablesD [OF T]
  note ex = family_rowsD(1) [OF R] and st = family_rowsD(2) [OF R] and ids = family_rowsD(4) [OF R]
    and ch = family_rowsD(5) [OF R] and seq = family_rowsD(6) [OF R]
  have news: "ir_executions_seq s < xe_id c \<and> xe_id c \<le> ir_executions_seq t" if "c \<in> set news" for c
  proof -
    have "xe_id c \<in> set (map xe_id news)" using that by simp
    then show ?thesis unfolding ids by (simp del: upt_Suc)
  qed
  have same: "map (\<lambda>e. xe_id (f e)) (ir_executions s) = map xe_id (ir_executions s)"
    using xe_staticD(1) [OF st] by simp
  have old: "xe_id (f e) \<le> ir_executions_seq t \<and> xe_run (f e) \<le> ir_runs_seq t" if "e \<in> set (ir_executions s)" for e
    using D(3) [OF that] xe_staticD(1,2) [OF st [OF that]] seq T(2) by simp
  have "key_unique xe_id (ir_executions t)"
    using D(1,3) unfolding key_unique_def ex map_append map_map comp_def same ids
    by (fastforce simp del: upt_Suc)
  moreover have "key_unique ir_run_id (ir_runs t)"
    using D(2) arg_cong [OF T(1), of "map fst"] by (simp add: key_unique_def run_key_def comp_def)
  moreover have "xe_id e \<le> ir_executions_seq t \<and> xe_run e \<le> ir_runs_seq t" if "e \<in> set (ir_executions t)" for e
    using that D(3) [OF assms(2)] T(2) old news ch unfolding ex by auto
  moreover have "ir_run_id r \<le> ir_runs_seq t" if "r \<in> set (ir_runs t)" for r
  proof -
    have "run_key r \<in> set (map run_key (ir_runs s))" using that unfolding T(1) [symmetric] by simp
    then show ?thesis using D(7) T(2) by (auto simp: run_key_def)
  qed
  ultimately show ?thesis
    using T(2-6) D(8) seq by (simp add: ir_ids_def) (meson order_trans)
qed

end
