(* ===== verification/Ir_Steps.thy ===== *)
theory Ir_Steps
  imports Ir_Invariant
begin

text \<open>
  Submissions and polls of the prototype interpreter keep the invariant: first a handler that
  changes one family, then the recording of a node's output, then each handler of
  \<open>interpreter.js\<close> and the two transactions.
\<close>

subsection \<open>One family changes\<close>

lemma run_outputs_cong: "ir_outputs t = ir_outputs s \<Longrightarrow> run_outputs t = run_outputs s"
  by (simp add: run_outputs_def fun_eq_iff)

lemma family_rows_tops:
  assumes "family_rows h s t f news"
  shows "ir_tops t = map f (ir_tops s)"
proof -
  have "sql_select (\<lambda>e. xe_parent e = None) news = []"
    using family_rowsD(5) [OF assms] by (auto simp: sql_select_def filter_empty_conv)
  then show ?thesis
    using xe_staticD(4) [OF family_rowsD(2) [OF assms]]
    by (simp add: ir_tops_def family_rowsD(1) [OF assms] sql_select_map_append)
qed

lemma family_rows_children:
  assumes "ir_inv H call s" "h \<in> set (ir_tops s)" "family_rows h s t f news" "i \<noteq> xe_id h"
  shows "ir_children t i = ir_children s i"
proof -
  have "sql_select (\<lambda>e. xe_parent e = Some i) news = []"
    using family_rowsD(5) [OF assms(3)] assms(4) by (auto simp: sql_select_def filter_empty_conv)
  moreover have "f c = c" if "c \<in> set (sql_select (\<lambda>e. xe_parent e = Some i) (ir_executions s))" for c
  proof (rule family_rowsD(3) [OF assms(3)])
    show "c \<in> set (ir_executions s)" "xe_parent c \<noteq> Some (xe_id h)"
      using that assms(4) by (auto simp: table_simps)
    show "xe_id c \<noteq> xe_id h"
      using that assms(2) key_uniqueD [OF ir_idsD(1) [OF ir_invD(1) [OF assms(1)]], of c h]
      by (auto simp: table_simps ir_tops_in)
  qed
  ultimately show ?thesis
    using xe_staticD(4) [OF family_rowsD(2) [OF assms(3)]]
    by (simp add: ir_children_def family_rowsD(1) [OF assms(3)] sql_select_map_append map_idI)
qed

lemma family_rows_rooted:
  assumes "children_rooted s" "h \<in> set (ir_tops s)" "family_rows h s t f news"
  shows "children_rooted t"
  unfolding children_rooted_def
proof (intro ballI allI impI)
  fix c p
  assume c: "c \<in> set (ir_executions t)" "xe_parent c = Some p"
  note st = xe_staticD [OF family_rowsD(2) [OF assms(3)]]
  have up: "\<exists>e' \<in> set (ir_tops t). xe_id e' = xe_id e \<and> xe_run e' = xe_run e" if "e \<in> set (ir_tops s)" for e
    using that st(1,2) [of e] by (auto simp: family_rows_tops [OF assms(3)] ir_tops_in)
  from c(1) consider (old) c0 where "c0 \<in> set (ir_executions s)" "c = f c0" | (new) "c \<in> set news"
    by (auto simp: family_rowsD(1) [OF assms(3)])
  then show "\<exists>e \<in> set (ir_tops t). xe_id e = p \<and> xe_run e = xe_run c"
  proof cases
    case old
    with c(2) st(4) have "xe_parent c0 = Some p" by simp
    with old(1) assms(1) obtain e where "e \<in> set (ir_tops s)" "xe_id e = p" "xe_run e = xe_run c0"
      by (auto simp: children_rooted_def)
    with up [of e] old st(2) show ?thesis by auto
  next
    case new
    with family_rowsD(5) [OF assms(3)] c(2) up [OF assms(2)] show ?thesis by auto
  qed
qed

lemma ir_inv_family_step:
  assumes inv: "ir_inv H call s" and h: "h \<in> set (ir_tops s)" "xe_status h \<noteq> XDone"
    and R: "family_rows h s t f news" and T: "family_tables h s t" and fam: "family_ok H call t (f h)"
  shows "ir_inv H call t"
proof -
  note I = ir_invD [OF inv] and D = ir_idsD [OF ir_invD(1) [OF inv]]
  note st = xe_staticD [OF family_rowsD(2) [OF R]] and tops = family_rows_tops [OF R]
  have par: "ir_params t = ir_params s" using family_tablesD(1) [OF T] by (rule ir_params_cong)
  have out: "run_outputs t = run_outputs s" using family_tablesD(3) [OF T] by (rule run_outputs_cong)
  have same: "f e = e" if "e \<in> set (ir_tops s)" "e \<noteq> h" for e
    using that h(1) tops_eq [OF inv that(1) h(1)] by (intro family_rowsD(3) [OF R]) (auto simp: ir_tops_in)
  have "family_ok H call t e" if et: "e \<in> set (ir_tops s)" "e \<noteq> h" for e
  proof -
    have i: "xe_id e \<noteq> xe_id h" using tops_eq [OF inv et(1) h(1)] et(2) by auto
    obtain params where p: "ir_params s (xe_run e) = Some params"
      and fam: "family H call (node_context params (run_outputs s (xe_run e))) e
        (ir_children s (xe_id e)) (ir_ckpts s) (ir_map_of s (xe_id e)) (ir_branch_of s (xe_id e))"
      using I(4) [OF et(1)] by (auto simp: family_ok_def)
    have "ir_ckpts t (xe_id c) = ir_ckpts s (xe_id c)" if "c \<in> set (ir_children s (xe_id e))" for c
      using that i h(1) key_uniqueD [OF D(1), of c h]
      by (intro family_tablesD(8) [OF T]) (auto simp: ir_children_in ir_tops_in)
    from family_cong [OF fam this] show ?thesis
      using p family_tablesD(7) [OF T i] family_rows_children [OF inv h(1) R i] par out by (simp add: family_ok_def)
  qed
  then have "family_ok H call t (f e)" if "e \<in> set (ir_tops s)" for e
    using that fam same [OF that] by (cases "e = h") simp_all
  then have fams: "\<forall>e \<in> set (ir_tops t). family_ok H call t e \<and> xe_node e = ir_id (xe_def e)"
    using I(5) st(3,6) by (auto simp: tops ir_tops_in)
  have "output_ok H call t o'" if "o' \<in> set (ir_outputs t)" for o'
  proof -
    have "output_ok H call s o'" using that I(7) family_tablesD(3) [OF T] by simp
    then obtain e where e: "e \<in> set (ir_tops s)" "node_key e = (ro_run o', ro_node o')" "xe_status e = XDone"
      "\<exists>params. ir_params s (ro_run o') = Some params
         \<and> ir_reference H call params (run_outputs s (ro_run o')) (xe_def e) = Inr (ro_output o')" "ro_done o'"
      by (auto simp: output_ok_def)
    with h(2) have "e \<noteq> h" by auto
    from same [OF e(1) this] have "e \<in> set (ir_tops t)" using e(1) by (force simp: tops)
    with e show ?thesis by (auto simp: output_ok_def par out)
  qed
  moreover have "map node_key (ir_tops t) = map node_key (ir_tops s)"
    using st(8) by (simp add: tops ir_tops_in)
  ultimately show ?thesis
    using ir_ids_family_step [OF I(1) _ R T] family_rows_rooted [OF I(2) h(1) R] h(1) I(3,6) fams
    by (simp add: ir_inv_def ir_tops_in key_unique_def family_tablesD(3) [OF T])
qed

subsection \<open>A node's output is recorded\<close>

lemma no_output_yet:
  assumes "ir_inv H call s" "h \<in> set (ir_tops s)" "xe_status h \<noteq> XDone"
  shows "\<not> list_ex (\<lambda>o'. ro_run o' = xe_run h \<and> ro_node o' = xe_node h) (ir_outputs s)"
proof
  assume "list_ex (\<lambda>o'. ro_run o' = xe_run h \<and> ro_node o' = xe_node h) (ir_outputs s)"
  then obtain o' where o': "o' \<in> set (ir_outputs s)" "ro_run o' = xe_run h" "ro_node o' = xe_node h"
    by (auto simp: list_ex_iff)
  from ir_invD(7) [OF assms(1) o'(1)] o'(2,3) obtain e where "e \<in> set (ir_tops s)" "node_key e = node_key h" "xe_status e = XDone"
    by (auto simp: output_ok_def node_key_def)
  with assms key_uniqueD [OF ir_invD(3) [OF assms(1)], of e h] show False by auto
qed

text \<open>Only top-level nodes are ever blocked.\<close>

lemma child_is_live:
  assumes "ir_inv H call s" "c \<in> set (ir_executions s)" "xe_parent c = Some p"
  shows "xe_status c \<in> {XQueued, XDone}" "\<exists>st. xe_def c = IrStep st"
proof -
  from ir_invD(2) [OF assms(1)] assms(2,3) obtain e where e: "e \<in> set (ir_tops s)" "xe_id e = p"
    by (auto simp: children_rooted_def)
  from ir_invD(4) [OF assms(1) e(1)] obtain ctx cks mrows brows where
    "family H call ctx e (ir_children s p) cks mrows brows"
    using e(2) by (auto simp: family_ok_def)
  from family_children_live [OF this] show "xe_status c \<in> {XQueued, XDone}" "\<exists>st. xe_def c = IrStep st"
    using assms(2,3) by (simp_all add: ir_children_in)
qed

lemma finished_outputs:
  assumes "ir_outputs t = ir_outputs u @ [\<lparr>ro_run = rid, ro_node = nid, ro_output = out, ro_done = True\<rparr>]"
    and "\<not> list_ex (\<lambda>o'. ro_run o' = rid \<and> ro_node o' = nid) (ir_outputs u)"
  shows "map_of (run_outputs u r) \<subseteq>\<^sub>m map_of (run_outputs t r)"
proof -
  have "run_outputs t r = run_outputs u r @ (if r = rid then [(nid, out)] else [])"
    by (simp add: run_outputs_def assms(1) sql_select_def)
  moreover have "map_of (run_outputs u rid) nid = None"
    using assms(2) by (auto simp: map_of_eq_None_iff run_outputs_def table_simps list_ex_iff)
  ultimately show ?thesis by (auto simp: map_le_def map_add_def split: option.splits)
qed

lemma unblocked_tops: "ir_executions t = sql_update (\<lambda>e. xe_status e = XBlocked \<and> q e) (\<lambda>e. e\<lparr>xe_status := XQueued\<rparr>) (ir_executions u)
    \<Longrightarrow> ir_tops t = sql_update (\<lambda>e. xe_status e = XBlocked \<and> q e) (\<lambda>e. e\<lparr>xe_status := XQueued\<rparr>) (ir_tops u)"
  by (simp add: ir_tops_def sql_select_def sql_update_def filter_map comp_def if_distrib cong: if_cong)

lemma unblocked_children:
  assumes "ir_inv H call u"
    and "ir_executions t = sql_update (\<lambda>e. xe_status e = XBlocked \<and> q e) (\<lambda>e. e\<lparr>xe_status := XQueued\<rparr>) (ir_executions u)"
  shows "ir_children t i = ir_children u i"
proof -
  have "xe_status c \<noteq> XBlocked" if "c \<in> set (ir_children u i)" for c
    using that child_is_live(1) [OF assms(1), of c i] by (auto simp: ir_children_in)
  then have "sql_update (\<lambda>e. xe_status e = XBlocked \<and> q e) (\<lambda>e. e\<lparr>xe_status := XQueued\<rparr>) (ir_children u i) = ir_children u i"
    by (intro sql_update_none) auto
  moreover have "ir_children t i = sql_update (\<lambda>e. xe_status e = XBlocked \<and> q e) (\<lambda>e. e\<lparr>xe_status := XQueued\<rparr>) (ir_children u i)"
    by (simp add: ir_children_def assms(2) sql_select_def sql_update_def filter_map comp_def if_distrib cong: if_cong)
  ultimately show ?thesis by simp
qed

lemma run_key_ids:
  assumes "map run_key rs = map run_key rs'"
  shows "key_unique ir_run_id rs = key_unique ir_run_id rs'"
    "(\<And>r. r \<in> set rs' \<Longrightarrow> ir_run_id r \<le> n) \<Longrightarrow> r \<in> set rs \<Longrightarrow> ir_run_id r \<le> n"
proof -
  have eq: "map ir_run_id rs = map ir_run_id rs'"
    using arg_cong [OF assms, of "map fst"] by (simp add: run_key_def comp_def)
  then show "key_unique ir_run_id rs = key_unique ir_run_id rs'" by (simp add: key_unique_def)
  assume le: "\<And>r. r \<in> set rs' \<Longrightarrow> ir_run_id r \<le> n" and "r \<in> set rs"
  then have "ir_run_id r \<in> set (map ir_run_id rs')" unfolding eq [symmetric] by simp
  with le show "ir_run_id r \<le> n" by auto
qed

text \<open>Queueing blocked nodes and recording one more output leaves what the invariant says of the other
  tables.\<close>

abbreviation unblock :: "(ir_execution \<Rightarrow> bool) \<Rightarrow> ir_execution list \<Rightarrow> ir_execution list" where
  "unblock q \<equiv> sql_update (\<lambda>e. xe_status e = XBlocked \<and> q e) (\<lambda>e. e\<lparr>xe_status := XQueued\<rparr>)"

lemma unblocked_rooted:
  assumes rooted: "children_rooted u" and ex: "ir_executions t = unblock q (ir_executions u)"
  shows "children_rooted t"
  unfolding children_rooted_def
proof (intro ballI allI impI)
  have tops: "ir_tops t = unblock q (ir_tops u)" by (rule unblocked_tops) (simp add: ex)
  fix c p
  assume "c \<in> set (ir_executions t)" "xe_parent c = Some p"
  then obtain c0 where "c0 \<in> set (ir_executions u)" "xe_parent c0 = Some p" "xe_run c0 = xe_run c"
    by (auto simp: ex elim!: sql_update_cases)
  with rooted [unfolded children_rooted_def, rule_format, of c0 p]
  obtain d where "d \<in> set (ir_tops u)" "xe_id d = p" "xe_run d = xe_run c" by auto
  then have "\<exists>d' \<in> set (unblock q (ir_tops u)). xe_id d' = p \<and> xe_run d' = xe_run c"
    by (intro bexI [where x = "if xe_status d = XBlocked \<and> q d then d\<lparr>xe_status := XQueued\<rparr> else d"])
      (simp_all add: sql_update_def)
  then show "\<exists>d \<in> set (ir_tops t). xe_id d = p \<and> xe_run d = xe_run c" by (simp add: tops)
qed

lemma output_ok_grows:
  assumes ok: "output_ok H call u o'" and tops: "ir_tops t = unblock q (ir_tops u)"
    and par: "ir_params t = ir_params u" and grows: "\<And>r. map_of (run_outputs u r) \<subseteq>\<^sub>m map_of (run_outputs t r)"
  shows "output_ok H call t o'"
proof -
  from ok obtain d params where d: "ro_done o'" "d \<in> set (ir_tops u)"
    "node_key d = (ro_run o', ro_node o')" "xe_status d = XDone" "ir_params u (ro_run o') = Some params"
    "ir_reference H call params (run_outputs u (ro_run o')) (xe_def d) = Inr (ro_output o')"
    by (auto simp: output_ok_def)
  have "d \<in> set (ir_tops t)" using d(2,4) by (simp add: tops set_sql_update)
  with d ir_reference_grows [OF grows d(6)] show ?thesis by (auto simp: output_ok_def par)
qed

lemma families_grow:
  assumes inv: "ir_inv H call u" and tops: "ir_tops t = unblock q (ir_tops u)"
    and chs: "\<And>i. ir_children t i = ir_children u i" and par: "ir_params t = ir_params u"
    and grows: "\<And>r. map_of (run_outputs u r) \<subseteq>\<^sub>m map_of (run_outputs t r)"
    and rest: "ir_ckpts t = ir_ckpts u" "ir_map_of t = ir_map_of u" "ir_branch_of t = ir_branch_of u"
    and d: "d \<in> set (ir_tops t)"
  shows "family_ok H call t d \<and> xe_node d = ir_id (xe_def d)"
proof -
  note I = ir_invD [OF inv]
  have fam: "family_ok H call t e \<and> family_ok H call t (e\<lparr>xe_status := XQueued\<rparr>)"
    if e: "e \<in> set (ir_tops u)" "xe_status e = XBlocked" for e
    using I(4) [OF e(1)] family_unblock [OF _ e(2)] family_grows [OF node_context_grows [OF grows]]
    by (fastforce simp: family_ok_def chs par rest)
  have fam': "family_ok H call t e" if e: "e \<in> set (ir_tops u)" for e
    using I(4) [OF e] family_grows [OF node_context_grows [OF grows]]
    by (fastforce simp: family_ok_def chs par rest)
  show ?thesis using d [unfolded tops] by (cases rule: sql_update_cases) (auto simp: fam fam' I(5))
qed

lemma ir_inv_finish:
  assumes inv: "ir_inv H call u" and e: "e \<in> set (ir_tops u)" "xe_status e = XDone"
    and no: "\<not> list_ex (\<lambda>o'. ro_run o' = xe_run e \<and> ro_node o' = xe_node e) (ir_outputs u)"
    and ref: "ir_params u (xe_run e) = Some params"
      "ir_reference H call params (run_outputs u (xe_run e)) (xe_def e) = Inr out"
    and fin: "finishTopLevelNode H (xe_run e) (xe_node e) out spec u = (Inr (), t)"
  shows "ir_inv H call t"
proof -
  note I = ir_invD [OF inv] and D = ir_idsD [OF ir_invD(1) [OF inv]]
  let ?new = "\<lparr>ro_run = xe_run e, ro_node = xe_node e, ro_output = out, ro_done = True\<rparr>"
  from finish_Inr [OF fin D(1) no] obtain q rs where rs: "map run_key rs = map run_key (ir_runs u)"
    and t: "t = u\<lparr>ir_outputs := ir_outputs u @ [?new], ir_executions := unblock q (ir_executions u), ir_runs := rs\<rparr>"
    by blast
  have tops: "ir_tops t = unblock q (ir_tops u)" by (rule unblocked_tops) (simp add: t)
  have chs: "ir_children t i = ir_children u i" for i by (rule unblocked_children [OF inv]) (simp add: t)
  have par: "ir_params t = ir_params u" by (rule ir_params_cong) (simp add: t rs)
  have grows: "map_of (run_outputs u r) \<subseteq>\<^sub>m map_of (run_outputs t r)" for r
    by (rule finished_outputs [OF _ no]) (simp add: t)
  have rest: "ir_ckpts t = ir_ckpts u" "ir_map_of t = ir_map_of u" "ir_branch_of t = ir_branch_of u"
    by (simp_all add: t ir_ckpts_def ir_map_of_def ir_branch_of_def fun_eq_iff)
  have fams: "family_ok H call t d \<and> xe_node d = ir_id (xe_def d)" if "d \<in> set (ir_tops t)" for d
    by (rule families_grow [OF inv tops chs par grows rest that])
  have "output_ok H call t o'" if "o' \<in> set (ir_outputs u)" for o'
    by (rule output_ok_grows [OF I(7) [OF that] tops par grows])
  moreover have "output_ok H call t ?new"
  proof -
    have "e \<in> set (ir_tops t)" using e by (simp add: tops set_sql_update)
    with e(2) ref ir_reference_grows [OF grows ref(2)] show ?thesis
      by (auto simp: output_ok_def par node_key_def)
  qed
  moreover have "ir_ids t"
    using D e(1) run_key_ids(1) [OF rs] run_key_ids(2) [OF rs D(7)] unfolding ir_ids_def
    by (auto simp: t ir_tops_in key_unique_update elim!: sql_update_cases)
  moreover have "children_rooted t" by (rule unblocked_rooted [OF I(2)]) (simp add: t)
  moreover have "ir_outputs t = ir_outputs u @ [?new]" by (simp add: t)
  moreover have "key_unique node_key (ir_tops t)"
    unfolding tops by (rule key_unique_update [THEN iffD2, OF _ I(3)]) (simp add: node_key_def)
  ultimately show ?thesis
    using I(6) fams no by (simp add: ir_inv_def key_unique_snoc list_ex_iff)
qed

end
