(* ===== verification/Ir_Handlers.thy ===== *)
theory Ir_Handlers
  imports Ir_Steps
begin

text \<open>
  Each handler of the prototype interpreter, run on a claimed execution, keeps the invariant.
\<close>

subsection \<open>Claiming\<close>

definition claimed_db :: "string \<Rightarrow> ir_db \<Rightarrow> ir_execution \<Rightarrow> ir_db" where
  "claimed_db w s v = s\<lparr>ir_executions :=
     sql_update (\<lambda>e. xe_id e = xe_id v) (ir_claimed w 30 (ir_now s)) (ir_executions s)\<rparr>"

lemma ir_claimed_simps [simp]:
  "xe_static (ir_claimed w l n v) = xe_static v" "xe_id (ir_claimed w l n v) = xe_id v"
  "xe_run (ir_claimed w l n v) = xe_run v" "xe_node (ir_claimed w l n v) = xe_node v"
  "xe_parent (ir_claimed w l n v) = xe_parent v" "xe_index (ir_claimed w l n v) = xe_index v"
  "xe_def (ir_claimed w l n v) = xe_def v" "xe_item (ir_claimed w l n v) = xe_item v"
  by (simp_all add: ir_claimed_def xe_static_def)

lemma xe_static_update [simp]:
  "xe_static (e\<lparr>xe_status := st\<rparr>) = xe_static e"
  "xe_static (e\<lparr>xe_status := st, xe_worker := wk, xe_lease := ls\<rparr>) = xe_static e"
  by (simp_all add: xe_static_def)

lemma claimed_db_simps [simp]:
  "ir_runs (claimed_db w s v) = ir_runs s" "ir_outputs (claimed_db w s v) = ir_outputs s"
  "ir_checkpoints (claimed_db w s v) = ir_checkpoints s" "ir_map_rows (claimed_db w s v) = ir_map_rows s"
  "ir_branch_rows (claimed_db w s v) = ir_branch_rows s" "ir_runs_seq (claimed_db w s v) = ir_runs_seq s"
  "ir_executions_seq (claimed_db w s v) = ir_executions_seq s"
  "run_outputs (claimed_db w s v) = run_outputs s" "ir_params (claimed_db w s v) = ir_params s"
  by (simp_all add: claimed_db_def run_outputs_def ir_params_def fun_eq_iff)

lemma update_claimed:
  "sql_update (\<lambda>e. xe_id e = xe_id v) g (ir_executions (claimed_db w s v)) =
     map (\<lambda>e. if xe_id e = xe_id v then g (ir_claimed w 30 (ir_now s) e) else e) (ir_executions s)"
  by (simp add: claimed_db_def sql_update_def)

lemma family_status:
  assumes "family H call ctx e chs cks mrows brows"
  shows "xe_status e \<in> {XBlocked, XQueued, XAwaiting, XDone}"
  using assms
  by (cases "xe_def e") (auto simp: family_def fresh_node_def elim!: branch_familyE map_familyE split: if_splits)

lemma no_running:
  assumes "ir_inv H call s" "e \<in> set (ir_executions s)"
  shows "xe_status e \<noteq> XRunning"
proof (cases "xe_parent e")
  case None
  with assms(2) have "e \<in> set (ir_tops s)" by (simp add: ir_tops_in)
  from ir_invD(4) [OF assms(1) this] show ?thesis by (auto simp: family_ok_def dest: family_status)
next
  case (Some p)
  from child_is_live(1) [OF assms this] show ?thesis by auto
qed

lemma ir_claim_Inr:
  assumes "ir_inv H call s" "ir_claim_execution w 30 s = (Inr (Some row), t)"
  obtains v where "v \<in> set (ir_executions s)" "xe_status v = XQueued" "row = ir_claimed w 30 (ir_now s) v"
    "t = claimed_db w s v"
proof -
  from assms(2) obtain v where v: "v \<in> set (sort_key xe_id (sql_select (ir_claimable s) (ir_executions s)))"
    "row = ir_claimed w 30 (ir_now s) v" "t = claimed_db w s v"
    by (auto simp: ir_claim_execution_def claimed_db_def dest: first_row_in split: option.splits)
  with no_running [OF assms(1)] have "v \<in> set (ir_executions s)" "xe_status v = XQueued"
    by (auto simp: table_simps ir_claimable_def)
  with that v show ?thesis by blast
qed

subsection \<open>Work left\<close>

text \<open>
  A poll that claims something fans out a node that had no children yet, or it finishes a row and
  fans out nothing. Claiming and promoting do not count.
\<close>

definition undone :: "ir_db \<Rightarrow> nat" where
  "undone s = length (filter (\<lambda>e. xe_status e \<noteq> XDone) (ir_executions s))"

definition fans_out :: "ir_db \<Rightarrow> ir_execution \<Rightarrow> bool" where
  "fans_out s e \<longleftrightarrow> (\<nexists>st. xe_def e = IrStep st) \<and> ir_map_of s (xe_id e) = [] \<and> ir_branch_of s (xe_id e) = []"

definition unfanned :: "ir_db \<Rightarrow> nat" where
  "unfanned s = length (filter (fans_out s) (ir_tops s))"

definition advances :: "ir_db \<Rightarrow> ir_db \<Rightarrow> bool" where
  "advances s t \<longleftrightarrow> unfanned t < unfanned s \<or> unfanned t = unfanned s \<and> undone t < undone s"

lemma filter_length_le:
  "(\<And>x. x \<in> set xs \<Longrightarrow> Q x \<Longrightarrow> P x) \<Longrightarrow> length (filter Q xs) \<le> length (filter P xs)"
  by (induction xs) (auto simp: le_SucI)

lemma filter_length_less:
  assumes "\<And>x. x \<in> set xs \<Longrightarrow> Q x \<Longrightarrow> P x" "v \<in> set xs" "P v" "\<not> Q v"
  shows "length (filter Q xs) < length (filter P xs)"
proof -
  obtain ys zs where "xs = ys @ v # zs" using assms(2) by (auto dest: split_list)
  moreover from this have "length (filter Q ys) \<le> length (filter P ys)" "length (filter Q zs) \<le> length (filter P zs)"
    using assms(1) by (auto intro!: filter_length_le)
  ultimately show ?thesis using assms(3,4) by simp
qed

lemma undone_less:
  assumes "ir_executions t = map f (ir_executions s)"
    and "\<And>e. e \<in> set (ir_executions s) \<Longrightarrow> xe_status e = XDone \<Longrightarrow> xe_status (f e) = XDone"
    and "v \<in> set (ir_executions s)" "xe_status v \<noteq> XDone" "xe_status (f v) = XDone"
  shows "undone t < undone s"
proof -
  have "length (filter (\<lambda>e. xe_status (f e) \<noteq> XDone) (ir_executions s)) < undone s"
    unfolding undone_def using assms(2-5) by (intro filter_length_less) auto
  then show ?thesis by (simp add: undone_def assms(1) filter_map comp_def)
qed

lemma unfanned_same:
  assumes "map xe_static (ir_tops t) = map xe_static (ir_tops s)"
    and "\<And>i. ir_map_of t i = [] \<longleftrightarrow> ir_map_of s i = []" "\<And>i. ir_branch_of t i = [] \<longleftrightarrow> ir_branch_of s i = []"
  shows "unfanned t = unfanned s"
proof -
  let ?p = "\<lambda>(i, _, _, _, _, nd, _). (\<nexists>st. nd = IrStep st) \<and> ir_map_of s i = [] \<and> ir_branch_of s i = []"
  have "length (filter (fans_out s) es) = length (filter ?p (map xe_static es))"
    "length (filter (fans_out t) es) = length (filter ?p (map xe_static es))" for es
    by (induction es) (auto simp: xe_static_def fans_out_def assms(2,3))
  then show ?thesis by (simp only: unfanned_def assms(1))
qed

subsection \<open>A top-level node on its own\<close>

text \<open>The claimed row is the only one that changes.\<close>

lemma head_step:
  assumes inv: "ir_inv H call s" and v: "v \<in> set (ir_tops s)" "xe_status v \<noteq> XDone"
    and ex: "ir_executions t = map (\<lambda>e. if xe_id e = xe_id v then g e else e) (ir_executions s)"
    and seq: "ir_executions_seq t = ir_executions_seq s"
    and g: "xe_static (g v) = xe_static v" and T: "family_tables v s t" and fam: "family_ok H call t (g v)"
  shows "ir_inv H call t" "g v \<in> set (ir_tops t)"
proof -
  let ?f = "\<lambda>e. if xe_id e = xe_id v then g e else e"
  have R: "family_rows v s t ?f []"
    using tops_eq [OF inv _ v(1)] key_uniqueD [OF ir_idsD(1) [OF ir_invD(1) [OF inv]], of _ v] v(1) g
    by (auto simp: family_rows_def ex seq ir_tops_in)
  with ir_inv_family_step [OF inv v R T] fam show "ir_inv H call t" by simp
  show "g v \<in> set (ir_tops t)" using v(1) by (force simp: family_rows_tops [OF R])
qed

text \<open>The children of a top-level node, when only its own row has changed.\<close>

lemma head_children:
  assumes "ir_inv H call s" "v \<in> set (ir_tops s)"
    and ex: "ir_executions t = map (\<lambda>e. if xe_id e = xe_id v then g e else e) (ir_executions s)"
    and g: "xe_static (g v) = xe_static v"
  shows "ir_children t (xe_id v) = ir_children s (xe_id v)"
proof -
  have v: "e = v" if "e \<in> set (ir_executions s)" "xe_id e = xe_id v" for e
    using that key_uniqueD [OF ir_idsD(1) [OF ir_invD(1) [OF assms(1)]], of e v] assms(2) by (auto simp: ir_tops_in)
  have "sql_select (\<lambda>e. xe_parent e = Some (xe_id v)) (map (\<lambda>e. if xe_id e = xe_id v then g e else e) (ir_executions s) @ [])
      = map (\<lambda>e. if xe_id e = xe_id v then g e else e) (sql_select (\<lambda>e. xe_parent e = Some (xe_id v)) (ir_executions s))
        @ sql_select (\<lambda>e. xe_parent e = Some (xe_id v)) []"
    using xe_staticD(4) [OF g] by (intro sql_select_map_append) (auto dest!: v)
  also have "\<dots> = sql_select (\<lambda>e. xe_parent e = Some (xe_id v)) (ir_executions s)"
    using assms(2) by (auto simp: sql_select_def ir_tops_in intro!: map_idI dest!: v)
  finally show ?thesis by (simp add: ir_children_def ex)
qed

text \<open>The node's row is done and its output is the reference interpreter's.\<close>

lemma family_done:
  assumes "family H call ctx e chs cks mrows brows" "xe_status e = XQueued"
    and "mrows \<noteq> [] \<or> brows \<noteq> [] \<or> (\<exists>st. xe_def e = IrStep st)"
    and "xe_def e' = xe_def e" "xe_status e' = XDone"
  shows "family H call ctx e' chs cks mrows brows"
proof (cases "xe_def e")
  case (IrBranch i selector cases)
  with assms have "branch_family H call ctx e selector cases chs cks brows" "mrows = []"
    by (auto simp: family_def fresh_node_def)
  from this(1) have "branch_family H call ctx e' selector cases chs cks brows"
    using assms(2,5) by (elim branch_familyE) (rule branch_familyI, assumption+, simp split: if_splits)
  with IrBranch assms(4) \<open>mrows = []\<close> show ?thesis by (simp add: family_def)
next
  case (IrMap i source body yields)
  with assms have "map_family H call ctx e source body chs cks mrows" "brows = []"
    by (auto simp: family_def fresh_node_def)
  from this(1) have "map_family H call ctx e' source body chs cks mrows"
    using assms(2,5) by (elim map_familyE) (rule map_familyI, assumption+, simp split: if_splits)
  with IrMap assms(4) \<open>brows = []\<close> show ?thesis by (simp add: family_def)
qed (use assms in \<open>simp add: family_def\<close>)

lemma tops_update:
  assumes "\<And>e. xe_static (f e) = xe_static e"
  shows "map xe_static (sql_select (\<lambda>e. xe_parent e = None) (sql_update p f es)) =
    map xe_static (sql_select (\<lambda>e. xe_parent e = None) es)"
  using xe_staticD(4) [OF assms] by (induction es) (simp_all add: sql_select_def sql_update_def assms)

lemma finish_advances:
  assumes "finishTopLevelNode H rid nid out spec u = (Inr (), t)" "key_unique xe_id (ir_executions u)"
    and "\<not> list_ex (\<lambda>o'. ro_run o' = rid \<and> ro_node o' = nid) (ir_outputs u)" "advances s u"
  shows "advances s t"
proof -
  from finish_Inr [OF assms(1-3)] obtain q rs os where t: "t = u\<lparr>ir_outputs := os,
      ir_executions := sql_update (\<lambda>e. xe_status e = XBlocked \<and> q e) (\<lambda>e. e\<lparr>xe_status := XQueued\<rparr>) (ir_executions u), ir_runs := rs\<rparr>"
    by blast
  have "length (filter (\<lambda>e. xe_status e \<noteq> XDone)
      (sql_update (\<lambda>e. xe_status e = XBlocked \<and> q e) (\<lambda>e. e\<lparr>xe_status := XQueued\<rparr>) es))
    = length (filter (\<lambda>e. xe_status e \<noteq> XDone) es)" for es
    by (induction es) (simp_all add: sql_update_def)
  then have "undone t = undone u" by (simp add: undone_def t)
  moreover have "unfanned t = unfanned u"
    by (rule unfanned_same) (simp_all add: t ir_map_of_def ir_branch_of_def ir_tops_def tops_update)
  ultimately show ?thesis using assms(4) by (simp add: advances_def)
qed

lemma finish_head:
  assumes inv: "ir_inv H call s" and v: "v \<in> set (ir_tops s)" "xe_status v = XQueued"
    and kind: "ir_map_of s (xe_id v) \<noteq> [] \<or> ir_branch_of s (xe_id v) \<noteq> [] \<or> (\<exists>st. xe_def v = IrStep st)"
    and u: "u = (claimed_db w s v)\<lparr>ir_checkpoints := ir_checkpoints s @ cks,
      ir_executions := sql_update (\<lambda>e. xe_id e = xe_id v) (\<lambda>e. e\<lparr>xe_status := XDone\<rparr>)
        (ir_executions (claimed_db w s v))\<rparr>"
    and cks: "\<And>c. c \<in> set cks \<Longrightarrow> ck_execution c = xe_id v"
    and ref: "ir_params s (xe_run v) = Some params"
      "ir_reference H call params (run_outputs s (xe_run v)) (xe_def v) = Inr out"
    and fin: "finishTopLevelNode H (xe_run v) (xe_node v) out spec u = (Inr (), t)"
  shows "ir_inv H call t \<and> advances s t"
proof -
  let ?g = "\<lambda>e. (ir_claimed w 30 (ir_now s) e)\<lparr>xe_status := XDone\<rparr>"
  note D = ir_idsD [OF ir_invD(1) [OF inv]]
  have ex: "ir_executions u = map (\<lambda>e. if xe_id e = xe_id v then ?g e else e) (ir_executions s)"
    by (simp add: u update_claimed)
  have par: "ir_params u = ir_params s" by (rule ir_params_cong) (simp add: u)
  have outs: "run_outputs u = run_outputs s" by (rule run_outputs_cong) (simp add: u)
  have kids: "ir_ckpts u (xe_id c) = ir_ckpts s (xe_id c)" if "xe_id c \<noteq> xe_id v" for c
    using that cks by (auto simp: u ir_ckpts_def sql_select_append) (auto simp: sql_select_def filter_empty_conv)
  have rows: "ir_map_of u = ir_map_of s" "ir_branch_of u = ir_branch_of s"
    by (simp_all add: u ir_map_of_def ir_branch_of_def fun_eq_iff)
  have "xe_id c \<noteq> xe_id v" if "c \<in> set (ir_children s (xe_id v))" for c
    using that v(1) key_uniqueD [OF D(1), of c v] by (auto simp: ir_children_in ir_tops_in)
  then have fam: "family_ok H call u (?g v)"
    using ir_invD(4) [OF inv v(1)] family_done [OF family_cong [where cks' = "ir_ckpts u"] v(2) kind] kids
    by (fastforce simp: family_ok_def par outs rows head_children [OF inv v(1) ex])
  have T: "family_tables v s u"
    using D(4-6) v(1) D(3) [of v] kids by (auto simp: family_tables_def rows ir_tops_in) (auto simp: u dest!: cks)
  note hs = head_step [OF inv v(1) _ ex _ _ T fam]
  have u_inv: "ir_inv H call u" "?g v \<in> set (ir_tops u)" using hs v(2) by (simp_all add: u)
  have no: "\<not> list_ex (\<lambda>o'. ro_run o' = xe_run v \<and> ro_node o' = xe_node v) (ir_outputs u)"
    using no_output_yet [OF inv v(1)] v(2) by (simp add: u)
  have "undone u < undone s"
    using v by (intro undone_less [OF ex, where v = v]) (auto simp: ir_tops_in)
  moreover have "map xe_static (ir_tops u) = map xe_static (ir_tops s)"
    unfolding ir_tops_def u by (simp add: claimed_db_def tops_update)
  ultimately have "advances s u" by (auto simp: advances_def rows intro!: unfanned_same)
  with u_inv no show ?thesis
    using ir_inv_finish [of H call u "?g v" params out spec t] ref fin
      finish_advances [OF fin ir_idsD(1) [OF ir_invD(1) [OF u_inv(1)]] no] by (simp add: par outs)
qed

lemma plain_step_inv:
  assumes inv: "ir_inv H call s" and v: "v \<in> set (ir_tops s)" "xe_status v = XQueued" "xe_def v = IrStep st"
    and run: "runPlainStep H call (ir_claimed w 30 (ir_now s) v) spec (claimed_db w s v) = (Inr (), t)"
  shows "ir_inv H call t \<and> advances s t"
proof -
  from run obtain params out u where p: "ir_params s (xe_run v) = Some params"
    and step: "run_step_of H call (ir_claimed w 30 (ir_now s) v)
      (node_context params (run_outputs s (xe_run v))) (claimed_db w s v) = (Inr out, u)"
    and fin: "finishTopLevelNode H (xe_run v) (xe_node v) out spec u = (Inr (), t)"
    by (auto simp: runPlainStep_def tx_Inr loadRunContext_Inr)
  from step v(3) have "call_step H call st (node_context params (run_outputs s (xe_run v))) = Inr out"
    and "u = (claimed_db w s v)\<lparr>ir_checkpoints := ir_checkpoints s @
        [\<lparr>ck_execution = xe_id v, ck_step = xe_node v, ck_output = out\<rparr>],
      ir_executions := sql_update (\<lambda>e. xe_id e = xe_id v) (\<lambda>e. e\<lparr>xe_status := XDone\<rparr>)
        (ir_executions (claimed_db w s v))\<rparr>"
    by (auto simp: run_step_of_Inr)
  then show ?thesis
    by (intro finish_head [OF inv v(1,2) _ _ _ p _ fin,
          where cks = "[\<lparr>ck_execution = xe_id v, ck_step = xe_node v, ck_output = out\<rparr>]"])
      (auto simp: v(3))
qed

subsection \<open>Joins\<close>

lemma child_checkpoints_eq:
  "child_checkpoints s p q = concat (map (\<lambda>e. map (\<lambda>c. (nullish (xe_index e) 0, ck_output c))
     (filter (q e) (ir_ckpts s (xe_id e)))) (ir_children s p))"
  by (simp add: child_checkpoints_def ir_children_def ir_ckpts_def sql_select_def conj_commute)

lemma child_ok_done:
  assumes "child_ok P st cks c" "xe_status c = XDone"
  obtains out where "P out" "cks (xe_id c) = [\<lparr>ck_execution = xe_id c, ck_step = is_id st, ck_output = out\<rparr>]"
    "xe_node c = is_id st"
  using assms by (auto simp: child_ok_def)

lemma chosen_step_Inr:
  "chosen_step cases key = Inr st \<longleftrightarrow> (\<exists>c. map_of cases key = Some c \<and> ic_steps c = [st])"
  by (auto simp: chosen_step_def split: option.splits list.splits)

lemma one_step_Inr: "one_step body = Inr st \<longleftrightarrow> body = [st]"
  by (auto simp: one_step_def split: list.splits)

lemma claimed_children:
  assumes "ir_inv H call s" "v \<in> set (ir_tops s)"
  shows "ir_children (claimed_db w s v) (xe_id v) = ir_children s (xe_id v)" "ir_ckpts (claimed_db w s v) = ir_ckpts s"
  by (rule head_children [OF assms, where g = "ir_claimed w 30 (ir_now s)"])
    (simp_all add: claimed_db_def sql_update_def ir_ckpts_def fun_eq_iff)

lemma set_status_claimed:
  "ir_set_status (xe_id v) st (claimed_db w s v) = (Inr (), (claimed_db w s v)\<lparr>ir_checkpoints := ir_checkpoints s @ [], ir_executions :=
     sql_update (\<lambda>e. xe_id e = xe_id v) (\<lambda>e. e\<lparr>xe_status := st\<rparr>) (ir_executions (claimed_db w s v))\<rparr>)"
  by (simp add: ir_set_status_def tx_simps)

lemma branch_join_inv:
  assumes inv: "ir_inv H call s" and v: "v \<in> set (ir_tops s)" "xe_status v = XQueued"
    "xe_def v = IrBranch i selector cases"
    and bn: "first_row (ir_branch_of s (xe_id v)) = Some bn"
    and run: "branch_join H (ir_claimed w 30 (ir_now s) v) cases bn spec (claimed_db w s v) = (Inr r, t)"
  shows "ir_inv H call t \<and> advances s t"
proof -
  from ir_invD(4) [OF inv v(1)] bn v(3) obtain params where p: "ir_params s (xe_run v) = Some params"
    and "branch_family H call (node_context params (run_outputs s (xe_run v))) v selector cases
      (ir_children s (xe_id v)) (ir_ckpts s) (ir_branch_of s (xe_id v))"
    by (auto simp: family_ok_def family_def fresh_node_def)
  from this(2) obtain x st c where x: "ir_branch_of s (xe_id v) = [bn]"
    "ir_resolveBinding H selector (node_context params (run_outputs s (xe_run v))) = Inr x"
    "bn_case bn = case_key H x cases" "chosen_step cases (bn_case bn) = Inr st" "ir_children s (xe_id v) = [c]"
    "child_ok (\<lambda>out. call_step H call st (node_context params (run_outputs s (xe_run v))) = Inr out) st (ir_ckpts s) c"
    "xe_status c = XDone"
    using bn v(2) by (elim branch_familyE) (auto split: if_splits)
  from child_ok_done [OF x(6,7)] obtain out where out:
    "call_step H call st (node_context params (run_outputs s (xe_run v))) = Inr out"
    "ir_ckpts s (xe_id c) = [\<lparr>ck_execution = xe_id c, ck_step = is_id st, ck_output = out\<rparr>]" "xe_node c = is_id st"
    by blast
  from x(4) obtain k where k: "map_of cases (bn_case bn) = Some k" "ic_steps k = [st]" by (auto simp: chosen_step_Inr)
  from run k out obtain yields u where y: "ir_resolveReads H (ic_yields k) (yields_context (is_id st) out) = Inr yields"
    and u: "ir_set_status (xe_id v) XDone (claimed_db w s v) = (Inr (), u)"
    and fin: "finishTopLevelNode H (xe_run v) (xe_node v) yields spec u = (Inr (), t)"
    by (auto simp: branch_join_def tx_Inr res_bind_Inr ir_first_Inr child_checkpoints_eq claimed_children [OF inv v(1)]
        x(5) yields_context_def)
  have "ir_reference H call params (run_outputs s (xe_run v)) (xe_def v) = Inr yields"
    using v(3) x(2-4) out(1) y k by (simp add: case_yields_def)
  then show ?thesis
    using u x(1) by (intro finish_head [OF inv v(1,2) _ _ _ p _ fin, where cks = "[]" and w = w]) (auto simp: set_status_claimed)
qed

text \<open>The children of a finished map, in the order of their indices.\<close>

lemma map_children_outputs:
  assumes "map (\<lambda>c. (xe_index c, xe_item c)) chs = map (\<lambda>(i, x). (Some i, Some x)) (enumerate k items)"
    and "\<And>c. c \<in> set chs \<Longrightarrow> map_child_ok H call st cks c \<and> xe_status c = XDone"
  shows "\<exists>outs. res_map (\<lambda>item. call_step H call st (item_context item)) items = Inr outs
    \<and> concat (map (\<lambda>e. map (\<lambda>c. (nullish (xe_index e) 0, ck_output c))
          (filter (\<lambda>c. ck_step c = is_id st) (cks (xe_id e)))) chs) = enumerate k outs"
  using assms
proof (induction chs arbitrary: k items)
  case (Cons c chs)
  then obtain x items' where items: "items = x # items'" by (cases items) auto
  with Cons.prems have c: "xe_index c = Some k" "xe_item c = Some x"
    and rest: "map (\<lambda>c. (xe_index c, xe_item c)) chs = map (\<lambda>(i, x). (Some i, Some x)) (enumerate (Suc k) items')"
    by simp_all
  from Cons.prems(2) [of c] obtain out where "call_step H call st (item_context x) = Inr out"
    "cks (xe_id c) = [\<lparr>ck_execution = xe_id c, ck_step = is_id st, ck_output = out\<rparr>]"
    using c(2) by (auto simp: map_child_ok_def elim!: child_ok_done)
  with Cons.IH [OF rest] Cons.prems(2) c(1) items show ?case by (auto simp: res_bind_Inr)
next
  case Nil
  then show ?case by (cases items) simp_all
qed

lemma all_done:
  assumes "done_count chs = length chs" "c \<in> set chs"
  shows "xe_status c = XDone"
proof (rule ccontr)
  assume "xe_status c \<noteq> XDone"
  with assms(2) have "length (filter (\<lambda>c. xe_status c = XDone) chs) < length chs" by (rule length_filter_less)
  with assms(1) show False by (simp add: done_count_def)
qed

lemma map_join_inv:
  assumes inv: "ir_inv H call s" and v: "v \<in> set (ir_tops s)" "xe_status v = XQueued"
    "xe_def v = IrMap i source body yields" and mn: "ir_map_of s (xe_id v) \<noteq> []"
    and run: "map_join H (ir_claimed w 30 (ir_now s) v) body yields spec (claimed_db w s v) = (Inr r, t)"
  shows "ir_inv H call t \<and> advances s t"
proof -
  from ir_invD(4) [OF inv v(1)] mn v(3) obtain params where p: "ir_params s (xe_run v) = Some params"
    and "map_family H call (node_context params (run_outputs s (xe_run v))) v source body
      (ir_children s (xe_id v)) (ir_ckpts s) (ir_map_of s (xe_id v))"
    by (auto simp: family_ok_def family_def fresh_node_def)
  from this(2) obtain items st where x:
    "ir_resolveBinding H source (node_context params (run_outputs s (xe_run v))) = Inr (JArr items)"
    "one_step body = Inr st"
    "map (\<lambda>c. (xe_index c, xe_item c)) (ir_children s (xe_id v)) = map (\<lambda>(i, x). (Some i, Some x)) (enumerate 0 items)"
    "\<And>c. c \<in> set (ir_children s (xe_id v)) \<Longrightarrow> map_child_ok H call st (ir_ckpts s) c"
    "done_count (ir_children s (xe_id v)) = length items"
    using v(2) by (elim map_familyE) (auto split: if_splits)
  have "done_count (ir_children s (xe_id v)) = length (ir_children s (xe_id v))"
    using arg_cong [OF x(3), of length] x(5) by simp
  with x(4) have kids: "map_child_ok H call st (ir_ckpts s) c \<and> xe_status c = XDone"
    if "c \<in> set (ir_children s (xe_id v))" for c
    using that by (simp add: all_done)
  from map_children_outputs [OF x(3) kids] obtain outs where outs:
    "res_map (\<lambda>item. call_step H call st (item_context item)) items = Inr outs"
    "child_checkpoints (claimed_db w s v) (xe_id v) (\<lambda>_ c. ck_step c = is_id st) = enumerate 0 outs"
    by (auto simp: child_checkpoints_eq claimed_children [OF inv v(1)])
  have "sort_key fst (enumerate 0 outs) = enumerate 0 outs"
    by (rule sort_key_id_if_sorted) simp
  with run outs x(2) obtain out u where y: "map_yields H yields outs = Inr out"
    and u: "ir_set_status (xe_id v) XDone (claimed_db w s v) = (Inr (), u)"
    and fin: "finishTopLevelNode H (xe_run v) (xe_node v) out spec u = (Inr (), t)"
    by (auto simp: map_join_def tx_Inr ir_first_Inr one_step_Inr)
  have "ir_reference H call params (run_outputs s (xe_run v)) (xe_def v) = Inr out"
    using v(3) x(1,2) outs(1) y by (simp add: map_items_def)
  then show ?thesis
    using u mn by (intro finish_head [OF inv v(1,2) _ _ _ p _ fin, where cks = "[]" and w = w]) (auto simp: set_status_claimed)
qed

subsection \<open>Fan-out\<close>

definition queued_child :: "nat \<Rightarrow> nat \<Rightarrow> ir_step \<Rightarrow> nat \<Rightarrow> nat option \<Rightarrow> json option \<Rightarrow> ir_execution" where
  "queued_child rid p st i index item =
     \<lparr>xe_id = i, xe_run = rid, xe_node = is_id st, xe_parent = Some p, xe_index = index, xe_def = IrStep st,
       xe_item = item, xe_status = XQueued, xe_worker = None, xe_lease = None, xe_attempts = 0\<rparr>"

lemma queued_child_simps [simp]:
  "xe_id (queued_child rid p st i index item) = i" "xe_run (queued_child rid p st i index item) = rid"
  "xe_parent (queued_child rid p st i index item) = Some p" "xe_index (queued_child rid p st i index item) = index"
  "xe_item (queued_child rid p st i index item) = item" "xe_status (queued_child rid p st i index item) = XQueued"
  by (simp_all add: queued_child_def)

lemma queued_child_ok: "cks i = [] \<Longrightarrow> child_ok P st cks (queued_child rid p st i index item)"
  by (simp add: child_ok_def queued_child_def)

lemma done_count_queued: "(\<And>c. c \<in> set chs \<Longrightarrow> xe_status c = XQueued) \<Longrightarrow> done_count chs = 0"
  by (auto simp: done_count_def filter_empty_conv)

lemma fanout_inv:
  assumes inv: "ir_inv H call s" and v: "v \<in> set (ir_tops s)" "xe_status v = XQueued"
    and fresh: "ir_children s (xe_id v) = []"
    and ex: "ir_executions t = map (\<lambda>e. if xe_id e = xe_id v then g e else e) (ir_executions s) @ news"
    and g: "xe_static (g v) = xe_static v"
    and ids: "map xe_id news = [Suc (ir_executions_seq s)..<Suc (ir_executions_seq t)]"
      "ir_executions_seq s \<le> ir_executions_seq t"
    and news: "\<And>c. c \<in> set news \<Longrightarrow> xe_parent c = Some (xe_id v) \<and> xe_run c = xe_run v"
    and T: "family_tables v s t" and p: "ir_params s (xe_run v) = Some params"
    and fam: "family H call (node_context params (run_outputs s (xe_run v))) (g v) news (ir_ckpts t)
      (ir_map_of t (xe_id v)) (ir_branch_of t (xe_id v))"
    and out: "fans_out s v" "ir_map_of t (xe_id v) \<noteq> [] \<or> ir_branch_of t (xe_id v) \<noteq> []"
  shows "ir_inv H call t \<and> advances s t"
proof -
  let ?f = "\<lambda>e. if xe_id e = xe_id v then g e else e"
  have same: "e = v" if "e \<in> set (ir_executions s)" "xe_id e = xe_id v" for e
    using that key_uniqueD [OF ir_idsD(1) [OF ir_invD(1) [OF inv]], of e v] v(1) by (auto simp: ir_tops_in)
  have R: "family_rows v s t ?f news"
    using g ids news by (auto simp: family_rows_def ex dest!: same)
  have "ir_children t (xe_id v) = map ?f (ir_children s (xe_id v)) @ sql_select (\<lambda>e. xe_parent e = Some (xe_id v)) news"
    unfolding ir_children_def ex using xe_staticD(4) [OF g] by (intro sql_select_map_append) (auto dest!: same)
  also have "\<dots> = news" using news by (simp add: fresh sql_select_def filter_id_conv)
  finally have kids: "ir_children t (xe_id v) = news" .
  have "ir_params t = ir_params s" "run_outputs t = run_outputs s"
    by (rule ir_params_cong [OF family_tablesD(1) [OF T]], rule run_outputs_cong [OF family_tablesD(3) [OF T]])
  then have "family_ok H call t (?f v)"
    using fam p xe_staticD(1,2) [OF g] by (simp add: family_ok_def kids)
  from ir_inv_family_step [OF inv v(1) _ R T this] v(2) have "ir_inv H call t" by simp
  moreover have "unfanned t < unfanned s"
  proof -
    have "fans_out s e" if e: "e \<in> set (ir_tops s)" "fans_out t (?f e)" for e
    proof (cases "xe_id e = xe_id v")
      case True
      then show ?thesis using out(1) tops_eq [OF inv e(1) v(1)] by simp
    next
      case False
      then show ?thesis using e(2) family_tablesD(7) [OF T False] by (simp add: fans_out_def)
    qed
    moreover have "\<not> fans_out t (?f v)" using out(2) xe_staticD(1) [OF g] by (auto simp: fans_out_def)
    ultimately have "length (filter (\<lambda>e. fans_out t (?f e)) (ir_tops s)) < unfanned s"
      unfolding unfanned_def using v(1) out(1) by (intro filter_length_less [where v = v]) auto
    then show ?thesis by (simp add: unfanned_def family_rows_tops [OF R] filter_map comp_def)
  qed
  ultimately show ?thesis by (simp add: advances_def)
qed

lemma fresh_rows:
  assumes "ir_inv H call s" "v \<in> set (ir_tops s)" "\<nexists>st. xe_def v = IrStep st"
    and "is_map (xe_def v) \<Longrightarrow> ir_map_of s (xe_id v) = []" "\<not> is_map (xe_def v) \<Longrightarrow> ir_branch_of s (xe_id v) = []"
  shows "ir_children s (xe_id v) = []" "ir_map_of s (xe_id v) = []" "ir_branch_of s (xe_id v) = []"
  using ir_invD(4) [OF assms(1,2)] assms(3-5)
  by (cases "xe_def v"; auto simp: family_ok_def family_def fresh_node_def elim!: branch_familyE map_familyE)+

text \<open>A claimed node waits for its children, and its lease is given up.\<close>

abbreviation awaiting :: "ir_execution \<Rightarrow> ir_execution" where
  "awaiting e \<equiv> e\<lparr>xe_status := XAwaiting, xe_worker := None, xe_lease := None\<rparr>"

definition branch_fanned :: "nat \<Rightarrow> nat \<Rightarrow> ir_step \<Rightarrow> string \<Rightarrow> ir_db \<Rightarrow> ir_db" where
  "branch_fanned rid p st key s = s\<lparr>
     ir_executions_seq := Suc (ir_executions_seq s),
     ir_branch_rows := ir_branch_rows s @ [\<lparr>bn_execution = p, bn_case = key, bn_total = 1, bn_completed = 0\<rparr>],
     ir_executions := sql_update (\<lambda>e. xe_id e = p) awaiting
       (ir_executions s @ [queued_child rid p st (Suc (ir_executions_seq s)) None None])\<rparr>"

lemma branch_fanout_writes:
  "tx_then (ir_insert_execution rid (is_id st) (Some p) None (IrStep st) None XQueued)
    (tx_then (tx_write (\<lambda>s. s\<lparr>ir_branch_rows := ir_branch_rows s @
       [\<lparr>bn_execution = p, bn_case = key, bn_total = 1, bn_completed = 0\<rparr>]\<rparr>))
    (tx_then (ir_await p) (tx_return r))) s = (Inr r, branch_fanned rid p st key s)"
  by (simp add: tx_simps ir_insert_execution_def ir_await_def branch_fanned_def queued_child_def)

lemma branch_fanout_inv:
  assumes inv: "ir_inv H call s" and v: "v \<in> set (ir_tops s)" "xe_status v = XQueued"
    "xe_def v = IrBranch i selector cases"
    and none: "ir_branch_of s (xe_id v) = []"
    and run: "branch_fanout H (ir_claimed w 30 (ir_now s) v) selector cases (claimed_db w s v) = (Inr r, t)"
  shows "ir_inv H call t \<and> advances s t"
proof -
  let ?n = "ir_executions_seq s" and ?g = "\<lambda>e. (ir_claimed w 30 (ir_now s) e)\<lparr>xe_status := XAwaiting, xe_worker := None, xe_lease := None\<rparr>"
  from run obtain params x st where p: "ir_params s (xe_run v) = Some params"
    and x: "ir_resolveBinding H selector (node_context params (run_outputs s (xe_run v))) = Inr x"
      "chosen_step cases (case_key H x cases) = Inr st"
    and t: "t = branch_fanned (xe_run v) (xe_id v) st (case_key H x cases) (claimed_db w s v)"
    by (auto simp: branch_fanout_def tx_bind_Inr tx_lift_apply loadRunContext_Inr Let_def branch_fanout_writes
        simp del: One_nat_def)
  note t = t [unfolded branch_fanned_def claimed_db_simps]
  note D = ir_idsD [OF ir_invD(1) [OF inv]]
  have vn: "xe_id v \<le> ?n" using D(3) [of v] v(1) by (simp add: ir_tops_in)
  have none': "ir_map_of s (xe_id v) = []" "ir_children s (xe_id v) = []"
    by (rule fresh_rows [OF inv v(1)]; simp add: none v(3))+
  show ?thesis
  proof (rule fanout_inv [OF inv v(1,2) none'(2) _ _ _ _ _ _ p])
    show "ir_executions t = map (\<lambda>e. if xe_id e = xe_id v then ?g e else e) (ir_executions s)
        @ [queued_child (xe_run v) (xe_id v) st (Suc ?n) None None]"
      using vn by (simp add: t claimed_db_def sql_update_def queued_child_def)
    show "family_tables v s t"
      using D(4-6) vn by (auto simp: family_tables_def t ir_ckpts_def ir_map_of_def ir_branch_of_def sql_select_append)
        (simp add: sql_select_def)
    have "ir_ckpts t (Suc ?n) = []"
      using D(4) by (fastforce simp: t ir_ckpts_def sql_select_def filter_empty_conv)
    moreover have "ir_branch_of t (xe_id v) =
        [\<lparr>bn_execution = xe_id v, bn_case = case_key H x cases, bn_total = 1, bn_completed = 0\<rparr>]"
      using none by (simp add: t ir_branch_of_def sql_select_append) (simp add: sql_select_def)
    moreover have "ir_map_of t (xe_id v) = []" using none' by (simp add: t ir_map_of_def)
    ultimately show "family H call (node_context params (run_outputs s (xe_run v))) (?g v)
        [queued_child (xe_run v) (xe_id v) st (Suc ?n) None None] (ir_ckpts t) (ir_map_of t (xe_id v)) (ir_branch_of t (xe_id v))"
      using v(3) x
      by (auto simp: family_def branch_family_def queued_child_ok done_count_def)
    show "ir_map_of t (xe_id v) \<noteq> [] \<or> ir_branch_of t (xe_id v) \<noteq> []"
      by (simp add: t ir_branch_of_def sql_select_def)
    show "fans_out s v" using v(3) none none'(1) by (simp add: fans_out_def)
  qed (simp_all add: t queued_child_def)
qed

definition map_children :: "nat \<Rightarrow> nat \<Rightarrow> ir_step \<Rightarrow> nat \<Rightarrow> nat \<Rightarrow> json list \<Rightarrow> ir_execution list" where
  "map_children rid p st n k items = map (\<lambda>(i, x). queued_child rid p st (n + i) (Some i) (Some x)) (enumerate k items)"

lemma insert_children:
  assumes "Suc (ir_executions_seq s) = n + k"
  shows "tx_for (enumerate k items) (\<lambda>(i, x). ir_insert_execution rid (is_id st) (Some p) (Some i) (IrStep st) (Some x) XQueued) s
    = (Inr (), s\<lparr>ir_executions := ir_executions s @ map_children rid p st n k items,
        ir_executions_seq := ir_executions_seq s + length items\<rparr>)"
  using assms
proof (induction items arbitrary: k s)
  case (Cons x items)
  have "ir_insert_execution rid (is_id st) (Some p) (Some k) (IrStep st) (Some x) XQueued s =
      (Inr (), s\<lparr>ir_executions := ir_executions s @ [queued_child rid p st (n + k) (Some k) (Some x)],
        ir_executions_seq := Suc (ir_executions_seq s)\<rparr>)"
    by (simp add: ir_insert_execution_def tx_simps queued_child_def Cons.prems)
  with Cons show ?case by (simp add: tx_simps map_children_def)
qed (simp add: tx_simps map_children_def)

definition map_fanned :: "nat \<Rightarrow> nat \<Rightarrow> ir_step \<Rightarrow> json list \<Rightarrow> ir_db \<Rightarrow> ir_db" where
  "map_fanned rid p st items s = s\<lparr>
     ir_executions_seq := ir_executions_seq s + length items,
     ir_map_rows := ir_map_rows s @ [\<lparr>mn_execution = p, mn_total = length items, mn_completed = 0, mn_source = items\<rparr>],
     ir_executions := sql_update (\<lambda>e. xe_id e = p) awaiting
       (ir_executions s @ map_children rid p st (Suc (ir_executions_seq s)) 0 items)\<rparr>"

lemma map_fanout_writes:
  "tx_then (tx_for (enumerate 0 items) (\<lambda>(i, x).
       ir_insert_execution rid (is_id st) (Some p) (Some i) (IrStep st) (Some x) XQueued))
    (tx_then (tx_write (\<lambda>s. s\<lparr>ir_map_rows := ir_map_rows s @
       [\<lparr>mn_execution = p, mn_total = length items, mn_completed = 0, mn_source = items\<rparr>]\<rparr>))
    (tx_then (ir_await p) (tx_return r))) s = (Inr r, map_fanned rid p st items s)"
  by (simp add: tx_simps insert_children [of _ "Suc (ir_executions_seq s)"] ir_await_def map_fanned_def)

lemma map_items_Inr: "map_items v = Inr items \<longleftrightarrow> v = JArr items"
  by (cases v) (simp_all add: map_items_def)

lemma map_fanout_inv:
  assumes inv: "ir_inv H call s" and v: "v \<in> set (ir_tops s)" "xe_status v = XQueued"
    "xe_def v = IrMap i source body yields"
    and none: "ir_map_of s (xe_id v) = []"
    and run: "map_fanout H (ir_claimed w 30 (ir_now s) v) source body (claimed_db w s v) = (Inr r, t)"
  shows "ir_inv H call t \<and> advances s t"
proof -
  let ?n = "ir_executions_seq s"
  from run obtain params items st where p: "ir_params s (xe_run v) = Some params"
    and x: "ir_resolveBinding H source (node_context params (run_outputs s (xe_run v))) = Inr (JArr items)"
      "one_step body = Inr st"
    and t: "t = map_fanned (xe_run v) (xe_id v) st items (claimed_db w s v)"
    by (auto simp: map_fanout_def tx_bind_Inr tx_lift_apply loadRunContext_Inr map_items_Inr map_fanout_writes)
  note t = t [unfolded map_fanned_def claimed_db_simps]
  let ?news = "map_children (xe_run v) (xe_id v) st (Suc ?n) 0 items"
  note D = ir_idsD [OF ir_invD(1) [OF inv]]
  have vn: "xe_id v \<le> ?n" using D(3) [of v] v(1) by (simp add: ir_tops_in)
  have none': "ir_branch_of s (xe_id v) = []" "ir_children s (xe_id v) = []"
    by (rule fresh_rows [OF inv v(1)]; simp add: none v(3))+
  have news: "c \<in> set ?news \<Longrightarrow> \<exists>i x. c = queued_child (xe_run v) (xe_id v) st (Suc ?n + i) (Some i) (Some x)" for c
    by (auto simp: map_children_def)
  have ids: "map xe_id ?news = [Suc ?n..<Suc (?n + length items)]"
    by (rule nth_equalityI) (simp_all add: map_children_def nth_enumerate_eq del: upt_Suc)
  have ex: "ir_executions t = map (\<lambda>e. if xe_id e = xe_id v then awaiting (ir_claimed w 30 (ir_now s) e) else e) (ir_executions s) @ ?news"
  proof -
    have "sql_update (\<lambda>e. xe_id e = xe_id v) awaiting ?news = ?news"
      using vn news by (intro sql_update_none) fastforce
    then show ?thesis by (simp add: t claimed_db_def sql_update_def)
  qed
  have T: "family_tables v s t"
    using D(4-6) vn by (auto simp: family_tables_def t ir_ckpts_def ir_map_of_def ir_branch_of_def sql_select_append)
      (simp add: sql_select_def)
  have "ir_ckpts t (Suc ?n + j) = []" for j
    using D(4) by (fastforce simp: t ir_ckpts_def sql_select_def filter_empty_conv)
  then have ok: "map_child_ok H call st (ir_ckpts t) c" if "c \<in> set ?news" for c
    using news [OF that] by (auto simp: map_child_ok_def intro!: queued_child_ok)
  have count: "done_count ?news = 0" using news by (intro done_count_queued) fastforce
  have "map_family H call (node_context params (run_outputs s (xe_run v))) (awaiting (ir_claimed w 30 (ir_now s) v)) source body
      ?news (ir_ckpts t) [\<lparr>mn_execution = xe_id v, mn_total = length items, mn_completed = 0, mn_source = items\<rparr>]"
    by (rule map_familyI [OF refl x _ _ ok]) (simp_all add: count, simp add: map_children_def comp_def case_prod_beta)
  moreover have "ir_map_of t (xe_id v) = [\<lparr>mn_execution = xe_id v, mn_total = length items, mn_completed = 0, mn_source = items\<rparr>]"
    using none by (simp add: t ir_map_of_def sql_select_append) (simp add: sql_select_def)
  moreover have "ir_branch_of t (xe_id v) = []" using none'(1) by (simp add: t ir_branch_of_def)
  moreover have "fans_out s v" using v(3) none none'(1) by (simp add: fans_out_def)
  ultimately show ?thesis
    using ids news by (intro fanout_inv [OF inv v(1,2) none'(2) ex _ _ _ _ T p])
      (fastforce simp: t family_def v(3))+
qed

subsection \<open>Children\<close>

definition child_done :: "(ir_execution \<Rightarrow> ir_execution) \<Rightarrow> nat \<Rightarrow> bool \<Rightarrow> nat \<Rightarrow> ir_execution \<Rightarrow> ir_execution" where
  "child_done g i wake p e =
     (if xe_id e = i then g e else if wake \<and> xe_id e = p then e\<lparr>xe_status := XQueued\<rparr> else e)"

lemma child_done_inv:
  assumes inv: "ir_inv H call s" and h: "h \<in> set (ir_tops s)" "xe_status h \<noteq> XDone"
    and v: "v \<in> set (ir_children s (xe_id h))"
    and ex: "ir_executions t = map (child_done g (xe_id v) wake (xe_id h)) (ir_executions s)"
    and g: "xe_static (g v) = xe_static v"
    and seq: "ir_executions_seq t = ir_executions_seq s" and T: "family_tables h s t"
    and p: "ir_params s (xe_run h) = Some params"
    and fam: "family H call (node_context params (run_outputs s (xe_run h)))
      (if wake then h\<lparr>xe_status := XQueued\<rparr> else h) (map (\<lambda>c. if xe_id c = xe_id v then g c else c) (ir_children s (xe_id h)))
      (ir_ckpts t) (ir_map_of t (xe_id h)) (ir_branch_of t (xe_id h))"
    and todo: "xe_status v \<noteq> XDone" "xe_status (g v) = XDone"
    and rows: "ir_map_of t (xe_id h) = [] \<longleftrightarrow> ir_map_of s (xe_id h) = []"
      "ir_branch_of t (xe_id h) = [] \<longleftrightarrow> ir_branch_of s (xe_id h) = []"
  shows "ir_inv H call t \<and> advances s t"
proof -
  let ?f = "child_done g (xe_id v) wake (xe_id h)"
  note uniq = key_uniqueD [OF ir_idsD(1) [OF ir_invD(1) [OF inv]]]
  have vs: "v \<in> set (ir_executions s)" "xe_parent v = Some (xe_id h)" using v by (simp_all add: ir_children_in)
  have hs: "h \<in> set (ir_executions s)" "xe_parent h = None" using h by (simp_all add: ir_tops_in)
  have isv: "e = v" if "e \<in> set (ir_executions s)" "xe_id e = xe_id v" for e using uniq [OF that(1) vs(1) that(2)] .
  have ish: "e = h" if "e \<in> set (ir_executions s)" "xe_id e = xe_id h" for e using uniq [OF that(1) hs(1) that(2)] .
  have ne: "xe_id v \<noteq> xe_id h"
  proof
    assume "xe_id v = xe_id h"
    from isv [OF hs(1) this [symmetric]] vs(2) hs(2) show False by simp
  qed
  have st: "xe_static (?f e) = xe_static e" if "e \<in> set (ir_executions s)" for e
    using g isv [OF that] by (auto simp: child_done_def)
  have R: "family_rows h s t ?f []"
    using st vs(2) by (auto simp: family_rows_def ex seq child_done_def dest: isv)
  have "ir_children t (xe_id h) = map ?f (ir_children s (xe_id h)) @ sql_select (\<lambda>e. xe_parent e = Some (xe_id h)) []"
    unfolding ir_children_def using xe_staticD(4) [OF st]
    by (subst sql_select_map_append [symmetric]) (simp_all add: ex)
  also have "\<dots> = map (\<lambda>c. if xe_id c = xe_id v then g c else c) (ir_children s (xe_id h))"
    using hs(2) by (auto simp: child_done_def ir_children_in sql_select_def dest!: ish)
  finally have kids: "ir_children t (xe_id h) = map (\<lambda>c. if xe_id c = xe_id v then g c else c) (ir_children s (xe_id h))" .
  have "?f h = (if wake then h\<lparr>xe_status := XQueued\<rparr> else h)" using ne by (simp add: child_done_def)
  moreover have "ir_params t = ir_params s" "run_outputs t = run_outputs s"
    by (rule ir_params_cong [OF family_tablesD(1) [OF T]], rule run_outputs_cong [OF family_tablesD(3) [OF T]])
  ultimately have "family_ok H call t (?f h)" using fam p by (simp add: family_ok_def kids split: if_splits)
  from ir_inv_family_step [OF inv h R T this] have "ir_inv H call t" .
  moreover have "xe_status (?f e) = XDone" if e: "e \<in> set (ir_executions s)" "xe_status e = XDone" for e
  proof (cases "xe_id e = xe_id v")
    case True
    then show ?thesis using isv [OF e(1)] todo(2) by (simp add: child_done_def)
  next
    case False
    moreover have "xe_id e \<noteq> xe_id h" using ish [OF e(1)] e(2) h(2) by auto
    ultimately show ?thesis using e(2) by (simp add: child_done_def)
  qed
  then have "undone t < undone s"
    using todo vs(1) by (intro undone_less [OF ex, where v = v]) (auto simp: child_done_def)
  moreover have "unfanned t = unfanned s"
    using st rows family_tablesD(7) [OF T]
    by (intro unfanned_same) (auto simp: family_rows_tops [OF R] ir_tops_in, metis+)
  ultimately show ?thesis by (simp add: advances_def)
qed

text \<open>The rows that a child's step leaves: its own is done, and its checkpoint is the only new one.\<close>

definition step_done :: "string \<Rightarrow> int \<Rightarrow> ir_execution \<Rightarrow> ir_execution" where
  "step_done w n e = (ir_claimed w 30 n e)\<lparr>xe_status := XDone\<rparr>"

lemma step_done_simps [simp]: "xe_static (step_done w n e) = xe_static e" "xe_status (step_done w n e) = XDone"
  by (simp_all add: step_done_def)

lemma child_step_Inr:
  assumes "run_step_of H call (ir_claimed w 30 (ir_now s) v) ctx (claimed_db w s v) = (Inr out, u)"
    "xe_def v = IrStep st" "xe_node v = is_id st"
  shows "call_step H call st ctx = Inr out"
    "u = s\<lparr>ir_checkpoints := ir_checkpoints s @ [\<lparr>ck_execution = xe_id v, ck_step = is_id st, ck_output = out\<rparr>],
       ir_executions := sql_update (\<lambda>e. xe_id e = xe_id v) (step_done w (ir_now s)) (ir_executions s)\<rparr>"
  using assms
  by (auto simp: run_step_of_Inr update_claimed step_done_def claimed_db_def sql_update_def comp_def)

lemma child_ok_step:
  assumes "child_ok P st cks v" "P out"
    and "cks' (xe_id v) = cks (xe_id v) @ [\<lparr>ck_execution = xe_id v, ck_step = is_id st, ck_output = out\<rparr>]"
    and "xe_status v = XQueued"
  shows "child_ok P st cks' (step_done w n v)"
  using assms xe_staticD [OF step_done_simps(1), of w n v] by (auto simp: child_ok_def)

lemma wake_rows:
  assumes "xe_id v \<noteq> p"
  shows "(if wake then sql_update (\<lambda>e. xe_id e = p) (\<lambda>e. e\<lparr>xe_status := XQueued\<rparr>)
        (sql_update (\<lambda>e. xe_id e = xe_id v) (step_done w n) es)
      else sql_update (\<lambda>e. xe_id e = xe_id v) (step_done w n) es)
    = map (child_done (step_done w n) (xe_id v) wake p) es"
  using assms xe_staticD(1) [OF step_done_simps(1), of w n]
  by (auto simp: sql_update_def child_done_def)

lemma child_run:
  assumes "ir_inv H call s" "h \<in> set (ir_tops s)" "v \<in> set (ir_children s (xe_id h))"
  shows "xe_run v = xe_run h" "v \<in> set (ir_executions s)" "xe_id v \<noteq> xe_id h" "xe_id v \<le> ir_executions_seq s"
proof -
  from assms(3) show vs: "v \<in> set (ir_executions s)" by (simp add: ir_children_in)
  obtain e where e: "e \<in> set (ir_tops s)" "xe_id e = xe_id h" "xe_run e = xe_run v"
    using ir_invD(2) [OF assms(1), unfolded children_rooted_def, rule_format, of v "xe_id h"] assms(3)
    by (auto simp: ir_children_in)
  from tops_eq [OF assms(1) e(1) assms(2) e(2)] e(3) show "xe_run v = xe_run h" by simp
  from ir_idsD(3) [OF ir_invD(1) [OF assms(1)] vs] show "xe_id v \<le> ir_executions_seq s" by simp
  show "xe_id v \<noteq> xe_id h"
  proof
    assume "xe_id v = xe_id h"
    from key_uniqueD [OF ir_idsD(1) [OF ir_invD(1) [OF assms(1)]] vs _ this] assms(2,3)
    show False by (simp add: ir_tops_in ir_children_in)
  qed
qed

text \<open>The tables after a child's step and the update of its parent's counter.\<close>

lemma child_tables:
  assumes inv: "ir_inv H call s" and h: "h \<in> set (ir_tops s)" and v: "v \<in> set (ir_children s (xe_id h))"
    and u: "ir_runs t = ir_runs s" "ir_runs_seq t = ir_runs_seq s" "ir_outputs t = ir_outputs s"
      "ir_checkpoints t = ir_checkpoints s @ [\<lparr>ck_execution = xe_id v, ck_step = i, ck_output = out\<rparr>]"
      "ir_map_rows t = sql_update (\<lambda>m. mn_execution m = xe_id h) (mn_completed_update (\<lambda>_. mc)) (ir_map_rows s)
       \<or> ir_map_rows t = ir_map_rows s"
      "ir_branch_rows t = sql_update (\<lambda>b. bn_execution b = xe_id h) (bn_completed_update (\<lambda>_. bc)) (ir_branch_rows s)
       \<or> ir_branch_rows t = ir_branch_rows s"
  shows "family_tables h s t"
    "\<And>j. j \<noteq> xe_id v \<Longrightarrow> ir_ckpts t j = ir_ckpts s j"
    "ir_ckpts t (xe_id v) = ir_ckpts s (xe_id v) @ [\<lparr>ck_execution = xe_id v, ck_step = i, ck_output = out\<rparr>]"
proof -
  note D = ir_idsD [OF ir_invD(1) [OF inv]] and c = child_run [OF inv h v]
  show cks: "\<And>j. j \<noteq> xe_id v \<Longrightarrow> ir_ckpts t j = ir_ckpts s j"
    and "ir_ckpts t (xe_id v) = ir_ckpts s (xe_id v) @ [\<lparr>ck_execution = xe_id v, ck_step = i, ck_output = out\<rparr>]"
    by (simp_all add: ir_ckpts_def u(4) sql_select_def)
  have "ir_map_of t j = ir_map_of s j" "ir_branch_of t j = ir_branch_of s j" if "j \<noteq> xe_id h" for j
    using that u(5,6) by (auto simp: ir_map_of_def ir_branch_of_def sql_select_update_key)
  moreover have "mn_execution m \<le> ir_executions_seq s" if "m \<in> set (ir_map_rows t)" for m
    using that u(5) D(5) D(3) [of h] h by (auto simp: ir_tops_in elim!: sql_update_cases)
  moreover have "bn_execution b \<le> ir_executions_seq s" if "b \<in> set (ir_branch_rows t)" for b
    using that u(6) D(6) D(3) [of h] h by (auto simp: ir_tops_in elim!: sql_update_cases)
  moreover have "ir_ckpts t (xe_id c) = ir_ckpts s (xe_id c)"
    if "c \<in> set (ir_executions s)" "xe_parent c \<noteq> Some (xe_id h)" for c
  proof (rule cks, rule notI)
    assume "xe_id c = xe_id v"
    from key_uniqueD [OF D(1) that(1) c(2) this] that(2) v show False by (simp add: ir_children_in)
  qed
  ultimately show "family_tables h s t"
    using D(4) c(4) by (auto simp: family_tables_def u(1-4))
qed

lemma family_with_children:
  assumes "family_ok H call s h" "ir_children s (xe_id h) \<noteq> []"
  obtains (branch) params i selector cases where "ir_params s (xe_run h) = Some params"
      "xe_def h = IrBranch i selector cases" "ir_map_of s (xe_id h) = []"
      "branch_family H call (node_context params (run_outputs s (xe_run h))) h selector cases
        (ir_children s (xe_id h)) (ir_ckpts s) (ir_branch_of s (xe_id h))"
  | (map) params i source body yields where "ir_params s (xe_run h) = Some params"
      "xe_def h = IrMap i source body yields" "ir_branch_of s (xe_id h) = []"
      "map_family H call (node_context params (run_outputs s (xe_run h))) h source body
        (ir_children s (xe_id h)) (ir_ckpts s) (ir_map_of s (xe_id h))"
proof -
  from assms(1) obtain params where p: "ir_params s (xe_run h) = Some params" and
    "family H call (node_context params (run_outputs s (xe_run h))) h (ir_children s (xe_id h)) (ir_ckpts s)
      (ir_map_of s (xe_id h)) (ir_branch_of s (xe_id h))"
    by (auto simp: family_ok_def)
  with assms(2) show thesis
    by (cases "xe_def h") (auto simp: family_def fresh_node_def intro: branch [OF p] map [OF p])
qed

text \<open>What the two child handlers write.\<close>

lemma map_child_writes:
  assumes run: "runMapChildStep H call (ir_claimed w 30 (ir_now s) v) p (claimed_db w s v) = (Inr (), t)"
    and v: "xe_item v = Some item" "xe_def v = IrStep st" "xe_node v = is_id st" "xe_id v \<noteq> p"
    and rows: "ir_map_of s p = [mn]"
  obtains out where "call_step H call st (item_context item) = Inr out"
    "t = s\<lparr>ir_checkpoints := ir_checkpoints s @ [\<lparr>ck_execution = xe_id v, ck_step = is_id st, ck_output = out\<rparr>],
       ir_map_rows := sql_update (\<lambda>m. mn_execution m = p) (\<lambda>m. m\<lparr>mn_completed := Suc (mn_completed mn)\<rparr>) (ir_map_rows s),
       ir_executions := map (child_done (step_done w (ir_now s)) (xe_id v) (Suc (mn_completed mn) = mn_total mn) p)
         (ir_executions s)\<rparr>"
proof -
  let ?wake = "Suc (mn_completed mn) = mn_total mn"
  from run obtain out u where step: "run_step_of H call (ir_claimed w 30 (ir_now s) v) (item_context item)
      (claimed_db w s v) = (Inr out, u)"
    and rest: "tx_bind (tx_read (\<lambda>s. sql_select (\<lambda>m. mn_execution m = p) (ir_map_rows s))) (\<lambda>rows.
      tx_bind (tx_lift (ir_first rows)) (\<lambda>mn. let completed = mn_completed mn + 1 in
       tx_then (tx_write (\<lambda>s. s\<lparr>ir_map_rows := sql_update (\<lambda>m. mn_execution m = p)
         (\<lambda>m. m\<lparr>mn_completed := completed\<rparr>) (ir_map_rows s)\<rparr>))
        (if completed = mn_total mn then ir_set_status p XQueued else tx_return ()))) u = (Inr (), t)"
    by (auto simp: runMapChildStep_def tx_bind_Inr v(1) item_context_def)
  note out = child_step_Inr [OF step v(2,3)]
  show ?thesis
  proof (rule that [OF out(1)])
    have "sql_select (\<lambda>m. mn_execution m = p) (ir_map_rows s) = [mn]" using rows by (simp add: ir_map_of_def)
    with rest wake_rows [of v p ?wake w "ir_now s" "ir_executions s"] v(4)
    show "t = s\<lparr>ir_checkpoints := ir_checkpoints s @ [\<lparr>ck_execution = xe_id v, ck_step = is_id st, ck_output = out\<rparr>],
        ir_map_rows := sql_update (\<lambda>m. mn_execution m = p) (\<lambda>m. m\<lparr>mn_completed := Suc (mn_completed mn)\<rparr>) (ir_map_rows s),
        ir_executions := map (child_done (step_done w (ir_now s)) (xe_id v) ?wake p) (ir_executions s)\<rparr>"
      by (cases ?wake) (auto simp: out(2) tx_simps ir_first_def ir_set_status_def)
  qed
qed

lemma branch_child_writes:
  assumes run: "runBranchCaseStep H call (ir_claimed w 30 (ir_now s) v) p (claimed_db w s v) = (Inr (), t)"
    and v: "ir_params s (xe_run v) = Some params" "xe_def v = IrStep st" "xe_node v = is_id st" "xe_id v \<noteq> p"
    and rows: "ir_branch_of s p = [bn]" "bn_completed bn = 0" "bn_total bn = 1"
  obtains out where "call_step H call st (node_context params (run_outputs s (xe_run v))) = Inr out"
    "t = s\<lparr>ir_checkpoints := ir_checkpoints s @ [\<lparr>ck_execution = xe_id v, ck_step = is_id st, ck_output = out\<rparr>],
       ir_branch_rows := sql_update (\<lambda>b. bn_execution b = p) (\<lambda>b. b\<lparr>bn_completed := 1\<rparr>) (ir_branch_rows s),
       ir_executions := map (child_done (step_done w (ir_now s)) (xe_id v) True p) (ir_executions s)\<rparr>"
proof -
  from run obtain out u where step: "run_step_of H call (ir_claimed w 30 (ir_now s) v)
      (node_context params (run_outputs s (xe_run v))) (claimed_db w s v) = (Inr out, u)"
    and rest: "tx_bind (tx_read (\<lambda>s. sql_select (\<lambda>b. bn_execution b = p) (ir_branch_rows s))) (\<lambda>rows.
      tx_bind (tx_lift (ir_first rows)) (\<lambda>bn. let completed = bn_completed bn + 1 in
       tx_then (tx_write (\<lambda>s. s\<lparr>ir_branch_rows := sql_update (\<lambda>b. bn_execution b = p)
         (\<lambda>b. b\<lparr>bn_completed := completed\<rparr>) (ir_branch_rows s)\<rparr>))
        (if completed = bn_total bn then ir_set_status p XQueued else tx_return ()))) u = (Inr (), t)"
    using v(1) by (auto simp: runBranchCaseStep_def tx_bind_Inr loadRunContext_Inr)
  note out = child_step_Inr [OF step v(2,3)]
  show ?thesis
  proof (rule that [OF out(1)])
    have "sql_select (\<lambda>b. bn_execution b = p) (ir_branch_rows s) = [bn]" using rows(1) by (simp add: ir_branch_of_def)
    with rest wake_rows [of v p True w "ir_now s" "ir_executions s"] v(4)
    show "t = s\<lparr>ir_checkpoints := ir_checkpoints s @ [\<lparr>ck_execution = xe_id v, ck_step = is_id st, ck_output = out\<rparr>],
        ir_branch_rows := sql_update (\<lambda>b. bn_execution b = p) (\<lambda>b. b\<lparr>bn_completed := 1\<rparr>) (ir_branch_rows s),
        ir_executions := map (child_done (step_done w (ir_now s)) (xe_id v) True p) (ir_executions s)\<rparr>"
      by (simp add: out(2) tx_simps ir_first_def rows(2,3) ir_set_status_def)
  qed
qed

lemma branch_child_inv:
  assumes inv: "ir_inv H call s" and h: "h \<in> set (ir_tops s)" "\<not> is_map (xe_def h)"
    and v: "v \<in> set (ir_children s (xe_id h))" "xe_status v = XQueued"
    and run: "runBranchCaseStep H call (ir_claimed w 30 (ir_now s) v) (xe_id h) (claimed_db w s v) = (Inr (), t)"
  shows "ir_inv H call t \<and> advances s t"
proof -
  note c = child_run [OF inv h(1) v(1)]
  have "ir_children s (xe_id h) \<noteq> []" using v(1) by auto
  from family_with_children [OF ir_invD(4) [OF inv h(1)] this] h(2) obtain params i selector cases
    where p: "ir_params s (xe_run h) = Some params"
    and hd: "xe_def h = IrBranch i selector cases" "ir_map_of s (xe_id h) = []"
    and fam: "branch_family H call (node_context params (run_outputs s (xe_run h))) h selector cases
      (ir_children s (xe_id h)) (ir_ckpts s) (ir_branch_of s (xe_id h))"
    by (metis is_map.simps(1))
  from fam obtain x st bn where x: "ir_branch_of s (xe_id h) = [bn]"
    "ir_resolveBinding H selector (node_context params (run_outputs s (xe_run h))) = Inr x"
    "bn_case bn = case_key H x cases" "chosen_step cases (bn_case bn) = Inr st" "bn_total bn = 1"
    "ir_children s (xe_id h) = [v]"
    "child_ok (\<lambda>out. call_step H call st (node_context params (run_outputs s (xe_run h))) = Inr out) st (ir_ckpts s) v"
    "bn_completed bn = 0" "xe_status h = XAwaiting"
    using v by (elim branch_familyE) (auto simp: done_count_def split: if_splits)
  have def: "xe_def v = IrStep st" "xe_node v = is_id st" using x(7) by (simp_all add: child_ok_def)
  obtain out where out: "call_step H call st (node_context params (run_outputs s (xe_run h))) = Inr out"
    and t: "t = s\<lparr>ir_checkpoints := ir_checkpoints s @ [\<lparr>ck_execution = xe_id v, ck_step = is_id st, ck_output = out\<rparr>],
      ir_branch_rows := sql_update (\<lambda>b. bn_execution b = xe_id h) (\<lambda>b. b\<lparr>bn_completed := 1\<rparr>) (ir_branch_rows s),
      ir_executions := map (child_done (step_done w (ir_now s)) (xe_id v) True (xe_id h)) (ir_executions s)\<rparr>"
    by (rule branch_child_writes [OF run p [folded c(1)] def c(3) x(1,8,5)]) (simp add: c(1))
  have T: "family_tables h s t"
    by (rule child_tables(1) [OF inv h(1) v(1), of t "is_id st" out 0 1]) (simp_all add: t)
  have ok: "child_ok (\<lambda>out. call_step H call st (node_context params (run_outputs s (xe_run h))) = Inr out) st (ir_ckpts t)
      (step_done w (ir_now s) v)"
    using out v(2) by (intro child_ok_step [OF x(7)]) (simp_all add: t ir_ckpts_def sql_select_def)
  have bn: "ir_branch_of t (xe_id h) = [bn\<lparr>bn_completed := 1\<rparr>]"
    using x(1) by (simp add: ir_branch_of_def t sql_select_update_key)
  have "branch_family H call (node_context params (run_outputs s (xe_run h))) (h\<lparr>xe_status := XQueued\<rparr>) selector cases
      [step_done w (ir_now s) v] (ir_ckpts t) (ir_branch_of t (xe_id h))"
    by (rule branch_familyI [OF bn x(2) _ _ _ refl ok]) (simp_all add: x(3-5) done_count_def x(4) [unfolded x(3)])
  then have "family H call (node_context params (run_outputs s (xe_run h))) (h\<lparr>xe_status := XQueued\<rparr>)
      [step_done w (ir_now s) v] (ir_ckpts t) (ir_map_of t (xe_id h)) (ir_branch_of t (xe_id h))"
    using hd by (simp add: family_def t ir_map_of_def)
  moreover have "ir_map_of t (xe_id h) = [] \<longleftrightarrow> ir_map_of s (xe_id h) = []"
    "ir_branch_of t (xe_id h) = [] \<longleftrightarrow> ir_branch_of s (xe_id h) = []"
    using bn x(1) by (simp_all add: t ir_map_of_def)
  ultimately show ?thesis
    by (intro child_done_inv [OF inv h(1) _ v(1) _ _ _ T p, where wake = True and g = "step_done w (ir_now s)"])
      (simp_all add: x(6,9) t v(2))
qed

text \<open>A map's children after one of them is done.\<close>

lemma done_count_step:
  assumes "key_unique xe_id chs" "v \<in> set chs" "xe_status v \<noteq> XDone" "xe_status (g v) = XDone"
  shows "done_count (map (\<lambda>c. if xe_id c = xe_id v then g c else c) chs) = Suc (done_count chs)"
  using assms
proof (induction chs)
  case (Cons c chs)
  show ?case
  proof (cases "c = v")
    case True
    with Cons.prems(1) have "xe_id v \<notin> xe_id ` set chs" by (simp add: key_unique_def)
    then have "xe_id x \<noteq> xe_id v" if "x \<in> set chs" for x using that by (metis imageI)
    then have "map (\<lambda>c. if xe_id c = xe_id v then g c else c) chs = chs" by (simp add: map_idI)
    with True Cons.prems show ?thesis by (simp add: done_count_def)
  next
    case False
    with Cons.prems have "xe_id c \<noteq> xe_id v" by (auto simp: key_unique_def)
    with False Cons show ?thesis by (auto simp: done_count_def key_unique_def)
  qed
qed simp

lemma map_child_step:
  assumes fam: "map_family H call ctx h source body chs cks [mn]" and uniq: "key_unique xe_id chs"
    and v: "v \<in> set chs" "xe_status v = XQueued" "xe_item v = Some item" "one_step body = Inr st"
    and out: "call_step H call st (item_context item) = Inr out"
    and cks: "\<And>j. j \<noteq> xe_id v \<Longrightarrow> cks' j = cks j"
      "cks' (xe_id v) = cks (xe_id v) @ [\<lparr>ck_execution = xe_id v, ck_step = is_id st, ck_output = out\<rparr>]"
  shows "map_family H call ctx (if Suc (mn_completed mn) = mn_total mn then h\<lparr>xe_status := XQueued\<rparr> else h) source body
      (map (\<lambda>c. if xe_id c = xe_id v then step_done w n c else c) chs) cks' [mn\<lparr>mn_completed := Suc (mn_completed mn)\<rparr>]"
proof -
  let ?chs = "map (\<lambda>c. if xe_id c = xe_id v then step_done w n c else c) chs"
  from fam v(4) obtain items where x: "ir_resolveBinding H source ctx = Inr (JArr items)" "mn_total mn = length items"
    "map (\<lambda>c. (xe_index c, xe_item c)) chs = map (\<lambda>(i, x). (Some i, Some x)) (enumerate 0 items)"
    "\<And>c. c \<in> set chs \<Longrightarrow> map_child_ok H call st cks c" "mn_completed mn = done_count chs"
    "xe_status h \<in> (if items \<noteq> [] \<and> done_count chs = length items then {XQueued, XDone} else {XAwaiting})"
    by (elim map_familyE) simp
  have len: "length chs = length items" using arg_cong [OF x(3), of length] by simp
  have notall: "done_count chs \<noteq> length items" using all_done [OF _ v(1)] v(2) len by auto
  have count: "done_count ?chs = Suc (done_count chs)" using uniq v(1,2) by (intro done_count_step) simp_all
  have same: "map (\<lambda>c. (xe_index c, xe_item c)) ?chs = map (\<lambda>c. (xe_index c, xe_item c)) chs"
    by (simp add: xe_staticD(5,7) [OF step_done_simps(1)])
  have "map_child_ok H call st cks' c'" if "c' \<in> set ?chs" for c'
  proof -
    from that obtain c where c: "c \<in> set chs" "c' = (if xe_id c = xe_id v then step_done w n c else c)" by auto
    show ?thesis
    proof (cases "xe_id c = xe_id v")
      case True
      then have "c = v" by (rule key_uniqueD [OF uniq c(1) v(1)])
      with c(2) have "c' = step_done w n v" by simp
      moreover have "child_ok (\<lambda>out. \<exists>item. xe_item v = Some item \<and> call_step H call st (item_context item) = Inr out)
          st cks' (step_done w n v)"
        using x(4) [OF v(1)] out v(2,3) cks(2) by (intro child_ok_step) (auto simp: map_child_ok_def)
      ultimately show ?thesis by (simp add: map_child_ok_def xe_staticD(7) [OF step_done_simps(1)])
    next
      case False
      with c(2) x(4) [OF c(1)] cks(1) [OF False] show ?thesis by (simp add: map_child_ok_def child_ok_def)
    qed
  qed
  moreover have "items \<noteq> []" using v(1) len by auto
  ultimately show ?thesis
    using v(4) x(1,2,5,6) notall
    by (intro map_familyI [OF refl x(1) v(4) _ trans [OF same x(3)]]) (auto simp: count)
qed

lemma map_child_facts:
  assumes inv: "ir_inv H call s" and h: "h \<in> set (ir_tops s)" "is_map (xe_def h)"
    and v: "v \<in> set (ir_children s (xe_id h))" "xe_status v = XQueued"
  obtains params i source body yields st mn item where
    "ir_params s (xe_run h) = Some params" "xe_def h = IrMap i source body yields" "ir_branch_of s (xe_id h) = []"
    "map_family H call (node_context params (run_outputs s (xe_run h))) h source body
      (ir_children s (xe_id h)) (ir_ckpts s) [mn]"
    "ir_map_of s (xe_id h) = [mn]" "one_step body = Inr st" "xe_item v = Some item"
    "xe_def v = IrStep st" "xe_node v = is_id st" "xe_status h \<noteq> XDone"
proof -
  have "ir_children s (xe_id h) \<noteq> []" using v(1) by auto
  from family_with_children [OF ir_invD(4) [OF inv h(1)] this] h(2) obtain params i source body yields
    where p: "ir_params s (xe_run h) = Some params"
    and hd: "xe_def h = IrMap i source body yields" "ir_branch_of s (xe_id h) = []"
    and fam: "map_family H call (node_context params (run_outputs s (xe_run h))) h source body
      (ir_children s (xe_id h)) (ir_ckpts s) (ir_map_of s (xe_id h))"
    by (metis is_map.simps(3))
  from fam obtain items st mn where x: "ir_map_of s (xe_id h) = [mn]" "one_step body = Inr st"
    "map (\<lambda>c. (xe_index c, xe_item c)) (ir_children s (xe_id h)) = map (\<lambda>(i, x). (Some i, Some x)) (enumerate 0 items)"
    "map_child_ok H call st (ir_ckpts s) v"
    "xe_status h \<in> (if items \<noteq> [] \<and> done_count (ir_children s (xe_id h)) = length items then {XQueued, XDone} else {XAwaiting})"
    using v(1) by (elim map_familyE) blast
  have "(xe_index v, xe_item v) \<in> set (map (\<lambda>(i, x). (Some i, Some x)) (enumerate 0 items))"
    using v(1) unfolding x(3) [symmetric] by force
  then obtain item where item: "xe_item v = Some item" by auto
  have "xe_status h \<noteq> XDone"
  proof
    assume "xe_status h = XDone"
    with x(5) have "done_count (ir_children s (xe_id h)) = length items" by (auto split: if_splits)
    with arg_cong [OF x(3), of length] all_done [OF _ v(1)] v(2) show False by simp
  qed
  with x(4) show thesis
    by (intro that [OF p hd fam [unfolded x(1)] x(1,2) item]) (simp_all add: map_child_ok_def child_ok_def)
qed

lemma map_child_inv:
  assumes inv: "ir_inv H call s" and h: "h \<in> set (ir_tops s)" "is_map (xe_def h)"
    and v: "v \<in> set (ir_children s (xe_id h))" "xe_status v = XQueued"
    and run: "runMapChildStep H call (ir_claimed w 30 (ir_now s) v) (xe_id h) (claimed_db w s v) = (Inr (), t)"
  shows "ir_inv H call t \<and> advances s t"
proof -
  note c = child_run [OF inv h(1) v(1)]
  from inv h v obtain params i source body yields st mn item where
    p: "ir_params s (xe_run h) = Some params"
    and hd: "xe_def h = IrMap i source body yields" "ir_branch_of s (xe_id h) = []"
    and fam: "map_family H call (node_context params (run_outputs s (xe_run h))) h source body
      (ir_children s (xe_id h)) (ir_ckpts s) [mn]"
    and x: "ir_map_of s (xe_id h) = [mn]" "one_step body = Inr st" and item: "xe_item v = Some item"
    and def: "xe_def v = IrStep st" "xe_node v = is_id st" and todo: "xe_status h \<noteq> XDone"
    by (rule map_child_facts)
  let ?wake = "Suc (mn_completed mn) = mn_total mn"
  obtain out where out: "call_step H call st (item_context item) = Inr out"
    and t: "t = s\<lparr>ir_checkpoints := ir_checkpoints s @ [\<lparr>ck_execution = xe_id v, ck_step = is_id st, ck_output = out\<rparr>],
      ir_map_rows := sql_update (\<lambda>m. mn_execution m = xe_id h) (\<lambda>m. m\<lparr>mn_completed := Suc (mn_completed mn)\<rparr>) (ir_map_rows s),
      ir_executions := map (child_done (step_done w (ir_now s)) (xe_id v) ?wake (xe_id h)) (ir_executions s)\<rparr>"
    by (rule map_child_writes [OF run item def c(3) x(1)])
  note T = child_tables [OF inv h(1) v(1), of t "is_id st" out "Suc (mn_completed mn)" 0]
  have tabs: "family_tables h s t" by (rule T(1)) (simp_all add: t)
  have mn: "ir_map_of t (xe_id h) = [mn\<lparr>mn_completed := Suc (mn_completed mn)\<rparr>]"
    using x(1) by (simp add: ir_map_of_def t sql_select_update_key)
  have uniq: "key_unique xe_id (ir_children s (xe_id h))"
    using ir_idsD(1) [OF ir_invD(1) [OF inv]] by (simp add: ir_children_def key_unique_def sql_select_def distinct_map_filter)
  have "map_family H call (node_context params (run_outputs s (xe_run h))) (if ?wake then h\<lparr>xe_status := XQueued\<rparr> else h)
      source body (map (\<lambda>c. if xe_id c = xe_id v then step_done w (ir_now s) c else c) (ir_children s (xe_id h)))
      (ir_ckpts t) (ir_map_of t (xe_id h))"
    unfolding mn using out
    by (intro map_child_step [OF fam uniq v item x(2)]) (simp_all add: t ir_ckpts_def sql_select_def)
  then have "family H call (node_context params (run_outputs s (xe_run h))) (if ?wake then h\<lparr>xe_status := XQueued\<rparr> else h)
      (map (\<lambda>c. if xe_id c = xe_id v then step_done w (ir_now s) c else c) (ir_children s (xe_id h)))
      (ir_ckpts t) (ir_map_of t (xe_id h)) (ir_branch_of t (xe_id h))"
    using hd by (simp add: family_def t ir_branch_of_def split: if_splits)
  moreover note todo
  moreover have "ir_map_of t (xe_id h) = [] \<longleftrightarrow> ir_map_of s (xe_id h) = []"
    "ir_branch_of t (xe_id h) = [] \<longleftrightarrow> ir_branch_of s (xe_id h) = []"
    using mn x(1) by (simp_all add: t ir_branch_of_def)
  ultimately show ?thesis
    by (intro child_done_inv [OF inv h(1) _ v(1) _ _ _ tabs p, where wake = ?wake and g = "step_done w (ir_now s)"])
      (simp_all add: t v(2))
qed

end
