(* ===== verification/Ir_Reachable.thy ===== *)
theory Ir_Reachable
  imports Ir_Handlers
begin

text \<open>
  The databases that submissions and polls of the prototype interpreter reach, in any order, by
  any number of workers, with failing connections and throwing steps: the invariant holds in all
  of them, a poll leaves the documents of the runs alone, and a committed poll applies one of the
  handlers to the execution it claimed.
\<close>

subsection \<open>A poll\<close>

lemma ir_dispatch_inv:
  assumes inv: "ir_inv H call s" and v: "v \<in> set (ir_executions s)" "xe_status v = XQueued"
    and run: "ir_dispatch H call (ir_claimed w 30 (ir_now s) v) spec (claimed_db w s v) = (Inr r, t)"
  shows "ir_inv H call t \<and> advances s t"
proof (cases "xe_parent v")
  case None
  with v(1) have top: "v \<in> set (ir_tops s)" by (simp add: ir_tops_in)
  show ?thesis
  proof (cases "xe_def v")
    case (IrStep st)
    with run None show ?thesis by (auto simp: ir_dispatch_def tx_Inr dest: plain_step_inv [OF inv top v(2) IrStep])
  next
    case (IrBranch i selector cases)
    with run None have "runBranchNode H (ir_claimed w 30 (ir_now s) v) selector cases spec (claimed_db w s v) = (Inr r, t)"
      by (simp add: ir_dispatch_def)
    then show ?thesis
      using branch_join_inv [OF inv top v(2) IrBranch] branch_fanout_inv [OF inv top v(2) IrBranch]
      by (auto simp: runBranchNode_def tx_bind_Inr tx_read_apply ir_branch_of_def split: option.splits)
  next
    case (IrMap i source body yields)
    with run None have "runMapNode H (ir_claimed w 30 (ir_now s) v) source body yields spec (claimed_db w s v) = (Inr r, t)"
      by (simp add: ir_dispatch_def)
    then show ?thesis
      using map_join_inv [OF inv top v(2) IrMap] map_fanout_inv [OF inv top v(2) IrMap]
      by (auto simp: runMapNode_def tx_bind_Inr tx_read_apply ir_map_of_def split: if_splits)
  qed
next
  case (Some p)
  with ir_invD(2) [OF inv, unfolded children_rooted_def, rule_format, OF v(1)] obtain h where
    h: "h \<in> set (ir_tops s)" "xe_id h = p" by blast
  have kid: "v \<in> set (ir_children s (xe_id h))" using v(1) Some h(2) by (simp add: ir_children_in)
  note uniq = ir_idsD(1) [OF ir_invD(1) [OF inv]]
  have "first_row (sql_select (\<lambda>e. xe_id e = p) (ir_executions (claimed_db w s v))) = Some h"
    using first_row_select_unique [OF uniq, of h "\<lambda>e. xe_id e = p"] child_run(3) [OF inv h(1) kid] h
    by (simp add: claimed_db_def first_row_select_update ir_tops_in)
  with run Some h(2) have "(if is_map (xe_def h) then runMapChildStep H call (ir_claimed w 30 (ir_now s) v) (xe_id h)
      else runBranchCaseStep H call (ir_claimed w 30 (ir_now s) v) (xe_id h)) (claimed_db w s v) = (Inr (), t)"
    by (auto simp: ir_dispatch_def tx_Inr ir_first_Inr)
  then show ?thesis
    using map_child_inv [OF inv h(1) _ kid v(2)] branch_child_inv [OF inv h(1) _ kid v(2)] by (simp split: if_splits)
qed

text \<open>A poll that commits leaves the database alone or has dispatched the execution it claimed.\<close>

lemma process_body_Inr:
  assumes "ir_inv H call s" "process_body H call w spec s = (Inr r, t)"
  obtains (idle) "r = None" "t = s"
    | (claimed) v result where "v \<in> set (ir_executions s)" "xe_status v = XQueued"
        "r = Some (ir_claimed w 30 (ir_now s) v, result)"
        "ir_dispatch H call (ir_claimed w 30 (ir_now s) v) spec (claimed_db w s v) = (Inr result, t)"
proof -
  from assms(2) obtain c u where c: "ir_claim_execution w 30 s = (Inr c, u)"
    "(case c of None \<Rightarrow> tx_return None
      | Some row \<Rightarrow> tx_bind (ir_dispatch H call row spec) (\<lambda>result. tx_return (Some (row, result)))) u = (Inr r, t)"
    by (auto simp: process_body_def tx_bind_Inr)
  show thesis
  proof (cases c)
    case None
    with c idle show thesis by (auto simp: ir_claim_execution_def tx_simps split: option.splits)
  next
    case (Some row)
    with ir_claim_Inr [OF assms(1)] c(1) obtain v where v: "v \<in> set (ir_executions s)" "xe_status v = XQueued"
      "row = ir_claimed w 30 (ir_now s) v" "u = claimed_db w s v" by blast
    with c(2) Some show thesis by (auto simp: tx_bind_Inr tx_return_apply intro: claimed [OF v(1,2)])
  qed
qed

subsection \<open>What a poll never changes\<close>

text \<open>
  The documents and parameters of the runs, and their sequence; the sequence of executions only
  grows. This holds of every poll, also of one that throws.
\<close>

definition polled :: "ir_db \<Rightarrow> ir_db \<Rightarrow> bool" where
  "polled s t \<longleftrightarrow> ir_runs_seq t = ir_runs_seq s \<and> ir_executions_seq s \<le> ir_executions_seq t
     \<and> map run_key (ir_runs t) = map run_key (ir_runs s)
     \<and> map xe_static (ir_tops t) = map xe_static (ir_tops s)"

interpretation pl: tx_frame polled
  by unfold_locales (auto simp: polled_def)

lemma polled_execution_update:
  assumes "\<And>e. xe_static (f e) = xe_static e"
  shows "polled s (s\<lparr>ir_executions := sql_update p f (ir_executions s)\<rparr>)"
  by (simp add: polled_def ir_tops_def tops_update assms)

lemma polled_tables:
  "polled s (s\<lparr>ir_checkpoints := cs\<rparr>)" "polled s (s\<lparr>ir_map_rows := ms\<rparr>)"
  "polled s (s\<lparr>ir_branch_rows := bs\<rparr>)" "polled s (s\<lparr>ir_outputs := os\<rparr>)"
  by (simp_all add: polled_def ir_tops_def)

lemma polled_run_update: "polled s (s\<lparr>ir_runs := sql_update p (\<lambda>r. r\<lparr>ir_run_status := x, ir_run_outputs := y\<rparr>) (ir_runs s)\<rparr>)"
  by (simp add: polled_def ir_tops_def map_sql_update run_key_def)

lemma polled_child_insert: "pl.keeps (ir_insert_execution rid nid (Some p) index nd item st)"
  unfolding ir_insert_execution_def by (rule pl.keeps_write) (simp add: polled_def ir_tops_def sql_select_def)

lemma keeps_checkpoint: "pl.keeps (ir_insert_checkpoint i sid out)"
  by rule (simp add: ir_insert_checkpoint_def polled_tables pl.rel_refl)

lemma keeps_claim: "pl.keeps (ir_claim_execution w lease)"
  by rule (simp add: ir_claim_execution_def polled_execution_update pl.rel_refl split: option.split)

lemmas keeps_ir = pl.keeps_rules polled_child_insert keeps_checkpoint keeps_claim

lemma keeps_status: "pl.keeps (ir_set_status i st)" "pl.keeps (ir_await i)"
  unfolding ir_set_status_def ir_await_def by (rule pl.keeps_write, simp add: polled_execution_update)+

lemma keeps_context: "pl.keeps (loadRunContext rid)"
  unfolding loadRunContext_def ir_run_row_def by (intro keeps_ir)

lemma keeps_promote: "pl.keeps (ir_promoteReadyNodes rid)"
  unfolding ir_promoteReadyNodes_def by (auto intro!: keeps_ir keeps_status)

lemma keeps_finish: "pl.keeps (finishTopLevelNode H rid nid out spec)"
  unfolding finishTopLevelNode_def maybeCompleteRun_def ir_run_row_def ir_upsert_output_def Let_def
  by (auto intro!: keeps_ir keeps_promote pl.keeps_write polled_tables polled_run_update)

lemma keeps_step: "pl.keeps (run_step_of H call row ctx)"
  unfolding run_step_of_def by (intro keeps_ir keeps_status)

lemmas keeps_parts = keeps_ir keeps_status keeps_context keeps_finish keeps_step
  pl.keeps_write polled_tables

lemma keeps_dispatch: "pl.keeps (ir_dispatch H call row spec)"
proof -
  have "pl.keeps (runPlainStep H call row spec)"
    unfolding runPlainStep_def by (intro keeps_parts)
  moreover have "pl.keeps (runMapChildStep H call row p)" "pl.keeps (runBranchCaseStep H call row p)" for p
    unfolding runMapChildStep_def runBranchCaseStep_def Let_def by (auto intro!: keeps_parts)
  moreover have "pl.keeps (runBranchNode H row selector cases spec)" for selector cases
    unfolding runBranchNode_def branch_fanout_def branch_join_def Let_def
    by (auto intro!: keeps_parts split: option.split prod.split)
  moreover have "pl.keeps (runMapNode H row source body yields spec)" for source body yields
    unfolding runMapNode_def map_fanout_def map_join_def by (auto intro!: keeps_parts split: prod.split)
  ultimately show ?thesis
    unfolding ir_dispatch_def by (auto intro!: keeps_parts split: option.split ir_node.split)
qed

lemma keeps_process: "pl.keeps (process_body H call w spec)"
  unfolding process_body_def by (auto intro!: keeps_ir keeps_dispatch split: option.split)

subsection \<open>A submission\<close>

definition node_row :: "nat \<Rightarrow> nat \<Rightarrow> ir_node \<Rightarrow> ir_execution" where
  "node_row rid i nd =
     \<lparr>xe_id = i, xe_run = rid, xe_node = ir_id nd, xe_parent = None, xe_index = None, xe_def = nd, xe_item = None,
       xe_status = (if length (externalDepsOf nd) = 0 then XQueued else XBlocked),
       xe_worker = None, xe_lease = None, xe_attempts = 0\<rparr>"

lemma node_row_simps [simp]:
  "xe_id (node_row rid i nd) = i" "xe_run (node_row rid i nd) = rid" "xe_node (node_row rid i nd) = ir_id nd"
  "xe_parent (node_row rid i nd) = None" "xe_def (node_row rid i nd) = nd"
  "xe_status (node_row rid i nd) \<in> {XBlocked, XQueued}"
  by (simp_all add: node_row_def)

definition node_rows :: "nat \<Rightarrow> nat \<Rightarrow> nat \<Rightarrow> ir_node list \<Rightarrow> ir_execution list" where
  "node_rows rid n k nodes = map (\<lambda>(i, nd). node_row rid (n + i) nd) (enumerate k nodes)"

lemma node_rows_columns:
  "map xe_id (node_rows rid n 0 nodes) = [n..<n + length nodes]"
  "map xe_node (node_rows rid n 0 nodes) = map ir_id nodes" "map xe_def (node_rows rid n 0 nodes) = nodes"
  by (rule nth_equalityI; simp add: node_rows_def nth_enumerate_eq)+

lemma node_rows_in: "e \<in> set (node_rows rid n k nodes) \<Longrightarrow> \<exists>i nd. e = node_row rid (n + i) nd"
  by (auto simp: node_rows_def)

lemma insert_nodes:
  assumes "Suc (ir_executions_seq s) = n + k"
  shows "tx_for nodes (\<lambda>node. ir_insert_execution rid (ir_id node) None None node None
      (if length (externalDepsOf node) = 0 then XQueued else XBlocked)) s
    = (Inr (), s\<lparr>ir_executions := ir_executions s @ node_rows rid n k nodes,
        ir_executions_seq := ir_executions_seq s + length nodes\<rparr>)"
  using assms
proof (induction nodes arbitrary: k s)
  case (Cons node nodes)
  have "ir_insert_execution rid (ir_id node) None None node None
      (if length (externalDepsOf node) = 0 then XQueued else XBlocked) s =
      (Inr (), s\<lparr>ir_executions := ir_executions s @ [node_row rid (n + k) node],
        ir_executions_seq := Suc (ir_executions_seq s)\<rparr>)"
    by (simp add: ir_insert_execution_def tx_simps node_row_def Cons.prems)
  with Cons show ?case by (simp add: tx_simps node_rows_def)
qed (simp add: tx_simps node_rows_def)

definition submitted :: "ir_spec \<Rightarrow> js_object \<Rightarrow> ir_db \<Rightarrow> ir_db" where
  "submitted spec params s = s\<lparr>ir_runs := ir_runs s @
       [\<lparr>ir_run_id = Suc (ir_runs_seq s), ir_run_name = iw_name spec, ir_run_params = params,
         ir_run_status = IrRunning, ir_run_outputs = None\<rparr>], ir_runs_seq := Suc (ir_runs_seq s),
     ir_executions := ir_executions s @ node_rows (Suc (ir_runs_seq s)) (Suc (ir_executions_seq s)) 0 (iw_nodes spec),
     ir_executions_seq := ir_executions_seq s + length (iw_nodes spec)\<rparr>"

lemma ir_submit_body_eq: "ir_submit_body spec params s = (Inr (Suc (ir_runs_seq s)), submitted spec params s)"
  by (simp add: ir_submit_body_def tx_simps Let_def insert_nodes [of _ "Suc (ir_executions_seq s)", unfolded length_0_conv]
      submitted_def)

text \<open>The invariant depends on the tables, and on the sequences only from above.\<close>

lemma ir_inv_frame:
  assumes "ir_inv H call s" "ir_runs t = ir_runs s" "ir_outputs t = ir_outputs s" "ir_executions t = ir_executions s"
    "ir_checkpoints t = ir_checkpoints s" "ir_map_rows t = ir_map_rows s" "ir_branch_rows t = ir_branch_rows s"
    and seq: "ir_runs_seq s \<le> ir_runs_seq t" "ir_executions_seq s \<le> ir_executions_seq t"
  shows "ir_inv H call t"
proof -
  have "ir_tops t = ir_tops s" "ir_children t = ir_children s" "ir_ckpts t = ir_ckpts s" "ir_map_of t = ir_map_of s"
    "ir_branch_of t = ir_branch_of s" "ir_params t = ir_params s" "run_outputs t = run_outputs s"
    by (simp_all add: ir_tops_def ir_children_def ir_ckpts_def ir_map_of_def ir_branch_of_def ir_params_def
        run_outputs_def fun_eq_iff assms(2-7))
  then have "family_ok H call t = family_ok H call s" "output_ok H call t = output_ok H call s"
    "children_rooted t = children_rooted s"
    by (simp_all add: family_ok_def [abs_def] output_ok_def [abs_def] children_rooted_def assms(4))
  moreover have "ir_ids t"
    using ir_idsD [OF ir_invD(1) [OF assms(1)]] seq unfolding ir_ids_def assms(2-7)
    by (blast intro: order_trans)
  ultimately show ?thesis
    using assms(1) \<open>ir_tops t = ir_tops s\<close> by (simp add: ir_inv_def assms(3))
qed

lemma submitted_tops:
  "ir_tops (submitted spec params s) =
     ir_tops s @ node_rows (Suc (ir_runs_seq s)) (Suc (ir_executions_seq s)) 0 (iw_nodes spec)"
  using node_rows_in by (fastforce simp: submitted_def ir_tops_def sql_select_append sql_select_def filter_id_conv)

lemma submitted_params:
  assumes "ir_ids s"
  shows "ir_params (submitted spec params s) r =
    (if r = Suc (ir_runs_seq s) then Some params else ir_params s r)"
proof -
  have "sql_select (\<lambda>x. ir_run_id x = Suc (ir_runs_seq s)) (ir_runs s) = []"
    using ir_idsD(7) [OF assms] by (fastforce simp: sql_select_def filter_empty_conv)
  then show ?thesis
    by (simp add: ir_params_def submitted_def sql_select_append) (simp add: sql_select_def)
qed

lemma ir_ids_submitted:
  assumes "ir_ids s"
  shows "ir_ids (submitted spec params s)"
proof -
  note D = ir_idsD [OF assms]
  let ?new = "node_rows (Suc (ir_runs_seq s)) (Suc (ir_executions_seq s)) 0 (iw_nodes spec)"
  have new: "ir_executions_seq s < xe_id e \<and> xe_id e \<le> ir_executions_seq s + length (iw_nodes spec)
      \<and> xe_run e = Suc (ir_runs_seq s)" if "e \<in> set ?new" for e
  proof -
    have "xe_id e \<in> set (map xe_id ?new)" using that by simp
    with node_rows_in [OF that] show ?thesis by (auto simp: node_rows_columns)
  qed
  have "key_unique xe_id (ir_executions s @ ?new)"
    using D(1,3) unfolding key_unique_def map_append node_rows_columns by fastforce
  moreover have "xe_id e \<le> ir_executions_seq s + length (iw_nodes spec) \<and> xe_run e \<le> Suc (ir_runs_seq s)"
    if "e \<in> set (ir_executions s @ ?new)" for e
    using that D(3) new by (fastforce simp: le_SucI trans_le_add1)
  moreover have "key_unique ir_run_id (ir_runs s @ [r])" if "ir_run_id r = Suc (ir_runs_seq s)" for r
    using D(2,7) that by (fastforce simp: key_unique_snoc)
  ultimately show ?thesis
    using D(4-8) by (auto simp: ir_ids_def submitted_def intro: trans_le_add1 le_SucI)
qed

lemma node_rows_family_ok:
  assumes inv: "ir_inv H call s" and e: "e \<in> set (node_rows (Suc (ir_runs_seq s)) (Suc (ir_executions_seq s)) 0 (iw_nodes spec))"
    and kids: "ir_children (submitted spec params s) = ir_children s"
    and same: "ir_ckpts (submitted spec params s) = ir_ckpts s" "ir_map_of (submitted spec params s) = ir_map_of s"
      "ir_branch_of (submitted spec params s) = ir_branch_of s"
  shows "family_ok H call (submitted spec params s) e \<and> xe_node e = ir_id (xe_def e)"
proof -
  note I = ir_invD [OF inv] and D = ir_idsD [OF ir_invD(1) [OF inv]]
  note par = submitted_params [OF I(1), of spec params]
  have "family_ok H call (submitted spec params s) (node_row (Suc (ir_runs_seq s)) i nd)"
    if i: "ir_executions_seq s < i" for i nd
  proof -
    have "ir_children s i = []"
      using I(2) D(3) i by (fastforce simp: children_rooted_def ir_children_def sql_select_def filter_empty_conv ir_tops_in)
    moreover have "ir_map_of s i = []" "ir_branch_of s i = []"
      using D(5,6) i by (fastforce simp: ir_map_of_def ir_branch_of_def sql_select_def filter_empty_conv)+
    ultimately show ?thesis
      using node_row_simps(6) [of "Suc (ir_runs_seq s)" i nd]
      by (auto simp: family_ok_def par kids same family_def fresh_node_def split: ir_node.splits)
  qed
  then show ?thesis using node_rows_in [OF e] by auto
qed

lemma node_keys_submitted:
  assumes inv: "ir_inv H call s" and dist: "distinct (map ir_id (iw_nodes spec))"
  shows "key_unique node_key
    (ir_tops s @ node_rows (Suc (ir_runs_seq s)) (Suc (ir_executions_seq s)) 0 (iw_nodes spec))"
proof -
  let ?new = "node_rows (Suc (ir_runs_seq s)) (Suc (ir_executions_seq s)) 0 (iw_nodes spec)"
  note D = ir_idsD [OF ir_invD(1) [OF inv]]
  have eq: "map node_key ?new = map (Pair (Suc (ir_runs_seq s))) (map xe_node ?new)"
    using node_rows_in by (fastforce simp: node_key_def)
  have new: "distinct (map node_key ?new)"
    unfolding eq using dist by (simp add: node_rows_columns distinct_map inj_on_def)
  have "k \<notin> set (map node_key ?new)" if "k \<in> set (map node_key (ir_tops s))" for k
    using that D(3) node_rows_in by (fastforce simp: node_key_def ir_tops_in)
  then have "set (map node_key (ir_tops s)) \<inter> set (map node_key ?new) = {}" by blast
  with ir_invD(3) [OF inv] new show ?thesis by (simp only: key_unique_def map_append distinct_append)
qed

lemma ir_inv_submitted:
  assumes inv: "ir_inv H call s" and dist: "distinct (map ir_id (iw_nodes spec))"
  shows "ir_inv H call (submitted spec params s)"
proof -
  let ?t = "submitted spec params s"
  let ?new = "node_rows (Suc (ir_runs_seq s)) (Suc (ir_executions_seq s)) 0 (iw_nodes spec)"
  note I = ir_invD [OF inv] and D = ir_idsD [OF ir_invD(1) [OF inv]]
  note par = submitted_params [OF I(1), of spec params]
  have ex: "ir_executions ?t = ir_executions s @ ?new" by (simp add: submitted_def)
  have out: "ir_outputs ?t = ir_outputs s" "run_outputs ?t = run_outputs s"
    by (simp_all add: submitted_def run_outputs_def fun_eq_iff)
  have same: "ir_ckpts ?t = ir_ckpts s" "ir_map_of ?t = ir_map_of s" "ir_branch_of ?t = ir_branch_of s"
    by (simp_all add: submitted_def ir_ckpts_def ir_map_of_def ir_branch_of_def fun_eq_iff)
  have kids: "ir_children ?t = ir_children s"
    using node_rows_in by (fastforce simp: fun_eq_iff ir_children_def ex sql_select_append sql_select_def filter_empty_conv)
  have old: "family_ok H call ?t e \<and> xe_node e = ir_id (xe_def e)" if e: "e \<in> set (ir_tops s)" for e
    using I(4,5) [OF e] D(3) [of e] e by (auto simp: family_ok_def par out kids same ir_tops_in)
  have new: "family_ok H call ?t e \<and> xe_node e = ir_id (xe_def e)" if "e \<in> set ?new" for e
    by (rule node_rows_family_ok [OF inv that kids same])
  have "output_ok H call ?t o'" if o': "o' \<in> set (ir_outputs s)" for o'
    using I(7) [OF o'] D(8) [OF o'] by (auto simp: output_ok_def par out submitted_tops)
  moreover have "children_rooted ?t"
    using I(2) node_rows_in unfolding children_rooted_def ex submitted_tops by fastforce
  moreover note node_keys_submitted [OF inv dist]
  ultimately show ?thesis
    using I(6) ir_ids_submitted [OF I(1)] old new
    by (simp add: ir_inv_def out submitted_tops) (metis Un_iff)
qed

end
