(* ===== verification/Ir_Properties.thy ===== *)
theory Ir_Properties
  imports Ir_Reachable
begin

text \<open>
  Histories of the prototype interpreter's database and what holds in all of them: the outputs
  recorded for a run are those of the reference interpreter on the run's document, and a map over
  an empty array never finishes.
\<close>

subsection \<open>Histories\<close>

text \<open>
  A submission of a document whose node ids are distinct, a poll by some worker with some
  connection, or what other sessions do: time passes, and rows get locked and unlocked.
\<close>

inductive ir_step :: "js_host \<Rightarrow> ir_functions \<Rightarrow> ir_db \<Rightarrow> ir_db \<Rightarrow> bool" for H call where
  submit: "distinct (map ir_id (iw_nodes spec)) \<Longrightarrow> ir_step H call s (snd (ir_submitRun conn spec params s))"
| poll: "ir_step H call s (snd (ir_processOne H call conn w spec s))"
| elsewhere: "ir_step H call s (s\<lparr>ir_locked := rows, ir_now := n\<rparr>)"

definition ir_empty :: ir_db where
  "ir_empty = \<lparr>ir_runs = [], ir_outputs = [], ir_executions = [], ir_checkpoints = [], ir_map_rows = [],
     ir_branch_rows = [], ir_runs_seq = 0, ir_executions_seq = 0, ir_locked = [], ir_now = 0\<rparr>"

definition ir_reachable :: "js_host \<Rightarrow> ir_functions \<Rightarrow> ir_db \<Rightarrow> bool" where
  "ir_reachable H call = (ir_step H call)\<^sup>*\<^sup>* ir_empty"

text \<open>The nodes of a run, in the order of its document.\<close>

definition run_defs :: "ir_db \<Rightarrow> nat \<Rightarrow> ir_node list" where
  "run_defs s rid = map xe_def (sql_select (\<lambda>e. xe_run e = rid) (ir_tops s))"

definition run_kept :: "nat \<Rightarrow> ir_db \<Rightarrow> ir_db \<Rightarrow> bool" where
  "run_kept rid s t \<longleftrightarrow> rid \<le> ir_runs_seq t \<and> ir_params t rid = ir_params s rid \<and> run_defs t rid = run_defs s rid"

lemma run_kept_refl: "rid \<le> ir_runs_seq s \<Longrightarrow> run_kept rid s s"
  by (simp add: run_kept_def)

lemma polled_run_kept:
  assumes "polled s t" "rid \<le> ir_runs_seq s"
  shows "run_kept rid s t"
proof -
  have "map xe_def (filter (\<lambda>e. xe_run e = rid) es) =
      map (\<lambda>(_, _, _, _, _, nd, _). nd) (filter (\<lambda>(_, r, _). r = rid) (map xe_static es))" for es
    by (induction es) (simp_all add: xe_static_def)
  then have "run_defs t rid = run_defs s rid"
    using assms(1) by (simp add: run_defs_def sql_select_def polled_def)
  moreover have "ir_params t rid = ir_params s rid"
    using ir_params_cong [of t s] assms(1) by (simp add: polled_def)
  ultimately show ?thesis using assms by (simp add: run_kept_def polled_def)
qed

lemma submitted_run_kept:
  assumes "ir_ids s" "rid \<le> ir_runs_seq s"
  shows "run_kept rid s (submitted spec params s)"
proof -
  have "sql_select (\<lambda>e. xe_run e = rid)
      (node_rows (Suc (ir_runs_seq s)) (Suc (ir_executions_seq s)) 0 (iw_nodes spec)) = []"
    using node_rows_in assms(2) by (fastforce simp: sql_select_def filter_empty_conv)
  then show ?thesis
    using assms(2) submitted_params [OF assms(1), of spec params rid]
    by (simp add: run_kept_def run_defs_def submitted_tops sql_select_append) (simp add: submitted_def)
qed

text \<open>A rolled back transaction leaves the tables, and the sequences where it had moved them.\<close>

lemma rolled_back:
  assumes "ir_inv H call s" "ir_runs_seq s \<le> ir_runs_seq t" "ir_executions_seq s \<le> ir_executions_seq t"
  shows "ir_inv H call (ir_rollback s t)" "rid \<le> ir_runs_seq s \<Longrightarrow> run_kept rid s (ir_rollback s t)"
proof -
  show "ir_inv H call (ir_rollback s t)"
    by (rule ir_inv_frame [OF assms(1)]) (simp_all add: ir_rollback_def assms(2,3))
  show "rid \<le> ir_runs_seq s \<Longrightarrow> run_kept rid s (ir_rollback s t)"
    using assms(2) by (simp add: run_kept_def run_defs_def ir_tops_def ir_params_def ir_rollback_def)
qed

lemma withTransaction_cases:
  obtains "snd (withTransaction rb conn fn s) = s" | "snd (withTransaction rb conn fn s) = rb s s"
  | "snd (withTransaction rb conn fn s) = rb s (snd (fn s))"
  | r where "fn s = (Inr r, snd (withTransaction rb conn fn s))"
  by (cases conn; cases "fn s"; cases "fst (fn s)") (auto simp: withTransaction_def)

lemma ir_step_inv:
  assumes "ir_step H call s t" "ir_inv H call s"
  shows "ir_inv H call t" "rid \<le> ir_runs_seq s \<Longrightarrow> run_kept rid s t"
proof -
  have "ir_inv H call t \<and> (rid \<le> ir_runs_seq s \<longrightarrow> run_kept rid s t)"
    using assms(1)
  proof cases
    case (submit spec conn params)
    let ?u = "submitted spec params s"
    have sub: "ir_submit_body spec params s = (Inr (Suc (ir_runs_seq s)), ?u)" by (rule ir_submit_body_eq)
    have "ir_runs_seq s \<le> ir_runs_seq ?u" "ir_executions_seq s \<le> ir_executions_seq ?u" by (simp_all add: submitted_def)
    note R = rolled_back [OF assms(2) this] and R0 = rolled_back [OF assms(2) order_refl order_refl]
      and S = ir_inv_submitted [OF assms(2) submit(2)] submitted_run_kept [OF ir_invD(1) [OF assms(2)]]
    from withTransaction_cases [of ir_rollback conn "ir_submit_body spec params" s]
    consider "t = s" | "t = ir_rollback s s" | "t = ir_rollback s ?u" | "t = ?u"
      by cases (simp_all add: submit(1) ir_submitRun_def sub)
    then show ?thesis by cases (simp_all add: assms(2) R R0 S run_kept_refl)
  next
    case (poll conn w spec)
    have p: "polled s (snd (process_body H call w spec s))" using keeps_process by (simp add: pl.keeps_def)
    then have "ir_runs_seq s \<le> ir_runs_seq (snd (process_body H call w spec s))"
      "ir_executions_seq s \<le> ir_executions_seq (snd (process_body H call w spec s))"
      by (simp_all add: polled_def)
    note R = rolled_back [OF assms(2) this] and R0 = rolled_back [OF assms(2) order_refl order_refl]
    from withTransaction_cases [of ir_rollback conn "process_body H call w spec" s]
    consider "t = s" | "t = ir_rollback s s" | "t = ir_rollback s (snd (process_body H call w spec s))"
      | (committed) r where "process_body H call w spec s = (Inr r, t)"
      by cases (simp_all add: poll ir_processOne_def)
    then show ?thesis
    proof cases
      case (committed r)
      then have "ir_inv H call t"
        by (rule process_body_Inr [OF assms(2)]) (use assms(2) ir_dispatch_inv [OF assms(2)] in blast)+
      moreover have "polled s t" using p committed by simp
      ultimately show ?thesis using polled_run_kept by blast
    qed (simp_all add: assms(2) R R0 run_kept_refl)
  next
    case (elsewhere rows n)
    then show ?thesis
      using ir_inv_frame [OF assms(2), of t] by (simp add: run_kept_def run_defs_def ir_tops_def ir_params_def)
  qed
  then show "ir_inv H call t" "rid \<le> ir_runs_seq s \<Longrightarrow> run_kept rid s t" by simp_all
qed

lemma ir_steps_inv:
  assumes "(ir_step H call)\<^sup>*\<^sup>* s t" "ir_inv H call s"
  shows "ir_inv H call t" "rid \<le> ir_runs_seq s \<Longrightarrow> run_kept rid s t"
proof -
  have "ir_inv H call t \<and> (rid \<le> ir_runs_seq s \<longrightarrow> run_kept rid s t)"
    using assms(1)
  proof (induction rule: rtranclp_induct)
    case (step u t)
    with ir_step_inv [OF step(2)] show ?case by (auto simp: run_kept_def)
  qed (simp add: assms(2) run_kept_def)
  then show "ir_inv H call t" "rid \<le> ir_runs_seq s \<Longrightarrow> run_kept rid s t" by simp_all
qed

lemma ir_inv_empty: "ir_inv H call ir_empty"
  by (simp add: ir_empty_def ir_inv_def ir_ids_def children_rooted_def ir_tops_def sql_select_def)

lemma ir_reachable_inv: "ir_reachable H call s \<Longrightarrow> ir_inv H call s"
  unfolding ir_reachable_def by (rule ir_steps_inv(1) [OF _ ir_inv_empty])

text \<open>A run after its submission: its nodes are those of the document.\<close>

lemma submitted_run:
  assumes "ir_inv H call s" "distinct (map ir_id (iw_nodes spec))" "ir_submitRun conn spec params s = (Inr rid, s')"
    and "(ir_step H call)\<^sup>*\<^sup>* s' t"
  shows "ir_inv H call t" "ir_params t rid = Some params" "run_defs t rid = iw_nodes spec"
proof -
  from assms(3) have s': "s' = submitted spec params s" "rid = Suc (ir_runs_seq s)"
    by (simp_all add: ir_submitRun_def ir_store.returns_commit ir_submit_body_eq)
  note D = ir_idsD [OF ir_invD(1) [OF assms(1)]]
  have inv: "ir_inv H call s'" unfolding s'(1) by (rule ir_inv_submitted [OF assms(1,2)])
  from ir_steps_inv [OF assms(4) inv] have "run_kept rid s' t" and *: "ir_inv H call t"
    by (simp_all add: s' submitted_def)
  moreover have "sql_select (\<lambda>e. xe_run e = rid) (ir_tops s) = []"
    using D(3) by (fastforce simp: s'(2) sql_select_def filter_empty_conv ir_tops_in)
  moreover have "sql_select (\<lambda>e. xe_run e = rid) (node_rows rid (Suc (ir_executions_seq s)) 0 (iw_nodes spec)) =
      node_rows rid (Suc (ir_executions_seq s)) 0 (iw_nodes spec)"
    using node_rows_in by (fastforce simp: sql_select_def filter_id_conv)
  ultimately show "ir_params t rid = Some params" "run_defs t rid = iw_nodes spec"
    using submitted_params [OF ir_invD(1) [OF assms(1)], of spec params rid]
    by (simp_all add: run_kept_def run_defs_def s' submitted_tops sql_select_append node_rows_columns)
  show "ir_inv H call t" by (rule *)
qed

lemma recorded_node:
  assumes "ir_inv H call t" "(i, out) \<in> set (run_outputs t rid)"
  obtains e params where "e \<in> set (ir_tops t)" "xe_def e \<in> set (run_defs t rid)" "ir_id (xe_def e) = i"
    "xe_status e = XDone" "ir_params t rid = Some params"
    "ir_reference H call params (run_outputs t rid) (xe_def e) = Inr out" "xe_run e = rid"
proof -
  from assms(2) obtain o' where o': "o' \<in> set (ir_outputs t)" "ro_run o' = rid" "ro_node o' = i" "ro_output o' = out"
    by (auto simp: run_outputs_def table_simps)
  from ir_invD(7) [OF assms(1) o'(1)] o'(2-4) obtain e params where e: "e \<in> set (ir_tops t)" "xe_run e = rid" "xe_node e = i"
    "xe_status e = XDone" "ir_params t rid = Some params"
    "ir_reference H call params (run_outputs t rid) (xe_def e) = Inr out"
    by (auto simp: output_ok_def node_key_def)
  with ir_invD(5) [OF assms(1) e(1)] show thesis
    by (intro that [OF e(1) _ _ e(4-6,2)]) (simp_all add: run_defs_def table_simps)
qed

subsection \<open>A worker on its own\<close>

lemma poll_advances:
  assumes "ir_inv H call s" "ir_processOne H call conn w spec s = (Inr r, t)"
  shows "ir_inv H call t" "r = None \<Longrightarrow> t = s" "r \<noteq> None \<Longrightarrow> advances s t"
    "r = None \<Longrightarrow> ir_locked s = [] \<Longrightarrow> \<forall>e \<in> set (ir_executions s). xe_status e \<noteq> XQueued"
proof -
  from assms(2) have body: "process_body H call w spec s = (Inr r, t)"
    by (simp add: ir_processOne_def ir_store.returns_commit)
  have "ir_inv H call t \<and> (r = None \<longrightarrow> t = s) \<and> (r \<noteq> None \<longrightarrow> advances s t)"
  proof (rule process_body_Inr [OF assms(1) body])
    assume "r = None" "t = s"
    with assms(1) show ?thesis by simp
  next
    fix v result
    assume "v \<in> set (ir_executions s)" "xe_status v = XQueued" and r: "r = Some (ir_claimed w 30 (ir_now s) v, result)"
      and "ir_dispatch H call (ir_claimed w 30 (ir_now s) v) spec (claimed_db w s v) = (Inr result, t)"
    then have "ir_inv H call t \<and> advances s t" by (intro ir_dispatch_inv [OF assms(1)])
    with r show ?thesis by simp
  qed
  then show "ir_inv H call t" "r = None \<Longrightarrow> t = s" "r \<noteq> None \<Longrightarrow> advances s t" by simp_all
  assume "r = None" and lock: "ir_locked s = []"
  with body have "sort_key xe_id (sql_select (ir_claimable s) (ir_executions s)) = []"
    by (auto simp: process_body_def ir_claim_execution_def tx_simps split: option.splits prod.splits sum.splits)
  then have "set (sort_key xe_id (sql_select (ir_claimable s) (ir_executions s))) = {}" by (simp only: list.set)
  then have "set (sql_select (ir_claimable s) (ir_executions s)) = {}" by (simp only: set_sort)
  with lock show "\<forall>e \<in> set (ir_executions s). xe_status e \<noteq> XQueued"
    by (auto simp: sql_select_def ir_claimable_def)
qed

text \<open>Between two polls time passes, and nobody holds a lock when the next one starts.\<close>

definition ir_alone :: "(nat \<Rightarrow> connection \<times> (ir_db \<Rightarrow> ir_db)) \<Rightarrow> bool" where
  "ir_alone around \<longleftrightarrow> (\<forall>n s. \<exists>now. snd (around n) s = s\<lparr>ir_locked := [], ir_now := now\<rparr>)"

lemma ir_alone_step:
  assumes "ir_alone around" "ir_inv H call s"
  shows "ir_inv H call (snd (around n) s)" "ir_locked (snd (around n) s) = []"
    "unfanned (snd (around n) s) = unfanned s" "undone (snd (around n) s) = undone s"
    "ir_executions (snd (around n) s) = ir_executions s"
proof -
  obtain now where eq: "snd (around n) s = s\<lparr>ir_locked := [], ir_now := now\<rparr>" using assms(1) by (auto simp: ir_alone_def)
  show "ir_inv H call (snd (around n) s)" by (rule ir_inv_frame [OF assms(2)]) (simp_all add: eq)
  show "ir_locked (snd (around n) s) = []" by (simp add: eq)
  show "unfanned (snd (around n) s) = unfanned s"
    by (rule unfanned_same) (simp_all add: eq ir_tops_def ir_map_of_def ir_branch_of_def)
  show "undone (snd (around n) s) = undone s" "ir_executions (snd (around n) s) = ir_executions s"
    by (simp_all add: undone_def eq)
qed

definition nothing_claimable :: "ir_db \<Rightarrow> bool" where
  "nothing_claimable s \<longleftrightarrow> (\<forall>e \<in> set (ir_executions s). xe_status e \<noteq> XQueued)"

lemma ir_loop_drains:
  assumes "ir_alone around" "ir_inv H call s" "k \<noteq> 0 \<or> nothing_claimable s" "idle + k = maxIdle" "maxIdle \<noteq> 0"
  shows "\<exists>r t. ir_workerLoop H call around w spec maxIdle n idle processed s = Some (r, t)
    \<and> (\<forall>m. r = Inr m \<longrightarrow> nothing_claimable t)"
proof -
  have "wf (less_than <*lex*> less_than <*lex*> less_than)" by (intro wf_lex_prod wf_less_than)
  then show ?thesis
    using assms(2-4)
  proof (induction "(unfanned s, undone s, k)" arbitrary: s n k idle processed rule: wf_induct_rule)
    case (less s k n idle processed)
    show ?case
    proof (cases "k = 0")
      case True
      with less.prems show ?thesis by (subst ir_workerLoop.simps) simp
    next
      case False
      with less.prems(3) have idle: "idle < maxIdle" by simp
      note alone = ir_alone_step [OF assms(1) less.prems(1), of n]
      obtain r t where poll: "ir_processOne H call (fst (around n)) w spec (snd (around n) s) = (r, t)" by fastforce
      show ?thesis
      proof (cases r)
        case (Inl err)
        with poll idle show ?thesis by (subst ir_workerLoop.simps) simp
      next
        case (Inr c)
        note P = poll_advances [OF alone(1) poll [unfolded Inr]]
        show ?thesis
        proof (cases c)
          case None
          with P(2) alone have t: "unfanned t = unfanned s" "undone t = undone s" "nothing_claimable t"
            using P(4) by (simp_all add: nothing_claimable_def)
          then have "\<exists>r t'. ir_workerLoop H call around w spec maxIdle (Suc n) (Suc idle) processed t = Some (r, t')
              \<and> (\<forall>m. r = Inr m \<longrightarrow> nothing_claimable t')"
            using False less.prems(3) by (intro less.hyps [of t "k - 1"] P(1)) auto
          with poll Inr None idle show ?thesis by (subst ir_workerLoop.simps) simp
        next
          case (Some x)
          with P(3) alone have "unfanned t < unfanned s \<or> unfanned t = unfanned s \<and> undone t < undone s"
            by (simp add: advances_def)
          then have "\<exists>r t'. ir_workerLoop H call around w spec maxIdle (Suc n) 0 (Suc processed) t = Some (r, t')
              \<and> (\<forall>m. r = Inr m \<longrightarrow> nothing_claimable t')"
            using assms(5) by (intro less.hyps [of t maxIdle] P(1)) auto
          with poll Inr Some idle show ?thesis by (subst ir_workerLoop.simps) simp
        qed
      qed
    qed
  qed
qed

subsection \<open>What a run records\<close>

text \<open>
  C35. In a database where the node ids of every submitted document are distinct: whatever
  submissions, polls by any number of workers, failing connections and throwing steps follow the
  submission of a run, in any order, every output recorded for the run belongs to
  a node of its document, and it is what the reference interpreter computes for that node from
  the request and the outputs recorded for the run. Fan-out, the order in which the children of a
  map or of a branch are run and by whom, and the joins leave no trace in the outputs.
\<close>

theorem recorded_outputs_are_the_reference:
  assumes "ir_reachable H call s" "distinct (map ir_id (iw_nodes spec))"
    and "ir_submitRun conn spec params s = (Inr rid, s')" "(ir_step H call)\<^sup>*\<^sup>* s' t"
    and "(i, out) \<in> set (run_outputs t rid)"
  shows "\<exists>nd \<in> set (iw_nodes spec). ir_id nd = i
    \<and> ir_reference H call params (run_outputs t rid) nd = Inr out"
proof -
  note R = submitted_run [OF ir_reachable_inv [OF assms(1)] assms(2-4)]
  from recorded_node [OF R(1) assms(5)] show ?thesis using R(2,3) by (metis option.inject)
qed

text \<open>A step that reads from a node without an output has no value for the read, so no reference output.\<close>

definition reads_from :: "ir_step \<Rightarrow> string \<Rightarrow> bool" where
  "reads_from st i \<longleftrightarrow> (\<exists>n obj. (n, JObj obj) \<in> set (nullish (is_reads st) [])
     \<and> js_get obj ''literal'' = None \<and> binding_from obj = Some ''step'' \<and> js_get obj ''id'' = Some (JStr i))"

lemma reads_from_missing:
  assumes "reads_from st i" "i \<notin> fst ` set outs"
  shows "call_step H call st (node_context params outs) \<noteq> Inr out"
proof
  assume "call_step H call st (node_context params outs) = Inr out"
  then obtain vs where vs: "res_map (\<lambda>(n, b). res_bind (ir_resolveBinding H b (node_context params outs)) (\<lambda>v. Inr (n, v)))
      (nullish (is_reads st) []) = Inr vs" by (auto simp: call_step_def res_bind_Inr ir_resolveReads_def)
  obtain n obj where obj: "(n, JObj obj) \<in> set (nullish (is_reads st) [])" "js_get obj ''literal'' = None"
    "binding_from obj = Some ''step''" "js_get obj ''id'' = Some (JStr i)" using assms(1) by (auto simp: reads_from_def)
  have all: "\<exists>y. f x = Inr y" if "res_map f xs = Inr ys" "x \<in> set xs" for f :: "string \<times> json \<Rightarrow> (string \<times> json) result" and x xs ys
    using that by (induction xs arbitrary: ys) (auto simp: res_bind_Inr)
  have "map_of outs i = None" using assms(2) by (simp add: map_of_eq_None_iff)
  with obj all [OF vs obj(1)] show False
    by (simp add: ir_resolveBinding.simps resolve_step_def node_context_def)
qed

text \<open>
  C36. A map (with a step for its body and with yields, where the node ids of every submitted document
  are distinct) whose source is an empty array never finishes: nobody is left to queue its join, so in no
  history, whatever the workers do, does it record an output, although the reference
  interpreter has one for it (an empty array under each name). Nor does any step of the document
  that has a step binding to the map among its reads: it never records an output either.
\<close>

theorem empty_map_never_finishes:
  assumes "ir_reachable H call s" "distinct (map ir_id (iw_nodes spec))"
    and "ir_submitRun conn spec params s = (Inr rid, s')" "(ir_step H call)\<^sup>*\<^sup>* s' t"
    and "IrMap i source [st] (Some ys) \<in> set (iw_nodes spec)"
    and "ir_resolveBinding H source (node_context params (run_outputs t rid)) = Inr (JArr [])"
  shows "i \<notin> fst ` set (run_outputs t rid)
    \<and> ir_reference H call params (run_outputs t rid) (IrMap i source [st] (Some ys)) =
        Inr (map (\<lambda>(n, _). (n, JArr [])) ys)
    \<and> (\<forall>reader. IrStep reader \<in> set (iw_nodes spec) \<and> reads_from reader i
        \<longrightarrow> is_id reader \<notin> fst ` set (run_outputs t rid))"
proof (intro conjI allI impI)
  note R = submitted_run [OF ir_reachable_inv [OF assms(1)] assms(2-4)]
  have same: "nd = nd'" if "nd \<in> set (iw_nodes spec)" "nd' \<in> set (iw_nodes spec)" "ir_id nd = ir_id nd'" for nd nd'
    using assms(2) that by (auto simp: distinct_map inj_on_def)
  show none: "i \<notin> fst ` set (run_outputs t rid)"
  proof
    assume "i \<in> fst ` set (run_outputs t rid)"
    then obtain out where "(i, out) \<in> set (run_outputs t rid)" by auto
    from recorded_node [OF R(1) this] obtain e where e: "e \<in> set (ir_tops t)" "xe_def e \<in> set (iw_nodes spec)"
      "ir_id (xe_def e) = i" "xe_status e = XDone" "xe_run e = rid"
      using R(3) by metis
    have nd: "xe_def e = IrMap i source [st] (Some ys)" using same [OF e(2) assms(5)] e(3) by simp
    from ir_invD(4) [OF R(1) e(1)] e(4,5) nd R(2)
    have "map_family H call (node_context params (run_outputs t rid)) e source [st]
        (ir_children t (xe_id e)) (ir_ckpts t) (ir_map_of t (xe_id e))"
      by (auto simp: family_ok_def family_def fresh_node_def)
    then show False using assms(6) e(4) by (elim map_familyE) (simp split: if_splits)
  qed
  have "res_map (\<lambda>(n, b). res_bind (res_map (yield_value H b) []) (\<lambda>vs. Inr (n, JArr vs))) ys =
      Inr (map (\<lambda>(n, _). (n, JArr [])) ys)"
    by (induction ys) auto
  then show "ir_reference H call params (run_outputs t rid) (IrMap i source [st] (Some ys)) =
      Inr (map (\<lambda>(n, _). (n, JArr [])) ys)"
    using assms(6) by (simp add: map_items_def one_step_def map_yields_def)
  fix reader assume reader: "IrStep reader \<in> set (iw_nodes spec) \<and> reads_from reader i"
  show "is_id reader \<notin> fst ` set (run_outputs t rid)"
  proof
    assume "is_id reader \<in> fst ` set (run_outputs t rid)"
    then obtain out where "(is_id reader, out) \<in> set (run_outputs t rid)" by auto
    then obtain e params' where e: "e \<in> set (ir_tops t)" "xe_def e \<in> set (run_defs t rid)"
      "ir_id (xe_def e) = is_id reader" "xe_status e = XDone" "ir_params t rid = Some params'"
      "ir_reference H call params' (run_outputs t rid) (xe_def e) = Inr out" "xe_run e = rid"
      by (rule recorded_node [OF R(1)])
    have "xe_def e = IrStep reader" using same [of "xe_def e", OF _ conjunct1 [OF reader]] e(2,3) R(3) by simp
    with e(6) reads_from_missing [OF conjunct2 [OF reader] none] show False by simp
  qed
qed

text \<open>
  C37. A worker on its own always comes back: whatever the documents, the functions and the
  failing connections are (node ids distinct within each submitted document), its loop with a
  non-zero number of idle polls ends after finitely many polls, with the error that a poll threw,
  or with its idle polls used up. In the second case it leaves no execution queued.
\<close>

theorem lone_worker_drains_the_queue:
  assumes "ir_reachable H call s" "ir_alone around" "maxIdlePolls \<noteq> 0"
  shows "\<exists>r t. ir_workerLoop H call around w spec maxIdlePolls 0 0 0 s = Some (r, t)
    \<and> (case r of Inl _ \<Rightarrow> True | Inr _ \<Rightarrow> nothing_claimable t)"
  using ir_loop_drains [OF assms(2) ir_reachable_inv [OF assms(1)], of maxIdlePolls 0 maxIdlePolls] assms(3)
  by (fastforce split: sum.split)

subsection \<open>An example\<close>

text \<open>A map over a parameter, and a step that reads what the map yields.\<close>

definition ir_sample_host :: js_host where
  "ir_sample_host = \<lparr>num_text = \<lambda>_. ''1'', text_num = \<lambda>_. None, same_object = \<lambda>_ _. False\<rparr>"

definition ir_sample_calls :: ir_functions where
  "ir_sample_calls f inputs =
     (if f = ''resize'' then Inr [(''size'', nullish (js_get inputs ''image'') JNull)]
      else if f = ''zip'' then Inr [(''archive'', nullish (js_get inputs ''sizes'') JNull)]
      else Inl (HostError ''unknown function''))"

definition ir_sample_map :: ir_node where
  "ir_sample_map = IrMap ''all'' (JObj [(''from'', JStr ''request''), (''param'', JStr ''images'')])
     [\<lparr>is_id = ''one'', is_function = ''resize'', is_reads = Some [(''image'', JObj [(''from'', JStr ''item'')])]\<rparr>]
     (Some [(''sizes'', JObj [(''from'', JStr ''step''), (''id'', JStr ''one''), (''output'', JStr ''size'')])])"

definition ir_sample_spec :: ir_spec where
  "ir_sample_spec = \<lparr>iw_name = ''w'', iw_nodes = [ir_sample_map,
       IrStep \<lparr>is_id = ''pack'', is_function = ''zip'',
         is_reads = Some [(''sizes'', JObj [(''from'', JStr ''step''), (''id'', JStr ''all''), (''output'', JStr ''sizes'')])]\<rparr>],
     iw_outputs = Some [(''result'', JObj [(''from'', JStr ''step''), (''id'', JStr ''pack''), (''output'', JStr ''archive'')])]\<rparr>"

definition ir_sample_submit :: "json list \<Rightarrow> (platform_error + nat) \<times> ir_db" where
  "ir_sample_submit images = ir_submitRun Healthy ir_sample_spec [(''images'', JArr images)] ir_empty"

definition ir_sample_poll :: "ir_db \<Rightarrow> ir_db" where
  "ir_sample_poll s = snd (ir_processOne ir_sample_host ir_sample_calls Healthy ''w1'' ir_sample_spec s)"

lemma ir_sample_polls:
  "(ir_step ir_sample_host ir_sample_calls)\<^sup>*\<^sup>* s ((ir_sample_poll ^^ n) s)"
proof (induction n)
  case (Suc n)
  have "ir_step ir_sample_host ir_sample_calls ((ir_sample_poll ^^ n) s) ((ir_sample_poll ^^ Suc n) s)"
    by (simp add: ir_sample_poll_def ir_step.poll)
  with Suc show ?case by (rule rtranclp.rtrancl_into_rtrancl)
qed simp

lemma ir_sample_distinct: "distinct (map ir_id (iw_nodes ir_sample_spec))"
  by (simp add: ir_sample_spec_def ir_sample_map_def)

lemma ir_sample_reachable: "ir_reachable ir_sample_host ir_sample_calls ir_empty"
  by (simp add: ir_reachable_def)

lemma ir_sample_submitted:
  "ir_submitRun Healthy ir_sample_spec [(''images'', JArr images)] ir_empty = (Inr 1, snd (ir_sample_submit images))"
  by (simp add: ir_sample_submit_def ir_submitRun_def withTransaction_def ir_submit_body_eq ir_empty_def)

text \<open>Fan-out, the only child, and the join.\<close>

lemma ir_sample_joined:
  "run_outputs ((ir_sample_poll ^^ 3) (snd (ir_sample_submit [JStr ''a'']))) 1 = [(''all'', [(''sizes'', JArr [JStr ''a''])])]"
  by code_simp

theorem recorded_outputs_are_the_reference_witness:
  "list_ex (\<lambda>nd. ir_id nd = ''all'' \<and> ir_reference ir_sample_host ir_sample_calls [(''images'', JArr [JStr ''a''])]
      (run_outputs ((ir_sample_poll ^^ 3) (snd (ir_sample_submit [JStr ''a'']))) 1) nd = Inr [(''sizes'', JArr [JStr ''a''])])
    (iw_nodes ir_sample_spec)"
proof -
  have "(''all'', [(''sizes'', JArr [JStr ''a''])]) \<in>
      set (run_outputs ((ir_sample_poll ^^ 3) (snd (ir_sample_submit [JStr ''a'']))) 1)"
    unfolding ir_sample_joined by simp
  from recorded_outputs_are_the_reference [OF ir_sample_reachable ir_sample_distinct ir_sample_submitted ir_sample_polls this]
  show ?thesis unfolding list_ex_iff .
qed

theorem empty_map_never_finishes_witness:
  "''all'' \<notin> fst ` set (run_outputs ((ir_sample_poll ^^ 1) (snd (ir_sample_submit []))) 1)
   \<and> ''pack'' \<notin> fst ` set (run_outputs ((ir_sample_poll ^^ 1) (snd (ir_sample_submit []))) 1)"
proof -
  let ?t = "(ir_sample_poll ^^ 1) (snd (ir_sample_submit []))"
  let ?source = "JObj [(''from'', JStr ''request''), (''param'', JStr ''images'')]"
  let ?reference = "ir_reference ir_sample_host ir_sample_calls [(''images'', JArr [])] (run_outputs ?t 1) ir_sample_map
    = Inr [(''sizes'', JArr [])]"
  have "ir_sample_map \<in> set (iw_nodes ir_sample_spec)" by (simp add: ir_sample_spec_def)
  then have "IrMap ''all'' ?source
      [\<lparr>is_id = ''one'', is_function = ''resize'', is_reads = Some [(''image'', JObj [(''from'', JStr ''item'')])]\<rparr>]
      (Some [(''sizes'', JObj [(''from'', JStr ''step''), (''id'', JStr ''one''), (''output'', JStr ''size'')])])
    \<in> set (iw_nodes ir_sample_spec)" unfolding ir_sample_map_def .
  moreover have "ir_resolveBinding ir_sample_host ?source (node_context [(''images'', JArr [])] (run_outputs ?t 1)) = Inr (JArr [])"
    by (simp add: ir_resolveBinding.simps node_context_def resolve_request_def binding_from_def js_key_def)
  ultimately have claim: "''all'' \<notin> fst ` set (run_outputs ?t 1) \<and> ?reference \<and>
      (\<forall>reader. IrStep reader \<in> set (iw_nodes ir_sample_spec) \<and> reads_from reader ''all''
        \<longrightarrow> is_id reader \<notin> fst ` set (run_outputs ?t 1))"
    using empty_map_never_finishes [OF ir_sample_reachable ir_sample_distinct ir_sample_submitted ir_sample_polls]
    unfolding ir_sample_map_def by fastforce
  note none = conjunct1 [OF claim] and readers = conjunct2 [OF conjunct2 [OF claim]]
  let ?pack = "\<lparr>is_id = ''pack'', is_function = ''zip'',
    is_reads = Some [(''sizes'', JObj [(''from'', JStr ''step''), (''id'', JStr ''all''), (''output'', JStr ''sizes'')])]\<rparr>"
  have "IrStep ?pack \<in> set (iw_nodes ir_sample_spec)" by (simp add: ir_sample_spec_def)
  moreover have "reads_from ?pack ''all''" by (simp add: reads_from_def binding_from_def)
  ultimately have "is_id ?pack \<notin> fst ` set (run_outputs ?t 1)" using readers by blast
  with none show ?thesis by simp
qed

theorem lone_worker_drains_the_queue_witness:
  "\<exists>r t. ir_workerLoop ir_sample_host ir_sample_calls (\<lambda>n. (Healthy, \<lambda>s. s\<lparr>ir_locked := [], ir_now := int n\<rparr>))
      ''w1'' ir_sample_spec 5 0 0 0 (snd (ir_sample_submit [JStr ''a''])) = Some (r, t)
    \<and> (case r of Inl _ \<Rightarrow> True | Inr _ \<Rightarrow> nothing_claimable t)"
proof (rule lone_worker_drains_the_queue)
  have "ir_step ir_sample_host ir_sample_calls ir_empty (snd (ir_sample_submit [JStr ''a'']))"
    unfolding ir_sample_submit_def by (rule ir_step.submit [OF ir_sample_distinct])
  then show "ir_reachable ir_sample_host ir_sample_calls (snd (ir_sample_submit [JStr ''a'']))"
    by (simp add: ir_reachable_def)
  show "ir_alone (\<lambda>n. (Healthy, \<lambda>s. s\<lparr>ir_locked := [], ir_now := int n\<rparr>))" by (auto simp: ir_alone_def)
qed simp

end
