(* ===== verification/Archived_Registry.thy ===== *)
theory Archived_Registry
  imports Registry_Properties
begin

text \<open>
  \<open>archive/registry/\<close>, the JavaScript prototype that \<open>registry/\<close> replaced, over the same two
  tables: \<open>validate.js\<close>, the write paths \<open>admin.js\<close> and \<open>conformance.js\<close> and the read paths of
  \<open>query.js\<close>. A function of the prototype has no invocation descriptor, no state reuse and no
  warm update. The prototype writes its transaction out in place, and a failure of its
  \<open>ROLLBACK\<close> hides the error that led there. What the \<open>pg\<close> driver makes of an \<open>openapiSpec\<close>
  that is an array is left out: the model stores the JSON it is given.
\<close>

subsection \<open>Tables\<close>

record proto_capability =
  pc_mutates :: bool
  pc_materializationCostClass :: materialization_cost_class
  pc_cowSupport :: bool
  pc_changeDetectionSupport :: bool
  pc_nestingDeclaration :: "nesting_declaration option"

record proto_row = proto_capability +
  pc_digest :: string
  pc_functionName :: string

record proto_db =
  pr_service_images :: "service_image list"
  pr_function_capabilities :: "proto_row list"
  pr_now :: int

datatype proto_error =
    RegisterImageInvalid "registration_error list"
  | RecordTrustTierInvalid "registration_error list"
  | NoRegisteredImage string
  | ProtoDb db_error
  | ProtoHost string

type_synonym 'a proto_tx = "(proto_db, proto_error, 'a) tx"

subsection \<open>\<open>validate.js\<close>\<close>

definition proto_operationIds :: "json option \<Rightarrow> string list" where
  "proto_operationIds spec =
     (case spec of
        None \<Rightarrow> []
      | Some v \<Rightarrow>
          (if \<not> is_object (Some v) then []
           else case js_member v ''paths'' of
                  None \<Rightarrow> []
                | Some paths \<Rightarrow>
                    if \<not> is_object (Some paths) then []
                    else fold set_add
                      (concat (map (\<lambda>item. if is_object (Some item) then path_item_ids item else [])
                                 (js_values paths))) []))"

definition proto_validateNestingDeclaration :: "json option \<Rightarrow> string \<Rightarrow> registration_error list" where
  "proto_validateNestingDeclaration nesting fnName =
     (if nesting = None \<or> nesting = Some JNull then []
      else case nesting of
        Some (JObj obj) \<Rightarrow>
          unless (named_by nesting_transport_name NESTING_TRANSPORTS (js_get obj ''via'') \<noteq> None)
            (NestingViaInvalid fnName (js_get obj ''via''))
          @ unless (case js_get obj ''targets'' of
                      Some (JStr s) \<Rightarrow> s = ''open''
                    | Some (JArr ts) \<Rightarrow> list_all (\<lambda>t. as_string (Some t) \<noteq> None) ts
                    | _ \<Rightarrow> False) (NestingTargetsInvalid fnName)
      | _ \<Rightarrow> [NestingNotObject fnName])"

definition proto_validateCapability :: "string \<Rightarrow> json \<Rightarrow> registration_error list" where
  "proto_validateCapability fnName cap =
     unless (length fnName \<noteq> 0) EmptyFunctionName
     @ (if \<not> is_object (Some cap) then [CapabilityNotObject fnName]
        else
          unless (as_bool (js_member cap ''mutates'') \<noteq> None) (MutatesNotBoolean fnName)
          @ unless (named_by materialization_cost_class_name MATERIALIZATION_COST_CLASSES
                      (js_member cap ''materializationCostClass'') \<noteq> None)
              (CostClassInvalid fnName (js_member cap ''materializationCostClass''))
          @ unless (as_bool (js_member cap ''cowSupport'') \<noteq> None) (CowSupportNotBoolean fnName)
          @ unless (as_bool (js_member cap ''changeDetectionSupport'') \<noteq> None)
              (ChangeDetectionNotBoolean fnName)
          @ proto_validateNestingDeclaration (js_member cap ''nestingDeclaration'') fnName)"

definition proto_validateRegistration :: "registration_input \<Rightarrow> registration_error list" where
  "proto_validateRegistration inp =
     unless (nonempty_string (in_digest inp)) DigestRequired
     @ unless (nonempty_string (in_ociRef inp)) OciRefRequired
     @ unless (is_object (in_openapiSpec inp)) OpenapiSpecRequired
     @ unless (case in_hardwareRequirements inp of
                 None \<Rightarrow> True | Some (JObj _) \<Rightarrow> True | _ \<Rightarrow> False) HardwareRequirementsNotObject
     @ (case in_capabilityMetadata inp of
          Some (JObj metadata) \<Rightarrow>
            concat (map (\<lambda>(fnName, cap). proto_validateCapability fnName cap) metadata)
            @ (if is_object (in_openapiSpec inp)
               then (let declared = proto_operationIds (in_openapiSpec inp)
                     in concat (map (\<lambda>(fnName, _).
                          unless (fnName \<in> set declared) (UndeclaredFunction fnName declared)) metadata))
               else [])
        | _ \<Rightarrow> [CapabilityMetadataRequired])"

definition proto_validateTrustTier :: "json option \<Rightarrow> registration_error list" where
  "proto_validateTrustTier tier =
     unless (named_by trust_tier_name TRUST_TIERS tier \<noteq> None) (TrustTierInvalid tier)"

subsection \<open>\<open>admin.js\<close> and \<open>conformance.js\<close>\<close>

text \<open>The parameter list of \<open>registerImage\<close>: a default stands for \<open>undefined\<close>, not for \<open>null\<close>.\<close>

definition default_object :: "json option \<Rightarrow> json option" where
  "default_object v = (case v of None \<Rightarrow> Some (JObj []) | Some x \<Rightarrow> Some x)"

definition proto_defaults :: "registration_input \<Rightarrow> registration_input" where
  "proto_defaults inp =
     inp\<lparr>in_capabilityMetadata := default_object (in_capabilityMetadata inp),
         in_hardwareRequirements := default_object (in_hardwareRequirements inp)\<rparr>"

definition decode_proto :: "json \<Rightarrow> proto_capability option" where
  "decode_proto cap =
     (case (as_bool (js_member cap ''mutates''),
            named_by materialization_cost_class_name MATERIALIZATION_COST_CLASSES
              (js_member cap ''materializationCostClass''),
            as_bool (js_member cap ''cowSupport''),
            as_bool (js_member cap ''changeDetectionSupport''),
            decode_nesting (js_member cap ''nestingDeclaration'')) of
        (Some mutates, Some cost, Some cow, Some change, Some nesting) \<Rightarrow>
          Some \<lparr>pc_mutates = mutates, pc_materializationCostClass = cost, pc_cowSupport = cow,
                pc_changeDetectionSupport = change, pc_nestingDeclaration = nesting\<rparr>
      | _ \<Rightarrow> None)"

definition proto_find_image :: "proto_db \<Rightarrow> string \<Rightarrow> service_image option" where
  "proto_find_image s d = first_row (sql_select (\<lambda>r. si_digest r = d) (pr_service_images s))"

definition proto_upsert_image :: "string \<Rightarrow> string \<Rightarrow> json \<Rightarrow> js_object \<Rightarrow> unit proto_tx" where
  "proto_upsert_image d ref spec hw =
     tx_write (\<lambda>s. s\<lparr>pr_service_images :=
       (case proto_find_image s d of
          None \<Rightarrow> pr_service_images s @
            [\<lparr>si_digest = d, si_ociRef = ref, si_openapiSpec = spec, si_hardwareRequirements = hw,
              si_trustTier = Unverified, si_registeredAt = pr_now s, si_updatedAt = pr_now s\<rparr>]
        | Some _ \<Rightarrow> sql_update (\<lambda>r. si_digest r = d)
            (\<lambda>r. r\<lparr>si_ociRef := ref, si_openapiSpec := spec, si_hardwareRequirements := hw,
                  si_updatedAt := pr_now s\<rparr>) (pr_service_images s))\<rparr>)"

definition proto_row_of :: "string \<Rightarrow> string \<Rightarrow> proto_capability \<Rightarrow> proto_row" where
  "proto_row_of d f c = proto_capability.extend c \<lparr>pc_digest = d, pc_functionName = f\<rparr>"

definition proto_insert_function :: "string \<Rightarrow> string \<times> json \<Rightarrow> unit proto_tx" where
  "proto_insert_function d = (\<lambda>(f, cap) s.
     case decode_proto cap of
       None \<Rightarrow> (Inl (ProtoDb CheckViolation), s)
     | Some c \<Rightarrow>
         if sql_select (\<lambda>r. pc_digest r = d \<and> pc_functionName r = f) (pr_function_capabilities s) \<noteq> []
         then (Inl (ProtoDb UniqueViolation), s)
         else if proto_find_image s d = None then (Inl (ProtoDb ForeignKeyViolation), s)
         else (Inr (), s\<lparr>pr_function_capabilities := pr_function_capabilities s @ [proto_row_of d f c]\<rparr>))"

text \<open>
  \<open>BEGIN\<close>, the statements, \<open>COMMIT\<close>; in the \<open>catch\<close> a \<open>ROLLBACK\<close> that may fail itself
  (\<open>rollback_ok\<close>). \<open>pool.connect()\<close> is awaited before the \<open>try\<close>.
\<close>

definition proto_transaction :: "connection \<Rightarrow> bool \<Rightarrow> unit proto_tx \<Rightarrow> unit proto_tx" where
  "proto_transaction conn rollback_ok fn =
     (\<lambda>s. let rethrow = (\<lambda>e. (Inl (if rollback_ok then e else ProtoHost ''ROLLBACK''), s)) in
        if conn = ConnectFails then (Inl (ProtoHost ''connect''), s)
        else if conn = BeginFails then rethrow (ProtoHost ''BEGIN'')
        else case fn s of
               (Inl e, _) \<Rightarrow> rethrow e
             | (Inr _, t) \<Rightarrow> if conn = CommitFails then rethrow (ProtoHost ''COMMIT'') else (Inr (), t))"

definition proto_registerImage ::
  "connection \<Rightarrow> bool \<Rightarrow> registration_input \<Rightarrow> (string \<times> trust_tier) proto_tx" where
  "proto_registerImage conn rollback_ok inp =
     (let full = proto_defaults inp; errors = proto_validateRegistration full in
      if errors \<noteq> [] then tx_throw (RegisterImageInvalid errors)
      else
        let digest = the (as_string (in_digest full)); metadata = as_object (in_capabilityMetadata full) in
        tx_then (proto_transaction conn rollback_ok
                   (tx_then (proto_upsert_image digest (the (as_string (in_ociRef full)))
                               (the (in_openapiSpec full)) (as_object (in_hardwareRequirements full)))
                   (tx_then (tx_write (\<lambda>s. s\<lparr>pr_function_capabilities :=
                               sql_delete (\<lambda>r. pc_digest r = digest) (pr_function_capabilities s)\<rparr>))
                            (tx_for metadata (proto_insert_function digest)))))
                (tx_return (digest, Unverified)))"

definition proto_recordTrustTier :: "string \<Rightarrow> json option \<Rightarrow> (string \<times> trust_tier) proto_tx" where
  "proto_recordTrustTier digest tier =
     (let errors = proto_validateTrustTier tier in
      if errors \<noteq> [] then tx_throw (RecordTrustTierInvalid errors)
      else
        let t = the (named_by trust_tier_name TRUST_TIERS tier) in
        tx_then (tx_write (\<lambda>s. s\<lparr>pr_service_images :=
                   sql_update (\<lambda>r. si_digest r = digest)
                     (\<lambda>r. r\<lparr>si_trustTier := t, si_updatedAt := pr_now s\<rparr>) (pr_service_images s)\<rparr>))
       (tx_bind (tx_read (\<lambda>s. sql_select (\<lambda>r. si_digest r = digest) (pr_service_images s))) (\<lambda>rows.
          case rows of
            [] \<Rightarrow> tx_throw (NoRegisteredImage digest)
          | row # _ \<Rightarrow> tx_return (si_digest row, si_trustTier row))))"

subsection \<open>\<open>query.js\<close>\<close>

record proto_facts =
  qf_digest :: string
  qf_function :: string
  qf_capability :: proto_capability
  qf_trustTier :: trust_tier
  qf_hardwareRequirements :: js_object

definition proto_getPlacementFacts :: "string \<Rightarrow> string \<Rightarrow> proto_facts option proto_tx" where
  "proto_getPlacementFacts digest functionName =
     tx_bind (tx_read (\<lambda>s. concat (map (\<lambda>si.
         map (Pair si) (sql_select (\<lambda>fc. pc_digest fc = si_digest si \<and> pc_functionName fc = functionName)
           (pr_function_capabilities s)))
         (sql_select (\<lambda>si. si_digest si = digest) (pr_service_images s))))) (\<lambda>rows.
       case rows of
         [] \<Rightarrow> tx_return None
       | (si, fc) # _ \<Rightarrow>
           tx_return (Some \<lparr>qf_digest = si_digest si, qf_function = pc_functionName fc,
             qf_capability = proto_capability.truncate fc, qf_trustTier = si_trustTier si,
             qf_hardwareRequirements = si_hardwareRequirements si\<rparr>))"

record proto_entry = service_image +
  qe_functions :: "(string \<times> proto_capability) list"

definition proto_getEntry :: "string \<Rightarrow> proto_entry option proto_tx" where
  "proto_getEntry digest =
     tx_bind (tx_read (\<lambda>s. sql_select (\<lambda>si. si_digest si = digest) (pr_service_images s))) (\<lambda>imageRows.
       case imageRows of
         [] \<Rightarrow> tx_return None
       | row # _ \<Rightarrow>
           tx_bind (tx_read (\<lambda>s. sort_key pc_functionName
                      (sql_select (\<lambda>fc. pc_digest fc = digest) (pr_function_capabilities s)))) (\<lambda>fnRows.
             tx_return (Some (service_image.extend row
               \<lparr>qe_functions = fold (\<lambda>fn. AList.update (pc_functionName fn) (proto_capability.truncate fn))
                                 fnRows []\<rparr>))))"

subsection \<open>The prototype's part of the registry\<close>

definition to_proto_capability :: "function_capability_input \<Rightarrow> proto_capability" where
  "to_proto_capability c =
     \<lparr>pc_mutates = fc_mutates c, pc_materializationCostClass = fc_materializationCostClass c,
      pc_cowSupport = fc_cowSupport c, pc_changeDetectionSupport = fc_changeDetectionSupport c,
      pc_nestingDeclaration = fc_nestingDeclaration c\<rparr>"

definition to_proto_row :: "function_capability \<Rightarrow> proto_row" where
  "to_proto_row c = proto_row_of (fc_digest c) (fc_functionName c)
     (to_proto_capability (function_capability_input.truncate c))"

definition to_proto :: "registry_db \<Rightarrow> proto_db" where
  "to_proto s =
     \<lparr>pr_service_images = rg_service_images s,
      pr_function_capabilities = map to_proto_row (rg_function_capabilities s), pr_now = rg_now s\<rparr>"

definition to_proto_facts :: "placement_facts \<Rightarrow> proto_facts" where
  "to_proto_facts f =
     \<lparr>qf_digest = pf_digest f, qf_function = pf_function f,
      qf_capability = to_proto_capability (pf_capability f), qf_trustTier = pf_trustTier f,
      qf_hardwareRequirements = pf_hardwareRequirements f\<rparr>"

definition to_proto_entry :: "registry_entry \<Rightarrow> proto_entry" where
  "to_proto_entry e = service_image.extend (service_image.truncate e)
     \<lparr>qe_functions = map (map_prod id to_proto_capability) (re_functions e)\<rparr>"

lemma to_proto_sel [simp]:
  "pr_service_images (to_proto s) = rg_service_images s"
  "pr_function_capabilities (to_proto s) = map to_proto_row (rg_function_capabilities s)"
  "pr_now (to_proto s) = rg_now s"
  "proto_find_image (to_proto s) d = find_image s d"
  by (simp_all add: to_proto_def proto_find_image_def find_image_def)

lemma to_proto_row_sel [simp]:
  "pc_digest (to_proto_row c) = fc_digest c" "pc_functionName (to_proto_row c) = fc_functionName c"
  "proto_capability.truncate (to_proto_row c) = to_proto_capability (function_capability_input.truncate c)"
  "to_proto_row (capability_row d f c') = proto_row_of d f (to_proto_capability c')"
  by (simp_all add: to_proto_row_def proto_row_of_def proto_capability.defs)

lemma decode_proto_capability:
  "decode_capability cap = Some c \<Longrightarrow> decode_proto cap = Some (to_proto_capability c)"
  by (auto simp: decode_capability_def decode_proto_def to_proto_capability_def simp del: as_Some
      split: option.splits)

subsection \<open>Validation\<close>

text \<open>The errors that the prototype knows.\<close>

fun prototype_error :: "registration_error \<Rightarrow> bool" where
  "prototype_error (DescriptorNotArray _) = False"
| "prototype_error (EntryNotObject _) = False"
| "prototype_error (ParamEmpty _) = False"
| "prototype_error (ParamDuplicate _ _) = False"
| "prototype_error (StyleInvalid _ _ _) = False"
| "prototype_error (FlagNameMissing _ _) = False"
| "prototype_error (FlagNameMalformed _ _ _) = False"
| "prototype_error (PositionIndexInvalid _ _) = False"
| "prototype_error (PositionIndexDuplicate _ _ _) = False"
| "prototype_error (TooManyStdinEntries _ _) = False"
| "prototype_error (StateReuseInvalid _ _) = False"
| "prototype_error (AdditiveWarmUpdateNotBoolean _) = False"
| "prototype_error (AdditiveWarmUpdateWithoutStateId _) = False"
| "prototype_error (StateReuseWithoutEntries _) = False"
| "prototype_error (StateReuseWithPositional _ _) = False"
| "prototype_error _ = True"

lemma filter_unless [simp]: "filter prototype_error (unless ok e) = unless (ok \<or> \<not> prototype_error e) e"
  by (simp add: unless_def)

lemma unless_True [simp]: "unless True e = []"
  by (simp add: unless_def)

lemma validate_entry_new_errors:
  assumes "filter prototype_error (descriptorErrors st) = []"
  shows "filter prototype_error (descriptorErrors (validate_entry fnName e st)) = []"
proof -
  have param: "filter prototype_error (descriptorErrors (validate_param fnName p st)) = []" for p
    using assms by (simp add: validate_param_def push_error_def split: option.split)
  then show ?thesis
    using assms by (auto simp: validate_entry_def Let_def push_error_def validate_flag_name_def
        validate_position_index_def split: json.split option.split invocation_style.split)
qed

lemma descriptor_errors_are_new:
  "filter prototype_error (validateInvocationDescriptor descriptor fnName) = []"
proof -
  have "filter prototype_error (descriptorErrors (fold (validate_entry fnName) es st)) = []"
    if "filter prototype_error (descriptorErrors st) = []" for es st
    using that by (induction es arbitrary: st) (auto dest: validate_entry_new_errors)
  then show ?thesis
    by (simp add: validateInvocationDescriptor_def Let_def split: option.split json.split)
qed

lemma proto_nesting:
  "filter prototype_error (validateNestingDeclaration nesting fnName)
     = proto_validateNestingDeclaration nesting fnName"
  by (auto simp: validateNestingDeclaration_def proto_validateNestingDeclaration_def unless_def
      split: option.split json.split)

lemma proto_capability_errors:
  "proto_validateCapability fnName cap = filter prototype_error (validateCapability fnName cap)"
  by (simp add: proto_validateCapability_def validateCapability_def Let_def proto_nesting
      descriptor_errors_are_new split: option.split)

lemma js_values_flat: "\<not> is_object (Some v) \<Longrightarrow> js_values v = []"
  by (cases v) simp_all

lemma proto_operationIds_eq:
  assumes "is_object spec"
  shows "proto_operationIds spec = operationIdsFromOpenApi spec"
proof -
  have "(if is_object (Some item) then path_item_ids item else []) = path_item_ids item" for item
    by (simp add: path_item_ids_def js_values_flat)
  with assms show ?thesis
    by (auto simp: proto_operationIds_def operationIdsFromOpenApi_def js_values_flat
        split: option.split)
qed

lemma proto_registration_errors:
  "proto_validateRegistration inp = filter prototype_error (validateRegistration inp)"
proof -
  have "concat (map (\<lambda>(f, cap). proto_validateCapability f cap) metadata)
      = filter prototype_error (concat (map (\<lambda>(f, cap). validateCapability f cap) metadata))" for metadata
    by (simp add: filter_concat proto_capability_errors comp_def split_def)
  moreover have "concat (map (\<lambda>(f, _). unless (f \<in> set ds) (UndeclaredFunction f ds)) metadata)
      = filter prototype_error (concat (map (\<lambda>(f, cap). unless (f \<in> set ds) (UndeclaredFunction f ds)) metadata))"
    for ds and metadata :: js_object
    by (simp add: filter_concat comp_def split_def)
  ultimately show ?thesis
    by (auto simp: proto_validateRegistration_def validateRegistration_def Let_def proto_operationIds_eq
        split: option.split json.split)
qed

subsection \<open>The operations, in lockstep\<close>

lemma proto_upsert_image_step:
  assumes "registry_inv s"
  shows "proto_upsert_image d ref spec hw (to_proto s)
    = (Inr (), to_proto (snd (upsert_service_image d ref spec hw s)))"
proof (cases "find_image s d")
  case None
  then show ?thesis
    by (simp add: proto_upsert_image_def tx_simps upsert_service_image_def upserted_image_def to_proto_def
        Let_def proto_find_image_def find_image_def)
next
  case (Some i)
  have only: "r = i" if "r \<in> set (rg_service_images s)" "si_digest r = d" for r
    using assms that find_image_digest [OF Some] by (auto simp: registry_inv_def dest: key_uniqueD)
  show ?thesis
    using Some by (simp add: proto_upsert_image_def tx_simps upsert_service_image_def upserted_image_def
        to_proto_def Let_def proto_find_image_def find_image_def)
      (auto simp: sql_update_def dest: only)
qed

lemma proto_insert_function_step:
  assumes "insert_function_capability d f cap s = (Inr row, t)"
  shows "proto_insert_function d (f, cap) (to_proto s) = (Inr (), to_proto t)"
  using assms by (auto simp: insert_function_capability_def proto_insert_function_def sql_select_map
      decode_proto_capability find_capability_def to_proto_def proto_find_image_def find_image_def
      split: option.splits if_splits)

lemma proto_insert_functions_step:
  "insert_capabilities d metadata s = (Inr rows, t) \<Longrightarrow>
     tx_for metadata (proto_insert_function d) (to_proto s) = (Inr (), to_proto t)"
proof (induction metadata arbitrary: s rows)
  case (Cons x rest)
  obtain f cap where x: "x = (f, cap)" by force
  obtain row v rows' where "insert_function_capability d f cap s = (Inr row, v)"
    and rest: "insert_capabilities d rest v = (Inr rows', t)"
    using Cons.prems x by (auto simp: tx_simps split: prod.splits sum.splits)
  from proto_insert_function_step [OF this(1)] Cons.IH [OF rest] x show ?case by (simp add: tx_simps)
qed (simp add: tx_simps)

lemma proto_defaults_eq:
  assumes "in_capabilityMetadata inp \<noteq> Some JNull" "in_hardwareRequirements inp \<noteq> Some JNull"
  shows "proto_defaults inp = with_defaults inp"
proof -
  have "default_object v = Some (or_empty_object v)" if "v \<noteq> Some JNull" for v
    using that by (cases v rule: or_empty_object.cases) (simp_all add: default_object_def)
  with assms show ?thesis by (simp add: proto_defaults_def with_defaults_def)
qed

lemma proto_registerImage_step:
  assumes inv: "registry_inv s" and run: "registerImage conn inp s = (Inr (d, tier), s')"
    and objects: "in_capabilityMetadata inp \<noteq> Some JNull" "in_hardwareRequirements inp \<noteq> Some JNull"
  shows "proto_registerImage conn rollback_ok inp (to_proto s) = (Inr (d, Unverified), to_proto s')"
  using run
proof (cases rule: registerImage_cases [of conn inp s])
  case (stored d' ref spec hw metadata tier')
  with run have eqs: "d' = d" "s' = registered d ref spec hw metadata s" by simp_all
  note p = stored(3) [unfolded eqs]
  have valid: "validateRegistration (with_defaults inp) = []"
    by (rule ccontr) (use run in \<open>simp add: registerImage_def Let_def tx_simps\<close>)
  define t where "t = snd (upsert_service_image d ref spec hw s)"
  define u where "u = t\<lparr>rg_function_capabilities :=
    sql_delete (\<lambda>c. fc_digest c = d) (rg_function_capabilities t)\<rparr>"
  have "find_image u d \<noteq> None" by (simp add: u_def t_def find_image_upsert)
  moreover have "find_capability u d f = None" for f
    by (auto simp: find_capability_None u_def table_simps capability_key_def)
  ultimately have "insert_capabilities d metadata u = (Inr (capability_rows d metadata),
      u\<lparr>rg_function_capabilities := rg_function_capabilities u @ capability_rows d metadata\<rparr>)"
    using stored(4,5) by (intro insert_capabilities_ok) auto
  also have "u\<lparr>rg_function_capabilities := rg_function_capabilities u @ capability_rows d metadata\<rparr> = s'"
    by (simp add: eqs registered_def Let_def u_def t_def)
  finally have "tx_for metadata (proto_insert_function d) (to_proto u) = (Inr (), to_proto s')"
    by (rule proto_insert_functions_step)
  moreover have "to_proto u = (to_proto t)\<lparr>pr_function_capabilities :=
      sql_delete (\<lambda>r. pc_digest r = d) (pr_function_capabilities (to_proto t))\<rparr>"
    by (simp add: u_def to_proto_def sql_delete_map)
  moreover note proto_upsert_image_step [OF inv, of d ref spec hw]
  ultimately show ?thesis
    using valid p stored(2) by (simp add: proto_registerImage_def Let_def proto_defaults_eq [OF objects]
        proto_registration_errors with_defaults_def payload_def proto_transaction_def tx_simps
        del: to_proto_sel flip: t_def)
qed simp

lemma proto_recordTrustTier_step:
  "proto_recordTrustTier d tier (to_proto s) =
     (case recordTrustTier d tier s of
        (Inr out, s') \<Rightarrow> (Inr out, to_proto s')
      | (Inl _, s') \<Rightarrow>
          (Inl (if validateTrustTier tier \<noteq> [] then RecordTrustTierInvalid (validateTrustTier tier)
                else NoRegisteredImage d), to_proto s'))"
proof (cases "named_by trust_tier_name TRUST_TIERS tier")
  case None
  then show ?thesis
    by (simp add: proto_recordTrustTier_def recordTrustTier_def Let_def proto_validateTrustTier_def
        validateTrustTier_def tx_simps)
next
  case (Some t)
  have "rg_service_images (with_tier d t s) = sql_update (\<lambda>r. si_digest r = d)
      (\<lambda>r. r\<lparr>si_trustTier := t, si_updatedAt := rg_now s\<rparr>) (rg_service_images s)"
    by (simp add: with_tier_def)
  with Some show ?thesis
    by (simp add: proto_recordTrustTier_def recordTrustTier_def Let_def proto_validateTrustTier_def
        validateTrustTier_def tx_simps serviceImages_updateTrustTier_def find_image_def to_proto_def
        with_tier_def first_row_def split: list.split)
qed

lemma proto_getPlacementFacts_eq:
  "proto_getPlacementFacts d f t =
     (Inr (map_option (\<lambda>(si, fc).
         \<lparr>qf_digest = si_digest si, qf_function = pc_functionName fc,
          qf_capability = proto_capability.truncate fc, qf_trustTier = si_trustTier si,
          qf_hardwareRequirements = si_hardwareRequirements si\<rparr>)
       (first_row (concat (map (\<lambda>si.
         map (Pair si) (sql_select (\<lambda>fc. pc_digest fc = si_digest si \<and> pc_functionName fc = f)
           (pr_function_capabilities t)))
         (sql_select (\<lambda>si. si_digest si = d) (pr_service_images t)))))), t)"
proof -
  have "(case rows of [] \<Rightarrow> tx_return None | (si, fc) # _ \<Rightarrow> tx_return (Some (F si fc))) t
      = (Inr (map_option (\<lambda>(si, fc). F si fc) (first_row rows)), t)" for rows and F :: "'a \<Rightarrow> 'b \<Rightarrow> 'c"
    by (auto simp: tx_simps first_row_def split: list.split)
  then show ?thesis
    by (simp only: proto_getPlacementFacts_def tx_bind_def tx_read_def prod.case sum.case)
qed

lemma proto_getPlacementFacts_step:
  "proto_getPlacementFacts d f (to_proto s) =
     (Inr (map_option to_proto_facts (projr (fst (getPlacementFacts d f s)))), to_proto s)"
proof -
  define rows where "rows = joined_facts s d f"
  have digest: "fc_digest c = si_digest i" if "first_row rows = Some (i, c)" for i c
    using first_row_in [OF that] by (auto simp: rows_def joined_facts_def table_simps)
  have "concat (map (\<lambda>si. map (Pair si) (sql_select
        (\<lambda>fc. pc_digest fc = si_digest si \<and> pc_functionName fc = f) (pr_function_capabilities (to_proto s))))
      (sql_select (\<lambda>si. si_digest si = d) (pr_service_images (to_proto s))))
      = map (map_prod id to_proto_row) rows"
    by (simp add: rows_def joined_facts_def sql_select_map map_concat comp_def)
  moreover have "projr (fst (getPlacementFacts d f s)) = map_option (\<lambda>(i, c).
      \<lparr>pf_digest = fc_digest c, pf_function = fc_functionName c,
       pf_capability = function_capability_input.truncate c, pf_trustTier = si_trustTier i,
       pf_hardwareRequirements = si_hardwareRequirements i\<rparr>) (first_row rows)"
    by (simp add: getPlacementFacts_def tx_simps rows_def)
  ultimately show ?thesis
    unfolding proto_getPlacementFacts_eq using digest
    by (cases "first_row rows") (auto simp only: first_row_map option.map to_proto_facts_def split_conv
        map_prod_simp id_apply to_proto_row_sel placement_facts.simps)
qed

lemma fold_update_values:
  "fold (\<lambda>c. AList.update (k c) (g (v c))) cs (map (map_prod id g) acc)
     = map (map_prod id g) (fold (\<lambda>c. AList.update (k c) (v c)) cs acc)"
proof (induction cs arbitrary: acc)
  case (Cons c cs)
  have update: "AList.update x (g y) (map (map_prod id g) ys) = map (map_prod id g) (AList.update x y ys)"
    for x y ys
    by (induction ys) auto
  show ?case unfolding fold_simps update by (rule Cons.IH)
qed simp

lemma proto_getEntry_step:
  "proto_getEntry d (to_proto s) =
     (Inr (map_option to_proto_entry (projr (fst (getEntry d s)))), to_proto s)"
proof -
  define cs where "cs = sort_key fc_functionName (sql_select (\<lambda>c. fc_digest c = d) (rg_function_capabilities s))"
  have "sort_key pc_functionName (sql_select (\<lambda>fc. pc_digest fc = d) (pr_function_capabilities (to_proto s)))
      = map to_proto_row cs"
    by (simp add: cs_def sql_select_map sort_key_map)
  moreover have "fold (\<lambda>fn. AList.update (pc_functionName fn) (proto_capability.truncate fn)) (map to_proto_row cs) []
      = map (map_prod id to_proto_capability)
          (fold (\<lambda>c. AList.update (fc_functionName c) (function_capability_input.truncate c)) cs [])"
    using fold_update_values [of fc_functionName to_proto_capability function_capability_input.truncate cs "[]"]
    by (simp add: fold_map comp_def)
  ultimately show ?thesis
    by (cases "sql_select (\<lambda>si. si_digest si = d) (rg_service_images s)")
      (simp_all add: proto_getEntry_def getEntry_def serviceImages_findByDigest_def find_image_def
        functionCapabilities_listByDigest_def tx_simps to_proto_entry_def service_image.defs flip: cs_def)
qed

subsection \<open>The property\<close>

text \<open>C34. The registry does what its prototype did: the prototype's validation reports exactly those
  of the registry's errors that it knows, in the same order; whatever the registry accepts after
  any history, the prototype accepts and stores alike, with what it has no columns for left out,
  as long as neither map is an explicit \<open>null\<close>; a tier record succeeds or fails for both; and
  both reads return the same facts. The answers of a registration differ: the registry gives the
  tier that the image has, the prototype gives \<open>unverified\<close> even for an image that keeps its
  earned tier. A specification that is an array, which both validations let through, is outside
  this comparison: the prototype hands it to the driver unserialised, and the model stores it
  as it is.\<close>

theorem registry_extends_its_prototype:
  "proto_validateRegistration inp = filter prototype_error (validateRegistration inp)
   \<and> (registerImage conn inp (registry_after cmds) = (Inr (d, tier), s')
       \<and> in_capabilityMetadata inp \<noteq> Some JNull \<and> in_hardwareRequirements inp \<noteq> Some JNull \<longrightarrow>
        proto_registerImage conn rollback_ok inp (to_proto (registry_after cmds))
          = (Inr (d, Unverified), to_proto s')
        \<and> map_option si_trustTier (proto_find_image (to_proto s') d) = Some tier)
   \<and> proto_recordTrustTier d t (to_proto s) =
       (case recordTrustTier d t s of
          (Inr out, s'') \<Rightarrow> (Inr out, to_proto s'')
        | (Inl _, s'') \<Rightarrow>
            (Inl (if validateTrustTier t \<noteq> [] then RecordTrustTierInvalid (validateTrustTier t)
                  else NoRegisteredImage d), to_proto s''))
   \<and> proto_getPlacementFacts d f (to_proto s)
       = (Inr (map_option to_proto_facts (projr (fst (getPlacementFacts d f s)))), to_proto s)
   \<and> proto_getEntry d (to_proto s)
       = (Inr (map_option to_proto_entry (projr (fst (getEntry d s)))), to_proto s)"
proof -
  have "map_option si_trustTier (find_image s' d) = Some tier"
    if "registerImage conn inp (registry_after cmds) = (Inr (d, tier), s')"
    using that by (cases rule: registerImage_cases [of conn inp "registry_after cmds"])
      (auto simp: registered_sel upserted_image_def split: option.split)
  then show ?thesis
    using proto_registerImage_step [OF registry_after_inv]
    by (auto simp: proto_registration_errors proto_recordTrustTier_step proto_getPlacementFacts_step
        proto_getEntry_step)
qed

lemma registry_extends_its_prototype_witness:
  "\<exists>t. proto_registerImage Healthy True sample_registration (to_proto (registry_after sample_commands))
      = (Inr (''sha256:1'', Unverified), t)
     \<and> map_option si_trustTier (proto_find_image t ''sha256:1'') = Some ProductionProven"
proof -
  have "fst (registerImage Healthy sample_registration (registry_after sample_commands))
      = Inr (''sha256:1'', ProductionProven)"
    by code_simp
  then obtain s' where run: "registerImage Healthy sample_registration (registry_after sample_commands)
      = (Inr (''sha256:1'', ProductionProven), s')"
    by (metis prod.collapse)
  have "in_capabilityMetadata sample_registration \<noteq> Some JNull"
    "in_hardwareRequirements sample_registration \<noteq> Some JNull"
    by (simp_all add: sample_registration_def)
  with run registry_extends_its_prototype [of sample_registration Healthy sample_commands "''sha256:1''"
      ProductionProven s' True None s' "''f''"]
  show ?thesis by blast
qed

end
