(* ===== verification/Worker_Startup.thy ===== *)
theory Worker_Startup
  imports Worker_Properties
begin

text \<open>
  \<open>shared/config.ts\<close>, \<open>apps/worker/config.ts\<close> and \<open>apps/worker/main.ts\<close>: how a worker process
  starts and ends. The two schemas are data; \<open>zod\<close> is the parameter \<open>safeParse\<close>, and
  \<open>follows_zod\<close> says what its documentation promises of the checks that the schemas use. Which
  strings \<open>new URL\<close> accepts and what \<open>Number\<close> makes of a string are parameters of that promise
  (\<open>None\<close> for \<open>NaN\<close> and the infinities). A count that is accepted is the integer it denotes.
\<close>

subsection \<open>The schemas\<close>

text \<open>
  \<open>z.string().min(1)\<close>, \<open>z.string().url()\<close>, \<open>z.string().min(1).optional()\<close>,
  \<open>z.coerce.number().int().positive().default(d)\<close>, \<open>z.enum(es).default(e)\<close>.
\<close>

datatype env_field =
    RequiredString
  | RequiredUrl
  | OptionalString
  | CountWithDefault int
  | ChoiceWithDefault "string list" string

datatype env_value = EnvText string | EnvCount int

type_synonym process_env = "string \<Rightarrow> string option"
type_synonym parsed_env = "(string \<times> env_value option) list"
type_synonym safe_parse = "(string \<times> env_field) list \<Rightarrow> process_env \<Rightarrow> parsed_env option"

definition DEFAULT_CLAIM_LEASE_SECONDS :: int where "DEFAULT_CLAIM_LEASE_SECONDS = 30"
definition DEFAULT_INVOKE_TIMEOUT_MS :: int where "DEFAULT_INVOKE_TIMEOUT_MS = 30000"
definition DEFAULT_POLL_INTERVAL_MS :: int where "DEFAULT_POLL_INTERVAL_MS = 250"

definition LOG_LEVELS :: "string list" where
  "LOG_LEVELS = [''fatal'', ''error'', ''warn'', ''info'', ''debug'', ''trace'', ''silent'']"

definition EnvSchema :: "(string \<times> env_field) list" where
  "EnvSchema = [(''LOG_LEVEL'', ChoiceWithDefault LOG_LEVELS ''info'')]"

definition worker_EnvSchema :: "(string \<times> env_field) list" where
  "worker_EnvSchema =
     [(''DATABASE_URL'', RequiredString),
      (''AGENT_INVOKE_BASE_URL'', RequiredUrl),
      (''AGENT_AUTH_TOKEN'', OptionalString),
      (''WORKER_ID'', OptionalString),
      (''CLAIM_LEASE_SECONDS'', CountWithDefault DEFAULT_CLAIM_LEASE_SECONDS),
      (''INVOKE_TIMEOUT_MS'', CountWithDefault DEFAULT_INVOKE_TIMEOUT_MS),
      (''POLL_INTERVAL_MS'', CountWithDefault DEFAULT_POLL_INTERVAL_MS)]"

subsection \<open>What \<open>zod\<close> documents\<close>

definition count_field :: "(string \<Rightarrow> rat option) \<Rightarrow> int \<Rightarrow> string option \<Rightarrow> int option" where
  "count_field number d v =
     (case v of
        None \<Rightarrow> Some d
      | Some s \<Rightarrow>
          (case number s of
             None \<Rightarrow> None
           | Some n \<Rightarrow> if snd (quotient_of n) = 1 \<and> 0 < n then Some (fst (quotient_of n)) else None))"

text \<open>The outer option is the verdict; the inner one tells \<open>undefined\<close>.\<close>

fun zod_field ::
  "(string \<Rightarrow> bool) \<Rightarrow> (string \<Rightarrow> rat option) \<Rightarrow> env_field \<Rightarrow> string option \<Rightarrow> env_value option option"
where
  "zod_field url number RequiredString v =
     (case v of None \<Rightarrow> None | Some s \<Rightarrow> if s = [] then None else Some (Some (EnvText s)))"
| "zod_field url number RequiredUrl v =
     (case v of None \<Rightarrow> None | Some s \<Rightarrow> if url s then Some (Some (EnvText s)) else None)"
| "zod_field url number OptionalString v =
     (case v of None \<Rightarrow> Some None | Some s \<Rightarrow> if s = [] then None else Some (Some (EnvText s)))"
| "zod_field url number (CountWithDefault d) v = map_option (Some \<circ> EnvCount) (count_field number d v)"
| "zod_field url number (ChoiceWithDefault es d) v =
     (case v of
        None \<Rightarrow> Some (Some (EnvText d))
      | Some s \<Rightarrow> if s \<in> set es then Some (Some (EnvText s)) else None)"

fun zod_object :: "(string \<Rightarrow> bool) \<Rightarrow> (string \<Rightarrow> rat option) \<Rightarrow> safe_parse" where
  "zod_object url number [] env = Some []"
| "zod_object url number ((k, f) # rest) env =
     (case zod_field url number f (env k) of
        None \<Rightarrow> None
      | Some v \<Rightarrow> map_option ((#) (k, v)) (zod_object url number rest env))"

definition follows_zod :: "(string \<Rightarrow> bool) \<Rightarrow> (string \<Rightarrow> rat option) \<Rightarrow> safe_parse \<Rightarrow> bool" where
  "follows_zod url number safeParse \<longleftrightarrow>
     (\<forall>schema env. safeParse schema env = zod_object url number schema env)"

subsection \<open>The parsers\<close>

record worker_config =
  wc_databaseUrl :: string
  wc_agentInvokeBaseUrl :: string
  wc_agentAuthToken :: "string option"
  wc_workerId :: "string option"
  wc_claimLeaseSeconds :: int
  wc_invokeTimeoutMs :: int
  wc_pollIntervalMs :: int

definition env_text :: "parsed_env \<Rightarrow> string \<Rightarrow> string option" where
  "env_text data k = (case map_of data k of Some (Some (EnvText s)) \<Rightarrow> Some s | _ \<Rightarrow> None)"

definition env_count :: "parsed_env \<Rightarrow> string \<Rightarrow> int option" where
  "env_count data k = (case map_of data k of Some (Some (EnvCount n)) \<Rightarrow> Some n | _ \<Rightarrow> None)"

definition parseConfig :: "safe_parse \<Rightarrow> process_env \<Rightarrow> string result" where
  "parseConfig safeParse env =
     (case safeParse EnvSchema env of
        None \<Rightarrow> Inl (HostError ''Error'')
      | Some data \<Rightarrow> Inr (the (env_text data ''LOG_LEVEL'')))"

definition parseWorkerConfig :: "safe_parse \<Rightarrow> process_env \<Rightarrow> worker_config result" where
  "parseWorkerConfig safeParse env =
     (case safeParse worker_EnvSchema env of
        None \<Rightarrow> Inl (HostError ''Error'')
      | Some data \<Rightarrow> Inr
          \<lparr>wc_databaseUrl = the (env_text data ''DATABASE_URL''),
           wc_agentInvokeBaseUrl = the (env_text data ''AGENT_INVOKE_BASE_URL''),
           wc_agentAuthToken = env_text data ''AGENT_AUTH_TOKEN'',
           wc_workerId = env_text data ''WORKER_ID'',
           wc_claimLeaseSeconds = the (env_count data ''CLAIM_LEASE_SECONDS''),
           wc_invokeTimeoutMs = the (env_count data ''INVOKE_TIMEOUT_MS''),
           wc_pollIntervalMs = the (env_count data ''POLL_INTERVAL_MS'')\<rparr>)"

subsection \<open>The process\<close>

text \<open>What \<open>main\<close> hands to the loop; \<open>host\<close> and \<open>pid\<close> are the parts of the generated id.\<close>

definition generateWorkerId :: "string \<Rightarrow> string \<Rightarrow> string" where
  "generateWorkerId host pid = host @ '':'' @ pid"

definition deps_of :: "string \<Rightarrow> string \<Rightarrow> worker_config \<Rightarrow> worker_deps" where
  "deps_of host pid config =
     \<lparr>wd_agentBaseUrl = wc_agentInvokeBaseUrl config,
      wd_workerId = (case wc_workerId config of None \<Rightarrow> generateWorkerId host pid | Some i \<Rightarrow> i),
      wd_leaseSeconds = wc_claimLeaseSeconds config, wd_invokeTimeoutMs = wc_invokeTimeoutMs config,
      wd_agentAuthToken = wc_agentAuthToken config\<rparr>"

text \<open>
  A signal aborts the controller, which stays aborted: \<open>sigterm\<close> and \<open>sigint\<close> are the looks of the
  loop from which on each has arrived, \<open>None\<close> when it does not come. A signal of each kind comes
  at most once here: \<open>once\<close> takes the listener off again, so a second signal of the same kind
  kills the process wherever it is, which is a crash and not modelled.
\<close>

definition shutdown_seen :: "nat option \<Rightarrow> nat option \<Rightarrow> nat \<Rightarrow> bool" where
  "shutdown_seen sigterm sigint look \<longleftrightarrow>
     (case sigterm of None \<Rightarrow> False | Some k \<Rightarrow> k \<le> look) \<or> (case sigint of None \<Rightarrow> False | Some k \<Rightarrow> k \<le> look)"

text \<open>
  The process as its exit code and the database it leaves; \<open>None\<close> when it runs for ever. The import
  of \<open>shared/index.js\<close> evaluates \<open>config = parseConfig(process.env)\<close> first; an error there is
  uncaught and ends the process before \<open>main\<close> is called. \<open>pool_ends\<close> tells whether \<open>pool.end()\<close>
  fulfils in the \<open>finally\<close>.
\<close>

definition worker_main ::
  "safe_parse \<Rightarrow> process_env \<Rightarrow> string \<Rightarrow> string \<Rightarrow> nat option \<Rightarrow> nat option \<Rightarrow> bool \<Rightarrow>
     (rat \<Rightarrow> string) \<Rightarrow> world \<Rightarrow> core_db \<Rightarrow> (nat \<times> core_db) option" where
  "worker_main safeParse env host pid sigterm sigint pool_ends num w s =
     (case parseConfig safeParse env of
        Inl _ \<Rightarrow> Some (1, s)
      | Inr logLevel \<Rightarrow>
          (case parseWorkerConfig safeParse env of
             Inl _ \<Rightarrow> Some (1, s)
           | Inr config \<Rightarrow>
               (case runWorkerLoop num (deps_of host pid config) (wc_pollIntervalMs config)
                       (w\<lparr>wo_aborted := shutdown_seen sigterm sigint\<rparr>) 0 [] s of
                  None \<Rightarrow> None
                | Some (s', _, _) \<Rightarrow> Some (if pool_ends then 0 else 1, s'))))"

subsection \<open>The environment of a worker\<close>

lemma follows_zodD: "follows_zod url number sp \<Longrightarrow> sp schema env = zod_object url number schema env"
  by (simp add: follows_zod_def)

lemma count_field_positive:
  "count_field number d v = Some n \<Longrightarrow> 0 < d \<Longrightarrow> 0 < n"
proof -
  have "0 < fst (quotient_of q)" if "0 < q" for q :: rat
  proof -
    obtain a b where ab: "quotient_of q = (a, b)" by force
    with that quotient_of_div [OF ab] quotient_of_denom_pos [OF ab] show ?thesis
      by (auto simp: zero_less_divide_iff)
  qed
  then show "count_field number d v = Some n \<Longrightarrow> 0 < d \<Longrightarrow> 0 < n"
    by (auto simp: count_field_def split: option.splits if_splits)
qed

lemma parseWorkerConfig_Inr:
  assumes "follows_zod url number sp"
  shows "parseWorkerConfig sp env = Inr c \<longleftrightarrow>
    env ''DATABASE_URL'' = Some (wc_databaseUrl c) \<and> wc_databaseUrl c \<noteq> []
    \<and> env ''AGENT_INVOKE_BASE_URL'' = Some (wc_agentInvokeBaseUrl c) \<and> url (wc_agentInvokeBaseUrl c)
    \<and> env ''AGENT_AUTH_TOKEN'' = wc_agentAuthToken c \<and> wc_agentAuthToken c \<noteq> Some []
    \<and> env ''WORKER_ID'' = wc_workerId c \<and> wc_workerId c \<noteq> Some []
    \<and> count_field number 30 (env ''CLAIM_LEASE_SECONDS'') = Some (wc_claimLeaseSeconds c)
    \<and> count_field number 30000 (env ''INVOKE_TIMEOUT_MS'') = Some (wc_invokeTimeoutMs c)
    \<and> count_field number 250 (env ''POLL_INTERVAL_MS'') = Some (wc_pollIntervalMs c)"
  by (cases c) (auto simp: parseWorkerConfig_def follows_zodD [OF assms] worker_EnvSchema_def env_text_def
      env_count_def DEFAULT_CLAIM_LEASE_SECONDS_def DEFAULT_INVOKE_TIMEOUT_MS_def DEFAULT_POLL_INTERVAL_MS_def
      split: option.splits if_splits)

lemma parseConfig_Inr:
  assumes "follows_zod url number sp"
  shows "parseConfig sp env = Inr level \<longleftrightarrow>
    level \<in> set LOG_LEVELS \<and> level = (case env ''LOG_LEVEL'' of None \<Rightarrow> ''info'' | Some l \<Rightarrow> l)"
  by (auto simp: parseConfig_def follows_zodD [OF assms] EnvSchema_def env_text_def LOG_LEVELS_def
      split: option.splits if_splits)

subsection \<open>The properties\<close>

text \<open>The sample deployment: a database and an agent, and everything else by default.\<close>

fun sample_env :: process_env where
  "sample_env k =
     (if k = ''DATABASE_URL'' then Some ''postgres://db''
      else if k = ''AGENT_INVOKE_BASE_URL'' then Some ''http://agent'' else None)"

definition sample_zod :: safe_parse where
  "sample_zod = zod_object (\<lambda>s. take 7 s = ''http://'') (\<lambda>s. if s = ''2147483648'' then Some 2147483648 else None)"

lemma sample_zod: "follows_zod (\<lambda>s. take 7 s = ''http://'')
    (\<lambda>s. if s = ''2147483648'' then Some 2147483648 else None) sample_zod"
  by (simp add: follows_zod_def sample_zod_def)

text \<open>C24. Configuration fails closed: with a validator that does what \<open>zod\<close> documents, a worker's
  environment is accepted exactly when the two required variables are there, no optional string
  is empty, the address is a URL and every count that is given is a positive whole number, and
  then each field is the variable's value or the documented default, so leases, timeouts and
  poll intervals are positive; anything else throws. A worker that finds nothing to do sleeps for
  its poll interval if a timer can hold it, and for one millisecond if not, since no count is
  bounded from above. The log level is one of the known ones.\<close>

theorem configuration_fails_closed:
  assumes "follows_zod url number sp"
  shows "(parseWorkerConfig sp env = Inr c \<longleftrightarrow>
      env ''DATABASE_URL'' = Some (wc_databaseUrl c) \<and> wc_databaseUrl c \<noteq> []
      \<and> env ''AGENT_INVOKE_BASE_URL'' = Some (wc_agentInvokeBaseUrl c) \<and> url (wc_agentInvokeBaseUrl c)
      \<and> env ''AGENT_AUTH_TOKEN'' = wc_agentAuthToken c \<and> wc_agentAuthToken c \<noteq> Some []
      \<and> env ''WORKER_ID'' = wc_workerId c \<and> wc_workerId c \<noteq> Some []
      \<and> count_field number 30 (env ''CLAIM_LEASE_SECONDS'') = Some (wc_claimLeaseSeconds c)
      \<and> count_field number 30000 (env ''INVOKE_TIMEOUT_MS'') = Some (wc_invokeTimeoutMs c)
      \<and> count_field number 250 (env ''POLL_INTERVAL_MS'') = Some (wc_pollIntervalMs c))
    \<and> (parseWorkerConfig sp env = Inr c \<longrightarrow>
        0 < wc_claimLeaseSeconds c \<and> 0 < wc_invokeTimeoutMs c \<and> 0 < wc_pollIntervalMs c
        \<and> worker_sleep (wc_pollIntervalMs c) None =
            (if wc_pollIntervalMs c \<le> 2147483647 then wc_pollIntervalMs c else 1))
    \<and> (parseConfig sp env = Inr level \<longleftrightarrow>
        level \<in> set LOG_LEVELS \<and> level = (case env ''LOG_LEVEL'' of None \<Rightarrow> ''info'' | Some l \<Rightarrow> l))"
proof (intro conjI impI)
  assume "parseWorkerConfig sp env = Inr c"
  note counts = this [unfolded parseWorkerConfig_Inr [OF assms]]
  show "0 < wc_claimLeaseSeconds c" "0 < wc_invokeTimeoutMs c" and poll: "0 < wc_pollIntervalMs c"
    using counts by (auto intro: count_field_positive)
  show "worker_sleep (wc_pollIntervalMs c) None =
      (if wc_pollIntervalMs c \<le> 2147483647 then wc_pollIntervalMs c else 1)"
    using poll by (simp add: worker_sleep_def timer_delay_def)
qed (rule parseWorkerConfig_Inr [OF assms] parseConfig_Inr [OF assms])+

lemma configuration_fails_closed_witness:
  "\<exists>c. parseWorkerConfig sample_zod sample_env = Inr c \<and> wc_pollIntervalMs c = 250 \<and> wc_workerId c = None"
proof -
  define c where "c = \<lparr>wc_databaseUrl = ''postgres://db'', wc_agentInvokeBaseUrl = ''http://agent'',
    wc_agentAuthToken = None, wc_workerId = None, wc_claimLeaseSeconds = 30, wc_invokeTimeoutMs = 30000,
    wc_pollIntervalMs = 250\<rparr>"
  from configuration_fails_closed [OF sample_zod, of sample_env c "''info''"]
  show ?thesis by (auto simp: c_def count_field_def intro!: exI [of _ c])
qed

text \<open>
  No bound is checked from above: a poll interval of more than \<open>2147483647\<close> milliseconds is
  accepted, and a worker configured to poll every 25 days polls every millisecond.
\<close>

theorem long_poll_interval_spins:
  "\<exists>c. parseWorkerConfig sample_zod (sample_env(''POLL_INTERVAL_MS'' \<mapsto> ''2147483648'')) = Inr c
     \<and> wc_pollIntervalMs c = 2147483648 \<and> worker_sleep (wc_pollIntervalMs c) None = 1"
proof -
  have "quotient_of 2147483648 = (2147483648, 1)" by code_simp
  then show ?thesis
    by (auto simp: parseWorkerConfig_Inr [OF sample_zod] count_field_def worker_sleep_def timer_delay_def
        intro!: exI [of _ "\<lparr>wc_databaseUrl = ''postgres://db'', wc_agentInvokeBaseUrl = ''http://agent'',
          wc_agentAuthToken = None, wc_workerId = None, wc_claimLeaseSeconds = 30, wc_invokeTimeoutMs = 30000,
          wc_pollIntervalMs = 2147483648\<rparr>"])
qed

text \<open>C25. A worker process ends as it should. An environment whose log level or whose worker
  configuration is refused ends it with exit code 1 before the database is touched. Otherwise it
  returns once a \<open>SIGTERM\<close> or a \<open>SIGINT\<close> has come (each at most once: a second signal of the same
  kind would kill it, and is not considered), after no more cycles than it had begun by then,
  with exit code 0 unless closing the pool fails; each of its sleeps lasted for the configured
  poll interval (a millisecond where a timer cannot hold that) or until the signal came; and it
  leaves a database that the engine can reach, whatever the agent and the connection do, as long as the other
  clients keep the database one that the engine can reach. Without a signal it never returns.\<close>

theorem signalled_worker_exits_cleanly:
  assumes "\<And>k u. engine_reachable u \<Longrightarrow> engine_reachable (wo_others w k u)" "engine_reachable s"
  shows "(parseConfig sp env = Inl err \<or> parseWorkerConfig sp env = Inl err \<longrightarrow>
        worker_main sp env host pid sigterm sigint pool_ends num w s = Some (1, s))
    \<and> (parseConfig sp env = Inr level \<and> parseWorkerConfig sp env = Inr c \<and> shutdown_seen sigterm sigint (2 * m) \<longrightarrow>
        (\<exists>s' k slept. runWorkerLoop num (deps_of host pid c) (wc_pollIntervalMs c)
               (w\<lparr>wo_aborted := shutdown_seen sigterm sigint\<rparr>) 0 [] s = Some (s', k, slept)
           \<and> k \<le> m \<and> length slept \<le> k
           \<and> (\<forall>ms \<in> set slept. \<exists>n < k. ms = worker_sleep (wc_pollIntervalMs c) (wo_abortedAfter w n))
           \<and> engine_reachable s'
           \<and> worker_main sp env host pid sigterm sigint pool_ends num w s
               = Some (if pool_ends then 0 else 1, s')))
    \<and> (parseConfig sp env = Inr level \<and> parseWorkerConfig sp env = Inr c \<longrightarrow>
        worker_main sp env host pid None None pool_ends num w s = None)"
proof -
  define v where "v = w\<lparr>wo_aborted := shutdown_seen sigterm sigint\<rparr>"
  have others: "wo_others v = wo_others w" "wo_aborted v = shutdown_seen sigterm sigint"
    "wo_abortedAfter v = wo_abortedAfter w" by (simp_all add: v_def)
  have "\<exists>s' k slept. runWorkerLoop num (deps_of host pid c) (wc_pollIntervalMs c) v 0 [] s = Some (s', k, slept)
      \<and> k \<le> m \<and> length slept \<le> k
      \<and> (\<forall>ms \<in> set slept. \<exists>n < k. ms = worker_sleep (wc_pollIntervalMs c) (wo_abortedAfter w n))
      \<and> engine_reachable s'" if seen: "shutdown_seen sigterm sigint (2 * m)"
  proof -
    from loop_reaches_abort [of v 0 m num "deps_of host pid c" "wc_pollIntervalMs c" "[]" s] seen
    obtain s' k slept where run: "runWorkerLoop num (deps_of host pid c) (wc_pollIntervalMs c) v 0 [] s = Some (s', k, slept)"
      "k \<le> m" "length slept \<le> k" by (auto simp: others)
    with loop_result [OF run(1)] assms show ?thesis by (auto simp: others sleeps_of_def)
  qed
  moreover have "runWorkerLoop num (deps_of host pid c) (wc_pollIntervalMs c)
      (w\<lparr>wo_aborted := shutdown_seen None None\<rparr>) 0 [] s = None"
    by (cases "runWorkerLoop num (deps_of host pid c) (wc_pollIntervalMs c)
        (w\<lparr>wo_aborted := shutdown_seen None None\<rparr>) 0 [] s")
      (auto dest!: loop_result simp: shutdown_seen_def)
  ultimately show ?thesis
    by (auto simp: worker_main_def split: sum.split simp flip: v_def)
qed

lemma signalled_worker_exits_cleanly_witness:
  "\<exists>s'. worker_main sample_zod sample_env ''host'' ''1'' (Some 3) None True (\<lambda>_. ''0'') short_world db_submitted
     = Some (0, s') \<and> engine_reachable s'"
proof -
  have others: "engine_reachable u \<Longrightarrow> engine_reachable (wo_others short_world k u)" for k u
    by (simp add: short_world_def)
  have "case parseWorkerConfig sample_zod sample_env of Inl _ \<Rightarrow> False | Inr _ \<Rightarrow> True"
    "case parseConfig sample_zod sample_env of Inl _ \<Rightarrow> False | Inr _ \<Rightarrow> True" by code_simp+
  then obtain c level where "parseWorkerConfig sample_zod sample_env = Inr c" "parseConfig sample_zod sample_env = Inr level"
    by (auto split: sum.splits)
  moreover have "shutdown_seen (Some 3) None (2 * 2)" by (simp add: shutdown_seen_def)
  ultimately show ?thesis
    using signalled_worker_exits_cleanly [OF others sample_reachable(2), of sample_zod sample_env
        undefined "''host''" "''1''" "Some 3" None True "\<lambda>_. ''0''" level c 2] by auto
qed

end
