(* ===== verification/Wake_Listener.thy ===== *)
theory Wake_Listener
  imports Core_Claims
begin

text \<open>
  \<open>core/database/wake-listener.ts\<close>: a dedicated connection that listens on
  \<open>EXECUTION_READY_CHANNEL\<close> and hands each notification to the callbacks that are registered. A
  callback is a number, its identity as a member of a \<open>Set\<close>; which callbacks throw is a
  parameter. A callback that registers or removes callbacks while it runs is not modelled.
\<close>

record wake_listener =
  wl_callbacks :: "nat list"
  wl_attached :: bool

text \<open>\<open>createWakeListener\<close>: the connection or the \<open>LISTEN\<close> may fail.\<close>

definition createWakeListener :: "bool \<Rightarrow> bool \<Rightarrow> wake_listener result" where
  "createWakeListener connects listens =
     (if \<not> connects then Inl (HostError ''connect'')
      else if \<not> listens then Inl (HostError ''LISTEN'')
      else Inr \<lparr>wl_callbacks = [], wl_attached = True\<rparr>)"

text \<open>\<open>onNotify\<close>, the function that it returns, and \<open>close\<close>.\<close>

definition onNotify :: "nat \<Rightarrow> wake_listener \<Rightarrow> wake_listener" where
  "onNotify callback wl = wl\<lparr>wl_callbacks := set_add callback (wl_callbacks wl)\<rparr>"

definition unsubscribe :: "nat \<Rightarrow> wake_listener \<Rightarrow> wake_listener" where
  "unsubscribe callback wl = wl\<lparr>wl_callbacks := filter (\<lambda>c. c \<noteq> callback) (wl_callbacks wl)\<rparr>"

definition close_listener :: "wake_listener \<Rightarrow> wake_listener" where
  "close_listener wl = \<lparr>wl_callbacks = [], wl_attached = False\<rparr>"

text \<open>The calls that a notification causes: the first callback that throws ends the loop.\<close>

fun call_each :: "(nat \<Rightarrow> bool) \<Rightarrow> string \<Rightarrow> nat list \<Rightarrow> (nat \<times> string) list" where
  "call_each throws payload [] = []"
| "call_each throws payload (c # cs) =
     (c, payload) # (if throws c then [] else call_each throws payload cs)"

definition handleNotification ::
  "(nat \<Rightarrow> bool) \<Rightarrow> string \<Rightarrow> string option \<Rightarrow> wake_listener \<Rightarrow> (nat \<times> string) list" where
  "handleNotification throws channel payload wl =
     (if \<not> wl_attached wl \<or> channel \<noteq> EXECUTION_READY_CHANNEL then []
      else call_each throws (nullish payload []) (wl_callbacks wl))"

subsection \<open>Who is called\<close>

datatype listener_command = Subscribe nat | Unsubscribe nat | Close_listener

fun exec_listener :: "listener_command \<Rightarrow> wake_listener \<Rightarrow> wake_listener" where
  "exec_listener (Subscribe c) = onNotify c"
| "exec_listener (Unsubscribe c) = unsubscribe c"
| "exec_listener Close_listener = close_listener"

definition listener_after :: "listener_command list \<Rightarrow> wake_listener" where
  "listener_after cmds = fold exec_listener cmds \<lparr>wl_callbacks = [], wl_attached = True\<rparr>"

lemmas listener_ops = onNotify_def unsubscribe_def close_listener_def

lemma call_each_quiet: "(\<And>c. c \<in> set cs \<Longrightarrow> \<not> throws c) \<Longrightarrow> call_each throws p cs = map (\<lambda>c. (c, p)) cs"
  by (induction cs) auto

lemma listener_after_attached: "wl_attached (listener_after cmds) \<longleftrightarrow> Close_listener \<notin> set cmds"
proof (induction cmds rule: rev_induct)
  case (snoc c cmds)
  then show ?case by (cases c) (auto simp: listener_after_def listener_ops)
qed (simp add: listener_after_def)

definition last_subscribes :: "nat \<Rightarrow> listener_command list \<Rightarrow> bool" where
  "last_subscribes c cmds \<longleftrightarrow>
     (\<exists>before later. cmds = before @ Subscribe c # later \<and> Unsubscribe c \<notin> set later)"

lemma last_subscribes_snoc:
  "last_subscribes c (cmds @ [x]) \<longleftrightarrow> x = Subscribe c \<or> x \<noteq> Unsubscribe c \<and> last_subscribes c cmds"
proof
  assume "last_subscribes c (cmds @ [x])"
  then obtain before later where *: "cmds @ [x] = before @ Subscribe c # later" "Unsubscribe c \<notin> set later"
    by (auto simp: last_subscribes_def)
  show "x = Subscribe c \<or> x \<noteq> Unsubscribe c \<and> last_subscribes c cmds"
  proof (cases later rule: rev_cases)
    case (snoc ys y)
    with * have "cmds = before @ Subscribe c # ys" "x = y" by (simp_all flip: append_assoc append_Cons)
    with * snoc show ?thesis by (auto simp: last_subscribes_def)
  qed (use * in simp)
next
  assume "x = Subscribe c \<or> x \<noteq> Unsubscribe c \<and> last_subscribes c cmds"
  then consider "x = Subscribe c"
    | before later where "x \<noteq> Unsubscribe c" "cmds = before @ Subscribe c # later" "Unsubscribe c \<notin> set later"
    unfolding last_subscribes_def by blast
  then show "last_subscribes c (cmds @ [x])"
  proof cases
    case 1
    then show ?thesis unfolding last_subscribes_def by (intro exI [of _ cmds] exI [of _ "[]"]) simp
  next
    case 2
    then show ?thesis unfolding last_subscribes_def
      by (intro exI [of _ before] exI [of _ "later @ [x]"]) auto
  qed
qed

lemma listener_after_callbacks:
  "distinct (wl_callbacks (listener_after cmds))"
  "Close_listener \<notin> set cmds \<Longrightarrow>
     c \<in> set (wl_callbacks (listener_after cmds)) \<longleftrightarrow> last_subscribes c cmds"
proof (induction cmds rule: rev_induct)
  case (snoc x cmds)
  show "distinct (wl_callbacks (listener_after (cmds @ [x])))"
    using snoc.IH(1) by (cases x) (simp_all add: listener_after_def listener_ops)
  show "c \<in> set (wl_callbacks (listener_after (cmds @ [x]))) \<longleftrightarrow> last_subscribes c (cmds @ [x])"
    if "Close_listener \<notin> set (cmds @ [x])"
    using that snoc.IH(2) by (cases x) (auto simp: last_subscribes_snoc listener_after_def listener_ops)
qed (simp_all add: listener_after_def last_subscribes_def)

text \<open>
  A signal that commits reaches each subscriber of an open listener once, with the key of the
  waits that it satisfied: the callbacks whose last command was to subscribe, when none throws.
\<close>

theorem committed_signal_reaches_subscribers:
  assumes "core_inv s" "waits_signal key s = (Inr ws, s')" "Close_listener \<notin> set cmds" "\<And>c. \<not> throws c"
    and "last (db_notifications s') = (channel, payload)"
  shows "\<exists>cs. handleNotification throws channel (Some payload) (listener_after cmds) = map (\<lambda>c. (c, key)) cs
    \<and> distinct cs
    \<and> (\<forall>c. c \<in> set cs \<longleftrightarrow> last_subscribes c cmds)"
proof -
  have "(channel, payload) = (EXECUTION_READY_CHANNEL, key)"
    using assms(1,2,5) by (auto simp: waits_signal_eq split: if_splits)
  then show ?thesis
    using assms(3,4) listener_after_callbacks [of cmds] listener_after_attached [of cmds]
    by (intro exI [of _ "wl_callbacks (listener_after cmds)"])
      (simp add: handleNotification_def call_each_quiet nullish_def)
qed

text \<open>After \<open>close\<close> nothing is called, whatever is subscribed then.\<close>

lemma closed_listener_is_silent:
  "Close_listener \<in> set cmds \<Longrightarrow> handleNotification throws channel payload (listener_after cmds) = []"
  by (simp add: handleNotification_def listener_after_attached)

end
