(* ===== verification/Error_Catalogue.thy ===== *)
theory Error_Catalogue
  imports Platform_Errors
begin

text \<open>
  The texts of \<open>shared/errors.ts\<close>: the stable identifier that an external system keys its own
  copy off, the default message, and what the constructors of the three classes set. The models
  of the components carry the identifier only; a cause and a context are for the logs.
\<close>

fun ERROR_IDS :: "error_id \<Rightarrow> string" where
  "ERROR_IDS CORE_ENQUEUE_NO_ROW_RETURNED = ''core.executions.enqueue_no_row_returned''"
| "ERROR_IDS CORE_CHECKPOINT_CONFLICT_NOT_FOUND = ''core.checkpoints.conflict_not_found''"
| "ERROR_IDS CORE_WAIT_NO_ROW_RETURNED = ''core.waits.insert_no_row_returned''"
| "ERROR_IDS CORE_WAIT_KEY_TOO_LONG = ''core.waits.wait_key_too_long''"
| "ERROR_IDS CORE_SESSION_LOG_NO_ROW_RETURNED = ''core.session_log.insert_no_row_returned''"
| "ERROR_IDS CORE_SESSION_POINTER_NO_ROW_RETURNED = ''core.session_pointer.no_row_returned''"
| "ERROR_IDS CORE_PLACEMENT_UPSERT_NO_ROW_RETURNED = ''core.placement.upsert_no_row_returned''"
| "ERROR_IDS CORE_PLACEMENT_SET_PINNED_NOT_FOUND = ''core.placement.set_pinned_not_found''"
| "ERROR_IDS SESSION_REWIND_TARGET_OUT_OF_RANGE = ''session.rewind.target_out_of_range''"
| "ERROR_IDS CORE_WORKFLOW_RUN_NO_ROW_RETURNED = ''core.workflow_runs.no_row_returned''"
| "ERROR_IDS CORE_WORKFLOW_RUN_NOT_FOUND = ''core.workflow_runs.not_found''"
| "ERROR_IDS CORE_RUN_NODE_OUTPUT_NO_ROW_RETURNED = ''core.run_node_outputs.insert_no_row_returned''"
| "ERROR_IDS ENGINE_UNSUPPORTED_NODE_KIND = ''engine.interpreter.unsupported_node_kind''"
| "ERROR_IDS ENGINE_DUPLICATE_NODE_ID = ''engine.interpreter.duplicate_node_id''"
| "ERROR_IDS ENGINE_RUN_NOT_FOUND = ''engine.interpreter.run_not_found''"
| "ERROR_IDS ENGINE_NODE_NOT_FOUND = ''engine.interpreter.node_not_found''"
| "ERROR_IDS ENGINE_BINDING_KIND_NOT_SUPPORTED = ''engine.bindings.kind_not_supported''"
| "ERROR_IDS ENGINE_NODE_OUTPUT_MISSING = ''engine.bindings.step_output_missing''"
| "ERROR_IDS REGISTRY_VALIDATION_FAILED = ''registry.registration.validation_failed''"
| "ERROR_IDS REGISTRY_TRUST_TIER_INVALID = ''registry.trust_tier.invalid''"
| "ERROR_IDS REGISTRY_TRUST_TIER_UNKNOWN_DIGEST = ''registry.trust_tier.unknown_digest''"
| "ERROR_IDS REGISTRY_SERVICE_IMAGE_UPSERT_NO_ROW_RETURNED = ''registry.service_images.upsert_no_row_returned''"
| "ERROR_IDS WORKER_AGENT_UNREACHABLE = ''apps.worker.agent_client.unreachable''"
| "ERROR_IDS WORKER_INVOKE_REQUEST_REJECTED = ''apps.worker.agent_client.invoke_request_rejected''"
| "ERROR_IDS WORKER_INVALID_ARG_FLAG_NAME = ''apps.worker.dispatch.invalid_arg_flag_name''"
| "ERROR_IDS WORKER_UNSAFE_ARG_VALUE = ''apps.worker.dispatch.unsafe_arg_value''"
| "ERROR_IDS WORKER_MALFORMED_INVOKE_OUTPUT = ''apps.worker.dispatch.malformed_invoke_output''"
| "ERROR_IDS WORKER_EXECUTION_MISSING_RUN = ''apps.worker.loop.execution_missing_run''"
| "ERROR_IDS WORKER_INVALID_HEAVY_BINDING_VALUE = ''apps.worker.dispatch.invalid_heavy_binding_value''"

fun DEFAULT_ERROR_MESSAGES :: "error_id \<Rightarrow> string" where
  "DEFAULT_ERROR_MESSAGES CORE_ENQUEUE_NO_ROW_RETURNED =
     ''Enqueuing an execution did not return the inserted row.''"
| "DEFAULT_ERROR_MESSAGES CORE_CHECKPOINT_CONFLICT_NOT_FOUND =
     ''A checkpoint insert conflicted with an existing row, but that row could not be found.''"
| "DEFAULT_ERROR_MESSAGES CORE_WAIT_NO_ROW_RETURNED =
     ''Inserting a wait did not return the inserted row.''"
| "DEFAULT_ERROR_MESSAGES CORE_WAIT_KEY_TOO_LONG =
     ''A wait's waitKey exceeds the maximum allowed length.''"
| "DEFAULT_ERROR_MESSAGES CORE_SESSION_LOG_NO_ROW_RETURNED =
     ''Inserting a session log entry did not return the inserted row.''"
| "DEFAULT_ERROR_MESSAGES CORE_SESSION_POINTER_NO_ROW_RETURNED =
     ''Locking or updating a session pointer did not return a row.''"
| "DEFAULT_ERROR_MESSAGES CORE_PLACEMENT_UPSERT_NO_ROW_RETURNED =
     ''Upserting a placement access did not return the upserted row.''"
| "DEFAULT_ERROR_MESSAGES CORE_PLACEMENT_SET_PINNED_NOT_FOUND =
     ''Setting a placement's pinned residency found no existing row for that content hash.''"
| "DEFAULT_ERROR_MESSAGES SESSION_REWIND_TARGET_OUT_OF_RANGE =
     ''A session rewind's target sequence is negative or ahead of the session's current sequence.''"
| "DEFAULT_ERROR_MESSAGES CORE_WORKFLOW_RUN_NO_ROW_RETURNED =
     ''Creating or updating a workflow run did not return a row.''"
| "DEFAULT_ERROR_MESSAGES CORE_WORKFLOW_RUN_NOT_FOUND =
     ''No workflow run exists for the given id.''"
| "DEFAULT_ERROR_MESSAGES CORE_RUN_NODE_OUTPUT_NO_ROW_RETURNED =
     ''Recording a run node output did not return the inserted row.''"
| "DEFAULT_ERROR_MESSAGES ENGINE_UNSUPPORTED_NODE_KIND =
     ''submitRun only supports plain Step nodes (no kind) - branch/map nodes are task 6.2b, not yet implemented.''"
| "DEFAULT_ERROR_MESSAGES ENGINE_DUPLICATE_NODE_ID =
     ''A workflow spec's top-level steps must have unique ids - a repeated id was found.''"
| "DEFAULT_ERROR_MESSAGES ENGINE_RUN_NOT_FOUND =
     ''No workflow run exists for the given id.''"
| "DEFAULT_ERROR_MESSAGES ENGINE_NODE_NOT_FOUND =
     ''No node with the given id exists in this run's workflow spec.''"
| "DEFAULT_ERROR_MESSAGES ENGINE_BINDING_KIND_NOT_SUPPORTED =
     ''This binding kind is not yet resolvable by the plain-step interpreter (task 6.2b, not yet implemented).''"
| "DEFAULT_ERROR_MESSAGES ENGINE_NODE_OUTPUT_MISSING =
     ''A step binding referenced a dependency's output that has not been recorded yet.''"
| "DEFAULT_ERROR_MESSAGES REGISTRY_VALIDATION_FAILED =
     ''A registry registration payload failed schema/referential validation.''"
| "DEFAULT_ERROR_MESSAGES REGISTRY_TRUST_TIER_INVALID =
     ''The given trust tier is not one of the recognized values.''"
| "DEFAULT_ERROR_MESSAGES REGISTRY_TRUST_TIER_UNKNOWN_DIGEST =
     ''No registered image exists for the given digest - the runtime can only annotate trust on an image a developer already registered.''"
| "DEFAULT_ERROR_MESSAGES REGISTRY_SERVICE_IMAGE_UPSERT_NO_ROW_RETURNED =
     ''Upserting a service image did not return the upserted row.''"
| "DEFAULT_ERROR_MESSAGES WORKER_AGENT_UNREACHABLE =
     ''The exec-agent could not be reached - safe to retry (the transaction that claimed this execution is rolled back by the caller).''"
| "DEFAULT_ERROR_MESSAGES WORKER_INVOKE_REQUEST_REJECTED =
     ''The exec-agent rejected the Invoke request itself (a malformed request on our side) - not a transient condition.''"
| "DEFAULT_ERROR_MESSAGES WORKER_INVALID_ARG_FLAG_NAME =
     ''A step's resolved binding key is not a valid CLI flag name (must match ^[a-zA-Z][a-zA-Z0-9-]*$).''"
| "DEFAULT_ERROR_MESSAGES WORKER_UNSAFE_ARG_VALUE =
     ''A step's resolved binding value looks like a CLI flag itself (starts with '-') - refusing to dispatch to avoid argument injection into the invoked subprocess.''"
| "DEFAULT_ERROR_MESSAGES WORKER_MALFORMED_INVOKE_OUTPUT =
     ''The exec-agent's InvokeResponse.output was not a JSON object - this package cannot resolve it into a step's outputs.''"
| "DEFAULT_ERROR_MESSAGES WORKER_EXECUTION_MISSING_RUN =
     ''A claimed execution referenced a workflow run id that no longer exists.''"
| "DEFAULT_ERROR_MESSAGES WORKER_INVALID_HEAVY_BINDING_VALUE =
     ''A binding declared heavy by the function's invocationDescriptor did not resolve to a non-empty materialized-local-path string.''"

record error_object =
  eo_name :: string
  eo_errorId :: string
  eo_message :: string

text \<open>\<open>new PlatformError(errorId)\<close>, and the two subclasses, which call it and set their own name.\<close>

definition new_PlatformError :: "error_id \<Rightarrow> error_object" where
  "new_PlatformError i =
     \<lparr>eo_name = ''PlatformError'', eo_errorId = ERROR_IDS i, eo_message = DEFAULT_ERROR_MESSAGES i\<rparr>"

definition new_RetryableError :: "error_id \<Rightarrow> error_object" where
  "new_RetryableError i = (new_PlatformError i)\<lparr>eo_name := ''RetryableError''\<rparr>"

definition new_FatalError :: "error_id \<Rightarrow> error_object" where
  "new_FatalError i = (new_PlatformError i)\<lparr>eo_name := ''FatalError''\<rparr>"

text \<open>The object behind a thrown value of the model; the other errors are not the platform's.\<close>

fun error_object_of :: "platform_error \<Rightarrow> error_object option" where
  "error_object_of (RetryableError i) = Some (new_RetryableError i)"
| "error_object_of (FatalError i) = Some (new_FatalError i)"
| "error_object_of _ = None"

definition all_error_ids :: "error_id list" where
  "all_error_ids =
     [CORE_ENQUEUE_NO_ROW_RETURNED, CORE_CHECKPOINT_CONFLICT_NOT_FOUND,
      CORE_WAIT_NO_ROW_RETURNED, CORE_WAIT_KEY_TOO_LONG,
      CORE_SESSION_LOG_NO_ROW_RETURNED, CORE_SESSION_POINTER_NO_ROW_RETURNED,
      CORE_PLACEMENT_UPSERT_NO_ROW_RETURNED, CORE_PLACEMENT_SET_PINNED_NOT_FOUND,
      SESSION_REWIND_TARGET_OUT_OF_RANGE, CORE_WORKFLOW_RUN_NO_ROW_RETURNED,
      CORE_WORKFLOW_RUN_NOT_FOUND, CORE_RUN_NODE_OUTPUT_NO_ROW_RETURNED,
      ENGINE_UNSUPPORTED_NODE_KIND, ENGINE_DUPLICATE_NODE_ID,
      ENGINE_RUN_NOT_FOUND, ENGINE_NODE_NOT_FOUND,
      ENGINE_BINDING_KIND_NOT_SUPPORTED, ENGINE_NODE_OUTPUT_MISSING,
      REGISTRY_VALIDATION_FAILED, REGISTRY_TRUST_TIER_INVALID,
      REGISTRY_TRUST_TIER_UNKNOWN_DIGEST, REGISTRY_SERVICE_IMAGE_UPSERT_NO_ROW_RETURNED,
      WORKER_AGENT_UNREACHABLE, WORKER_INVOKE_REQUEST_REJECTED,
      WORKER_INVALID_ARG_FLAG_NAME, WORKER_UNSAFE_ARG_VALUE,
      WORKER_MALFORMED_INVOKE_OUTPUT, WORKER_EXECUTION_MISSING_RUN,
      WORKER_INVALID_HEAVY_BINDING_VALUE]"

lemma all_error_ids: "i \<in> set all_error_ids" "distinct (map ERROR_IDS all_error_ids)"
  by (cases i; simp add: all_error_ids_def) code_simp

text \<open>An identifier is stable because it is unambiguous: it determines the constructor.\<close>

lemma ERROR_IDS_inj: "ERROR_IDS i = ERROR_IDS j \<Longrightarrow> i = j"
  using all_error_ids by (auto simp: distinct_map dest: inj_onD)

lemma error_messages_given: "DEFAULT_ERROR_MESSAGES i \<noteq> []"
  by (cases i) simp_all

text \<open>What a handler sees of a platform error, its class and its identifier, is the whole error.\<close>

theorem error_object_determines_error:
  assumes "error_object_of e = Some ob" "error_object_of e' = Some ob"
  shows "e = e' \<and> (is_retryable e \<longleftrightarrow> eo_name ob = ''RetryableError'')"
  using assms by (cases e; cases e')
    (auto simp: new_RetryableError_def new_FatalError_def new_PlatformError_def dest: ERROR_IDS_inj)

end
