(* ===== verification/Durable_Spike.thy ===== *)
theory Durable_Spike
  imports Transactions
begin

text \<open>
  \<open>archive/spikes/1.2-resonate-pg-durable-exec/\<close>: the spike that the durable core grew out of. One
  transaction claims an execution, appends to the log of its session, moves the session's
  pointer, records where the new content is warm, and checkpoints the step. The hash function
  of \<open>node:crypto\<close> (as a hexadecimal text) and the text of a JSON value in a template string are
  parameters. Timestamps that nothing reads are left out.
\<close>

subsection \<open>Tables\<close>

datatype ds_status = DsQueued | DsRunning | DsDone | DsFailed

record ds_execution =
  de_id :: nat
  de_sessionId :: string
  de_step :: string
  de_input :: json
  de_status :: ds_status
  de_worker :: "string option"
  de_lease :: "int option"
  de_attempts :: nat

record ds_checkpoint =
  dc_execution :: nat
  dc_step :: string
  dc_output :: json

record ds_log_row =
  dl_sessionId :: string
  dl_seq :: int
  dl_mutation :: json

record ds_pointer =
  dp_sessionId :: string
  dp_headSeq :: int
  dp_headHash :: string

record ds_placement =
  dq_contentHash :: string
  dq_replicaId :: string
  dq_sessionId :: string

record ds_db =
  ds_executions :: "ds_execution list"
  ds_checkpoints :: "ds_checkpoint list"
  ds_session_log :: "ds_log_row list"
  ds_session_pointer :: "ds_pointer list"
  ds_placements :: "ds_placement list"
  ds_executions_seq :: nat
  ds_locked :: "nat list"
  ds_now :: int

type_synonym 'a ds_tx = "(ds_db, platform_error, 'a) tx"

record ds_host =
  dh_sha256 :: "string \<Rightarrow> string"
  dh_text :: "json option \<Rightarrow> string"

subsection \<open>Claiming\<close>

definition ds_claimable :: "ds_db \<Rightarrow> ds_execution \<Rightarrow> bool" where
  "ds_claimable s e \<longleftrightarrow>
     (de_status e = DsQueued
      \<or> de_status e = DsRunning \<and> (case de_lease e of None \<Rightarrow> False | Some t \<Rightarrow> t < ds_now s))
     \<and> de_id e \<notin> set (ds_locked s)"

definition ds_claimed :: "string \<Rightarrow> int \<Rightarrow> int \<Rightarrow> ds_execution \<Rightarrow> ds_execution" where
  "ds_claimed worker lease now e =
     e\<lparr>de_status := DsRunning, de_worker := Some worker, de_lease := Some (now + lease * 1000),
       de_attempts := de_attempts e + 1\<rparr>"

definition ds_claim_execution :: "string \<Rightarrow> int \<Rightarrow> ds_execution option ds_tx" where
  "ds_claim_execution worker lease =
     (\<lambda>s. case first_row (sort_key de_id (sql_select (ds_claimable s) (ds_executions s))) of
        None \<Rightarrow> (Inr None, s)
      | Some v \<Rightarrow>
          (Inr (Some (ds_claimed worker lease (ds_now s) v)),
           s\<lparr>ds_executions := sql_update (\<lambda>e. de_id e = de_id v) (ds_claimed worker lease (ds_now s))
               (ds_executions s)\<rparr>))"

subsection \<open>One execution\<close>

text \<open>\<open>sha256(`${prevHash}:${mutationIndex}`)\<close>, the first 16 digits.\<close>

definition simulateMutate :: "ds_host \<Rightarrow> string \<Rightarrow> json option \<Rightarrow> string" where
  "simulateMutate H prevHash mutationIndex =
     take 16 (dh_sha256 H (prevHash @ '':'' @ dh_text H mutationIndex))"

definition ds_append_log :: "string \<Rightarrow> int \<Rightarrow> json \<Rightarrow> unit ds_tx" where
  "ds_append_log sid seq mutation =
     (\<lambda>s. if sql_select (\<lambda>r. dl_sessionId r = sid \<and> dl_seq r = seq) (ds_session_log s) \<noteq> []
          then (Inl (DbError UniqueViolation), s)
          else (Inr (), s\<lparr>ds_session_log := ds_session_log s @
                 [\<lparr>dl_sessionId = sid, dl_seq = seq, dl_mutation = mutation\<rparr>]\<rparr>))"

definition ds_advance_pointer :: "string \<Rightarrow> int \<Rightarrow> string \<Rightarrow> unit ds_tx" where
  "ds_advance_pointer sid seq hash =
     tx_write (\<lambda>s. s\<lparr>ds_session_pointer := sql_update (\<lambda>p. dp_sessionId p = sid)
       (\<lambda>p. p\<lparr>dp_headSeq := seq, dp_headHash := hash\<rparr>) (ds_session_pointer s)\<rparr>)"

definition ds_upsert_placement :: "string \<Rightarrow> string \<Rightarrow> string \<Rightarrow> unit ds_tx" where
  "ds_upsert_placement hash worker sid =
     tx_write (\<lambda>s. s\<lparr>ds_placements :=
       (if sql_select (\<lambda>r. dq_contentHash r = hash) (ds_placements s) = []
        then ds_placements s @ [\<lparr>dq_contentHash = hash, dq_replicaId = worker, dq_sessionId = sid\<rparr>]
        else sql_update (\<lambda>r. dq_contentHash r = hash) (\<lambda>r. r\<lparr>dq_replicaId := worker\<rparr>) (ds_placements s))\<rparr>)"

definition ds_insert_checkpoint :: "nat \<Rightarrow> string \<Rightarrow> json \<Rightarrow> unit ds_tx" where
  "ds_insert_checkpoint eid step out =
     (\<lambda>s. if sql_select (\<lambda>c. dc_execution c = eid \<and> dc_step c = step) (ds_checkpoints s) \<noteq> []
          then (Inl (DbError UniqueViolation), s)
          else (Inr (), s\<lparr>ds_checkpoints := ds_checkpoints s @
                 [\<lparr>dc_execution = eid, dc_step = step, dc_output = out\<rparr>]\<rparr>))"

definition ds_mark_done :: "nat \<Rightarrow> unit ds_tx" where
  "ds_mark_done eid =
     tx_write (\<lambda>s. s\<lparr>ds_executions := sql_update (\<lambda>e. de_id e = eid) (\<lambda>e. e\<lparr>de_status := DsDone\<rparr>)
       (ds_executions s)\<rparr>)"

text \<open>\<open>rows[0]\<close> of which a property is read, and \<open>input.mutationIndex\<close>.\<close>

definition ds_row :: "'r list \<Rightarrow> 'r result" where
  "ds_row rows = (case rows of [] \<Rightarrow> Inl (HostError ''TypeError'') | r # _ \<Rightarrow> Inr r)"

definition mutation_index :: "json \<Rightarrow> json option result" where
  "mutation_index inp =
     (if inp = JNull then Inl (HostError ''TypeError'') else Inr (js_member inp ''mutationIndex''))"

definition mutation_json :: "json option \<Rightarrow> string \<Rightarrow> json" where
  "mutation_json i hash = JObj (optional_field ''mutationIndex'' i @ [(''resultHash'', JStr hash)])"

definition result_json :: "string \<Rightarrow> json" where
  "result_json hash = JObj [(''resultHash'', JStr hash)]"

record ds_outcome =
  do_execution :: ds_execution
  do_sessionId :: string
  do_nextSeq :: int
  do_nextHash :: string

text \<open>The body between \<open>BEGIN\<close> and \<open>COMMIT\<close>; \<open>hook\<close> is the outcome of the test hook.\<close>

definition ds_body :: "ds_host \<Rightarrow> string \<Rightarrow> unit result \<Rightarrow> ds_outcome option ds_tx" where
  "ds_body H worker hook =
     tx_bind (ds_claim_execution worker 30) (\<lambda>claimed.
       case claimed of
         None \<Rightarrow> tx_return None
       | Some e \<Rightarrow>
           tx_bind (tx_lift (mutation_index (de_input e))) (\<lambda>i.
           tx_bind (tx_read (\<lambda>s. sql_select (\<lambda>p. dp_sessionId p = de_sessionId e) (ds_session_pointer s))) (\<lambda>rows.
           tx_bind (tx_lift (ds_row rows)) (\<lambda>ptr.
             let sid = de_sessionId e; nextSeq = dp_headSeq ptr + 1;
                 nextHash = simulateMutate H (dp_headHash ptr) i in
             tx_then (ds_append_log sid nextSeq (mutation_json i nextHash))
            (tx_then (ds_advance_pointer sid nextSeq nextHash)
            (tx_then (ds_upsert_placement nextHash worker sid)
            (tx_then (ds_insert_checkpoint (de_id e) ''sql_mutate'' (result_json nextHash))
            (tx_then (ds_mark_done (de_id e))
            (tx_then (tx_lift hook)
              (tx_return (Some \<lparr>do_execution = e, do_sessionId = sid, do_nextSeq = nextSeq,
                                do_nextHash = nextHash\<rparr>)))))))))))"

text \<open>
  Nothing of the transaction moves a sequence, so a rollback gives back the database it began
  with. \<open>CommitFails\<close> is a failure of the statement that ends the transaction, which after an
  empty claim is the \<open>ROLLBACK\<close>.
\<close>

definition ds_rollback :: "ds_db \<Rightarrow> ds_db \<Rightarrow> ds_db" where
  "ds_rollback s t = s"

interpretation spike_store: atomic_store ds_rollback "\<lambda>s. s"
  by unfold_locales (simp_all add: ds_rollback_def)

definition processOneExecution ::
  "ds_host \<Rightarrow> connection \<Rightarrow> string \<Rightarrow> unit result \<Rightarrow> ds_outcome option ds_tx" where
  "processOneExecution H conn worker hook = withTransaction ds_rollback conn (ds_body H worker hook)"

text \<open>\<open>seed.js\<close>: a queued execution, and a session at its root.\<close>

definition ds_seed_execution :: "string \<Rightarrow> string \<Rightarrow> json \<Rightarrow> ds_db \<Rightarrow> ds_db" where
  "ds_seed_execution sid step inp s =
     s\<lparr>ds_executions := ds_executions s @
         [\<lparr>de_id = Suc (ds_executions_seq s), de_sessionId = sid, de_step = step, de_input = inp,
           de_status = DsQueued, de_worker = None, de_lease = None, de_attempts = 0\<rparr>],
       ds_executions_seq := Suc (ds_executions_seq s)\<rparr>"

definition ds_seed_session :: "string \<Rightarrow> ds_db \<Rightarrow> ds_db" where
  "ds_seed_session sid s =
     (if sql_select (\<lambda>p. dp_sessionId p = sid) (ds_session_pointer s) = []
      then s\<lparr>ds_session_pointer := ds_session_pointer s @
               [\<lparr>dp_sessionId = sid, dp_headSeq = 0, dp_headHash = ''root''\<rparr>]\<rparr>
      else s)"

end
