(* ===== verification/Durable_Spike_Properties.thy ===== *)
theory Durable_Spike_Properties
  imports Durable_Spike
begin

text \<open>
  What the spike set out to show: the log of a session, its pointer, the checkpoints of its
  executions and the record of where its contents are warm never disagree, whatever workers,
  sessions, failing connections and throwing hooks do, because each execution changes all of
  them or none.
\<close>

subsection \<open>The chain of a session\<close>

text \<open>The hashes and the log rows that a list of mutations gives from \<open>root\<close>.\<close>

fun chain_hashes :: "ds_host \<Rightarrow> string \<Rightarrow> json option list \<Rightarrow> string list" where
  "chain_hashes H h [] = []"
| "chain_hashes H h (i # rest) = (let h' = simulateMutate H h i in h' # chain_hashes H h' rest)"

fun chain_rows :: "ds_host \<Rightarrow> string \<Rightarrow> int \<Rightarrow> string \<Rightarrow> json option list \<Rightarrow> ds_log_row list" where
  "chain_rows H k n h [] = []"
| "chain_rows H k n h (i # rest) =
     (let h' = simulateMutate H h i in
      \<lparr>dl_sessionId = k, dl_seq = n, dl_mutation = mutation_json i h'\<rparr> # chain_rows H k (n + 1) h' rest)"

definition chain_head :: "ds_host \<Rightarrow> json option list \<Rightarrow> string" where
  "chain_head H is = fold (\<lambda>i h. simulateMutate H h i) is ''root''"

lemma chain_snoc:
  "chain_hashes H h (is @ [i]) = chain_hashes H h is @ [simulateMutate H (fold (\<lambda>i h. simulateMutate H h i) is h) i]"
  "chain_rows H k n h (is @ [i]) = chain_rows H k n h is @
     [let h' = simulateMutate H (fold (\<lambda>i h. simulateMutate H h i) is h) i in
      \<lparr>dl_sessionId = k, dl_seq = n + int (length is), dl_mutation = mutation_json i h'\<rparr>]"
  by (induction "is" arbitrary: h n) (simp_all add: Let_def algebra_simps)

lemma chain_rows_seq: "r \<in> set (chain_rows H k n h is) \<Longrightarrow> dl_seq r < n + int (length is)"
  by (induction "is" arbitrary: h n) (fastforce simp: Let_def)+

text \<open>The executions of a session that are checkpointed, in the order of their checkpoints.\<close>

definition ds_done_rows :: "ds_db \<Rightarrow> string \<Rightarrow> (ds_checkpoint \<times> json) list" where
  "ds_done_rows s k = concat (map (\<lambda>c. map (\<lambda>e. (c, de_input e))
     (sql_select (\<lambda>e. de_id e = dc_execution c \<and> de_sessionId e = k) (ds_executions s))) (ds_checkpoints s))"

definition ds_history :: "ds_db \<Rightarrow> string \<Rightarrow> json option list" where
  "ds_history s k = map (\<lambda>(_, inp). js_member inp ''mutationIndex'') (ds_done_rows s k)"

subsection \<open>The invariant\<close>

definition ds_rows_ok :: "ds_db \<Rightarrow> bool" where
  "ds_rows_ok s \<longleftrightarrow>
     key_unique de_id (ds_executions s) \<and> (\<forall>e \<in> set (ds_executions s). de_id e \<le> ds_executions_seq s)
     \<and> key_unique dp_sessionId (ds_session_pointer s) \<and> key_unique dc_execution (ds_checkpoints s)
     \<and> (\<forall>c \<in> set (ds_checkpoints s). dc_execution c \<le> ds_executions_seq s)
     \<and> (\<forall>e \<in> set (ds_executions s). de_status e \<in> {DsQueued, DsDone}
          \<and> (de_status e = DsDone \<longleftrightarrow> de_id e \<in> dc_execution ` set (ds_checkpoints s)))"

definition session_ok :: "ds_host \<Rightarrow> ds_db \<Rightarrow> string \<Rightarrow> bool" where
  "session_ok H s k \<longleftrightarrow>
     sql_select (\<lambda>r. dl_sessionId r = k) (ds_session_log s) = chain_rows H k 1 ''root'' (ds_history s k)
     \<and> map (dc_output \<circ> fst) (ds_done_rows s k) = map result_json (chain_hashes H ''root'' (ds_history s k))
     \<and> set (chain_hashes H ''root'' (ds_history s k)) \<subseteq> dq_contentHash ` set (ds_placements s)
     \<and> (case first_row (sql_select (\<lambda>p. dp_sessionId p = k) (ds_session_pointer s)) of
          None \<Rightarrow> ds_history s k = []
        | Some p \<Rightarrow> dp_headSeq p = int (length (ds_history s k)) \<and> dp_headHash p = chain_head H (ds_history s k))"

definition ds_inv :: "ds_host \<Rightarrow> ds_db \<Rightarrow> bool" where
  "ds_inv H s \<longleftrightarrow> ds_rows_ok s \<and> (\<forall>k. session_ok H s k)"

lemma session_ok_cong:
  assumes "session_ok H s k" "ds_done_rows t k = ds_done_rows s k"
    and "sql_select (\<lambda>r. dl_sessionId r = k) (ds_session_log t) = sql_select (\<lambda>r. dl_sessionId r = k) (ds_session_log s)"
    and "sql_select (\<lambda>p. dp_sessionId p = k) (ds_session_pointer t) = sql_select (\<lambda>p. dp_sessionId p = k) (ds_session_pointer s)"
    and "dq_contentHash ` set (ds_placements s) \<subseteq> dq_contentHash ` set (ds_placements t)"
  shows "session_ok H t k"
proof -
  have hist: "ds_history t k = ds_history s k" by (simp add: ds_history_def assms(2))
  show ?thesis
    using assms(1,5) unfolding session_ok_def hist assms(2-4)
    by (elim conjE) (intro conjI, assumption, assumption, erule (1) subset_trans, assumption)
qed

subsection \<open>One execution\<close>

text \<open>What a worker that comes through leaves behind.\<close>

definition executed :: "ds_host \<Rightarrow> string \<Rightarrow> ds_execution \<Rightarrow> ds_pointer \<Rightarrow> ds_db \<Rightarrow> ds_db" where
  "executed H worker v p s =
     (let k = de_sessionId v; i = js_member (de_input v) ''mutationIndex''; n = dp_headSeq p + 1;
          h = simulateMutate H (dp_headHash p) i in
      s\<lparr>ds_executions := sql_update (\<lambda>e. de_id e = de_id v)
          (\<lambda>e. (ds_claimed worker 30 (ds_now s) e)\<lparr>de_status := DsDone\<rparr>) (ds_executions s),
        ds_checkpoints := ds_checkpoints s @
          [\<lparr>dc_execution = de_id v, dc_step = ''sql_mutate'', dc_output = result_json h\<rparr>],
        ds_session_log := ds_session_log s @
          [\<lparr>dl_sessionId = k, dl_seq = n, dl_mutation = mutation_json i h\<rparr>],
        ds_session_pointer := sql_update (\<lambda>p. dp_sessionId p = k)
          (\<lambda>p. p\<lparr>dp_headSeq := n, dp_headHash := h\<rparr>) (ds_session_pointer s),
        ds_placements :=
          (if sql_select (\<lambda>r. dq_contentHash r = h) (ds_placements s) = []
           then ds_placements s @ [\<lparr>dq_contentHash = h, dq_replicaId = worker, dq_sessionId = k\<rparr>]
           else sql_update (\<lambda>r. dq_contentHash r = h) (\<lambda>r. r\<lparr>dq_replicaId := worker\<rparr>) (ds_placements s))\<rparr>)"

lemma ds_claimed_sel [simp]:
  "de_id (ds_claimed w l n e) = de_id e" "de_sessionId (ds_claimed w l n e) = de_sessionId e"
  "de_input (ds_claimed w l n e) = de_input e"
  by (simp_all add: ds_claimed_def)

lemma update_twice:
  "(\<And>e. de_id (f e) = de_id e) \<Longrightarrow>
     sql_update (\<lambda>e. de_id e = i) g (sql_update (\<lambda>e. de_id e = i) f es) = sql_update (\<lambda>e. de_id e = i) (\<lambda>e. g (f e)) es"
  by (induction es) (auto simp: sql_update_def)

lemma first_claimable:
  assumes "first_row (sort_key de_id (sql_select (ds_claimable s) (ds_executions s))) = Some v"
  shows "v \<in> set (ds_executions s)" "ds_claimable s v"
  using first_row_in [OF assms] by (simp_all add: table_simps)

lemma ds_body_cases:
  assumes "ds_body H w hook s = (Inr r, t)"
  obtains "r = None" "t = s"
  | v p where "v \<in> set (ds_executions s)" "ds_claimable s v" "de_input v \<noteq> JNull"
      "first_row (sql_select (\<lambda>p. dp_sessionId p = de_sessionId v) (ds_session_pointer s)) = Some p"
      "t = executed H w v p s"
proof (cases "first_row (sort_key de_id (sql_select (ds_claimable s) (ds_executions s)))")
  case None
  with assms that(1) show thesis by (simp add: ds_body_def ds_claim_execution_def tx_simps)
next
  case (Some v)
  note v = first_claimable [OF Some]
  show thesis
  proof (cases "sql_select (\<lambda>p. dp_sessionId p = de_sessionId v) (ds_session_pointer s)")
    case Nil
    with Some assms show thesis
      by (simp add: ds_body_def ds_claim_execution_def tx_simps ds_row_def mutation_index_def split: if_splits)
  next
    case (Cons p ps)
    with Some assms have "de_input v \<noteq> JNull" "t = executed H w v p s"
      by (auto simp: ds_body_def ds_claim_execution_def tx_simps ds_row_def mutation_index_def Let_def
          ds_append_log_def ds_advance_pointer_def ds_upsert_placement_def ds_insert_checkpoint_def
          ds_mark_done_def executed_def update_twice split: if_splits sum.splits)
    with v Cons that(2) show thesis by simp
  qed
qed

lemma ds_done_rows_append:
  "ds_done_rows (s\<lparr>ds_checkpoints := ds_checkpoints s @ [c]\<rparr>) k = ds_done_rows s k @
     map (\<lambda>e. (c, de_input e)) (sql_select (\<lambda>e. de_id e = dc_execution c \<and> de_sessionId e = k) (ds_executions s))"
  by (simp add: ds_done_rows_def)

lemma ds_done_rows_cong:
  assumes "ds_checkpoints t = ds_checkpoints s" "ds_executions t = map g (ds_executions s)"
    and "\<And>e. de_id (g e) = de_id e" "\<And>e. de_sessionId (g e) = de_sessionId e" "\<And>e. de_input (g e) = de_input e"
  shows "ds_done_rows t k = ds_done_rows s k"
  by (simp add: ds_done_rows_def assms sql_select_map comp_def)

lemma select_execution:
  assumes "key_unique de_id es" "v \<in> set es"
  shows "sql_select (\<lambda>e. de_id e = de_id v \<and> de_sessionId e = k) es = (if de_sessionId v = k then [v] else [])"
  using assms
proof (induction es)
  case (Cons e es)
  have uniq: "e' = v" if "e' \<in> set (e # es)" "de_id e' = de_id v" for e'
    using key_uniqueD [OF Cons.prems(1) that(1) Cons.prems(2) that(2)] .
  show ?case
  proof (cases "e = v")
    case True
    then have "\<forall>e' \<in> set es. de_id e' \<noteq> de_id v"
      using Cons.prems(1) by (auto simp: key_unique_def) (metis image_eqI)
    with True show ?thesis by (auto simp: sql_select_def filter_empty_conv)
  next
    case False
    then have "de_id e \<noteq> de_id v" using uniq [of e] by auto
    with False Cons show ?thesis by (auto simp: sql_select_def key_unique_def)
  qed
qed simp

lemma executed_done_rows:
  assumes "key_unique de_id (ds_executions s)" "v \<in> set (ds_executions s)"
  shows "ds_done_rows (executed H w v p s) k = ds_done_rows s k @
    (if de_sessionId v = k
     then [(\<lparr>dc_execution = de_id v, dc_step = ''sql_mutate'',
             dc_output = result_json (simulateMutate H (dp_headHash p) (js_member (de_input v) ''mutationIndex''))\<rparr>,
            de_input v)] else [])"
proof -
  define c where "c = \<lparr>dc_execution = de_id v, dc_step = ''sql_mutate'',
    dc_output = result_json (simulateMutate H (dp_headHash p) (js_member (de_input v) ''mutationIndex''))\<rparr>"
  let ?g = "\<lambda>e. if de_id e = de_id v then (ds_claimed w 30 (ds_now s) e)\<lparr>de_status := DsDone\<rparr> else e"
  have "ds_done_rows (executed H w v p s) k = ds_done_rows (s\<lparr>ds_checkpoints := ds_checkpoints s @ [c]\<rparr>) k"
    by (rule ds_done_rows_cong [where g = ?g]) (simp_all add: executed_def Let_def c_def sql_update_def)
  then show ?thesis
    using select_execution [OF assms] by (simp add: ds_done_rows_append flip: c_def) (simp add: c_def)
qed

lemma executed_rows_ok:
  assumes ok: "ds_rows_ok s" and v: "v \<in> set (ds_executions s)" "ds_claimable s v"
  shows "ds_rows_ok (executed H w v p s)"
proof -
  note D = ok [unfolded ds_rows_ok_def]
  have "de_status v = DsQueued" using D v by (auto simp: ds_claimable_def)
  with D v(1) have "de_id v \<notin> dc_execution ` set (ds_checkpoints s)" by fastforce
  then have new: "\<forall>c \<in> set (ds_checkpoints s). dc_execution c \<noteq> de_id v" by (auto simp: image_iff)
  have "\<forall>e \<in> set (ds_executions (executed H w v p s)). de_status e \<in> {DsQueued, DsDone}
      \<and> (de_status e = DsDone \<longleftrightarrow> de_id e \<in> dc_execution ` set (ds_checkpoints (executed H w v p s)))"
    using D by (auto simp: executed_def Let_def sql_update_def)
  moreover have "key_unique de_id (ds_executions (executed H w v p s))"
    using D by (simp add: executed_def Let_def key_unique_update)
  moreover have "\<forall>e \<in> set (ds_executions (executed H w v p s)). de_id e \<le> ds_executions_seq (executed H w v p s)"
    using D by (auto simp: executed_def Let_def sql_update_def)
  moreover have "key_unique dp_sessionId (ds_session_pointer (executed H w v p s))"
    using D by (simp add: executed_def Let_def key_unique_update)
  moreover have "key_unique dc_execution (ds_checkpoints (executed H w v p s))"
    using D new by (auto simp: executed_def Let_def key_unique_snoc)
  moreover have "\<forall>c \<in> set (ds_checkpoints (executed H w v p s)). dc_execution c \<le> ds_executions_seq (executed H w v p s)"
    using D v(1) by (auto simp: executed_def Let_def)
  ultimately show ?thesis unfolding ds_rows_ok_def by blast
qed

lemma executed_warm:
  "dq_contentHash ` set (ds_placements (executed H w v p s)) =
     insert (simulateMutate H (dp_headHash p) (js_member (de_input v) ''mutationIndex''))
       (dq_contentHash ` set (ds_placements s))"
proof -
  have "map dq_contentHash (sql_update q (\<lambda>r. r\<lparr>dq_replicaId := w\<rparr>) ps) = map dq_contentHash ps" for q ps
    by (rule map_sql_update) simp
  from arg_cong [OF this, of set]
  have "dq_contentHash ` set (sql_update q (\<lambda>r. r\<lparr>dq_replicaId := w\<rparr>) ps) = dq_contentHash ` set ps" for q ps by simp
  then show ?thesis by (auto simp: executed_def Let_def sql_select_def filter_empty_conv) (metis imageI)
qed

lemma executed_session_ok:
  assumes ok: "ds_rows_ok s" "session_ok H s k" and v: "v \<in> set (ds_executions s)"
    and p: "first_row (sql_select (\<lambda>p. dp_sessionId p = de_sessionId v) (ds_session_pointer s)) = Some p"
  shows "session_ok H (executed H w v p s) k"
proof -
  let ?t = "executed H w v p s" and ?i = "js_member (de_input v) ''mutationIndex''"
  have uniq: "key_unique de_id (ds_executions s)" using ok(1) by (simp add: ds_rows_ok_def)
  note rows = executed_done_rows [OF uniq v, of H w p k]
  define h where "h = simulateMutate H (dp_headHash p) ?i"
  have warm: "dq_contentHash ` set (ds_placements ?t) = insert h (dq_contentHash ` set (ds_placements s))"
    unfolding h_def by (rule executed_warm)
  have ptr: "sql_select (\<lambda>p. dp_sessionId p = k) (ds_session_pointer ?t) =
      map (if k = de_sessionId v then (\<lambda>p'. p'\<lparr>dp_headSeq := dp_headSeq p + 1, dp_headHash := h\<rparr>) else id)
        (sql_select (\<lambda>p. dp_sessionId p = k) (ds_session_pointer s))"
    by (simp add: executed_def Let_def sql_select_update_key h_def)
  have log: "sql_select (\<lambda>r. dl_sessionId r = k) (ds_session_log ?t) =
      sql_select (\<lambda>r. dl_sessionId r = k) (ds_session_log s) @
        (if k = de_sessionId v then [\<lparr>dl_sessionId = k, dl_seq = dp_headSeq p + 1, dl_mutation = mutation_json ?i h\<rparr>]
         else [])"
    by (simp add: executed_def Let_def sql_select_append h_def) (simp add: sql_select_def)
  show ?thesis
  proof (cases "k = de_sessionId v")
    case False
    with rows log ptr warm show ?thesis
      by (rule_tac session_ok_cong [OF ok(2)]) auto
  next
    case True
    have hist: "ds_history ?t k = ds_history s k @ [?i]" using rows True by (simp add: ds_history_def)
    have head: "dp_headSeq p = int (length (ds_history s k))" "dp_headHash p = chain_head H (ds_history s k)"
      using ok(2) p True by (simp_all add: session_ok_def)
    then have "h = simulateMutate H (fold (\<lambda>i h. simulateMutate H h i) (ds_history s k) ''root'') ?i"
      by (simp add: h_def chain_head_def)
    note step = this
    have "first_row (sql_select (\<lambda>p. dp_sessionId p = k) (ds_session_pointer ?t)) =
        Some (p\<lparr>dp_headSeq := dp_headSeq p + 1, dp_headHash := h\<rparr>)"
      unfolding ptr first_row_map using p True by simp
    moreover have "chain_head H (ds_history s k @ [?i]) = h" using step by (simp add: chain_head_def)
    moreover have "chain_rows H k 1 ''root'' (ds_history s k @ [?i]) = chain_rows H k 1 ''root'' (ds_history s k) @
        [\<lparr>dl_sessionId = k, dl_seq = dp_headSeq p + 1, dl_mutation = mutation_json ?i h\<rparr>]"
      using step head(1) by (simp add: chain_snoc(2) Let_def)
    moreover have "chain_hashes H ''root'' (ds_history s k @ [?i]) = chain_hashes H ''root'' (ds_history s k) @ [h]"
      using step by (simp add: chain_snoc(1))
    moreover have "map (dc_output \<circ> fst) (ds_done_rows ?t k) = map (dc_output \<circ> fst) (ds_done_rows s k) @ [result_json h]"
      using rows True by (simp add: h_def)
    ultimately show ?thesis
      using ok(2) True head(1) unfolding session_ok_def hist log warm by auto
  qed
qed

subsection \<open>Histories\<close>

inductive ds_step :: "ds_host \<Rightarrow> ds_db \<Rightarrow> ds_db \<Rightarrow> bool" for H where
  seed_execution: "ds_step H s (ds_seed_execution sid st inp s)"
| seed_session: "ds_step H s (ds_seed_session sid s)"
| process: "ds_step H s (snd (processOneExecution H conn w hook s))"
| elsewhere: "ds_step H s (s\<lparr>ds_locked := rows, ds_now := n\<rparr>)"

definition ds_empty :: ds_db where
  "ds_empty = \<lparr>ds_executions = [], ds_checkpoints = [], ds_session_log = [], ds_session_pointer = [],
     ds_placements = [], ds_executions_seq = 0, ds_locked = [], ds_now = 0\<rparr>"

definition ds_reachable :: "ds_host \<Rightarrow> ds_db \<Rightarrow> bool" where
  "ds_reachable H = (ds_step H)\<^sup>*\<^sup>* ds_empty"

lemma ds_inv_seed_execution:
  assumes "ds_inv H s"
  shows "ds_inv H (ds_seed_execution sid st inp s)"
proof -
  let ?t = "ds_seed_execution sid st inp s"
  have ok: "ds_rows_ok s" using assms by (simp add: ds_inv_def)
  note D = ok [unfolded ds_rows_ok_def]
  have fresh: "\<forall>c \<in> set (ds_checkpoints s). dc_execution c \<noteq> Suc (ds_executions_seq s)"
    "\<forall>e \<in> set (ds_executions s). de_id e \<noteq> Suc (ds_executions_seq s)" using D by fastforce+
  have "ds_done_rows ?t k = ds_done_rows s k" for k
    using fresh(1) by (auto simp: ds_done_rows_def ds_seed_execution_def sql_select_append sql_select_def
        intro!: arg_cong [where f = concat] map_cong)
  then have "session_ok H ?t k" for k
    using assms by (rule_tac session_ok_cong [of H s]) (auto simp: ds_inv_def ds_seed_execution_def)
  moreover have "ds_rows_ok ?t"
    using D fresh by (auto simp: ds_rows_ok_def ds_seed_execution_def key_unique_snoc image_iff le_SucI)
  ultimately show ?thesis by (simp add: ds_inv_def)
qed

lemma ds_inv_seed_session:
  assumes "ds_inv H s"
  shows "ds_inv H (ds_seed_session sid s)"
proof (cases "sql_select (\<lambda>p. dp_sessionId p = sid) (ds_session_pointer s)")
  case Nil
  let ?t = "ds_seed_session sid s"
  have t: "ds_session_pointer ?t = ds_session_pointer s @ [\<lparr>dp_sessionId = sid, dp_headSeq = 0, dp_headHash = ''root''\<rparr>]"
    "ds_executions ?t = ds_executions s" "ds_checkpoints ?t = ds_checkpoints s" "ds_session_log ?t = ds_session_log s"
    "ds_placements ?t = ds_placements s" "ds_executions_seq ?t = ds_executions_seq s"
    using Nil by (simp_all add: ds_seed_session_def)
  have same: "ds_done_rows ?t k = ds_done_rows s k" for k by (simp add: ds_done_rows_def t)
  have "session_ok H ?t k" for k
  proof (cases "k = sid")
    case True
    have "session_ok H s sid" using assms by (simp add: ds_inv_def)
    moreover have "sql_select (\<lambda>p. dp_sessionId p = sid) (ds_session_pointer ?t) =
        [\<lparr>dp_sessionId = sid, dp_headSeq = 0, dp_headHash = ''root''\<rparr>]"
      using Nil by (simp add: t sql_select_append) (simp add: sql_select_def)
    ultimately show ?thesis
      using Nil True by (simp add: session_ok_def ds_history_def same t chain_head_def)
  next
    case False
    then have "sql_select (\<lambda>p. dp_sessionId p = k) (ds_session_pointer ?t)
        = sql_select (\<lambda>p. dp_sessionId p = k) (ds_session_pointer s)"
      by (simp add: t sql_select_append) (simp add: sql_select_def)
    then show ?thesis using assms by (rule_tac session_ok_cong [of H s]) (simp_all add: ds_inv_def same t)
  qed
  moreover have "ds_rows_ok ?t"
    using assms Nil by (auto simp: ds_inv_def ds_rows_ok_def t key_unique_snoc sql_select_def filter_empty_conv)
  ultimately show ?thesis by (simp add: ds_inv_def)
next
  case (Cons p ps)
  with assms show ?thesis by (simp add: ds_seed_session_def)
qed

lemma ds_inv_process:
  assumes "ds_inv H s"
  shows "ds_inv H (snd (processOneExecution H conn w hook s))"
proof (cases "processOneExecution H conn w hook s")
  case (Pair r t)
  show ?thesis
  proof (cases r)
    case (Inl err)
    with Pair have "t = s" by (auto simp: processOneExecution_def dest: spike_store.throws_leave_tables)
    with Pair assms show ?thesis by simp
  next
    case (Inr out)
    with Pair have "ds_body H w hook s = (Inr out, t)"
      by (auto simp: processOneExecution_def spike_store.returns_commit)
    then show ?thesis
    proof (cases rule: ds_body_cases)
      case (2 v p)
      then show ?thesis
        using assms Pair executed_rows_ok executed_session_ok by (simp add: ds_inv_def)
    qed (use assms Pair in simp)
  qed
qed

lemma ds_reachable_inv: "ds_reachable H s \<Longrightarrow> ds_inv H s"
  unfolding ds_reachable_def
proof (induction rule: rtranclp_induct)
  case base
  show ?case
    by (simp add: ds_inv_def ds_rows_ok_def session_ok_def ds_empty_def ds_history_def ds_done_rows_def sql_select_def)
next
  case (step s t)
  from step(2,3) show ?case
  proof cases
    case (elsewhere rows n)
    have "ds_done_rows t k = ds_done_rows s k" for k by (simp add: ds_done_rows_def elsewhere)
    then have "session_ok H t k" for k
      using step(3) by (rule_tac session_ok_cong [of H s]) (simp_all add: ds_inv_def elsewhere)
    moreover have "ds_rows_ok t = ds_rows_ok s" by (simp add: ds_rows_ok_def elsewhere)
    ultimately show ?thesis using step(3) by (simp add: ds_inv_def)
  qed (simp_all add: ds_inv_seed_execution ds_inv_seed_session ds_inv_process)
qed

lemma ds_done_count:
  assumes "ds_rows_ok s"
  shows "length (ds_history s k) = length (filter (\<lambda>e. de_sessionId e = k \<and> de_status e = DsDone) (ds_executions s))"
proof -
  note D = assms [unfolded ds_rows_ok_def]
  define f where "f c = sql_select (\<lambda>e. de_id e = dc_execution c \<and> de_sessionId e = k) (ds_executions s)"
    for c :: ds_checkpoint
  define E where "E = concat (map f (ds_checkpoints s))"
  have one: "map de_id (f c) = filter (\<lambda>i. \<exists>e \<in> set (ds_executions s). de_id e = i \<and> de_sessionId e = k) [dc_execution c]"
    if "c \<in> set (ds_checkpoints s)" for c
  proof (cases "\<exists>e \<in> set (ds_executions s). de_id e = dc_execution c \<and> de_sessionId e = k")
    case True
    then obtain e where e: "e \<in> set (ds_executions s)" "dc_execution c = de_id e" "de_sessionId e = k" by auto
    have "f c = [e]" using select_execution [of "ds_executions s" e k] D e by (simp add: f_def)
    with True e show ?thesis by simp
  next
    case False
    then have "f c = []" by (auto simp: f_def sql_select_def filter_empty_conv)
    with False show ?thesis by simp
  qed
  have "map de_id E = filter (\<lambda>i. \<exists>e \<in> set (ds_executions s). de_id e = i \<and> de_sessionId e = k)
      (map dc_execution (ds_checkpoints s))"
  proof -
    have "map de_id (concat (map f cs)) = filter (\<lambda>i. \<exists>e \<in> set (ds_executions s). de_id e = i \<and> de_sessionId e = k)
        (map dc_execution cs)" if "set cs \<subseteq> set (ds_checkpoints s)" for cs :: "ds_checkpoint list"
      using that by (induction cs) (use one in auto)
    then show ?thesis by (simp add: E_def)
  qed
  then have "distinct (map de_id E)" using D by (simp add: key_unique_def)
  then have "distinct E" by (simp add: distinct_map)
  moreover have "distinct (filter (\<lambda>e. de_sessionId e = k \<and> de_status e = DsDone) (ds_executions s))"
    using D by (simp add: key_unique_def distinct_map)
  moreover have "set E = set (filter (\<lambda>e. de_sessionId e = k \<and> de_status e = DsDone) (ds_executions s))"
    using D by (auto simp: E_def f_def table_simps image_iff)
  ultimately have "length E = length (filter (\<lambda>e. de_sessionId e = k \<and> de_status e = DsDone) (ds_executions s))"
    by (metis distinct_card)
  moreover have "length (ds_done_rows s k) = length E"
    by (simp add: ds_done_rows_def E_def f_def length_concat comp_def)
  ultimately show ?thesis by (simp add: ds_history_def)
qed

text \<open>
  C38. The deep consolidation: after any history, a session's pointer counts the executions of the
  session that are done, its log is the chain of hashes over their mutations in the order of
  their checkpoints and its head is the end of that chain, each of these executions has exactly
  one checkpoint and no other execution has one, and every content on the chain is known to be
  warm somewhere.
\<close>

theorem session_state_is_one_chain:
  assumes "ds_reachable H s" "p \<in> set (ds_session_pointer s)"
  shows "filter (\<lambda>r. dl_sessionId r = dp_sessionId p) (ds_session_log s)
      = chain_rows H (dp_sessionId p) 1 ''root'' (ds_history s (dp_sessionId p))
    \<and> dp_headHash p = chain_head H (ds_history s (dp_sessionId p))
    \<and> dp_headSeq p = int (length (filter (\<lambda>e. de_sessionId e = dp_sessionId p \<and> de_status e = DsDone) (ds_executions s)))
    \<and> (\<forall>e \<in> set (ds_executions s). length (filter (\<lambda>c. dc_execution c = de_id e) (ds_checkpoints s))
         = (if de_status e = DsDone then 1 else 0))
    \<and> set (chain_hashes H ''root'' (ds_history s (dp_sessionId p))) \<subseteq> dq_contentHash ` set (ds_placements s)"
proof -
  have inv: "ds_rows_ok s" "session_ok H s (dp_sessionId p)"
    using ds_reachable_inv [OF assms(1)] by (simp_all add: ds_inv_def)
  note D = inv(1) [unfolded ds_rows_ok_def]
  have "first_row (sql_select (\<lambda>q. dp_sessionId q = dp_sessionId p) (ds_session_pointer s)) = Some p"
    using D assms(2) key_uniqueD by (intro first_row_select_unique) fastforce+
  moreover have "length (filter (\<lambda>c. dc_execution c = de_id e) (ds_checkpoints s))
      = (if de_status e = DsDone then 1 else 0)" if "e \<in> set (ds_executions s)" for e
  proof -
    have "length (filter (\<lambda>c. dc_execution c = i) cs) = (if i \<in> dc_execution ` set cs then 1 else 0)"
      if "key_unique dc_execution cs" for i and cs :: "ds_checkpoint list"
      using that by (induction cs) (auto simp: key_unique_def filter_empty_conv)
    with D that show ?thesis by simp
  qed
  ultimately show ?thesis
    using inv(2) ds_done_count [OF inv(1), of "dp_sessionId p"] by (simp add: session_ok_def flip: sql_select_def)
qed

text \<open>Two executions of one session, run by two workers.\<close>

definition ds_sample_host :: ds_host where
  "ds_sample_host = \<lparr>dh_sha256 = (\<lambda>x. x), dh_text = (\<lambda>i. if i = Some (JNum 0) then ''0'' else ''1'')\<rparr>"

definition ds_sample_input :: "rat \<Rightarrow> json" where
  "ds_sample_input i = JObj [(''mutationIndex'', JNum i)]"

definition ds_sample :: ds_db where
  "ds_sample =
     snd (processOneExecution ds_sample_host Healthy ''w2'' (Inr ())
    (snd (processOneExecution ds_sample_host Healthy ''w1'' (Inr ())
    (ds_seed_execution ''A'' ''sql_mutate'' (ds_sample_input 1)
    (ds_seed_execution ''A'' ''sql_mutate'' (ds_sample_input 0)
    (ds_seed_session ''A'' ds_empty))))))"

lemma ds_reachable_empty: "ds_reachable H ds_empty"
  by (simp add: ds_reachable_def)

lemma ds_reachable_step: "ds_reachable H s \<Longrightarrow> ds_step H s t \<Longrightarrow> ds_reachable H t"
  unfolding ds_reachable_def by (rule rtranclp.rtrancl_into_rtrancl)

lemmas ds_reachable_intros = ds_reachable_empty ds_reachable_step [OF _ ds_step.seed_session]
  ds_reachable_step [OF _ ds_step.seed_execution] ds_reachable_step [OF _ ds_step.process]

lemma ds_sample_reachable: "ds_reachable ds_sample_host ds_sample"
  unfolding ds_sample_def by (intro ds_reachable_intros)

definition ds_sample_pointer :: ds_pointer where
  "ds_sample_pointer = \<lparr>dp_sessionId = ''A'', dp_headSeq = 2, dp_headHash = ''root:0:1''\<rparr>"

lemma ds_sample_pointer: "ds_sample_pointer \<in> set (ds_session_pointer ds_sample)"
  by code_simp

theorem session_state_is_one_chain_witness:
  "dp_headHash ds_sample_pointer = chain_head ds_sample_host (ds_history ds_sample ''A'')
    \<and> ds_history ds_sample ''A'' = [Some (JNum 0), Some (JNum 1)]
    \<and> length (filter (\<lambda>e. de_sessionId e = ''A'' \<and> de_status e = DsDone) (ds_executions ds_sample)) = 2
    \<and> map dl_seq (ds_session_log ds_sample) = [1, 2]"
proof -
  have "ds_history ds_sample ''A'' = [Some (JNum 0), Some (JNum 1)]" by code_simp
  moreover have "map dl_seq (ds_session_log ds_sample) = [1, 2]" by code_simp
  ultimately show ?thesis
    using session_state_is_one_chain [OF ds_sample_reachable ds_sample_pointer] by (simp add: ds_sample_pointer_def)
qed

text \<open>A crash anywhere before the commit leaves no trace, and a quiet session that is ready is served.\<close>

theorem crash_leaves_no_trace:
  "fst (processOneExecution H conn w hook s) = Inl err \<Longrightarrow> snd (processOneExecution H conn w hook s) = s"
  using spike_store.throws_leave_tables [of conn "ds_body H w hook" s err]
  by (cases "processOneExecution H conn w hook s") (simp add: processOneExecution_def)

end
