(* ===== verification/Map_Spike.thy ===== *)
theory Map_Spike
  imports Transactions
begin

text \<open>
  \<open>archive/spikes/1.8-map-foreach/src/worker.js\<close>: the spike of dynamic fan-out. A map over an array
  becomes one execution per item; the last child to finish queues the map again, and the join
  puts the outputs into the order of the source. What \<open>Number\<close> makes of a JSON value (\<open>None\<close>
  for \<open>NaN\<close>) and the decimal text of an index are parameters. Random delays, the log of
  completions of the tests and timestamps that nothing reads are left out.
\<close>

subsection \<open>Tables\<close>

datatype ms_kind = MsMap | MsStep

datatype ms_status = MsQueued | MsRunning | MsAwaiting | MsDone | MsFailed

record ms_execution =
  me_id :: nat
  me_kind :: ms_kind
  me_parent :: "nat option"
  me_index :: "nat option"
  me_step :: string
  me_input :: json
  me_status :: ms_status
  me_worker :: "string option"
  me_lease :: "int option"
  me_attempts :: nat
  me_failRemaining :: int

record ms_checkpoint =
  mc_execution :: nat
  mc_step :: string
  mc_output :: json

record ms_map_row =
  mm_execution :: nat
  mm_total :: nat
  mm_completed :: nat
  mm_source :: "json list"

record ms_result_row =
  mr_execution :: nat
  mr_yields :: json

record ms_db =
  ms_executions :: "ms_execution list"
  ms_checkpoints :: "ms_checkpoint list"
  ms_map_rows :: "ms_map_row list"
  ms_results :: "ms_result_row list"
  ms_executions_seq :: nat
  ms_locked :: "nat list"
  ms_now :: int

type_synonym 'a ms_tx = "(ms_db, platform_error, 'a) tx"

record ms_host =
  mh_number :: "json option \<Rightarrow> rat option"
  mh_index_text :: "nat \<Rightarrow> string"

datatype ms_outcome =
    MsFanout nat nat
  | MsRetry nat "nat option" "nat option"
  | MsStepDone nat "nat option" "nat option" json bool
  | MsJoin nat json

subsection \<open>Statements\<close>

definition ms_claimable :: "ms_db \<Rightarrow> ms_execution \<Rightarrow> bool" where
  "ms_claimable s e \<longleftrightarrow>
     (me_status e = MsQueued
      \<or> me_status e = MsRunning \<and> (case me_lease e of None \<Rightarrow> False | Some t \<Rightarrow> t < ms_now s))
     \<and> me_id e \<notin> set (ms_locked s)"

definition ms_claimed :: "string \<Rightarrow> int \<Rightarrow> int \<Rightarrow> ms_execution \<Rightarrow> ms_execution" where
  "ms_claimed worker lease now e =
     e\<lparr>me_status := MsRunning, me_worker := Some worker, me_lease := Some (now + lease * 1000),
       me_attempts := me_attempts e + 1\<rparr>"

definition ms_claim_execution :: "string \<Rightarrow> int \<Rightarrow> ms_execution option ms_tx" where
  "ms_claim_execution worker lease =
     (\<lambda>s. case first_row (sort_key me_id (sql_select (ms_claimable s) (ms_executions s))) of
        None \<Rightarrow> (Inr None, s)
      | Some v \<Rightarrow>
          (Inr (Some (ms_claimed worker lease (ms_now s) v)),
           s\<lparr>ms_executions := sql_update (\<lambda>e. me_id e = me_id v) (ms_claimed worker lease (ms_now s))
               (ms_executions s)\<rparr>))"

definition ms_update :: "nat \<Rightarrow> (ms_execution \<Rightarrow> ms_execution) \<Rightarrow> unit ms_tx" where
  "ms_update i f =
     tx_write (\<lambda>s. s\<lparr>ms_executions := sql_update (\<lambda>e. me_id e = i) f (ms_executions s)\<rparr>)"

definition ms_insert_execution ::
  "ms_kind \<Rightarrow> nat option \<Rightarrow> nat option \<Rightarrow> string \<Rightarrow> json \<Rightarrow> int \<Rightarrow> ms_db \<Rightarrow> ms_db" where
  "ms_insert_execution kind parent index step inp fails s =
     s\<lparr>ms_executions := ms_executions s @
         [\<lparr>me_id = Suc (ms_executions_seq s), me_kind = kind, me_parent = parent, me_index = index,
           me_step = step, me_input = inp, me_status = MsQueued, me_worker = None, me_lease = None,
           me_attempts = 0, me_failRemaining = fails\<rparr>],
       ms_executions_seq := Suc (ms_executions_seq s)\<rparr>"

text \<open>\<open>INSERT ... ON CONFLICT (execution_id, step_id) DO NOTHING\<close>.\<close>

definition ms_insert_checkpoint :: "nat \<Rightarrow> string \<Rightarrow> json \<Rightarrow> unit ms_tx" where
  "ms_insert_checkpoint i step out =
     tx_write (\<lambda>s. if sql_select (\<lambda>c. mc_execution c = i \<and> mc_step c = step) (ms_checkpoints s) = []
       then s\<lparr>ms_checkpoints := ms_checkpoints s @ [\<lparr>mc_execution = i, mc_step = step, mc_output = out\<rparr>]\<rparr>
       else s)"

definition STEP_ID :: string where "STEP_ID = ''enrichOne''"
definition JOIN_STEP_ID :: string where "JOIN_STEP_ID = ''join''"

text \<open>A property of \<open>row.input\<close>.\<close>

definition input_member :: "json \<Rightarrow> string \<Rightarrow> json option result" where
  "input_member inp k = (if inp = JNull then Inl (HostError ''TypeError'') else Inr (js_member inp k))"

definition enrichOne :: "ms_host \<Rightarrow> json option \<Rightarrow> json" where
  "enrichOne H item =
     JObj [(''enriched'', case mh_number H item of None \<Rightarrow> JNull | Some n \<Rightarrow> JNum (n * 2))]"

subsection \<open>Fan-out\<close>

text \<open>\<open>(row.input.failIndices || {})[i]\<close>, and \<open>Number(v || 0)\<close> for a column of type \<open>INT\<close>.\<close>

fun fail_entry :: "ms_host \<Rightarrow> json option \<Rightarrow> nat \<Rightarrow> json option" where
  "fail_entry H (Some (JObj obj)) i = js_get obj (mh_index_text H i)"
| "fail_entry H (Some (JArr xs)) i = (if i < length xs then Some (xs ! i) else None)"
| "fail_entry H (Some (JStr cs)) i = (if i < length cs then Some (JStr [cs ! i]) else None)"
| "fail_entry H _ i = None"

definition fail_count :: "ms_host \<Rightarrow> json option \<Rightarrow> int option" where
  "fail_count H v =
     (case (if v \<in> {None, Some JNull, Some (JBool False), Some (JStr []), Some (JNum 0)} then Some 0 else mh_number H v) of
        None \<Rightarrow> None
      | Some n \<Rightarrow>
          let k = fst (quotient_of n) in
          if snd (quotient_of n) = 1 \<and> - 2147483648 \<le> k \<and> k \<le> 2147483647 then Some k else None)"

definition ms_insert_child :: "ms_host \<Rightarrow> nat \<Rightarrow> json option \<Rightarrow> nat \<times> json \<Rightarrow> unit ms_tx" where
  "ms_insert_child H parent failMap = (\<lambda>(i, item) s.
     case fail_count H (fail_entry H failMap i) of
       None \<Rightarrow> (Inl (DbError InvalidParameterValue), s)
     | Some fails \<Rightarrow>
         (Inr (), ms_insert_execution MsStep (Some parent) (Some i) STEP_ID (JObj [(''item'', item)]) fails s))"

definition ms_source :: "json option \<Rightarrow> json list result" where
  "ms_source v = (case v of Some (JArr xs) \<Rightarrow> Inr xs | _ \<Rightarrow> Inl (HostError ''map has no source array''))"

definition ms_insert_map_row :: "nat \<Rightarrow> json list \<Rightarrow> unit ms_tx" where
  "ms_insert_map_row i source =
     (\<lambda>s. if sql_select (\<lambda>m. mm_execution m = i) (ms_map_rows s) \<noteq> [] then (Inl (DbError UniqueViolation), s)
          else (Inr (), s\<lparr>ms_map_rows := ms_map_rows s @
                 [\<lparr>mm_execution = i, mm_total = length source, mm_completed = 0, mm_source = source\<rparr>]\<rparr>))"

definition parked :: "ms_execution \<Rightarrow> ms_execution" where
  "parked e = e\<lparr>me_status := MsAwaiting, me_worker := None, me_lease := None\<rparr>"

definition fanOut :: "ms_host \<Rightarrow> ms_execution \<Rightarrow> ms_outcome ms_tx" where
  "fanOut H row =
     tx_bind (tx_lift (input_member (me_input row) ''source'')) (\<lambda>v.
     tx_bind (tx_lift (ms_source v)) (\<lambda>source.
     tx_bind (tx_lift (input_member (me_input row) ''failIndices'')) (\<lambda>failMap.
     tx_then (tx_for (enumerate 0 source) (ms_insert_child H (me_id row) failMap))
    (tx_then (ms_insert_map_row (me_id row) source)
    (tx_then (ms_update (me_id row) parked)
             (tx_return (MsFanout (me_id row) (length source))))))))"

subsection \<open>Steps\<close>

definition owes_less :: "ms_execution \<Rightarrow> ms_execution" where
  "owes_less e = e\<lparr>me_failRemaining := me_failRemaining e - 1, me_status := MsQueued, me_worker := None,
     me_lease := None\<rparr>"

text \<open>The counter of the parent; the answer says whether the parent was queued for its join.\<close>

definition bump_parent :: "nat \<Rightarrow> bool ms_tx" where
  "bump_parent p =
     tx_then (tx_write (\<lambda>s. s\<lparr>ms_map_rows := sql_update (\<lambda>m. mm_execution m = p)
                (\<lambda>m. m\<lparr>mm_completed := mm_completed m + 1\<rparr>) (ms_map_rows s)\<rparr>))
    (tx_bind (tx_read (\<lambda>s. sql_select (\<lambda>m. mm_execution m = p) (ms_map_rows s))) (\<lambda>rows.
       case first_row rows of
         None \<Rightarrow> tx_return False
       | Some mn \<Rightarrow>
           if mm_completed mn = mm_total mn
           then tx_then (ms_update p (\<lambda>e. e\<lparr>me_status := MsQueued\<rparr>)) (tx_return True)
           else tx_return False))"

definition processStep :: "ms_host \<Rightarrow> ms_execution \<Rightarrow> ms_outcome ms_tx" where
  "processStep H row =
     (if me_failRemaining row > 0
      then tx_then (ms_update (me_id row) owes_less)
                   (tx_return (MsRetry (me_id row) (me_index row) (me_parent row)))
      else
        tx_bind (tx_lift (input_member (me_input row) ''item'')) (\<lambda>item.
          let output = enrichOne H item in
          tx_then (ms_insert_checkpoint (me_id row) STEP_ID output)
         (tx_then (ms_update (me_id row) (\<lambda>e. e\<lparr>me_status := MsDone\<rparr>))
         (tx_bind (case me_parent row of None \<Rightarrow> tx_return False | Some p \<Rightarrow> bump_parent p) (\<lambda>requeued.
            tx_return (MsStepDone (me_id row) (me_index row) (me_parent row) output requeued))))))"

subsection \<open>Join\<close>

text \<open>\<open>enriched[i] = v\<close> on an array, which grows when it is too short; a hole is \<open>None\<close>.\<close>

definition put_at :: "nat \<Rightarrow> json option \<Rightarrow> json option list \<Rightarrow> json option list" where
  "put_at i v xs = (if i < length xs then xs[i := v] else xs @ replicate (i - length xs) None @ [v])"

text \<open>The children with their outputs, ordered by index; \<open>NULL\<close> comes last.\<close>

definition ms_children :: "nat \<Rightarrow> ms_db \<Rightarrow> (nat option \<times> json) list" where
  "ms_children i s =
     (let rows = concat (map (\<lambda>c. map (\<lambda>cp. (me_index c, mc_output cp))
                   (sql_select (\<lambda>cp. mc_execution cp = me_id c \<and> mc_step cp = STEP_ID) (ms_checkpoints s)))
                 (sql_select (\<lambda>c. me_parent c = Some i) (ms_executions s)))
      in sort_key (\<lambda>r. the (fst r)) (filter (\<lambda>r. fst r \<noteq> None) rows) @ filter (\<lambda>r. fst r = None) rows)"

text \<open>The array that the loop fills, as \<open>JSON.stringify\<close> writes it; an index \<open>null\<close> is no index.\<close>

definition ms_yields :: "nat \<Rightarrow> (nat option \<times> json) list \<Rightarrow> json" where
  "ms_yields n children =
     (let enriched = fold (\<lambda>(i, out) xs. case i of None \<Rightarrow> xs | Some k \<Rightarrow> put_at k (js_member out ''enriched'') xs)
            children (replicate n None)
      in JObj [(''enriched'', JArr (map (\<lambda>v. nullish v JNull) enriched))])"

definition ms_insert_result :: "nat \<Rightarrow> json \<Rightarrow> unit ms_tx" where
  "ms_insert_result i yields =
     tx_write (\<lambda>s. if sql_select (\<lambda>r. mr_execution r = i) (ms_results s) = []
       then s\<lparr>ms_results := ms_results s @ [\<lparr>mr_execution = i, mr_yields = yields\<rparr>]\<rparr> else s)"

definition ms_join :: "ms_execution \<Rightarrow> ms_map_row \<Rightarrow> ms_outcome ms_tx" where
  "ms_join row mapNode =
     tx_bind (tx_read (ms_children (me_id row))) (\<lambda>children.
       if length children \<noteq> mm_total mapNode then tx_throw (HostError ''children ready'')
       else
         let yields = ms_yields (mm_total mapNode) children in
         tx_then (ms_insert_result (me_id row) yields)
        (tx_then (ms_insert_checkpoint (me_id row) JOIN_STEP_ID
                    (JObj [(''count'', JNum (of_nat (mm_total mapNode)))]))
        (tx_then (ms_update (me_id row) (\<lambda>e. e\<lparr>me_status := MsDone\<rparr>))
                 (tx_return (MsJoin (me_id row) yields)))))"

subsection \<open>One claim, and the loop\<close>

text \<open>\<open>hook\<close> is the outcome of \<open>opts.onClaim\<close>.\<close>

definition ms_body :: "ms_host \<Rightarrow> string \<Rightarrow> unit result \<Rightarrow> ms_outcome option ms_tx" where
  "ms_body H worker hook =
     tx_bind (ms_claim_execution worker 30) (\<lambda>claimed.
       case claimed of
         None \<Rightarrow> tx_return None
       | Some row \<Rightarrow>
           tx_then (tx_lift hook)
             (tx_bind
               (if me_kind row = MsMap
                then tx_bind (tx_read (\<lambda>s. sql_select (\<lambda>m. mm_execution m = me_id row) (ms_map_rows s))) (\<lambda>mn.
                       case mn of [] \<Rightarrow> fanOut H row | m # _ \<Rightarrow> ms_join row m)
                else processStep H row)
               (\<lambda>r. tx_return (Some r))))"

definition ms_rollback :: "ms_db \<Rightarrow> ms_db \<Rightarrow> ms_db" where
  "ms_rollback s t = s\<lparr>ms_executions_seq := ms_executions_seq t\<rparr>"

definition ms_tables :: "ms_db \<Rightarrow> ms_db" where
  "ms_tables s = s\<lparr>ms_executions_seq := 0\<rparr>"

interpretation map_store: atomic_store ms_rollback ms_tables
  by unfold_locales (simp_all add: ms_rollback_def ms_tables_def)

definition ms_processOne :: "ms_host \<Rightarrow> connection \<Rightarrow> string \<Rightarrow> unit result \<Rightarrow> ms_outcome option ms_tx" where
  "ms_processOne H conn worker hook = withTransaction ms_rollback conn (ms_body H worker hook)"

datatype ms_event = MsDid ms_outcome | MsError platform_error

text \<open>
  \<open>workerLoop\<close>: an error is noted and counts as work. \<open>around n\<close> is the connection of the \<open>n\<close>-th
  claim and what happens to the database before it; \<open>None\<close> means that the loop never ends.
\<close>

partial_function (option) ms_workerLoop ::
  "ms_host \<Rightarrow> (nat \<Rightarrow> connection \<times> (ms_db \<Rightarrow> ms_db)) \<Rightarrow> string \<Rightarrow> nat \<Rightarrow> nat \<Rightarrow> nat \<Rightarrow> ms_event list \<Rightarrow>
     ms_db \<Rightarrow> (ms_event list \<times> ms_db) option"
where
  "ms_workerLoop H around worker maxIdle n idle events s =
     (if idle < maxIdle
      then case ms_processOne H (fst (around n)) worker (Inr ()) (snd (around n) s) of
             (Inl err, t) \<Rightarrow> ms_workerLoop H around worker maxIdle (Suc n) 0 (events @ [MsError err]) t
           | (Inr None, t) \<Rightarrow> ms_workerLoop H around worker maxIdle (Suc n) (Suc idle) events t
           | (Inr (Some r), t) \<Rightarrow> ms_workerLoop H around worker maxIdle (Suc n) 0 (events @ [MsDid r]) t
      else Some (events, s))"

end
