(* ===== verification/Map_Spike_Invariant.thy ===== *)
theory Map_Spike_Invariant
  imports Map_Spike
begin

text \<open>
  The invariant of the map spike: what its tables hold for each execution between transactions,
  what a join reads when the children of a map are done, and the changes that keep it.
\<close>

subsection \<open>The rows of one map\<close>

definition ms_kids :: "ms_db \<Rightarrow> nat \<Rightarrow> ms_execution list" where
  "ms_kids s i = sql_select (\<lambda>e. me_parent e = Some i) (ms_executions s)"

definition ms_cks :: "ms_db \<Rightarrow> nat \<Rightarrow> ms_checkpoint list" where
  "ms_cks s i = sql_select (\<lambda>c. mc_execution c = i) (ms_checkpoints s)"

definition ms_rows :: "ms_db \<Rightarrow> nat \<Rightarrow> ms_map_row list" where
  "ms_rows s i = sql_select (\<lambda>m. mm_execution m = i) (ms_map_rows s)"

definition ms_ress :: "ms_db \<Rightarrow> nat \<Rightarrow> ms_result_row list" where
  "ms_ress s i = sql_select (\<lambda>r. mr_execution r = i) (ms_results s)"

definition step_output :: "ms_host \<Rightarrow> ms_execution \<Rightarrow> json" where
  "step_output H e = enrichOne H (js_member (me_input e) ''item'')"

text \<open>What a map over \<open>items\<close> yields.\<close>

definition map_result :: "ms_host \<Rightarrow> json list \<Rightarrow> json" where
  "map_result H items = JObj [(''enriched'',
     JArr (map (\<lambda>x. nullish (js_member (enrichOne H (Some x)) ''enriched'') JNull) items))]"

definition ms_done_count :: "ms_execution list \<Rightarrow> nat" where
  "ms_done_count cs = length (filter (\<lambda>c. me_status c = MsDone) cs)"

definition step_ok :: "ms_host \<Rightarrow> ms_execution \<Rightarrow> ms_checkpoint list \<Rightarrow> bool" where
  "step_ok H e cks \<longleftrightarrow> me_status e \<in> {MsQueued, MsDone}
     \<and> cks = (if me_status e = MsDone
              then [\<lparr>mc_execution = me_id e, mc_step = STEP_ID, mc_output = step_output H e\<rparr>] else [])"

definition fanned_ok ::
  "ms_host \<Rightarrow> ms_execution \<Rightarrow> json list \<Rightarrow> ms_map_row \<Rightarrow> ms_execution list \<Rightarrow> ms_result_row list \<Rightarrow> bool" where
  "fanned_ok H e items mm kids ress \<longleftrightarrow>
     js_member (me_input e) ''source'' = Some (JArr items) \<and> mm_total mm = length items
     \<and> map (\<lambda>c. (me_index c, me_input c)) kids = map (\<lambda>(i, x). (Some i, JObj [(''item'', x)])) (enumerate 0 items)
     \<and> (\<forall>c \<in> set kids. me_kind c = MsStep) \<and> mm_completed mm = ms_done_count kids
     \<and> me_status e \<in> (if items \<noteq> [] \<and> ms_done_count kids = length items then {MsQueued, MsDone} else {MsAwaiting})
     \<and> ress = (if me_status e = MsDone then [\<lparr>mr_execution = me_id e, mr_yields = map_result H items\<rparr>] else [])"

definition map_ok ::
  "ms_host \<Rightarrow> ms_execution \<Rightarrow> ms_execution list \<Rightarrow> ms_map_row list \<Rightarrow> ms_result_row list \<Rightarrow> bool" where
  "map_ok H e kids rows ress \<longleftrightarrow>
     rows = [] \<and> kids = [] \<and> ress = [] \<and> me_status e = MsQueued
     \<or> (\<exists>items mm. rows = [mm] \<and> fanned_ok H e items mm kids ress)"

definition ms_exec_ok :: "ms_host \<Rightarrow> ms_db \<Rightarrow> ms_execution \<Rightarrow> bool" where
  "ms_exec_ok H s e \<longleftrightarrow>
     (case me_kind e of
        MsStep \<Rightarrow> step_ok H e (ms_cks s (me_id e))
      | MsMap \<Rightarrow> me_parent e = None \<and> map_ok H e (ms_kids s (me_id e)) (ms_rows s (me_id e)) (ms_ress s (me_id e)))"

definition ms_ids :: "ms_db \<Rightarrow> bool" where
  "ms_ids s \<longleftrightarrow> key_unique me_id (ms_executions s)
     \<and> (\<forall>e \<in> set (ms_executions s). me_id e \<le> ms_executions_seq s)
     \<and> (\<forall>c \<in> set (ms_checkpoints s). mc_execution c \<le> ms_executions_seq s)
     \<and> (\<forall>m \<in> set (ms_map_rows s). mm_execution m \<le> ms_executions_seq s)
     \<and> (\<forall>r \<in> set (ms_results s). mr_execution r \<le> ms_executions_seq s)"

definition ms_rooted :: "ms_db \<Rightarrow> bool" where
  "ms_rooted s \<longleftrightarrow> (\<forall>c \<in> set (ms_executions s). \<forall>p. me_parent c = Some p \<longrightarrow>
     (\<exists>e \<in> set (ms_executions s). me_id e = p \<and> me_kind e = MsMap))"

definition ms_inv :: "ms_host \<Rightarrow> ms_db \<Rightarrow> bool" where
  "ms_inv H s \<longleftrightarrow> ms_ids s \<and> ms_rooted s \<and> (\<forall>e \<in> set (ms_executions s). ms_exec_ok H s e)"

lemma ms_invD:
  assumes "ms_inv H s"
  shows "ms_ids s" "ms_rooted s" "e \<in> set (ms_executions s) \<Longrightarrow> ms_exec_ok H s e"
  using assms by (simp_all add: ms_inv_def)

lemma ms_idsD:
  assumes "ms_ids s"
  shows "key_unique me_id (ms_executions s)" "e \<in> set (ms_executions s) \<Longrightarrow> me_id e \<le> ms_executions_seq s"
    "c \<in> set (ms_checkpoints s) \<Longrightarrow> mc_execution c \<le> ms_executions_seq s"
    "m \<in> set (ms_map_rows s) \<Longrightarrow> mm_execution m \<le> ms_executions_seq s"
    "r \<in> set (ms_results s) \<Longrightarrow> mr_execution r \<le> ms_executions_seq s"
  using assms by (simp_all add: ms_ids_def)

subsection \<open>The array that a join fills\<close>

lemma put_at_next: "put_at (length xs) v xs = xs @ [v]"
  by (simp add: put_at_def)

lemma fill_in_order:
  "fold (\<lambda>(i, out) xs. case i of None \<Rightarrow> xs | Some k \<Rightarrow> put_at k (f out) xs)
      (map (\<lambda>(i, x). (Some i, g x)) (enumerate (length done') ys)) (done' @ replicate (length ys) None)
    = done' @ map (\<lambda>x. f (g x)) ys"
proof (induction ys arbitrary: done')
  case (Cons y ys)
  have "put_at (length done') (f (g y)) (done' @ None # replicate (length ys) None)
      = (done' @ [f (g y)]) @ replicate (length ys) None"
    by (simp add: put_at_def list_update_append)
  with Cons.IH [of "done' @ [f (g y)]"] show ?case by simp
qed simp

lemma ms_yields_map:
  "ms_yields (length items) (map (\<lambda>(i, x). (Some i, enrichOne H (Some x))) (enumerate 0 items)) = map_result H items"
  using fill_in_order [of "\<lambda>out. js_member out ''enriched''" "enrichOne H \<circ> Some" "[]" items]
  by (simp add: ms_yields_def Let_def map_result_def comp_def)

text \<open>The children of a map that are all done, as the join reads them.\<close>

lemma concat_singletons: "(\<And>c. c \<in> set cs \<Longrightarrow> h c = [g c]) \<Longrightarrow> concat (map h cs) = map g cs"
  by (induction cs) simp_all

lemma ms_children_done:
  assumes kids: "map (\<lambda>c. (me_index c, me_input c)) (ms_kids s i)
      = map (\<lambda>(i, x). (Some i, JObj [(''item'', x)])) (enumerate 0 items)"
    and ok: "\<forall>c \<in> set (ms_kids s i). step_ok H c (ms_cks s (me_id c)) \<and> me_status c = MsDone"
  shows "ms_children i s = map (\<lambda>(i, x). (Some i, enrichOne H (Some x))) (enumerate 0 items)"
proof -
  have one: "map (\<lambda>cp. (me_index c, mc_output cp))
      (sql_select (\<lambda>cp. mc_execution cp = me_id c \<and> mc_step cp = STEP_ID) (ms_checkpoints s))
    = [(me_index c, step_output H c)]" if "c \<in> set (ms_kids s i)" for c
  proof -
    have "sql_select (\<lambda>cp. mc_execution cp = me_id c \<and> mc_step cp = STEP_ID) (ms_checkpoints s)
        = filter (\<lambda>cp. mc_step cp = STEP_ID) (ms_cks s (me_id c))"
      by (simp add: ms_cks_def sql_select_def conj_commute)
    with ok that show ?thesis by (simp add: step_ok_def)
  qed
  have "concat (map (\<lambda>c. map (\<lambda>cp. (me_index c, mc_output cp))
      (sql_select (\<lambda>cp. mc_execution cp = me_id c \<and> mc_step cp = STEP_ID) (ms_checkpoints s))) (ms_kids s i))
    = map (\<lambda>c. (me_index c, step_output H c)) (ms_kids s i)"
    by (rule concat_singletons) (simp add: one)
  also have "\<dots> = map (\<lambda>(i, inp). (i, enrichOne H (js_member inp ''item''))) (map (\<lambda>c. (me_index c, me_input c)) (ms_kids s i))"
    by (simp add: step_output_def comp_def)
  also have "\<dots> = map (\<lambda>(i, x). (Some i, enrichOne H (Some x))) (enumerate 0 items)"
    unfolding kids by (simp add: comp_def case_prod_beta js_get_def)
  finally have rows: "concat (map (\<lambda>c. map (\<lambda>cp. (me_index c, mc_output cp))
      (sql_select (\<lambda>cp. mc_execution cp = me_id c \<and> mc_step cp = STEP_ID) (ms_checkpoints s))) (ms_kids s i))
    = map (\<lambda>(i, x). (Some i, enrichOne H (Some x))) (enumerate 0 items)" .
  have sorted: "sort_key (\<lambda>r. the (fst r)) (map (\<lambda>(i, x). (Some i, enrichOne H (Some x))) (enumerate n items))
      = map (\<lambda>(i, x). (Some i, enrichOne H (Some x))) (enumerate n items)" for n
    by (rule sort_key_id_if_sorted) (simp add: comp_def case_prod_beta)
  show ?thesis
    unfolding ms_children_def Let_def rows [unfolded ms_kids_def]
    by (simp add: filter_map comp_def case_prod_beta) (use sorted [of 0] in \<open>simp add: case_prod_beta\<close>)
qed

subsection \<open>Changes that keep the shape\<close>

text \<open>The columns that no statement changes.\<close>

definition ms_core :: "ms_execution \<Rightarrow> nat \<times> ms_kind \<times> nat option \<times> nat option \<times> json" where
  "ms_core e = (me_id e, me_kind e, me_parent e, me_index e, me_input e)"

lemma ms_core_sel:
  assumes "ms_core e' = ms_core e"
  shows "me_id e' = me_id e" "me_kind e' = me_kind e" "me_parent e' = me_parent e" "me_index e' = me_index e"
    "me_input e' = me_input e"
  using assms by (simp_all add: ms_core_def)

lemma ms_core_claimed [simp]: "ms_core (ms_claimed w l n e) = ms_core e"
  by (simp add: ms_core_def ms_claimed_def)

lemma ms_claimed_sel [simp]:
  "me_id (ms_claimed w l n e) = me_id e" "me_kind (ms_claimed w l n e) = me_kind e"
  "me_parent (ms_claimed w l n e) = me_parent e" "me_index (ms_claimed w l n e) = me_index e"
  "me_input (ms_claimed w l n e) = me_input e" "me_failRemaining (ms_claimed w l n e) = me_failRemaining e"
  by (simp_all add: ms_claimed_def)

lemma ms_core_parked [simp]: "ms_core (parked e) = ms_core e"
  by (simp add: ms_core_def parked_def)

lemma ms_core_owes_less [simp]: "ms_core (owes_less e) = ms_core e"
  by (simp add: ms_core_def owes_less_def)

lemma ms_core_status [simp]: "ms_core (e\<lparr>me_status := st\<rparr>) = ms_core e"
  by (simp add: ms_core_def)

lemma kids_map:
  assumes "ms_executions t = map g (ms_executions s)" "\<And>e. ms_core (g e) = ms_core e"
  shows "ms_kids t i = map g (ms_kids s i)"
  using ms_core_sel [OF assms(2)] by (simp add: ms_kids_def assms(1) sql_select_map)

lemma step_ok_map:
  "step_ok H e cks \<Longrightarrow> ms_core e' = ms_core e \<Longrightarrow> me_status e' = me_status e \<Longrightarrow> step_ok H e' cks"
  using ms_core_sel [of e' e] by (simp add: step_ok_def step_output_def)

lemma fanned_ok_map:
  assumes "fanned_ok H e items mm kids ress" "\<And>c. ms_core (g c) = ms_core c"
    and "me_status (g e) = me_status e" "\<And>c. c \<in> set kids \<Longrightarrow> me_status (g c) = me_status c"
  shows "fanned_ok H (g e) items mm (map g kids) ress"
proof -
  have "ms_done_count (map g kids) = ms_done_count kids"
    using assms(4) by (auto simp: ms_done_count_def filter_map intro!: arg_cong [where f = length] filter_cong)
  with assms(1,3) ms_core_sel [OF assms(2)] show ?thesis
    unfolding fanned_ok_def by (simp add: comp_def)
qed

lemma map_ok_map:
  assumes "map_ok H e kids rows ress" "\<And>c. ms_core (g c) = ms_core c"
    and "me_status (g e) = me_status e" "\<And>c. c \<in> set kids \<Longrightarrow> me_status (g c) = me_status c"
  shows "map_ok H (g e) (map g kids) rows ress"
  using assms(1,3) fanned_ok_map [OF _ assms(2-4)] unfolding map_ok_def by fastforce

text \<open>An execution that a transaction leaves alone, with all that is recorded for it.\<close>

lemma ms_exec_ok_kept:
  assumes "ms_exec_ok H s e" "ms_kids t (me_id e) = map g (ms_kids s (me_id e))" "\<And>c. ms_core (g c) = ms_core c"
    and "me_status (g e) = me_status e"
    and "me_kind e = MsStep \<Longrightarrow> ms_cks t (me_id e) = ms_cks s (me_id e)"
    and "me_kind e = MsMap \<Longrightarrow> ms_rows t (me_id e) = ms_rows s (me_id e) \<and> ms_ress t (me_id e) = ms_ress s (me_id e)
      \<and> (\<forall>c \<in> set (ms_kids s (me_id e)). me_status (g c) = me_status c)"
  shows "ms_exec_ok H t (g e)"
proof (cases "me_kind e")
  case MsStep
  with assms(1,5) ms_core_sel [OF assms(3)] step_ok_map [OF _ assms(3,4)] show ?thesis
    by (simp add: ms_exec_ok_def)
next
  case MsMap
  with assms(1,6) ms_core_sel [OF assms(3)] map_ok_map [OF _ assms(3,4)] show ?thesis
    by (simp add: ms_exec_ok_def assms(2))
qed

lemma fresh_ids:
  assumes "map me_id ks = [Suc n..<Suc (n + m)]" "c \<in> set ks"
  shows "n < me_id c" "me_id c \<le> n + m"
proof -
  have "me_id c \<in> set [Suc n..<Suc (n + m)]" unfolding assms(1) [symmetric] using assms(2) by simp
  then show "n < me_id c" "me_id c \<le> n + m" by (auto simp del: upt_Suc)
qed

text \<open>A transaction that changes rows and appends executions.\<close>

lemma ms_inv_grown:
  assumes inv: "ms_inv H s" and exs: "ms_executions t = map g (ms_executions s) @ ks" "\<And>e. ms_core (g e) = ms_core e"
    and seq: "ms_executions_seq t = ms_executions_seq s + n"
    and fresh: "map me_id ks = [Suc (ms_executions_seq s)..<Suc (ms_executions_seq s + n)]"
    and ids: "mc_execution ` set (ms_checkpoints t) \<subseteq> mc_execution ` set (ms_checkpoints s) \<union> me_id ` set (ms_executions s)"
      "mm_execution ` set (ms_map_rows t) \<subseteq> mm_execution ` set (ms_map_rows s) \<union> me_id ` set (ms_executions s)"
      "mr_execution ` set (ms_results t) \<subseteq> mr_execution ` set (ms_results s) \<union> me_id ` set (ms_executions s)"
    and roots: "\<And>c p. c \<in> set ks \<Longrightarrow> me_parent c = Some p \<Longrightarrow>
      \<exists>e \<in> set (ms_executions s). me_id e = p \<and> me_kind e = MsMap"
    and ok: "\<And>e. e \<in> set (ms_executions s) \<Longrightarrow> ms_exec_ok H t (g e)" "\<And>c. c \<in> set ks \<Longrightarrow> ms_exec_ok H t c"
  shows "ms_inv H t"
proof -
  note core = ms_core_sel [OF exs(2)]
  note D = ms_invD [OF inv]
  note B = ms_idsD [OF D(1)]
  note new = fresh_ids [OF fresh]
  have "ms_rooted t"
    unfolding ms_rooted_def
  proof (intro ballI allI impI)
    fix c p
    assume c: "c \<in> set (ms_executions t)" "me_parent c = Some p"
    have "\<exists>e \<in> set (ms_executions s). me_id e = p \<and> me_kind e = MsMap"
    proof (cases "c \<in> set ks")
      case False
      then obtain e where "e \<in> set (ms_executions s)" "me_parent e = Some p"
        using c by (auto simp: exs(1) core)
      with D(2) show ?thesis by (auto simp: ms_rooted_def)
    qed (use roots c in auto)
    then obtain e where "e \<in> set (ms_executions s)" "me_id e = p" "me_kind e = MsMap" by auto
    then show "\<exists>e \<in> set (ms_executions t). me_id e = p \<and> me_kind e = MsMap"
      by (intro bexI [of _ "g e"]) (auto simp: exs(1) core)
  qed
  moreover have "ms_ids t"
    unfolding ms_ids_def
  proof (intro conjI ballI)
    have "map me_id (ms_executions t) = map me_id (ms_executions s) @ map me_id ks"
      by (simp add: exs(1) comp_def core)
    moreover have "distinct (map me_id ks)" unfolding fresh by (rule distinct_upt)
    moreover have "set (map me_id (ms_executions s)) \<inter> set (map me_id ks) = {}" using B(2) new(1) by fastforce
    ultimately show "key_unique me_id (ms_executions t)"
      using B(1) unfolding key_unique_def by (simp only: distinct_append)
    show "me_id e \<le> ms_executions_seq t" if "e \<in> set (ms_executions t)" for e
      using that B(2) new by (auto simp: exs(1) core seq intro: trans_le_add1)
    show "mc_execution c \<le> ms_executions_seq t" if "c \<in> set (ms_checkpoints t)" for c
      using subsetD [OF ids(1) imageI [OF that]] B(2,3) by (auto simp: seq intro: trans_le_add1)
    show "mm_execution m \<le> ms_executions_seq t" if "m \<in> set (ms_map_rows t)" for m
      using subsetD [OF ids(2) imageI [OF that]] B(2,4) by (auto simp: seq intro: trans_le_add1)
    show "mr_execution r \<le> ms_executions_seq t" if "r \<in> set (ms_results t)" for r
      using subsetD [OF ids(3) imageI [OF that]] B(2,5) by (auto simp: seq intro: trans_le_add1)
  qed
  ultimately show ?thesis using ok by (auto simp: ms_inv_def exs(1))
qed

lemma ms_inv_kept:
  assumes "ms_inv H s" "ms_executions t = map g (ms_executions s)" "\<And>e. ms_core (g e) = ms_core e"
    and "ms_executions_seq t = ms_executions_seq s"
    and "mc_execution ` set (ms_checkpoints t) \<subseteq> mc_execution ` set (ms_checkpoints s) \<union> me_id ` set (ms_executions s)"
      "mm_execution ` set (ms_map_rows t) \<subseteq> mm_execution ` set (ms_map_rows s)"
      "mr_execution ` set (ms_results t) \<subseteq> mr_execution ` set (ms_results s) \<union> me_id ` set (ms_executions s)"
    and "\<And>e. e \<in> set (ms_executions s) \<Longrightarrow> ms_exec_ok H t (g e)"
  shows "ms_inv H t"
  by (rule ms_inv_grown [OF assms(1) _ assms(3), where ks = "[]" and n = 0]) (use assms in auto)

subsection \<open>One claim\<close>

definition ms_held :: "string \<Rightarrow> ms_execution \<Rightarrow> ms_db \<Rightarrow> ms_db" where
  "ms_held w v s = s\<lparr>ms_executions := sql_update (\<lambda>e. me_id e = me_id v) (ms_claimed w 30 (ms_now s)) (ms_executions s)\<rparr>"

lemma ms_body_cases:
  assumes "ms_body H w hook s = (Inr r, t)"
  obtains "r = None" "t = s"
  | v out where "v \<in> set (ms_executions s)" "ms_claimable s v" "r = Some out"
      "(if me_kind v = MsMap
        then (case ms_rows s (me_id v) of [] \<Rightarrow> fanOut H (ms_claimed w 30 (ms_now s) v)
                | m # _ \<Rightarrow> ms_join (ms_claimed w 30 (ms_now s) v) m)
        else processStep H (ms_claimed w 30 (ms_now s) v)) (ms_held w v s) = (Inr out, t)"
proof (cases "first_row (sort_key me_id (sql_select (ms_claimable s) (ms_executions s)))")
  case None
  with assms that(1) show thesis by (simp add: ms_body_def ms_claim_execution_def tx_simps)
next
  case (Some v)
  have "v \<in> set (ms_executions s)" "ms_claimable s v"
    using first_row_in [OF Some] by (simp_all add: table_simps)
  moreover have "ms_claim_execution w 30 s = (Inr (Some (ms_claimed w 30 (ms_now s) v)), ms_held w v s)"
    by (simp add: ms_claim_execution_def Some ms_held_def)
  moreover have "sql_select (\<lambda>m. mm_execution m = me_id v) (ms_map_rows (ms_held w v s)) = ms_rows s (me_id v)"
    by (simp add: ms_held_def ms_rows_def)
  ultimately show thesis
    using assms that(2)
    by (cases "me_kind v = MsMap"; cases "ms_rows s (me_id v)")
      (auto simp: ms_body_def tx_simps split: prod.splits sum.splits)
qed

lemma ms_queued:
  assumes "ms_inv H s" "v \<in> set (ms_executions s)" "ms_claimable s v"
  shows "me_status v = MsQueued"
proof -
  have "me_status v \<noteq> MsRunning"
    using ms_invD(3) [OF assms(1,2)]
    by (auto simp: ms_exec_ok_def step_ok_def map_ok_def fanned_ok_def split: ms_kind.splits if_splits)
  with assms(3) show ?thesis by (auto simp: ms_claimable_def)
qed

lemma only_v:
  assumes "ms_inv H s" "v \<in> set (ms_executions s)" "e \<in> set (ms_executions s)" "me_id e = me_id v"
  shows "e = v"
  using key_uniqueD [OF ms_idsD(1) [OF ms_invD(1) [OF assms(1)]] assms(3,2,4)] .

end
