(* ===== verification/Map_Spike_Steps.thy ===== *)
theory Map_Spike_Steps
  imports Map_Spike_Invariant
begin

text \<open>
  A step that is retried, a step that is done with or without a parent, and a join keep the
  invariant of the map spike.
\<close>

subsection \<open>A step that is retried\<close>

lemma held_update:
  "sql_update (\<lambda>e. me_id e = me_id v) f (ms_executions (ms_held w v s)) =
     map (\<lambda>e. if me_id e = me_id v then f (ms_claimed w 30 (ms_now s) e) else e) (ms_executions s)"
  by (simp add: sql_update_def ms_held_def comp_def)

lemma ms_held_sel [simp]:
  "ms_checkpoints (ms_held w v s) = ms_checkpoints s" "ms_map_rows (ms_held w v s) = ms_map_rows s"
  "ms_results (ms_held w v s) = ms_results s" "ms_executions_seq (ms_held w v s) = ms_executions_seq s"
  "ms_cks (ms_held w v s) = ms_cks s" "ms_rows (ms_held w v s) = ms_rows s"
  by (simp_all add: ms_held_def ms_cks_def ms_rows_def fun_eq_iff)

lemma ms_inv_retry:
  assumes inv: "ms_inv H s" and v: "v \<in> set (ms_executions s)" "ms_claimable s v"
    and owes: "me_failRemaining v > 0"
    and run: "processStep H (ms_claimed w 30 (ms_now s) v) (ms_held w v s) = (Inr out, t)"
  shows "ms_inv H t"
proof -
  define g where "g = (\<lambda>e. if me_id e = me_id v then owes_less (ms_claimed w 30 (ms_now s) e) else e)"
  have t: "t = (ms_held w v s)\<lparr>ms_executions := map g (ms_executions s)\<rparr>"
    using run owes by (simp add: processStep_def ms_update_def tx_simps held_update g_def)
  have core: "ms_core (g e) = ms_core e" for e by (simp add: g_def)
  have status: "me_status (g e) = me_status e" if "e \<in> set (ms_executions s)" for e
    using only_v [OF inv v(1) that] ms_queued [OF inv v] by (auto simp: g_def owes_less_def)
  show ?thesis
  proof (rule ms_inv_kept [OF inv _ core])
    show "ms_exec_ok H t (g e)" if "e \<in> set (ms_executions s)" for e
      by (rule ms_exec_ok_kept [OF ms_invD(3) [OF inv that] kids_map [OF _ core] core status [OF that]])
        (auto simp: t ms_cks_def ms_rows_def ms_ress_def ms_kids_def table_simps status)
  qed (auto simp: t)
qed

subsection \<open>A step that is done\<close>

text \<open>A step that is done: \<open>q\<close> is the parent that it queued for its join.\<close>

definition stepped :: "string \<Rightarrow> ms_db \<Rightarrow> ms_execution \<Rightarrow> nat option \<Rightarrow> ms_execution \<Rightarrow> ms_execution" where
  "stepped w s v q e =
     (if me_id e = me_id v then (ms_claimed w 30 (ms_now s) e)\<lparr>me_status := MsDone\<rparr>
      else if q = Some (me_id e) then e\<lparr>me_status := MsQueued\<rparr> else e)"

lemma stepped_core: "ms_core (stepped w s v q e) = ms_core e"
  by (simp add: stepped_def)

lemma ms_insert_checkpoint_fresh:
  "ms_cks s i = [] \<Longrightarrow> ms_insert_checkpoint i st out s =
     (Inr (), s\<lparr>ms_checkpoints := ms_checkpoints s @ [\<lparr>mc_execution = i, mc_step = st, mc_output = out\<rparr>]\<rparr>)"
  by (auto simp: ms_insert_checkpoint_def tx_simps ms_cks_def sql_select_def filter_empty_conv)

lemma bump_parent_eq:
  assumes "ms_rows s p = [mm]"
  shows "bump_parent p s = (Inr (mm_completed mm + 1 = mm_total mm),
    s\<lparr>ms_map_rows := sql_update (\<lambda>m. mm_execution m = p) (\<lambda>m. m\<lparr>mm_completed := mm_completed m + 1\<rparr>) (ms_map_rows s),
      ms_executions := (if mm_completed mm + 1 = mm_total mm
        then sql_update (\<lambda>e. me_id e = p) (\<lambda>e. e\<lparr>me_status := MsQueued\<rparr>) (ms_executions s) else ms_executions s)\<rparr>)"
  using assms by (simp add: bump_parent_def tx_simps ms_update_def ms_rows_def sql_select_update_key)

lemma step_cks:
  assumes "ms_inv H s" "v \<in> set (ms_executions s)" "ms_claimable s v" "me_kind v = MsStep"
  shows "ms_cks s (me_id v) = []"
  using ms_invD(3) [OF assms(1,2)] ms_queued [OF assms(1-3)] assms(4) by (simp add: ms_exec_ok_def step_ok_def)

lemma stepped_step_ok:
  assumes inv: "ms_inv H s" and v: "v \<in> set (ms_executions s)" "ms_claimable s v" "me_kind v = MsStep"
    and t: "ms_executions t = map (stepped w s v q) (ms_executions s)"
      "ms_checkpoints t = ms_checkpoints s @
        [\<lparr>mc_execution = me_id v, mc_step = STEP_ID, mc_output = step_output H v\<rparr>]"
    and e: "e \<in> set (ms_executions s)" "me_kind e = MsStep" "q \<noteq> Some (me_id e)"
  shows "ms_exec_ok H t (stepped w s v q e)"
proof (cases "me_id e = me_id v")
  case True
  then have "e = v" by (rule only_v [OF inv v(1) e(1)])
  with step_cks [OF inv v] v(3) t(2) show ?thesis
    by (auto simp: ms_exec_ok_def step_ok_def stepped_def step_output_def ms_cks_def sql_select_append) (simp add: sql_select_def)
next
  case False
  have "me_status (stepped w s v q e) = me_status e" using False e(3) by (simp add: stepped_def)
  with False e t(2) show ?thesis
    by (intro ms_exec_ok_kept [OF ms_invD(3) [OF inv e(1)] kids_map [OF t(1) stepped_core] stepped_core])
      (auto simp: ms_cks_def sql_select_append sql_select_def)
qed

lemma ms_inv_alone:
  assumes inv: "ms_inv H s" and v: "v \<in> set (ms_executions s)" "ms_claimable s v" "me_kind v = MsStep"
    and owes: "\<not> me_failRemaining v > 0" and parent: "me_parent v = None"
    and run: "processStep H (ms_claimed w 30 (ms_now s) v) (ms_held w v s) = (Inr out, t)"
  shows "ms_inv H t"
proof -
  have st: "stepped w s v None
      = (\<lambda>e. if me_id e = me_id v then (ms_claimed w 30 (ms_now s) e)\<lparr>me_status := MsDone\<rparr> else e)"
    by (simp add: stepped_def fun_eq_iff)
  have t: "ms_executions t = map (stepped w s v None) (ms_executions s)"
    "ms_checkpoints t = ms_checkpoints s @ [\<lparr>mc_execution = me_id v, mc_step = STEP_ID, mc_output = step_output H v\<rparr>]"
    "ms_map_rows t = ms_map_rows s" "ms_results t = ms_results s" "ms_executions_seq t = ms_executions_seq s"
    using run owes parent step_cks [OF inv v]
    by (auto simp: processStep_def ms_update_def tx_simps ms_insert_checkpoint_fresh held_update input_member_def
        Let_def step_output_def st split: if_splits)
  show ?thesis
  proof (rule ms_inv_kept [OF inv t(1) stepped_core t(5)])
    show "ms_exec_ok H t (stepped w s v None e)" if "e \<in> set (ms_executions s)" for e
    proof (cases "me_kind e")
      case MsStep
      with stepped_step_ok [OF inv v t(1,2) that] show ?thesis by simp
    next
      case MsMap
      then have "me_id e \<noteq> me_id v" using only_v [OF inv v(1) that] v(3) by auto
      moreover have "me_id c \<noteq> me_id v" if "c \<in> set (ms_kids s (me_id e))" for c
        using that parent only_v [OF inv v(1), of c] by (auto simp: ms_kids_def table_simps)
      ultimately show ?thesis
        using MsMap by (intro ms_exec_ok_kept [OF ms_invD(3) [OF inv that] kids_map [OF t(1) stepped_core] stepped_core])
          (auto simp: stepped_def ms_rows_def ms_ress_def t(3,4))
    qed
  qed (use v(1) in \<open>auto simp: t\<close>)
qed

lemma ms_done_count_bump:
  assumes "key_unique me_id cs" "v \<in> set cs" "me_status v \<noteq> MsDone" "me_status (g v) = MsDone"
    and "\<And>c. c \<in> set cs \<Longrightarrow> me_id c \<noteq> me_id v \<Longrightarrow> me_status (g c) = me_status c"
  shows "ms_done_count (map g cs) = Suc (ms_done_count cs)"
  using assms
proof (induction cs)
  case (Cons c cs)
  show ?case
  proof (cases "me_id c = me_id v")
    case True
    with Cons.prems(1,2) have "c = v" by (auto simp: key_unique_def)
    moreover have "me_id c' \<noteq> me_id v" if "c' \<in> set cs" for c'
      using Cons.prems(1) that True by (auto simp: key_unique_def) (metis image_eqI)
    ultimately have "map me_status (map g cs) = map me_status cs" using Cons.prems(5) by simp
    then have "ms_done_count (map g cs) = ms_done_count cs"
      by (simp add: ms_done_count_def filter_map comp_def) (metis (no_types, lifting) filter_cong map_eq_conv)
    with \<open>c = v\<close> Cons.prems(3,4) show ?thesis by (simp add: ms_done_count_def)
  next
    case False
    with Cons show ?thesis by (auto simp: ms_done_count_def key_unique_def)
  qed
qed simp

lemma bumped_rows:
  "ms_map_rows t = sql_update (\<lambda>m. mm_execution m = p) (\<lambda>m. m\<lparr>mm_completed := mm_completed m + 1\<rparr>) (ms_map_rows s) \<Longrightarrow>
     ms_rows t i = map (if i = p then (\<lambda>m. m\<lparr>mm_completed := mm_completed m + 1\<rparr>) else id) (ms_rows s i)"
  by (simp add: ms_rows_def sql_select_update_key)

lemma kids_unique: "ms_ids s \<Longrightarrow> key_unique me_id (ms_kids s i)"
  by (simp add: ms_kids_def sql_select_def ms_ids_def key_unique_def distinct_map_filter)

text \<open>The parent of a queued step: fanned out, and still waiting.\<close>

lemma parent_of_queued:
  assumes inv: "ms_inv H s" and v: "v \<in> set (ms_executions s)" "me_status v = MsQueued" "me_parent v = Some p"
  obtains P items mm where "P \<in> set (ms_executions s)" "me_id P = p" "me_kind P = MsMap" "me_parent P = None"
    "ms_rows s p = [mm]" "fanned_ok H P items mm (ms_kids s p) []" "v \<in> set (ms_kids s p)"
    "me_status P = MsAwaiting" "ms_ress s p = []" "items \<noteq> []"
proof -
  from ms_invD(2) [OF inv] v obtain P where P: "P \<in> set (ms_executions s)" "me_id P = p" "me_kind P = MsMap"
    by (auto simp: ms_rooted_def)
  have kid: "v \<in> set (ms_kids s p)" using v by (simp add: ms_kids_def table_simps)
  from ms_invD(3) [OF inv P(1)] P kid obtain items mm where
    f: "ms_rows s p = [mm]" "fanned_ok H P items mm (ms_kids s p) (ms_ress s p)" "me_parent P = None"
    by (auto simp: ms_exec_ok_def map_ok_def)
  have len: "length (ms_kids s p) = length items"
    using f(2) unfolding fanned_ok_def by (metis (no_types, lifting) length_enumerate length_map)
  have "ms_done_count (ms_kids s p) < length (ms_kids s p)"
    unfolding ms_done_count_def by (rule length_filter_less [OF kid]) (simp add: v(2))
  with f(2) len have "me_status P = MsAwaiting" "ms_ress s p = []" by (auto simp: fanned_ok_def)
  moreover have "items \<noteq> []" using kid len by auto
  ultimately show thesis using that P f kid by metis
qed

lemma stepped_parent_ok:
  assumes inv: "ms_inv H s" and v: "v \<in> set (ms_executions s)" "me_status v = MsQueued" "me_kind v = MsStep"
    and P: "P \<in> set (ms_executions s)" "me_id P = p" "me_kind P = MsMap" "me_parent P = None" "me_status P = MsAwaiting"
    and rows: "ms_rows s p = [mm]" "fanned_ok H P items mm (ms_kids s p) []" "v \<in> set (ms_kids s p)" "ms_ress s p = []"
      "items \<noteq> []"
    and q: "q = (if mm_completed mm + 1 = mm_total mm then Some p else None)"
    and t: "ms_executions t = map (stepped w s v q) (ms_executions s)" "ms_results t = ms_results s"
      "ms_rows t p = [mm\<lparr>mm_completed := mm_completed mm + 1\<rparr>]"
  shows "ms_exec_ok H t (stepped w s v q P)"
proof -
  note core = ms_core_sel [OF stepped_core]
  have P': "me_id P \<noteq> me_id v" using only_v [OF inv v(1) P(1)] P(3) v(3) by auto
  have kid_id: "me_id c \<noteq> p" if "c \<in> set (ms_kids s p)" for c
    using that only_v [OF inv P(1), of c] P(2,4) by (auto simp: ms_kids_def table_simps)
  have bump: "ms_done_count (map (stepped w s v q) (ms_kids s p)) = Suc (ms_done_count (ms_kids s p))"
    using v(2) kid_id q
    by (intro ms_done_count_bump [OF kids_unique [OF ms_invD(1) [OF inv]] rows(3)]) (auto simp: stepped_def)
  note F = rows(2) [unfolded fanned_ok_def]
  have "fanned_ok H (stepped w s v q P) items (mm\<lparr>mm_completed := mm_completed mm + 1\<rparr>)
      (map (stepped w s v q) (ms_kids s p)) []"
    unfolding fanned_ok_def bump core
  proof (intro conjI)
    show "me_status (stepped w s v q P) \<in> (if items \<noteq> [] \<and> Suc (ms_done_count (ms_kids s p)) = length items
        then {MsQueued, MsDone} else {MsAwaiting})"
      using F P(2,5) P' q rows(5) by (simp add: stepped_def)
    show "[] = (if me_status (stepped w s v q P) = MsDone
        then [\<lparr>mr_execution = me_id P, mr_yields = map_result H items\<rparr>] else [])"
      using P(5) P' by (simp add: stepped_def)
  qed (use F in \<open>simp_all add: core comp_def\<close>)
  with rows(4) t(2,3) P(2-4) show ?thesis
    by (auto simp: ms_exec_ok_def core map_ok_def kids_map [OF t(1) stepped_core] ms_ress_def)
qed

lemma processStep_child_eq:
  assumes run: "processStep H (ms_claimed w 30 (ms_now s) v) (ms_held w v s) = (Inr out, t)"
    and v: "\<not> me_failRemaining v > 0" "me_parent v = Some p" "ms_cks s (me_id v) = []" "me_id v \<noteq> p"
    and row: "ms_rows s p = [mm]"
    and q: "q = (if mm_completed mm + 1 = mm_total mm then Some p else None)"
  shows "ms_executions t = map (stepped w s v q) (ms_executions s)"
    "ms_checkpoints t = ms_checkpoints s @ [\<lparr>mc_execution = me_id v, mc_step = STEP_ID, mc_output = step_output H v\<rparr>]"
    "ms_map_rows t = sql_update (\<lambda>m. mm_execution m = p) (\<lambda>m. m\<lparr>mm_completed := mm_completed m + 1\<rparr>) (ms_map_rows s)"
    "ms_results t = ms_results s" "ms_executions_seq t = ms_executions_seq s"
proof -
  have st: "map (stepped w s v q) (ms_executions s)
      = (if mm_completed mm + 1 = mm_total mm
         then sql_update (\<lambda>e. me_id e = p) (\<lambda>e. e\<lparr>me_status := MsQueued\<rparr>)
           (sql_update (\<lambda>e. me_id e = me_id v) (\<lambda>e. e\<lparr>me_status := MsDone\<rparr>) (ms_executions (ms_held w v s)))
         else sql_update (\<lambda>e. me_id e = me_id v) (\<lambda>e. e\<lparr>me_status := MsDone\<rparr>) (ms_executions (ms_held w v s)))"
    using v(4) unfolding held_update by (auto simp: q stepped_def sql_update_def)
  show "ms_executions t = map (stepped w s v q) (ms_executions s)"
    "ms_checkpoints t = ms_checkpoints s @ [\<lparr>mc_execution = me_id v, mc_step = STEP_ID, mc_output = step_output H v\<rparr>]"
    "ms_map_rows t = sql_update (\<lambda>m. mm_execution m = p) (\<lambda>m. m\<lparr>mm_completed := mm_completed m + 1\<rparr>) (ms_map_rows s)"
    "ms_results t = ms_results s" "ms_executions_seq t = ms_executions_seq s"
    using run v(1-3) row unfolding st
    by (auto simp: processStep_def ms_update_def tx_simps ms_insert_checkpoint_fresh input_member_def
        bump_parent_eq ms_rows_def Let_def step_output_def split: if_splits)
qed

text \<open>The children of another map are neither the step nor its parent.\<close>

lemma other_kids:
  assumes inv: "ms_inv H s" and v: "v \<in> set (ms_executions s)" "me_parent v = Some p"
    and P: "P \<in> set (ms_executions s)" "me_id P = p" "me_parent P = None"
    and c: "c \<in> set (ms_kids s i)" "i \<noteq> p"
  shows "me_id c \<noteq> me_id v" "me_id c \<noteq> p"
proof -
  from c have c': "c \<in> set (ms_executions s)" "me_parent c = Some i"
    by (simp_all add: ms_kids_def table_simps)
  show "me_id c \<noteq> me_id v" using only_v [OF inv v(1) c'(1)] c'(2) v(2) c(2) by force
  show "me_id c \<noteq> p" using only_v [OF inv P(1) c'(1)] c'(2) P(2,3) by force
qed

lemma ms_inv_child:
  assumes inv: "ms_inv H s" and v: "v \<in> set (ms_executions s)" "ms_claimable s v" "me_kind v = MsStep"
    and owes: "\<not> me_failRemaining v > 0" and parent: "me_parent v = Some p"
    and run: "processStep H (ms_claimed w 30 (ms_now s) v) (ms_held w v s) = (Inr out, t)"
  shows "ms_inv H t"
proof -
  have queued: "me_status v = MsQueued" by (rule ms_queued [OF inv v(1,2)])
  obtain P items mm where P: "P \<in> set (ms_executions s)" "me_id P = p" "me_kind P = MsMap" "me_parent P = None"
      "ms_rows s p = [mm]" "fanned_ok H P items mm (ms_kids s p) []" "v \<in> set (ms_kids s p)"
      "me_status P = MsAwaiting" "ms_ress s p = []" "items \<noteq> []"
    by (rule parent_of_queued [OF inv v(1) queued parent])
  define q where "q = (if mm_completed mm + 1 = mm_total mm then Some p else None)"
  have "me_id v \<noteq> p" using only_v [OF inv P(1) v(1)] P(2,3) v(3) by auto
  note t = processStep_child_eq [OF run owes parent step_cks [OF inv v] this P(5) q_def]
  show ?thesis
  proof (rule ms_inv_kept [OF inv t(1) stepped_core t(5)])
    show "ms_exec_ok H t (stepped w s v q e)" if e: "e \<in> set (ms_executions s)" for e
    proof (cases "me_id e = p")
      case True
      then have "e = P" by (rule only_v [OF inv P(1) e, unfolded P(2)])
      moreover have "ms_rows t p = [mm\<lparr>mm_completed := mm_completed mm + 1\<rparr>]"
        by (simp add: bumped_rows [OF t(3)] P(5))
      ultimately show ?thesis
        using stepped_parent_ok [OF inv v(1) queued v(3) P(1-4,8,5-7,9,10) q_def t(1,4)] by simp
    next
      case False
      then have q: "q \<noteq> Some (me_id e)" by (simp add: q_def)
      show ?thesis
      proof (cases "me_kind e")
        case MsStep
        show ?thesis by (rule stepped_step_ok [OF inv v t(1,2) e MsStep q])
      next
        case MsMap
        then have "me_id e \<noteq> me_id v" using only_v [OF inv v(1) e] v(3) by auto
        with MsMap q False other_kids [OF inv v(1) parent P(1,2,4) _ False] show ?thesis
          by (intro ms_exec_ok_kept [OF ms_invD(3) [OF inv e] kids_map [OF t(1) stepped_core] stepped_core])
            (auto simp: stepped_def bumped_rows [OF t(3)] ms_ress_def t(4) q_def)
      qed
    qed
    show "mm_execution ` set (ms_map_rows t) \<subseteq> mm_execution ` set (ms_map_rows s)"
      by (auto simp: t(3) sql_update_def)
  qed (use v(1) in \<open>auto simp: t\<close>)
qed

subsection \<open>The join\<close>

lemma kids_all_done:
  assumes "ms_done_count cs = length cs" "c \<in> set cs"
  shows "me_status c = MsDone"
  using assms length_filter_less [of c cs "\<lambda>c. me_status c = MsDone"] by (auto simp: ms_done_count_def)

text \<open>What a join finds: all children done, and their outputs in the order of the source.\<close>

lemma ready_for_join:
  assumes inv: "ms_inv H s" and v: "v \<in> set (ms_executions s)" "ms_claimable s v" "me_kind v = MsMap"
    and rows: "ms_rows s (me_id v) = m # ms"
  obtains items where "fanned_ok H v items m (ms_kids s (me_id v)) []" "ms = []" "me_parent v = None"
    "ms_ress s (me_id v) = []" "items \<noteq> []" "ms_done_count (ms_kids s (me_id v)) = length items"
    "ms_children (me_id v) (ms_held w v s) = map (\<lambda>(i, x). (Some i, enrichOne H (Some x))) (enumerate 0 items)"
proof -
  let ?i = "me_id v"
  from ms_invD(3) [OF inv v(1)] v(3) rows obtain items where
    f: "fanned_ok H v items m (ms_kids s ?i) (ms_ress s ?i)" and root: "ms = []" "me_parent v = None"
    by (auto simp: ms_exec_ok_def map_ok_def)
  note F = f [unfolded fanned_ok_def]
  have len: "length (ms_kids s ?i) = length items"
    using F by (metis (no_types, lifting) length_enumerate length_map)
  have full: "items \<noteq> []" "ms_done_count (ms_kids s ?i) = length items" "ms_ress s ?i = []"
    using F ms_queued [OF inv v(1,2)] by (auto split: if_splits)
  have "step_ok H c (ms_cks s (me_id c)) \<and> me_status c = MsDone" if c: "c \<in> set (ms_kids s ?i)" for c
    using ms_invD(3) [OF inv, of c] c F kids_all_done [OF full(2) [folded len] c]
    by (auto simp: ms_exec_ok_def ms_kids_def table_simps)
  then have kids: "ms_children ?i s = map (\<lambda>(i, x). (Some i, enrichOne H (Some x))) (enumerate 0 items)"
    using F by (intro ms_children_done) auto
  have "ms_children ?i (ms_held w v s) = ms_children ?i s"
    by (simp add: ms_children_def ms_held_def sql_update_def sql_select_map comp_def if_distrib cong: if_cong)
  with kids that f root full show thesis by simp
qed

lemma ms_join_eq:
  assumes run: "ms_join (ms_claimed w 30 (ms_now s) v) m (ms_held w v s) = (Inr out, t)"
    and kids: "ms_children (me_id v) (ms_held w v s) = map (\<lambda>(i, x). (Some i, enrichOne H (Some x))) (enumerate 0 items)"
    and total: "mm_total m = length items" and res: "ms_ress s (me_id v) = []"
  shows "ms_executions t = map (\<lambda>e. if me_id e = me_id v then (ms_claimed w 30 (ms_now s) e)\<lparr>me_status := MsDone\<rparr> else e)
      (ms_executions s)"
    "ms_map_rows t = ms_map_rows s"
    "ms_results t = ms_results s @ [\<lparr>mr_execution = me_id v, mr_yields = map_result H items\<rparr>]"
    "ms_executions_seq t = ms_executions_seq s"
    "ms_checkpoints t \<in> {ms_checkpoints s, ms_checkpoints s @ [\<lparr>mc_execution = me_id v, mc_step = JOIN_STEP_ID,
       mc_output = JObj [(''count'', JNum (of_nat (length items)))]\<rparr>]}"
  using run res
  by (auto simp: ms_join_def tx_simps kids total Let_def ms_yields_map ms_insert_result_def ms_insert_checkpoint_def
      ms_update_def held_update ms_ress_def split: if_splits)

lemma ms_inv_join:
  assumes inv: "ms_inv H s" and v: "v \<in> set (ms_executions s)" "ms_claimable s v" "me_kind v = MsMap"
    and rows: "ms_rows s (me_id v) = m # ms"
    and run: "ms_join (ms_claimed w 30 (ms_now s) v) m (ms_held w v s) = (Inr out, t)"
  shows "ms_inv H t"
proof -
  let ?i = "me_id v"
  obtain items where F: "fanned_ok H v items m (ms_kids s ?i) []" and root: "ms = []" "me_parent v = None"
    and res: "ms_ress s ?i = []" and full: "items \<noteq> []" "ms_done_count (ms_kids s ?i) = length items"
    and kids: "ms_children ?i (ms_held w v s) = map (\<lambda>(i, x). (Some i, enrichOne H (Some x))) (enumerate 0 items)"
    by (rule ready_for_join [OF inv v rows])
  define g where "g = (\<lambda>e. if me_id e = ?i then (ms_claimed w 30 (ms_now s) e)\<lparr>me_status := MsDone\<rparr> else e)"
  have core: "ms_core (g e) = ms_core e" for e by (simp add: g_def)
  have total: "mm_total m = length items" using F by (simp add: fanned_ok_def)
  note t = ms_join_eq [OF run kids total res, folded g_def]
  have cks: "ms_cks t i = ms_cks s i" if "i \<noteq> ?i" for i
    using t(5) that by (auto simp: ms_cks_def sql_select_append) (simp_all add: sql_select_def)
  have kid: "me_id c \<noteq> ?i" if "c \<in> set (ms_kids s i)" for c i
    using that only_v [OF inv v(1), of c] root(2) by (auto simp: ms_kids_def table_simps)
  show ?thesis
  proof (rule ms_inv_kept [OF inv t(1) core t(4)])
    show "ms_exec_ok H t (g e)" if e: "e \<in> set (ms_executions s)" for e
    proof (cases "me_id e = ?i")
      case True
      have "map g (ms_kids s ?i) = ms_kids s ?i" using kid by (intro map_idI) (auto simp: g_def)
      moreover have "fanned_ok H (g v) items m (ms_kids s ?i) [\<lparr>mr_execution = ?i, mr_yields = map_result H items\<rparr>]"
        using F full by (simp add: fanned_ok_def g_def)
      moreover have "ms_ress t ?i = [\<lparr>mr_execution = ?i, mr_yields = map_result H items\<rparr>]"
        using res by (simp add: ms_ress_def t(3) sql_select_append) (simp add: sql_select_def)
      moreover have "ms_rows t ?i = [m]" using rows root(1) by (simp add: ms_rows_def t(2))
      ultimately show ?thesis
        using only_v [OF inv v(1) e True] v(3) root(2) ms_core_sel [OF core]
        by (auto simp: ms_exec_ok_def map_ok_def kids_map [OF t(1) core])
    next
      case False
      then have "ms_ress t (me_id e) = ms_ress s (me_id e)"
        by (simp add: ms_ress_def t(3) sql_select_append) (simp add: sql_select_def)
      with False cks kid show ?thesis
        by (intro ms_exec_ok_kept [OF ms_invD(3) [OF inv e] kids_map [OF t(1) core] core]) (auto simp: g_def ms_rows_def t(2))
    qed
  qed (use t v(1) in auto)
qed

end
