(* ===== verification/Map_Spike_Properties.thy ===== *)
theory Map_Spike_Properties
  imports Map_Spike_Steps
begin

text \<open>
  What the spike shows: whatever workers, failing connections and injected failures do, in any
  order, the result of a map is the array of its body's outputs in the order of its source, and
  each child is checkpointed once. A map whose input has no source array keeps a worker busy for
  ever, and a map over an empty array is never joined.
\<close>

subsection \<open>The fan-out\<close>

lemma ms_insert_children:
  assumes "tx_for (enumerate k items) (ms_insert_child H p fm) s = (Inr (), t)"
  shows "\<exists>ks. t = s\<lparr>ms_executions := ms_executions s @ ks, ms_executions_seq := ms_executions_seq s + length items\<rparr>
     \<and> map me_id ks = [Suc (ms_executions_seq s)..<Suc (ms_executions_seq s + length items)]
     \<and> map (\<lambda>c. (me_index c, me_input c)) ks = map (\<lambda>(i, x). (Some i, JObj [(''item'', x)])) (enumerate k items)
     \<and> (\<forall>c \<in> set ks. me_kind c = MsStep \<and> me_parent c = Some p \<and> me_status c = MsQueued)"
  using assms
proof (induction items arbitrary: k s)
  case Nil
  then show ?case by (intro exI [of _ "[]"]) (simp add: tx_simps)
next
  case (Cons x items)
  then obtain fails where rest: "tx_for (enumerate (Suc k) items) (ms_insert_child H p fm)
      (ms_insert_execution MsStep (Some p) (Some k) STEP_ID (JObj [(''item'', x)]) fails s) = (Inr (), t)"
    by (auto simp: tx_simps ms_insert_child_def split: option.splits)
  from Cons.IH [OF this] obtain ks where
    "t = s\<lparr>ms_executions := ms_executions s @ \<lparr>me_id = Suc (ms_executions_seq s), me_kind = MsStep,
         me_parent = Some p, me_index = Some k, me_step = STEP_ID, me_input = JObj [(''item'', x)],
         me_status = MsQueued, me_worker = None, me_lease = None, me_attempts = 0, me_failRemaining = fails\<rparr> # ks,
       ms_executions_seq := ms_executions_seq s + length (x # items)\<rparr>"
    and ks: "map me_id ks = [Suc (Suc (ms_executions_seq s))..<Suc (ms_executions_seq s + length (x # items))]"
      "map (\<lambda>c. (me_index c, me_input c)) ks = map (\<lambda>(i, x). (Some i, JObj [(''item'', x)])) (enumerate (Suc k) items)"
      "\<forall>c \<in> set ks. me_kind c = MsStep \<and> me_parent c = Some p \<and> me_status c = MsQueued"
    by (auto simp: ms_insert_execution_def simp del: upt_Suc)
  moreover have "[Suc (ms_executions_seq s)..<Suc (ms_executions_seq s + length (x # items))]
      = Suc (ms_executions_seq s) # [Suc (Suc (ms_executions_seq s))..<Suc (ms_executions_seq s + length (x # items))]"
    by (rule upt_conv_Cons) simp
  ultimately show ?case
    by (intro exI [of _ "\<lparr>me_id = Suc (ms_executions_seq s), me_kind = MsStep,
         me_parent = Some p, me_index = Some k, me_step = STEP_ID, me_input = JObj [(''item'', x)],
         me_status = MsQueued, me_worker = None, me_lease = None, me_attempts = 0, me_failRemaining = fails\<rparr> # ks"])
      (simp del: upt_Suc)
qed

lemma fresh_cks:
  assumes "ms_ids s" "ms_checkpoints t = ms_checkpoints s" "ms_executions_seq s < i"
  shows "ms_cks t i = []"
  using ms_idsD(3) [OF assms(1)] assms(2,3) by (fastforce simp: ms_cks_def sql_select_def filter_empty_conv)

lemma fanOut_eq:
  assumes run: "fanOut H (ms_claimed w 30 (ms_now s) v) (ms_held w v s) = (Inr out, t)"
    and inv: "ms_inv H s" and v: "v \<in> set (ms_executions s)"
  obtains items ks where "js_member (me_input v) ''source'' = Some (JArr items)"
    "ms_executions t = map (\<lambda>e. if me_id e = me_id v then parked (ms_claimed w 30 (ms_now s) e) else e) (ms_executions s) @ ks"
    "ms_executions_seq t = ms_executions_seq s + length items" "ms_checkpoints t = ms_checkpoints s"
    "ms_map_rows t = ms_map_rows s @
       [\<lparr>mm_execution = me_id v, mm_total = length items, mm_completed = 0, mm_source = items\<rparr>]"
    "ms_results t = ms_results s"
    "map me_id ks = [Suc (ms_executions_seq s)..<Suc (ms_executions_seq s + length items)]"
    "map (\<lambda>c. (me_index c, me_input c)) ks = map (\<lambda>(i, x). (Some i, JObj [(''item'', x)])) (enumerate 0 items)"
    "\<forall>c \<in> set ks. me_kind c = MsStep \<and> me_parent c = Some (me_id v) \<and> me_status c = MsQueued"
proof -
  from run obtain items fm s1 where src: "js_member (me_input v) ''source'' = Some (JArr items)"
    and kids: "tx_for (enumerate 0 items) (ms_insert_child H (me_id v) fm) (ms_held w v s) = (Inr (), s1)"
    and row: "t = s1\<lparr>ms_map_rows := ms_map_rows s1 @
        [\<lparr>mm_execution = me_id v, mm_total = length items, mm_completed = 0, mm_source = items\<rparr>],
      ms_executions := sql_update (\<lambda>e. me_id e = me_id v) parked (ms_executions s1)\<rparr>"
    by (auto simp: fanOut_def tx_simps input_member_def ms_source_def ms_insert_map_row_def ms_update_def
        split: if_splits option.splits json.splits prod.splits sum.splits)
  from ms_insert_children [OF kids] obtain ks where
    s1: "s1 = (ms_held w v s)\<lparr>ms_executions := ms_executions (ms_held w v s) @ ks,
        ms_executions_seq := ms_executions_seq s + length items\<rparr>"
    and ks: "map me_id ks = [Suc (ms_executions_seq s)..<Suc (ms_executions_seq s + length items)]"
      "map (\<lambda>c. (me_index c, me_input c)) ks = map (\<lambda>(i, x). (Some i, JObj [(''item'', x)])) (enumerate 0 items)"
      "\<forall>c \<in> set ks. me_kind c = MsStep \<and> me_parent c = Some (me_id v) \<and> me_status c = MsQueued"
    by (auto simp del: upt_Suc)
  have "me_id c \<noteq> me_id v" if "c \<in> set ks" for c
    using fresh_ids(1) [OF ks(1) that] ms_idsD(2) [OF ms_invD(1) [OF inv] v] by simp
  then have "sql_update (\<lambda>e. me_id e = me_id v) parked ks = ks" by (rule sql_update_none)
  then have "ms_executions t = map (\<lambda>e. if me_id e = me_id v then parked (ms_claimed w 30 (ms_now s) e) else e)
      (ms_executions s) @ ks"
    using held_update [of v parked w s] by (simp add: row s1 sql_update_def)
  then show thesis using src ks by (intro that) (simp_all add: row s1)
qed

lemma kids_grown:
  assumes "ms_executions t = map g (ms_executions s) @ ks" "\<And>e. ms_core (g e) = ms_core e"
    and "\<And>c. c \<in> set ks \<Longrightarrow> me_parent c = Some p"
  shows "ms_kids t i = map g (ms_kids s i) @ (if i = p then ks else [])"
  using ms_core_sel [OF assms(2)] assms(3)
  by (auto simp: ms_kids_def assms(1) sql_select_append sql_select_map) (auto simp: sql_select_def filter_empty_conv)

text \<open>The map that has just fanned out.\<close>

lemma fanned_out_ok:
  assumes "js_member (me_input v) ''source'' = Some (JArr items)" "ms_core e = ms_core v" "me_status e = MsAwaiting"
    and "map (\<lambda>c. (me_index c, me_input c)) ks = map (\<lambda>(i, x). (Some i, JObj [(''item'', x)])) (enumerate 0 items)"
    and "\<forall>c \<in> set ks. me_kind c = MsStep \<and> me_status c = MsQueued"
  shows "fanned_ok H e items \<lparr>mm_execution = i, mm_total = length items, mm_completed = 0, mm_source = items\<rparr> ks []"
proof -
  have "ms_done_count ks = 0" using assms(5) by (simp add: ms_done_count_def filter_empty_conv)
  with assms ms_core_sel [OF assms(2)] show ?thesis by (auto simp: fanned_ok_def)
qed

lemma ms_inv_fanOut:
  assumes inv: "ms_inv H s" and v: "v \<in> set (ms_executions s)" "ms_claimable s v" "me_kind v = MsMap"
    and rows: "ms_rows s (me_id v) = []"
    and run: "fanOut H (ms_claimed w 30 (ms_now s) v) (ms_held w v s) = (Inr out, t)"
  shows "ms_inv H t"
proof -
  let ?i = "me_id v"
  from ms_invD(3) [OF inv v(1)] v(3) rows have old: "ms_kids s ?i = []" "ms_ress s ?i = []" "me_parent v = None"
    by (auto simp: ms_exec_ok_def map_ok_def)
  define g where "g = (\<lambda>e. if me_id e = ?i then parked (ms_claimed w 30 (ms_now s) e) else e)"
  have core: "ms_core (g e) = ms_core e" for e by (simp add: g_def)
  obtain items ks where src: "js_member (me_input v) ''source'' = Some (JArr items)"
    and t: "ms_executions t = map g (ms_executions s) @ ks"
      "ms_executions_seq t = ms_executions_seq s + length items" "ms_checkpoints t = ms_checkpoints s"
      "ms_map_rows t = ms_map_rows s @ [\<lparr>mm_execution = ?i, mm_total = length items, mm_completed = 0, mm_source = items\<rparr>]"
      "ms_results t = ms_results s"
    and ks: "map me_id ks = [Suc (ms_executions_seq s)..<Suc (ms_executions_seq s + length items)]"
      "map (\<lambda>c. (me_index c, me_input c)) ks = map (\<lambda>(i, x). (Some i, JObj [(''item'', x)])) (enumerate 0 items)"
      "\<forall>c \<in> set ks. me_kind c = MsStep \<and> me_parent c = Some ?i \<and> me_status c = MsQueued"
    unfolding g_def by (rule fanOut_eq [OF run inv v(1)])
  have kids: "ms_kids t i = map g (ms_kids s i) @ (if i = ?i then ks else [])" for i
    by (rule kids_grown [OF t(1) core]) (use ks(3) in simp)
  show ?thesis
  proof (rule ms_inv_grown [OF inv t(1) core t(2) ks(1)])
    show "ms_exec_ok H t c" if c: "c \<in> set ks" for c
      using fresh_cks [OF ms_invD(1) [OF inv] t(3) fresh_ids(1) [OF ks(1) c]] ks(3) c
      by (simp add: ms_exec_ok_def step_ok_def)
    show "ms_exec_ok H t (g e)" if e: "e \<in> set (ms_executions s)" for e
    proof (cases "me_id e = ?i")
      case True
      have "fanned_ok H (g v) items \<lparr>mm_execution = ?i, mm_total = length items, mm_completed = 0, mm_source = items\<rparr>
          ks []"
        using ks(3) by (intro fanned_out_ok [OF src core _ ks(2)]) (simp_all add: g_def parked_def)
      moreover have "ms_rows t ?i = [\<lparr>mm_execution = ?i, mm_total = length items, mm_completed = 0, mm_source = items\<rparr>]"
        using rows by (simp add: ms_rows_def t(4) sql_select_append) (simp add: sql_select_def)
      ultimately show ?thesis
        using only_v [OF inv v(1) e True] v(3) old ms_core_sel [OF core]
        by (auto simp: ms_exec_ok_def map_ok_def kids ms_ress_def t(5))
    next
      case False
      have "me_id c \<noteq> ?i" if "c \<in> set (ms_kids s (me_id e))" for c
        using that only_v [OF inv v(1), of c] old(3) by (auto simp: ms_kids_def table_simps)
      moreover have "ms_rows t (me_id e) = ms_rows s (me_id e)"
        using False by (simp add: ms_rows_def t(4) sql_select_append) (simp add: sql_select_def)
      ultimately show ?thesis
        using False by (intro ms_exec_ok_kept [OF ms_invD(3) [OF inv e] _ core])
          (auto simp: g_def kids ms_cks_def ms_ress_def t(3,5))
    qed
  qed (use v ks(3) in \<open>auto simp: t\<close>)
qed

subsection \<open>Histories\<close>

lemma ms_inv_processOne:
  assumes inv: "ms_inv H s" and run: "ms_processOne H conn w hook s = (Inr r, t)"
  shows "ms_inv H t"
proof -
  from run have "ms_body H w hook s = (Inr r, t)" by (simp add: ms_processOne_def map_store.returns_commit)
  then show ?thesis
  proof (cases rule: ms_body_cases)
    case (2 v out)
    then show ?thesis
    proof (cases "me_kind v")
      case MsMap
      with 2 inv show ?thesis
        by (cases "ms_rows s (me_id v)") (auto intro: ms_inv_fanOut ms_inv_join)
    next
      case MsStep
      with 2 have step: "processStep H (ms_claimed w 30 (ms_now s) v) (ms_held w v s) = (Inr out, t)" by simp
      show ?thesis
      proof (cases "me_failRemaining v > 0")
        case True
        show ?thesis by (rule ms_inv_retry [OF inv 2(1,2) True step])
      next
        case False
        show ?thesis
        proof (cases "me_parent v")
          case None
          show ?thesis by (rule ms_inv_alone [OF inv 2(1,2) MsStep False None step])
        next
          case (Some p)
          show ?thesis by (rule ms_inv_child [OF inv 2(1,2) MsStep False Some step])
        qed
      qed
    qed
  qed (use inv in simp)
qed

text \<open>A new execution without a parent, and what other clients and the clock do to the rest.\<close>

lemma ms_inv_seed:
  assumes inv: "ms_inv H s"
  shows "ms_inv H (ms_insert_execution kind None idx st inp fails s)"
proof -
  define c where "c = \<lparr>me_id = Suc (ms_executions_seq s), me_kind = kind, me_parent = None, me_index = idx,
    me_step = st, me_input = inp, me_status = MsQueued, me_worker = None, me_lease = None, me_attempts = 0,
    me_failRemaining = fails\<rparr>"
  let ?t = "ms_insert_execution kind None idx st inp fails s"
  have t: "ms_executions ?t = map id (ms_executions s) @ [c]" "ms_executions_seq ?t = ms_executions_seq s + 1"
    "ms_checkpoints ?t = ms_checkpoints s" "ms_map_rows ?t = ms_map_rows s" "ms_results ?t = ms_results s"
    by (simp_all add: ms_insert_execution_def c_def)
  note ids = ms_invD(1) [OF inv]
  have kids: "ms_kids ?t i = map id (ms_kids s i)" for i
    by (simp add: ms_kids_def t(1) sql_select_append) (simp add: sql_select_def c_def)
  have new: "ms_cks ?t (me_id c) = []" "ms_rows ?t (me_id c) = []" "ms_ress ?t (me_id c) = []" "ms_kids ?t (me_id c) = []"
  proof -
    show "ms_cks ?t (me_id c) = []" by (rule fresh_cks [OF ids t(3)]) (simp add: c_def)
    show "ms_rows ?t (me_id c) = []" "ms_ress ?t (me_id c) = []"
      using ms_idsD(4,5) [OF ids] by (force simp: ms_rows_def ms_ress_def t(4,5) c_def sql_select_def filter_empty_conv)+
    have "me_parent e \<noteq> Some (me_id c)" if "e \<in> set (ms_executions s)" for e
      using ms_invD(2) [OF inv] ms_idsD(2) [OF ids] that by (fastforce simp: ms_rooted_def c_def)
    then show "ms_kids ?t (me_id c) = []" by (simp add: kids) (simp add: ms_kids_def sql_select_def filter_empty_conv)
  qed
  show ?thesis
  proof (rule ms_inv_grown [OF inv t(1) _ t(2)])
    show "ms_exec_ok H ?t c'" if "c' \<in> set [c]" for c'
      using that new by (auto simp: ms_exec_ok_def step_ok_def map_ok_def c_def split: ms_kind.splits)
    show "ms_exec_ok H ?t (id e)" if "e \<in> set (ms_executions s)" for e
      by (rule ms_exec_ok_kept [OF ms_invD(3) [OF inv that] kids])
        (simp_all add: ms_cks_def ms_rows_def ms_ress_def t)
  qed (simp_all add: t c_def)
qed

lemma ms_inv_cong:
  assumes "ms_inv H s" "ms_executions t = ms_executions s" "ms_checkpoints t = ms_checkpoints s"
    "ms_map_rows t = ms_map_rows s" "ms_results t = ms_results s" "ms_executions_seq s \<le> ms_executions_seq t"
  shows "ms_inv H t"
proof -
  have eqs: "ms_kids t = ms_kids s" "ms_cks t = ms_cks s" "ms_rows t = ms_rows s" "ms_ress t = ms_ress s"
    by (simp_all add: ms_kids_def ms_cks_def ms_rows_def ms_ress_def fun_eq_iff assms)
  have "ms_exec_ok H t = ms_exec_ok H s" unfolding ms_exec_ok_def eqs by (rule refl)
  moreover have "ms_ids t" using ms_invD(1) [OF assms(1)] assms(6) by (fastforce simp: ms_ids_def assms(2-5))
  ultimately show ?thesis using assms(1) by (simp add: ms_inv_def ms_rooted_def assms(2))
qed

text \<open>A transaction never takes a sequence back.\<close>

interpretation ms_grows: tx_frame "\<lambda>s t. ms_executions_seq s \<le> ms_executions_seq t"
  by unfold_locales simp_all

lemmas ms_statement_defs = ms_claim_execution_def ms_update_def ms_insert_checkpoint_def ms_insert_child_def
  ms_insert_execution_def ms_insert_map_row_def ms_insert_result_def tx_simps

lemma ms_keeps_statements:
  "ms_grows.keeps (ms_claim_execution w l)" "ms_grows.keeps (ms_update i f)" "ms_grows.keeps (ms_insert_checkpoint i st out)"
  "ms_grows.keeps (ms_insert_child H p fm x)" "ms_grows.keeps (ms_insert_map_row i items)"
  "ms_grows.keeps (ms_insert_result i y)" "ms_grows.keeps (bump_parent p)"
  unfolding bump_parent_def
  by (auto intro!: ms_grows.keepsI ms_grows.keeps_rules ms_grows.keeps_write simp: ms_statement_defs
      split: option.splits if_splits prod.splits)

lemma ms_keeps_body: "ms_grows.keeps (ms_body H w hook)"
  unfolding ms_body_def fanOut_def processStep_def ms_join_def Let_def
  by (intro ms_grows.keeps_rules ms_keeps_statements | split option.split list.split if_split | intro conjI allI impI)+

inductive ms_step :: "ms_host \<Rightarrow> ms_db \<Rightarrow> ms_db \<Rightarrow> bool" for H where
  seed: "ms_step H s (ms_insert_execution kind None idx st inp fails s)"
| process: "ms_step H s (snd (ms_processOne H conn w hook s))"
| elsewhere: "ms_step H s (s\<lparr>ms_locked := rows, ms_now := n\<rparr>)"

definition ms_empty :: ms_db where
  "ms_empty = \<lparr>ms_executions = [], ms_checkpoints = [], ms_map_rows = [], ms_results = [],
     ms_executions_seq = 0, ms_locked = [], ms_now = 0\<rparr>"

definition ms_reachable :: "ms_host \<Rightarrow> ms_db \<Rightarrow> bool" where
  "ms_reachable H = (ms_step H)\<^sup>*\<^sup>* ms_empty"

lemma ms_inv_process:
  assumes "ms_inv H s"
  shows "ms_inv H (snd (ms_processOne H conn w hook s))"
proof (cases "ms_processOne H conn w hook s")
  case (Pair r t)
  show ?thesis
  proof (cases r)
    case (Inl err)
    have "ms_executions_seq s \<le> ms_executions_seq (snd (ms_body H w hook s))"
      using ms_keeps_body by (simp add: ms_grows.keeps_def)
    with Pair Inl have "ms_executions_seq s \<le> ms_executions_seq t"
      by (auto simp: ms_processOne_def withTransaction_def ms_rollback_def split: if_splits prod.splits sum.splits)
    moreover have "ms_tables t = ms_tables s"
      using Pair Inl by (auto simp: ms_processOne_def dest: map_store.throws_leave_tables)
    ultimately have "ms_inv H t"
      by (intro ms_inv_cong [OF assms]; cases s; cases t) (simp_all add: ms_tables_def)
    with Pair show ?thesis by simp
  next
    case (Inr out)
    with Pair ms_inv_processOne [OF assms] show ?thesis by simp
  qed
qed

lemma ms_reachable_inv: "ms_reachable H s \<Longrightarrow> ms_inv H s"
  unfolding ms_reachable_def
proof (induction rule: rtranclp_induct)
  case base
  show ?case by (simp add: ms_inv_def ms_ids_def ms_rooted_def ms_empty_def)
next
  case (step s t)
  from step(2,3) show ?case
    by cases (auto intro: ms_inv_seed ms_inv_process ms_inv_cong)
qed

subsection \<open>What a map yields\<close>

text \<open>
  The ordered join: after any history, the one result of a map is the array of its body's
  outputs in the order of its source, it is there exactly when the map is done, and then the
  map has one child for each item, each of them done with a single checkpoint.
\<close>

theorem join_yields_source_order:
  assumes "ms_reachable H s" "e \<in> set (ms_executions s)" "me_kind e = MsMap" "me_status e = MsDone"
  shows "\<exists>items. js_member (me_input e) ''source'' = Some (JArr items)
    \<and> filter (\<lambda>r. mr_execution r = me_id e) (ms_results s)
        = [\<lparr>mr_execution = me_id e, mr_yields = map_result H items\<rparr>]
    \<and> map (\<lambda>c. (me_index c, me_status c)) (ms_kids s (me_id e))
        = map (\<lambda>i. (Some i, MsDone)) [0..<length items]
    \<and> (\<forall>c \<in> set (ms_kids s (me_id e)). filter (\<lambda>k. mc_execution k = me_id c) (ms_checkpoints s)
        = [\<lparr>mc_execution = me_id c, mc_step = STEP_ID, mc_output = step_output H c\<rparr>])"
proof -
  note inv = ms_reachable_inv [OF assms(1)]
  from ms_invD(3) [OF inv assms(2)] assms(3,4) obtain items mm where
    "fanned_ok H e items mm (ms_kids s (me_id e)) (ms_ress s (me_id e))"
    by (auto simp: ms_exec_ok_def map_ok_def)
  note F = this [unfolded fanned_ok_def]
  have idx: "map me_index (ms_kids s (me_id e)) = map Some [0..<length items]"
  proof -
    have "map fst (map (\<lambda>c. (me_index c, me_input c)) (ms_kids s (me_id e)))
        = map fst (map (\<lambda>(i, x). (Some i, JObj [(''item'', x)])) (enumerate 0 items))" using F by simp
    moreover have "map (\<lambda>x. Some (fst x)) (enumerate 0 items) = map Some [0..<length items]"
      by (rule nth_equalityI) (simp_all add: nth_enumerate_eq)
    ultimately show ?thesis by (simp add: comp_def case_prod_beta)
  qed
  then have "length (ms_kids s (me_id e)) = length items" by (metis length_map length_upt minus_nat.diff_0)
  with F assms(4) have full: "ms_done_count (ms_kids s (me_id e)) = length (ms_kids s (me_id e))"
    by (auto split: if_splits)
  note kid_done = kids_all_done [OF full]
  have "map (\<lambda>c. (me_index c, me_status c)) (ms_kids s (me_id e))
      = map (\<lambda>i. (i, MsDone)) (map me_index (ms_kids s (me_id e)))"
    using kid_done by simp
  also have "\<dots> = map (\<lambda>i. (Some i, MsDone)) [0..<length items]" unfolding idx by (simp add: comp_def)
  finally have status: "map (\<lambda>c. (me_index c, me_status c)) (ms_kids s (me_id e))
      = map (\<lambda>i. (Some i, MsDone)) [0..<length items]" .
  have "ms_cks s (me_id c) = [\<lparr>mc_execution = me_id c, mc_step = STEP_ID, mc_output = step_output H c\<rparr>]"
    if "c \<in> set (ms_kids s (me_id e))" for c
    using ms_invD(3) [OF inv, of c] F kid_done [OF that] that
    by (auto simp: ms_exec_ok_def step_ok_def ms_kids_def table_simps)
  with F assms(4) status show ?thesis
    by (intro exI [of _ items]) (simp add: ms_ress_def ms_cks_def sql_select_def)
qed

text \<open>A map over an empty array waits for children that it does not have.\<close>

theorem empty_map_is_parked:
  assumes "ms_reachable H s" "e \<in> set (ms_executions s)" "me_kind e = MsMap"
    and "js_member (me_input e) ''source'' = Some (JArr [])"
  shows "me_status e \<in> {MsQueued, MsAwaiting} \<and> filter (\<lambda>r. mr_execution r = me_id e) (ms_results s) = []"
proof -
  from ms_invD(3) [OF ms_reachable_inv [OF assms(1)] assms(2)] assms(3,4) show ?thesis
    by (auto simp: ms_exec_ok_def map_ok_def fanned_ok_def ms_ress_def sql_select_def)
qed

subsection \<open>A map that cannot fan out\<close>

text \<open>
  A map at the head of the queue whose input has no source array throws at its fan-out and is
  rolled back to the head of the queue, and the loop counts the error as work: a worker alone
  with it never comes to an end and never reaches what is queued behind it.
\<close>

definition ms_poison :: "ms_db \<Rightarrow> ms_execution \<Rightarrow> bool" where
  "ms_poison s v \<longleftrightarrow> me_kind v = MsMap \<and> ms_rows s (me_id v) = [] \<and>
     (case input_member (me_input v) ''source'' of Inr (Some (JArr _)) \<Rightarrow> False | _ \<Rightarrow> True)"

lemma poison_throws:
  assumes "first_row (sort_key me_id (sql_select (ms_claimable s) (ms_executions s))) = Some v" "ms_poison s v"
  shows "\<exists>err. ms_processOne H Healthy w (Inr ()) s = (Inl err, s)"
proof -
  have claim: "ms_claim_execution w 30 s = (Inr (Some (ms_claimed w 30 (ms_now s) v)), ms_held w v s)"
    using assms(1) by (simp add: ms_claim_execution_def ms_held_def)
  have rows: "sql_select (\<lambda>m. mm_execution m = me_id v) (ms_map_rows (ms_held w v s)) = []"
    using assms(2) by (simp add: ms_poison_def ms_rows_def)
  have "\<exists>err. fanOut H (ms_claimed w 30 (ms_now s) v) (ms_held w v s) = (Inl err, ms_held w v s)"
    using assms(2) by (auto simp: fanOut_def tx_simps ms_poison_def ms_source_def input_member_def
        split: option.splits json.splits if_splits)
  then obtain err where "fanOut H (ms_claimed w 30 (ms_now s) v) (ms_held w v s) = (Inl err, ms_held w v s)" by auto
  with claim rows assms(2) have "ms_body H w (Inr ()) s = (Inl err, ms_held w v s)"
    by (simp add: ms_body_def tx_simps ms_poison_def)
  moreover have "ms_rollback s (ms_held w v s) = s" by (cases s) (simp add: ms_rollback_def)
  ultimately have "ms_processOne H Healthy w (Inr ()) s = (Inl err, s)"
    by (auto simp: ms_processOne_def map_store.healthy_throws)
  then show ?thesis by blast
qed

lemma loop_past_poison:
  assumes "ms_workerLoop H around w maxIdle n idle events s = Some result"
  shows "around = (\<lambda>_. (Healthy, id)) \<longrightarrow>
    first_row (sort_key me_id (sql_select (ms_claimable s) (ms_executions s))) = Some v \<and> ms_poison s v \<longrightarrow> maxIdle \<le> idle"
  using assms
proof (induction rule: ms_workerLoop.raw_induct [rotated 1, consumes 1])
  case (1 loop H around w maxIdle n idle events s result)
  show ?case
  proof (intro impI)
    assume quiet: "around = (\<lambda>_. (Healthy, id))"
      and head: "first_row (sort_key me_id (sql_select (ms_claimable s) (ms_executions s))) = Some v \<and> ms_poison s v"
    obtain err where "ms_processOne H Healthy w (Inr ()) s = (Inl err, s)"
      using poison_throws head by blast
    with 1 quiet head show "maxIdle \<le> idle" by (fastforce split: if_splits)
  qed
qed

theorem poison_map_holds_the_worker:
  assumes "first_row (sort_key me_id (sql_select (ms_claimable s) (ms_executions s))) = Some v" "ms_poison s v"
    and "0 < maxIdle"
  shows "ms_workerLoop H (\<lambda>_. (Healthy, id)) w maxIdle 0 0 [] s = None"
  using loop_past_poison [of H "\<lambda>_. (Healthy, id)" w maxIdle 0 0 "[]" s _ v] assms
  by (cases "ms_workerLoop H (\<lambda>_. (Healthy, id)) w maxIdle 0 0 [] s") auto

end
