(* ===== verification/Spec2Isabelle.thy ===== *)
theory Spec2Isabelle
  imports Run_Properties Session_Log Worker_Liveness Compile_Properties Dispatch_Properties Row_Mapping Archived_Resolver
    Ir_Properties Archived_Registry Worker_Startup Wake_Listener Error_Catalogue
    Durable_Spike_Properties Map_Spike_Properties
begin

text \<open>
  A model of the workflow platform under \<open>src/\<close>: authors write a workflow document, the compiler
  checks it against a schema, the reference rules and a registry of services, the engine turns it
  into executions in a Postgres schema, and workers claim executions, dispatch them to an agent
  next to the service and complete or fail them. Beside that sit the session log and the
  scheduler's placement of materialised data.

  How the code is modelled. Each repository method and each handler is a function on the state of
  the database that returns an error or a value and the new state (\<open>Prelude.tx\<close>), composed as the
  code composes them. A table is the list of its rows. An error keeps the state at the throw;
  \<open>Transactions.withTransaction\<close> puts the tables back, and leaves the id sequences as they are. A
  call outside a transaction commits statement by statement. Concurrency is the interleaving of
  committed transactions (\<open>Run_Invariant.engine_step\<close>, the commands of \<open>Registry_Properties\<close>, the
  parameter \<open>wo_others\<close> of the worker's world), with the row locks of \<open>SKIP LOCKED\<close> as a set of
  locked ids.

  The theories, in the order of the program:

  \<^item> \<open>Prelude\<close>, \<open>Json_Value\<close>, \<open>Platform_Errors\<close>: the transaction combinators with a locale for
    relations that every statement keeps (\<open>tx_frame\<close>), SQL statements over lists of rows, JSON
    values and \<open>JSON.stringify\<close>, and the errors of \<open>shared/errors.ts\<close>. \<open>Error_Catalogue\<close> holds their texts.
  \<^item> \<open>Workflow_Spec\<close>, \<open>Node_Walk\<close>, \<open>Spec_Schema\<close>: the grammar of \<open>workflow-spec/domain/\<close>, the
    traversal of \<open>dsl-compiler/node-walk.ts\<close> as a fold over a flat list of visits, and the JSON
    schema read as a parser, which lets through exactly the well-formed plans (C29).
  \<^item> \<open>Semantic_Validation\<close>, \<open>Compile\<close>, \<open>Compile_Properties\<close>: the compiler. C30 describes its
    reference errors, C27 what compiles at all, C28 what a compiled step can rely on in the
    registry; the cache of lookups changes nothing.
  \<^item> \<open>Trust_Tier\<close>, \<open>Registry_Types\<close>, \<open>Registry_Validate\<close>, \<open>Registry_Store\<close>, \<open>Registry_Properties\<close>: the
    service registry. C31 to C33: what is accepted, that it reads back, how trust is earned; and
    that the two read paths agree. \<open>Archived_Registry\<close> is the JavaScript prototype it replaced, and
    C34 the simulation between the two.
  \<^item> \<open>Core_Db\<close>, \<open>Core_Laws\<close>, \<open>Core_Claims\<close>: the tables of \<open>core/database/schema.sql\<close> and their
    repositories, the invariant of keys and foreign keys, and the two SQL functions \<open>claim_execution\<close>
    and \<open>signal_wait\<close> (C9 to C11).
  \<^item> \<open>Row_Mapping\<close>: the rows that the driver returns and their mapping to domain records, with the
    rounding of 64-bit integers to doubles (C39, and C40 for how far a mapped record can be off).
  \<^item> \<open>Interpreter\<close>, \<open>Run_Lifecycle\<close>, \<open>Run_Invariant\<close>, \<open>Samples\<close>, \<open>Run_Properties\<close>: \<open>engine/\<close>. The step
    relation of the engine, its invariant by rule induction over reachable databases, and what
    follows for a run: no dispatch before its dependencies, progress, completion exactly when all
    outputs are there, kept history, results (C1 to C8).
  \<^item> \<open>Transactions\<close>, \<open>Agent_Client\<close>, \<open>Dispatch\<close>, \<open>Dispatch_Properties\<close>, \<open>Worker_Loop\<close>,
    \<open>Worker_Properties\<close>, \<open>Worker_Liveness\<close>: the transaction wrapper and its contract (locale \<open>atomic_store\<close>, interpreted
    for every schema), the worker's request to the agent (C17 to C19), one cycle of a worker as
    its outcome on the database, and the loop (C20 to C23), which finishes every run of a quiet
    world (C26). \<open>Worker_Startup\<close>: the environment of a worker, with \<open>zod\<close> as a
    parameter, and the process around the loop, from the parse of its environment when the modules
    are loaded to its exit code, with the configured interval handed to the loop's sleeps
    (C24, C25). \<open>Wake_Listener\<close>: the \<open>LISTEN\<close> connection and whom a signal reaches.
  \<^item> \<open>Session_Log\<close>: \<open>session/\<close> refines a map from sessions to histories with a cursor (C12).
  \<^item> \<open>Placement\<close>: \<open>scheduler/\<close>: access recording, promotion, demotion and eviction (C13 to C16).
    \<open>Archived_Resolver\<close> is the JavaScript prototype it replaced, with a simulation between the two
    (C15).
  \<^item> \<open>Ir_Bindings\<close>, \<open>Ir_Interpreter\<close>: the prototype interpreter of
    \<open>archive/spikes/1.5-ir-interpreter\<close>, with branches and maps, over its own tables. \<open>Ir_Invariant\<close>
    states the reference interpreter and the invariant (each node with its children, counters,
    checkpoints and output is a family that fits one evaluation), \<open>Ir_Steps\<close> and \<open>Ir_Handlers\<close> show
    that recording an output and every handler keep it and make progress, \<open>Ir_Reachable\<close> lifts this
    to transactions, and \<open>Ir_Properties\<close> to histories: C35 that the outputs of a run are the
    reference's, C36 that a map over an empty array hangs, C37 that a lone worker's loop
    returns.
  \<^item> \<open>Durable_Spike\<close>, \<open>Durable_Spike_Properties\<close>: the prototype of the durable core in
    \<open>archive/spikes/1.2-resonate-pg-durable-exec\<close>, one transaction over checkpoints, session log,
    pointer and placement; C38 that they never disagree.
  \<^item> \<open>Map_Spike\<close>, \<open>Map_Spike_Invariant\<close>, \<open>Map_Spike_Steps\<close>, \<open>Map_Spike_Properties\<close>: the prototype of
    the fan-out in \<open>archive/spikes/1.8-map-foreach\<close>: its invariant, that every transaction keeps it,
    and that a join yields the outputs in the order of the source.

  Bounds. The worker's loop is a partial function: C25 shows that it returns once a signal
  has come, whatever the agent and the other clients (which keep the database reachable) do before. The prototype's loop is one too:
  C37 shows that it returns, by the pair of nodes not fanned out and rows not done, which every
  poll that claims something decreases. The loop of the map spike is a third, and does not return
  behind a map without a source (\<open>poison_map_holds_the_worker\<close>). Everything else terminates. No fuel is used.

  What stands outside. Third-party code is a parameter: the YAML parser, \<open>ajv\<close> and \<open>zod\<close>
  (assumed to follow their schemas where that matters, and shown satisfiable by validators that do), \<open>fetch\<close> and the
  agent behind it, the text of a number, the identity of objects, and the registry of functions of
  the prototype interpreter. Numbers of documents are rationals rather than doubles;
  ids are the integers they denote, which C39 justifies up to \<open>2 ^ 53\<close>. Objects are lists in
  enumeration order, so the names inherited from \<open>Object.prototype\<close>, the reordering of integer-like
  keys and of JSONB, and the refusal of NUL characters by Postgres are not modelled. Strings are
  lists of 8-bit characters compared by code rather than by a collation. Log calls are left out,
  except for an argument that can itself throw. A \<open>COMMIT\<close> fails or succeeds; a connection lost
  while it runs is counted as a failure. The database's \<open>now()\<close> and the process's \<open>Date.now()\<close> are two
  clocks; a statement that needs them to agree says how far.

  Not modelled: the connection pool and the logger (one call each of \<open>pg\<close> and \<open>pino\<close>), the handlers
  of connection errors that only log, a second signal of the same kind (its handler runs once, so it
  kills the process), what the driver makes of an array that the archived registry passes as its
  \<open>openapiSpec\<close>, the Go agent, the seeds, monitors and test scripts of the
  spikes under \<open>archive/spikes/\<close>, and the schema document under \<open>archive/dsl/\<close>.
\<close>

end
